(* ===== verification/Prelude.thy ===== *)
theory Prelude
  imports "HOL-Library.Word"
begin

text \<open>
  Shared vocabulary of the development: the machine integers of the C++ sources,
  the byte image of an integer in memory on the little-endian targets of the
  program, spans (\<^verbatim>\<open>score::cpp::span\<close>) as slices of a byte list, copying into a
  span, and the interface of a fixed-width encoding as a locale.
\<close>

named_theorems mem_simps \<open>reading back what was copied into a buffer\<close>
named_theorems model_defs \<open>definitions a component proof unfolds\<close>

type_synonym byte = "8 word"
type_synonym u8 = "8 word"
type_synonym u16 = "16 word"
type_synonym u32 = "32 word"
type_synonym u64 = "64 word"
type_synonym bytes = "byte list"

section \<open>Integers in memory\<close>

lemma unat_bound: "unat (w :: 'a :: len word) < 2 ^ LENGTH('a)"
  by (rule unsigned_less)

lemma unat_word_of_nat: "n < 2 ^ LENGTH('a) \<Longrightarrow> unat (word_of_nat n :: 'a :: len word) = n"
  by (simp add: unsigned_of_nat take_bit_nat_eq_self)

lemma unat_eq_iff_word: "r = w \<longleftrightarrow> unat r = unat (w :: 'a :: len word)"
  by (simp add: word_eq_iff_unsigned)

text \<open>
  The byte image of a number of \<open>n\<close> bytes, least significant byte first, and its
  reading.
\<close>

primrec le_image :: "nat \<Rightarrow> nat \<Rightarrow> bytes" where
  "le_image 0 x = []"
| "le_image (Suc n) x = word_of_nat (x mod 256) # le_image n (x div 256)"

primrec le_value :: "bytes \<Rightarrow> nat" where
  "le_value [] = 0"
| "le_value (b # bs) = unat b + 256 * le_value bs"

lemma length_le_image [simp]: "length (le_image n x) = n"
  by (induction n arbitrary: x) simp_all

lemma le_value_le_image [simp]: "le_value (le_image n x) = x mod 256 ^ n"
proof (induction n arbitrary: x)
  case (Suc n)
  have "x mod (256 * 256 ^ n) = x mod 256 + 256 * (x div 256 mod 256 ^ n)"
    by (simp add: mod_mult2_eq)
  with Suc show ?case
    by (simp add: unat_of_nat take_bit_eq_mod)
qed simp

lemma le_image_le_value [simp]: "le_image (length bs) (le_value bs) = bs"
proof (induction bs)
  case (Cons b bs)
  have "unat b < 256" using unat_bound [of b] by simp
  with Cons show ?case by simp
qed simp

lemma le_value_bound: "le_value bs < 256 ^ length bs"
proof (induction bs)
  case (Cons b bs)
  have "unat b < 256" using unat_bound [of b] by simp
  with Cons show ?case by simp
qed simp

definition le64 :: "u64 \<Rightarrow> bytes" where "le64 w = le_image 8 (unat w)"
definition le32 :: "u32 \<Rightarrow> bytes" where "le32 w = le_image 4 (unat w)"
definition le16 :: "u16 \<Rightarrow> bytes" where "le16 w = le_image 2 (unat w)"

definition from_le64 :: "bytes \<Rightarrow> u64" where "from_le64 bs = word_of_nat (le_value bs)"
definition from_le32 :: "bytes \<Rightarrow> u32" where "from_le32 bs = word_of_nat (le_value bs)"
definition from_le16 :: "bytes \<Rightarrow> u16" where "from_le16 bs = word_of_nat (le_value bs)"

lemma length_le64 [simp]: "length (le64 w) = 8" by (simp add: le64_def)
lemma length_le32 [simp]: "length (le32 w) = 4" by (simp add: le32_def)
lemma length_le16 [simp]: "length (le16 w) = 2" by (simp add: le16_def)

lemma le_value_le64 [simp]: "le_value (le64 w) = unat w"
  using unat_bound [of w] by (simp add: le64_def)

lemma le_value_le32 [simp]: "le_value (le32 w) = unat w"
  using unat_bound [of w] by (simp add: le32_def)
lemma le_value_le16 [simp]: "le_value (le16 w) = unat w"
  using unat_bound [of w] by (simp add: le16_def)

lemma from_le64_le64 [simp]: "from_le64 (le64 w) = w"
  using unat_bound [of w] by (simp add: from_le64_def le64_def)
lemma from_le32_le32 [simp]: "from_le32 (le32 w) = w"
  using unat_bound [of w] by (simp add: from_le32_def le32_def)
lemma from_le16_le16 [simp]: "from_le16 (le16 w) = w"
  using unat_bound [of w] by (simp add: from_le16_def le16_def)

section \<open>Spans\<close>

text \<open>
  \<open>subspan off n bs\<close> are the \<open>n\<close> bytes from offset \<open>off\<close>; \<open>put_at off src bs\<close> is the
  buffer after \<open>src\<close> has been copied to offset \<open>off\<close>. Callers establish
  \<open>off + n \<le> length bs\<close>; the theorems carry that bound.
\<close>

definition subspan :: "nat \<Rightarrow> nat \<Rightarrow> 'a list \<Rightarrow> 'a list" where
  "subspan off n bs = take n (drop off bs)"

definition put_at :: "nat \<Rightarrow> 'a list \<Rightarrow> 'a list \<Rightarrow> 'a list" where
  "put_at off src bs = take off bs @ src @ drop (off + length src) bs"

lemma length_subspan [simp]: "length (subspan off n bs) = min n (length bs - off)"
  by (simp add: subspan_def min.commute)

lemma length_put_at [simp]:
  "off + length src \<le> length bs \<Longrightarrow> length (put_at off src bs) = length bs"
  by (simp add: put_at_def)

lemma subspan_put_at_same [mem_simps]:
  "off + length src \<le> length bs \<Longrightarrow> subspan off (length src) (put_at off src bs) = src"
  by (simp add: put_at_def subspan_def)

lemma subspan_put_at_before [mem_simps]:
  assumes "a + n \<le> off" "off + length src \<le> length bs"
  shows "subspan a n (put_at off src bs) = subspan a n bs"
proof (rule nth_equalityI)
  show "length (subspan a n (put_at off src bs)) = length (subspan a n bs)"
    using assms by simp
next
  fix i assume "i < length (subspan a n (put_at off src bs))"
  with assms have "i < n" "a + i < off" "a + i < length bs" by auto
  with assms show "subspan a n (put_at off src bs) ! i = subspan a n bs ! i"
    by (simp add: subspan_def put_at_def nth_append)
qed

lemma subspan_put_at_after [mem_simps]:
  assumes "off + length src \<le> a" "off + length src \<le> length bs"
  shows "subspan a n (put_at off src bs) = subspan a n bs"
proof -
  have "drop a (put_at off src bs) = drop a bs"
    using assms by (simp add: put_at_def)
  then show ?thesis by (simp add: subspan_def)
qed

lemma put_at_append:
  "off' = off + length a \<Longrightarrow> off + length a + length b \<le> length bs \<Longrightarrow>
   put_at off' b (put_at off a bs) = put_at off (a @ b) bs"
  by (simp add: put_at_def ac_simps)

lemma subspan_subspan [simp]:
  "subspan a n (subspan off m bs) = subspan (off + a) (min n (m - a)) bs"
  by (simp add: subspan_def drop_take add.commute min.commute)

lemma subspan_full [simp]: "subspan 0 (length bs) bs = bs"
  by (simp add: subspan_def)

lemma subspan_take [simp]: "off + n \<le> k \<Longrightarrow> subspan off n (take k bs) = subspan off n bs"
  by (simp add: subspan_def drop_take min_def)

lemma subspan_append_split:
  "subspan off (n + m) bs = subspan off n bs @ subspan (off + n) m bs"
  by (simp add: subspan_def take_add add.commute [of _ off])

lemma subspan_append_left: "off + n \<le> length xs \<Longrightarrow> subspan off n (xs @ ys) = subspan off n xs"
  by (simp add: subspan_def)

lemma subspan_append_right:
  "length xs \<le> off \<Longrightarrow> subspan off n (xs @ ys) = subspan (off - length xs) n ys"
  by (simp add: subspan_def)

section \<open>Fixed-width encodings\<close>

text \<open>
  The interface every header and message of the program offers to its reader: an
  encoder of constant width and a decoder that is its left inverse. What the
  readers rely on, that an encoded value can be cut out of a longer run of bytes
  and that the encoding is injective, is proved once here.
\<close>

locale fixed_codec =
  fixes enc :: "'a \<Rightarrow> bytes"
    and dec :: "bytes \<Rightarrow> 'a"
    and width :: nat
  assumes enc_width: "length (enc x) = width"
    and dec_enc: "dec (enc x) = x"
begin

lemma dec_prefix: "dec (subspan 0 width (enc x @ rest)) = x"
  using enc_width [of x] by (simp add: subspan_def dec_enc)

lemma dec_at:
  assumes "length pre = off"
  shows "dec (subspan off width (pre @ enc x @ rest)) = x"
  using assms enc_width [of x] by (simp add: subspan_def dec_enc)

lemma enc_inject: "enc x = enc y \<longleftrightarrow> x = y"
  by (metis dec_enc)

lemma dec_put_at:
  "off + width \<le> length buf \<Longrightarrow> dec (subspan off width (put_at off (enc x) buf)) = x"
  using subspan_put_at_same [of off "enc x" buf] by (simp add: enc_width dec_enc)

end

interpretation c64: fixed_codec le64 from_le64 8
  by unfold_locales simp_all

interpretation c32: fixed_codec le32 from_le32 4
  by unfold_locales simp_all

interpretation c16: fixed_codec le16 from_le16 2
  by unfold_locales simp_all

end
