(* ===== verification/LinearBuffer.thy ===== *)
theory LinearBuffer
  imports Prelude
begin

text \<open>
  The linear buffer of \<^verbatim>\<open>score/mw/log/detail/wait_free_producer_queue\<close>: the control
  block and its helpers (\<^verbatim>\<open>linear_control_block\<close>), the writer
  (\<^verbatim>\<open>wait_free_linear_writer\<close>) and the reader (\<^verbatim>\<open>linear_reader\<close>).

  The span \<^verbatim>\<open>data\<close> of the control block is the list of the bytes it denotes. Spans
  handed out by the writer and the reader are an offset and a size in that memory.
  All indices are 64-bit words, as in the source. This theory has the operations
  run by one thread; \<open>LinearConcurrent\<close> has their interleaving.
\<close>

section \<open>Control block\<close>

definition GetLengthOffsetBytes :: u64 where "GetLengthOffsetBytes = 8"

definition GetMaxLinearBufferLengthBytes :: u64 where
  "GetMaxLinearBufferLengthBytes = 2 ^ 63 - 1"

definition GetMaxAcquireLengthBytes :: u64 where
  "GetMaxAcquireLengthBytes = 128 * 1024 * 1024"

definition GetMaxNumberOfConcurrentWriters :: u64 where
  "GetMaxNumberOfConcurrentWriters = 64"

definition GetMaxLinearBufferCapacityBytes :: u64 where
  "GetMaxLinearBufferCapacityBytes =
     - 1 - GetMaxNumberOfConcurrentWriters * (GetMaxAcquireLengthBytes + GetLengthOffsetBytes)"

lemmas linear_limits = GetLengthOffsetBytes_def GetMaxAcquireLengthBytes_def
  GetMaxNumberOfConcurrentWriters_def GetMaxLinearBufferCapacityBytes_def
  GetMaxLinearBufferLengthBytes_def

record LinearControlBlock =
  lcb_data :: bytes
  acquired_index :: u64
  written_index :: u64
  number_of_writers :: u64

definition GetDataSizeAsLength :: "bytes \<Rightarrow> u64" where
  "GetDataSizeAsLength d = word_of_nat (length d)"

definition DoBytesFitInRemainingCapacity :: "bytes \<Rightarrow> u64 \<Rightarrow> u64 \<Rightarrow> bool" where
  "DoBytesFitInRemainingCapacity buffer offset number_of_bytes =
     (let buffer_size = GetDataSizeAsLength buffer in
      if offset > buffer_size then False
      else let remaining_number_of_bytes_at_offset = buffer_size - offset in
        if number_of_bytes > remaining_number_of_bytes_at_offset then False else True)"

text \<open>
  \<^verbatim>\<open>SpanLength\<close> is a signed 64-bit type: no span is longer than \<open>2 ^ 63 - 1\<close> bytes.
\<close>

definition span_ok :: "'a list \<Rightarrow> bool" where
  "span_ok d \<longleftrightarrow> length d < 2 ^ 63"

section \<open>Writer\<close>

record AcquiredData =
  ad_offset :: u64
  ad_size :: u64

definition TerminateBuffer :: "LinearControlBlock \<Rightarrow> u64 \<Rightarrow> u64 \<Rightarrow> LinearControlBlock" where
  "TerminateBuffer cb offset length' =
     (let cb = (if DoBytesFitInRemainingCapacity (lcb_data cb) offset GetLengthOffsetBytes
                then cb\<lparr>lcb_data := put_at (unat offset) (le64 length') (lcb_data cb)\<rparr>
                else cb)
      in cb\<lparr>written_index := written_index cb + (length' + GetLengthOffsetBytes)\<rparr>)"

text \<open>
  The pre-acquire hook is a parameter of the source, called between the first check
  and the atomic addition; here it is a function on the control block it may change.
\<close>

definition CheckAndGetAcquireOffset ::
  "LinearControlBlock \<Rightarrow> u64 \<Rightarrow> u64 \<Rightarrow> (LinearControlBlock \<Rightarrow> LinearControlBlock) \<Rightarrow>
   u64 option \<times> LinearControlBlock" where
  "CheckAndGetAcquireOffset cb length' writer_concurrency pre_acquire_hook =
     (if writer_concurrency > GetMaxNumberOfConcurrentWriters then (None, cb)
      else if length' > GetMaxAcquireLengthBytes then (None, cb)
      else
        let total_acquired_length = length' + GetLengthOffsetBytes;
            old_offset = acquired_index cb
        in if old_offset \<ge> GetMaxLinearBufferCapacityBytes then (None, cb)
           else if \<not> DoBytesFitInRemainingCapacity (lcb_data cb) old_offset total_acquired_length
           then (None, cb)
           else
             let cb = pre_acquire_hook cb;
                 offset = acquired_index cb;
                 cb = cb\<lparr>acquired_index := offset + total_acquired_length\<rparr>
             in if \<not> DoBytesFitInRemainingCapacity (lcb_data cb) offset total_acquired_length
                then (None, TerminateBuffer cb offset length')
                else (Some offset, cb))"

definition LinearWriter_Acquire ::
  "(LinearControlBlock \<Rightarrow> LinearControlBlock) \<Rightarrow> LinearControlBlock \<Rightarrow> u64 \<Rightarrow>
   AcquiredData option \<times> LinearControlBlock" where
  "LinearWriter_Acquire pre_acquire_hook cb length' =
     (let cb = cb\<lparr>number_of_writers := number_of_writers cb + 1\<rparr>;
          writer_concurrency = number_of_writers cb
      in case CheckAndGetAcquireOffset cb length' writer_concurrency pre_acquire_hook of
           (None, cb) \<Rightarrow> (None, cb\<lparr>number_of_writers := number_of_writers cb - 1\<rparr>)
         | (Some offset, cb) \<Rightarrow>
             let cb = cb\<lparr>lcb_data := put_at (unat offset) (le64 length') (lcb_data cb)\<rparr>;
                 payload_offset = offset + GetLengthOffsetBytes
             in (Some \<lparr>ad_offset = payload_offset, ad_size = length'\<rparr>, cb))"

definition LinearWriter_Release :: "AcquiredData \<Rightarrow> LinearControlBlock \<Rightarrow> LinearControlBlock" where
  "LinearWriter_Release acquired_data cb =
     (let cb = cb\<lparr>written_index := written_index cb + (ad_size acquired_data + GetLengthOffsetBytes)\<rparr>
      in cb\<lparr>number_of_writers := number_of_writers cb - 1\<rparr>)"

text \<open>What a client does with an acquired span: copy bytes to its beginning.\<close>

definition write_acquired :: "AcquiredData \<Rightarrow> bytes \<Rightarrow> LinearControlBlock \<Rightarrow> LinearControlBlock" where
  "write_acquired acquired_data src cb =
     cb\<lparr>lcb_data := put_at (unat (ad_offset acquired_data)) src (lcb_data cb)\<rparr>"

section \<open>Reader\<close>

text \<open>The reader's span \<^verbatim>\<open>data_\<close> starts at the beginning of the buffer; \<open>lr_size\<close> is its size.\<close>

record LinearReader =
  lr_size :: u64
  read_index :: u64

definition reader_data :: "bytes \<Rightarrow> LinearReader \<Rightarrow> bytes" where
  "reader_data mem r = take (unat (lr_size r)) mem"

definition LinearReader_Read :: "bytes \<Rightarrow> LinearReader \<Rightarrow> (u64 \<times> u64) option \<times> LinearReader" where
  "LinearReader_Read mem r =
     (let data' = reader_data mem r; offset = read_index r in
      if \<not> DoBytesFitInRemainingCapacity data' offset GetLengthOffsetBytes then (None, r)
      else
        let length' = from_le64 (subspan (unat offset) (unat GetLengthOffsetBytes) data') in
        if length' > GetMaxAcquireLengthBytes
        then (None, r\<lparr>read_index := GetDataSizeAsLength data'\<rparr>)
        else
          let r = r\<lparr>read_index := read_index r + (length' + GetLengthOffsetBytes)\<rparr> in
          if \<not> DoBytesFitInRemainingCapacity data' offset (GetLengthOffsetBytes + length')
          then (None, r)
          else (Some (offset + GetLengthOffsetBytes, length'), r))"

definition LinearReader_GetSizeOfWholeDataBuffer :: "bytes \<Rightarrow> LinearReader \<Rightarrow> u64" where
  "LinearReader_GetSizeOfWholeDataBuffer mem r = GetDataSizeAsLength (reader_data mem r)"

definition CreateLinearReaderFromDataAndLength :: "bytes \<Rightarrow> u64 \<Rightarrow> LinearReader" where
  "CreateLinearReaderFromDataAndLength mem number_of_bytes_written =
     (let data_length = GetDataSizeAsLength mem;
          number_of_bytes_to_read = min number_of_bytes_written data_length
      in \<lparr>lr_size = number_of_bytes_to_read, read_index = 0\<rparr>)"

definition CreateLinearReaderFromControlBlock :: "LinearControlBlock \<Rightarrow> LinearReader" where
  "CreateLinearReaderFromControlBlock cb =
     CreateLinearReaderFromDataAndLength (lcb_data cb) (written_index cb)"

section \<open>Arithmetic of the bounds check\<close>

lemma limit_values [simp]:
  "unat GetLengthOffsetBytes = 8" "unat GetMaxAcquireLengthBytes = 2 ^ 27"
  "unat GetMaxNumberOfConcurrentWriters = 64"
  "unat GetMaxLinearBufferCapacityBytes = 2 ^ 64 - 1 - 64 * (2 ^ 27 + 8)"
  by (simp_all add: linear_limits)

lemma fits_iff_size:
  "DoBytesFitInRemainingCapacity buf off n \<longleftrightarrow> unat off + unat n \<le> unat (GetDataSizeAsLength buf)"
proof -
  let ?s = "GetDataSizeAsLength buf"
  have "unat (?s - off) = unat ?s - unat off" if "\<not> off > ?s"
    using that by (simp add: unat_sub not_less)
  then show ?thesis
    by (auto simp: DoBytesFitInRemainingCapacity_def Let_def word_less_nat_alt)
qed

lemma unat_data_size [simp]: "span_ok d \<Longrightarrow> unat (GetDataSizeAsLength d) = length d"
  by (simp add: GetDataSizeAsLength_def span_ok_def unat_word_of_nat)

lemma fits_iff:
  "span_ok buf \<Longrightarrow> DoBytesFitInRemainingCapacity buf off n \<longleftrightarrow> unat off + unat n \<le> length buf"
  by (simp add: fits_iff_size)

lemma unat_add_bound: "unat a + unat b < 2 ^ 64 \<Longrightarrow> unat ((a :: u64) + b) = unat a + unat b"
  by (simp add: unat_word_ariths)

lemma unat_total:
  assumes "unat n \<le> 2 ^ 27"
  shows "unat (n + GetLengthOffsetBytes) = unat n + 8" "unat (GetLengthOffsetBytes + n) = unat n + 8"
  using assms unat_add_bound [of n GetLengthOffsetBytes] by (simp_all add: add.commute)

lemma span_ok_simps [simp]:
  "span_ok d \<Longrightarrow> span_ok (take n d)"
  "span_ok d \<Longrightarrow> off + length src \<le> length d \<Longrightarrow> span_ok (put_at off src d)"
  by (simp_all add: span_ok_def)

section \<open>What the reader returns\<close>

lemma Read_Some_advances:
  assumes "LinearReader_Read mem r = (Some (off, n), r')"
  shows "lr_size r' = lr_size r" "off = read_index r + GetLengthOffsetBytes" "unat n \<le> 2 ^ 27"
    "unat (read_index r') = unat (read_index r) + 8 + unat n"
    "unat (read_index r') \<le> unat (GetDataSizeAsLength (reader_data mem r))"
proof -
  have le: "unat n \<le> 2 ^ 27" "off = read_index r + GetLengthOffsetBytes" "lr_size r' = lr_size r"
    "read_index r' = read_index r + (n + GetLengthOffsetBytes)"
    and fit: "DoBytesFitInRemainingCapacity (reader_data mem r) (read_index r) (GetLengthOffsetBytes + n)"
    using assms by (auto simp: LinearReader_Read_def Let_def word_le_nat_alt not_less split: if_splits)
  have "unat (read_index r) + (unat n + 8) \<le> unat (GetDataSizeAsLength (reader_data mem r))"
    using fit le(1) by (simp add: fits_iff_size unat_total)
  moreover from this have "unat (read_index r) + unat (n + GetLengthOffsetBytes) < 2 ^ 64"
    using unat_bound [of "GetDataSizeAsLength (reader_data mem r)"] le(1) by (simp add: unat_total)
  ultimately show "unat (read_index r') = unat (read_index r) + 8 + unat n"
    "unat (read_index r') \<le> unat (GetDataSizeAsLength (reader_data mem r))"
    using le(1,4) by (simp_all add: unat_add_bound unat_total)
qed (use assms in \<open>auto simp: LinearReader_Read_def Let_def word_le_nat_alt not_less split: if_splits\<close>)

definition unread :: "bytes \<Rightarrow> LinearReader \<Rightarrow> nat" where
  "unread mem r = unat (GetDataSizeAsLength (reader_data mem r)) - unat (read_index r)"

lemma Read_progress:
  assumes "(Some x, r') = LinearReader_Read mem r"
  shows "unread mem r' < unread mem r"
proof -
  have "LinearReader_Read mem r = (Some (fst x, snd x), r')" using assms by simp
  from Read_Some_advances [OF this] show ?thesis by (simp add: unread_def reader_data_def)
qed

text \<open>Reading until the reader returns nothing: the payloads in the order of the buffer.\<close>

function ReadAll :: "bytes \<Rightarrow> LinearReader \<Rightarrow> bytes list" where
  "ReadAll mem r =
     (case LinearReader_Read mem r of
        (None, _) \<Rightarrow> []
      | (Some (off, n), r') \<Rightarrow> subspan (unat off) (unat n) mem # ReadAll mem r')"
  by pat_completeness auto
termination by (relation "measure (\<lambda>(mem, r). unread mem r)") (auto dest!: Read_progress)

declare ReadAll.simps [simp del]

text \<open>The bytes of a log: each record behind its length.\<close>

definition entry :: "bytes \<Rightarrow> bytes" where
  "entry p = le64 (word_of_nat (length p)) @ p"

definition layout :: "bytes list \<Rightarrow> bytes" where
  "layout ps = concat (map entry ps)"

definition small :: "bytes \<Rightarrow> bool" where
  "small p \<longleftrightarrow> length p \<le> 2 ^ 27"

lemma layout_simps [simp]:
  "layout [] = []" "layout (p # ps) = entry p @ layout ps" "layout (ps @ qs) = layout ps @ layout qs"
  "length (entry p) = 8 + length p"
  by (simp_all add: layout_def entry_def)

lemma unat_length_small: "small p \<Longrightarrow> unat (word_of_nat (length p) :: u64) = length p"
  by (simp add: small_def unat_word_of_nat)

text \<open>
  Where a log ends for the reader: no room for a length, a length above the limit, or
  a length whose payload does not fit (the mark of a failed acquisition).
\<close>

definition log_stops :: "bytes \<Rightarrow> nat \<Rightarrow> bool" where
  "log_stops d o' \<longleftrightarrow> length d < o' + 8 \<or> 2 ^ 27 < le_value (subspan o' 8 d)
     \<or> length d < o' + 8 + le_value (subspan o' 8 d)"

lemma unat_from_le64: "length bs = 8 \<Longrightarrow> unat (from_le64 bs) = le_value bs"
  using le_value_bound [of bs] by (simp add: from_le64_def unat_word_of_nat)

lemma Read_None_iff:
  assumes "span_ok mem"
  shows "fst (LinearReader_Read mem r) = None \<longleftrightarrow> log_stops (reader_data mem r) (unat (read_index r))"
proof -
  let ?d = "reader_data mem r" and ?o = "unat (read_index r)"
  have ok: "span_ok ?d" using assms by (simp add: reader_data_def)
  have "unat (from_le64 (subspan ?o 8 ?d)) = le_value (subspan ?o 8 ?d)" if "?o + 8 \<le> length ?d"
    using that by (simp add: unat_from_le64)
  then show ?thesis
    using ok by (auto simp: LinearReader_Read_def Let_def fits_iff log_stops_def word_less_nat_alt
        unat_total not_less not_le)
qed

lemma Read_entry:
  assumes "span_ok mem" "unat (lr_size r) \<le> length mem" "small p"
    and at: "subspan (unat (read_index r)) (8 + length p) (reader_data mem r) = entry p"
  shows "LinearReader_Read mem r =
    (Some (read_index r + GetLengthOffsetBytes, word_of_nat (length p)),
     r\<lparr>read_index := read_index r + (word_of_nat (length p) + GetLengthOffsetBytes)\<rparr>)"
proof -
  let ?d = "reader_data mem r" and ?o = "unat (read_index r)"
  have ok: "span_ok ?d" using assms by (simp add: reader_data_def)
  have "length (subspan ?o (8 + length p) ?d) = 8 + length p"
    using at by simp
  then have room: "?o + (8 + length p) \<le> length ?d"
    by (simp add: min_def split: if_splits)
  have "subspan ?o 8 ?d = subspan 0 8 (subspan ?o (8 + length p) ?d)" by simp
  also have "\<dots> = le64 (word_of_nat (length p))"
    by (simp add: at entry_def subspan_append_left) (simp add: subspan_def)
  finally have "from_le64 (subspan ?o 8 ?d) = word_of_nat (length p)" by simp
  with room ok show ?thesis
    using assms(3) by (simp add: LinearReader_Read_def Let_def fits_iff unat_length_small
        unat_total word_less_nat_alt small_def add.commute)
qed

lemma ReadAll_layout_from:
  assumes "span_ok mem" "unat (lr_size r) \<le> length mem" "list_all small ps"
    and "subspan (unat (read_index r)) (length (layout ps)) (reader_data mem r) = layout ps"
    and "log_stops (reader_data mem r) (unat (read_index r) + length (layout ps))"
  shows "ReadAll mem r = ps"
  using assms
proof (induction ps arbitrary: r)
  case Nil
  then have "fst (LinearReader_Read mem r) = None" by (simp add: Read_None_iff)
  then show ?case by (auto simp: ReadAll.simps split: prod.splits)
next
  case (Cons p ps)
  let ?d = "reader_data mem r" and ?o = "unat (read_index r)"
  let ?r = "r\<lparr>read_index := read_index r + (word_of_nat (length p) + GetLengthOffsetBytes)\<rparr>"
  have whole: "subspan ?o (8 + length p) ?d @ subspan (?o + (8 + length p)) (length (layout ps)) ?d
      = entry p @ layout ps"
    using Cons.prems(4) by (simp add: subspan_append_split [symmetric] add.assoc)
  have "length (subspan ?o (8 + length p + length (layout ps)) ?d) = 8 + length p + length (layout ps)"
    using Cons.prems(4) by simp
  then have room: "?o + (8 + length p) + length (layout ps) \<le> length ?d"
    by (simp add: min_def split: if_splits)
  with whole have first: "subspan ?o (8 + length p) ?d = entry p"
    and rest: "subspan (?o + (8 + length p)) (length (layout ps)) ?d = layout ps"
    by (auto simp: append_eq_append_conv)
  have small: "small p" using Cons.prems(3) by simp
  note read = Read_entry [OF Cons.prems(1,2) small first]
  have idx: "unat (read_index ?r) = ?o + (8 + length p)"
    using Read_Some_advances(4) [OF read] by (simp add: unat_length_small small)
  have tail: "ReadAll mem ?r = ps"
  proof (rule Cons.IH)
    show "subspan (unat (read_index ?r)) (length (layout ps)) (reader_data mem ?r) = layout ps"
      using rest idx by (simp add: reader_data_def)
    show "log_stops (reader_data mem ?r) (unat (read_index ?r) + length (layout ps))"
      using Cons.prems(5) idx by (simp add: reader_data_def add.assoc)
  qed (use Cons.prems in simp_all)
  have "length ?d \<le> length mem" by (simp add: reader_data_def)
  then have "unat (read_index r + GetLengthOffsetBytes) = ?o + 8"
    using Cons.prems(1) room unat_add_bound [of "read_index r" GetLengthOffsetBytes]
    by (simp add: span_ok_def)
  moreover have "subspan (?o + 8) (length p) mem = p"
  proof -
    have "subspan (?o + 8) (length p) mem = subspan 8 (length p) (subspan ?o (8 + length p) ?d)"
      using room by (simp add: reader_data_def)
    also have "\<dots> = p"
      using first by (simp add: entry_def subspan_append_right del: subspan_subspan)
    finally show ?thesis .
  qed
  ultimately show ?case
    using tail small by (subst ReadAll.simps) (simp add: read unat_length_small)
qed

text \<open>
  The reader of a block returns exactly the records of the log that lies in front of
  the point where the written bytes, or the buffer, or the fitting entries end.
\<close>

lemma ReadAll_block:
  assumes "span_ok (lcb_data cb)" "list_all small ps"
    and "length (layout ps) \<le> min (unat (written_index cb)) (length (lcb_data cb))"
    and "take (length (layout ps)) (lcb_data cb) = layout ps"
    and "log_stops (take (unat (written_index cb)) (lcb_data cb)) (length (layout ps))"
  shows "ReadAll (lcb_data cb) (CreateLinearReaderFromControlBlock cb) = ps"
proof -
  let ?r = "CreateLinearReaderFromControlBlock cb"
  have size: "unat (lr_size ?r) = min (unat (written_index cb)) (length (lcb_data cb))"
    using assms(1) by (simp add: CreateLinearReaderFromControlBlock_def
        CreateLinearReaderFromDataAndLength_def Let_def min_def word_le_nat_alt)
  then have d: "reader_data (lcb_data cb) ?r = take (unat (written_index cb)) (lcb_data cb)"
    by (simp add: reader_data_def min_def)
  have idx: "read_index ?r = 0"
    by (simp add: CreateLinearReaderFromControlBlock_def CreateLinearReaderFromDataAndLength_def Let_def)
  have "subspan 0 (length (layout ps)) (take (unat (written_index cb)) (lcb_data cb)) = layout ps"
    using assms(3,4) by (simp add: subspan_def min_absorb1)
  with assms(1,2,5) show ?thesis
    by (intro ReadAll_layout_from) (simp_all add: size d idx)
qed

section \<open>One writer: a record log\<close>

text \<open>
  The interface the layers above use: a store of byte records, an operation that
  appends one record or refuses it, and the law that a successful append is seen by
  the reader at the end of what it already sees.
\<close>

locale record_log =
  fixes append :: "'b \<Rightarrow> bytes \<Rightarrow> 'b option"
    and contents :: "'b \<Rightarrow> bytes list"
    and invar :: "'b \<Rightarrow> bool"
    and room :: "'b \<Rightarrow> nat"
    and limit :: nat
    and overhead :: nat
  assumes append_ok: "invar b \<Longrightarrow> length p \<le> limit \<Longrightarrow> length p + overhead \<le> room b \<Longrightarrow>
      \<exists>b'. append b p = Some b' \<and> invar b' \<and> contents b' = contents b @ [p]
        \<and> room b' = room b - (length p + overhead)"
    and append_refused: "invar b \<Longrightarrow> span_ok p \<Longrightarrow> limit < length p \<or> room b < length p + overhead \<Longrightarrow>
      append b p = None"
begin

primrec append_all :: "'b \<Rightarrow> bytes list \<Rightarrow> 'b option" where
  "append_all b [] = Some b"
| "append_all b (p # ps) = (case append b p of None \<Rightarrow> None | Some b' \<Rightarrow> append_all b' ps)"

lemma append_all_ok:
  "invar b \<Longrightarrow> list_all (\<lambda>p. length p \<le> limit) ps \<Longrightarrow>
   sum_list (map (\<lambda>p. length p + overhead) ps) \<le> room b \<Longrightarrow>
   \<exists>b'. append_all b ps = Some b' \<and> invar b' \<and> contents b' = contents b @ ps"
proof (induction ps arbitrary: b)
  case (Cons p ps)
  then obtain b' where b': "append b p = Some b'" "invar b'" "contents b' = contents b @ [p]"
      "room b' = room b - (length p + overhead)"
    using append_ok [of b p] by auto
  with Cons.prems have "sum_list (map (\<lambda>p. length p + overhead) ps) \<le> room b'" by simp
  with Cons.IH [of b'] Cons.prems b' show ?case by auto
qed auto

lemma append_iff:
  "invar b \<Longrightarrow> span_ok p \<Longrightarrow> append b p \<noteq> None \<longleftrightarrow> length p \<le> limit \<and> length p + overhead \<le> room b"
  using append_ok [of b p] append_refused [of b p]
  by (cases "length p \<le> limit \<and> length p + overhead \<le> room b") (auto simp: not_le)

end

definition append_record :: "LinearControlBlock \<Rightarrow> bytes \<Rightarrow> LinearControlBlock option" where
  "append_record cb p =
     (case LinearWriter_Acquire id cb (word_of_nat (length p)) of
        (None, _) \<Rightarrow> None
      | (Some ad, cb) \<Rightarrow> Some (LinearWriter_Release ad (write_acquired ad p cb)))"

definition block_contents :: "LinearControlBlock \<Rightarrow> bytes list" where
  "block_contents cb = ReadAll (lcb_data cb) (CreateLinearReaderFromControlBlock cb)"

definition holds_log :: "LinearControlBlock \<Rightarrow> bytes list \<Rightarrow> bool" where
  "holds_log cb ps \<longleftrightarrow> span_ok (lcb_data cb) \<and> list_all small ps
     \<and> acquired_index cb = written_index cb \<and> unat (written_index cb) = length (layout ps)
     \<and> length (layout ps) \<le> length (lcb_data cb)
     \<and> take (length (layout ps)) (lcb_data cb) = layout ps"

definition block_idle :: "LinearControlBlock \<Rightarrow> bool" where
  "block_idle cb \<longleftrightarrow> (\<exists>ps. holds_log cb ps) \<and> number_of_writers cb < GetMaxNumberOfConcurrentWriters"

definition block_room :: "LinearControlBlock \<Rightarrow> nat" where
  "block_room cb = length (lcb_data cb) - unat (acquired_index cb)"

lemma holds_log_contents: "holds_log cb ps \<Longrightarrow> block_contents cb = ps"
  unfolding block_contents_def
  by (rule ReadAll_block) (auto simp: holds_log_def log_stops_def)

text \<open>An acquisition with nobody in between: either the offset that was free, or a refusal.\<close>

lemma Acquire_ok:
  assumes "span_ok (lcb_data cb)" "unat n \<le> 2 ^ 27" "number_of_writers cb < GetMaxNumberOfConcurrentWriters"
    and "unat (acquired_index cb) + 8 + unat n \<le> length (lcb_data cb)"
  shows "LinearWriter_Acquire id cb n =
    (Some \<lparr>ad_offset = acquired_index cb + GetLengthOffsetBytes, ad_size = n\<rparr>,
     cb\<lparr>lcb_data := put_at (unat (acquired_index cb)) (le64 n) (lcb_data cb),
        acquired_index := acquired_index cb + (n + GetLengthOffsetBytes),
        number_of_writers := number_of_writers cb + 1\<rparr>)"
proof -
  have "unat (number_of_writers cb) < 64"
    using assms(3) by (simp add: word_less_nat_alt)
  then have "unat (number_of_writers cb + 1) \<le> 64"
    using unat_add_bound [of "number_of_writers cb" 1] by simp
  then show ?thesis
    using assms by (simp add: LinearWriter_Acquire_def CheckAndGetAcquireOffset_def Let_def fits_iff
        unat_total word_less_nat_alt word_le_nat_alt span_ok_def)
qed

lemma Acquire_refused:
  assumes "span_ok (lcb_data cb)"
    and "2 ^ 27 < unat n \<or> length (lcb_data cb) < unat (acquired_index cb) + 8 + unat n"
  shows "LinearWriter_Acquire id cb n = (None, cb)"
  using assms
  by (auto simp: LinearWriter_Acquire_def CheckAndGetAcquireOffset_def Let_def fits_iff
      unat_total word_less_nat_alt word_le_nat_alt)

lemma append_record_eq:
  assumes "holds_log cb ps" "small p" "number_of_writers cb < GetMaxNumberOfConcurrentWriters"
    and "length p + 8 \<le> block_room cb"
  shows "append_record cb p = Some (cb\<lparr>
      lcb_data := put_at (length (layout ps)) (entry p) (lcb_data cb),
      acquired_index := word_of_nat (length (layout (ps @ [p]))),
      written_index := word_of_nat (length (layout (ps @ [p])))\<rparr>)"
proof -
  let ?n = "word_of_nat (length p) :: u64" and ?o = "length (layout ps)"
  have n: "unat ?n = length p" using assms(2) by (rule unat_length_small)
  have idx: "unat (acquired_index cb) = ?o" "acquired_index cb = written_index cb"
    using assms(1) by (simp_all add: holds_log_def)
  have room: "?o + 8 + length p \<le> length (lcb_data cb)" and ok: "span_ok (lcb_data cb)"
    using assms(1,4) idx by (auto simp: holds_log_def block_room_def)
  note acq = Acquire_ok [OF ok _ assms(3), of ?n]
  have off: "unat (acquired_index cb + GetLengthOffsetBytes) = ?o + 8"
    using idx room ok unat_add_bound [of "acquired_index cb" GetLengthOffsetBytes]
    by (simp add: span_ok_def)
  have "put_at (?o + 8) p (put_at ?o (le64 ?n) (lcb_data cb)) = put_at ?o (entry p) (lcb_data cb)"
    using room by (simp add: put_at_def entry_def min_def ac_simps)
  moreover have "acquired_index cb + (?n + GetLengthOffsetBytes) = word_of_nat (?o + (8 + length p))"
    by (simp add: idx(1) [symmetric] GetLengthOffsetBytes_def add.commute)
  ultimately show ?thesis
    using acq n idx off room assms(2)
    by (simp add: append_record_def LinearWriter_Release_def write_acquired_def Let_def small_def
        add.assoc)
qed

lemma append_record_holds:
  assumes "holds_log cb ps" "small p" "number_of_writers cb < GetMaxNumberOfConcurrentWriters"
    and "length p + 8 \<le> block_room cb"
  shows "\<exists>cb'. append_record cb p = Some cb' \<and> holds_log cb' (ps @ [p])
    \<and> number_of_writers cb' = number_of_writers cb \<and> length (lcb_data cb') = length (lcb_data cb)"
proof -
  have room: "length (layout ps) + (8 + length p) \<le> length (lcb_data cb)" "span_ok (lcb_data cb)"
    using assms(1,4) by (auto simp: holds_log_def block_room_def)
  then have "unat (word_of_nat (length (layout (ps @ [p]))) :: u64) = length (layout (ps @ [p]))"
    by (subst unat_word_of_nat) (simp_all add: span_ok_def)
  moreover have "take (length (layout ps) + (8 + length p))
      (put_at (length (layout ps)) (entry p) (lcb_data cb)) = layout ps @ entry p"
    using room assms(1) by (simp add: put_at_def holds_log_def)
  ultimately show ?thesis
    using room assms by (simp add: append_record_eq [OF assms] holds_log_def)
qed

interpretation lin: record_log append_record block_contents block_idle block_room "2 ^ 27" 8
proof unfold_locales
  fix cb and p :: bytes
  assume idle: "block_idle cb" and p: "length p \<le> 2 ^ 27" "length p + 8 \<le> block_room cb"
  then obtain ps where ps: "holds_log cb ps" by (auto simp: block_idle_def)
  from append_record_holds [OF ps, of p] idle p
  obtain cb' where cb': "append_record cb p = Some cb'" "holds_log cb' (ps @ [p])"
      "number_of_writers cb' = number_of_writers cb" "length (lcb_data cb') = length (lcb_data cb)"
    by (auto simp: block_idle_def small_def)
  moreover from this idle have "block_idle cb'" by (auto simp: block_idle_def)
  moreover have "block_room cb' = block_room cb - (length p + 8)"
    using cb' ps by (simp add: block_room_def holds_log_def)
  ultimately show "\<exists>b'. append_record cb p = Some b' \<and> block_idle b'
      \<and> block_contents b' = block_contents cb @ [p] \<and> block_room b' = block_room cb - (length p + 8)"
    using holds_log_contents [OF ps] holds_log_contents [OF cb'(2)] by simp
next
  fix cb and p :: bytes
  assume idle: "block_idle cb" and p: "span_ok p" and "2 ^ 27 < length p \<or> block_room cb < length p + 8"
  moreover from idle obtain ps where "holds_log cb ps" by (auto simp: block_idle_def)
  ultimately have "LinearWriter_Acquire id cb (word_of_nat (length p)) = (None, cb)"
    by (intro Acquire_refused) (auto simp: holds_log_def block_room_def span_ok_def unat_word_of_nat)
  then show "append_record cb p = None" by (simp add: append_record_def)
qed

text \<open>Records written one after the other into a linear buffer come back from the
  reader unchanged and in order, behind whatever was there, as long as the buffer has
  room for them and their 8-byte length prefixes.\<close>

theorem sequential_records_read_back:
  assumes "block_idle cb" "list_all (\<lambda>p. length p \<le> 2 ^ 27) ps"
    and "sum_list (map (\<lambda>p. length p + 8) ps) \<le> block_room cb"
  shows "\<exists>cb'. lin.append_all cb ps = Some cb' \<and> block_contents cb' = block_contents cb @ ps"
  using lin.append_all_ok [OF assms] by blast

lemma empty_block_idle:
  "span_ok d \<Longrightarrow> block_idle \<lparr>lcb_data = d, acquired_index = 0, written_index = 0, number_of_writers = 0\<rparr>"
  by (auto simp: block_idle_def holds_log_def linear_limits intro!: exI [of _ "[]"])

theorem sequential_records_read_back_witness:
  "\<exists>cb'. lin.append_all \<lparr>lcb_data = replicate 40 0, acquired_index = 0, written_index = 0,
        number_of_writers = 0\<rparr> [[1, 2, 3], [], [9]] = Some cb'
    \<and> block_contents cb' = block_contents \<lparr>lcb_data = replicate 40 0, acquired_index = 0,
        written_index = 0, number_of_writers = 0\<rparr> @ [[1, 2, 3], [], [9]]"
proof (rule sequential_records_read_back)
  show "block_idle \<lparr>lcb_data = replicate 40 0, acquired_index = 0, written_index = 0, number_of_writers = 0\<rparr>"
    by (rule empty_block_idle) (simp add: span_ok_def)
qed (simp_all add: block_room_def)

text \<open>A payload longer than 128 MiB, or one for which the rest of the buffer is too
  short, is refused and the control block is left exactly as it was.\<close>

theorem oversized_acquire_refused:
  assumes "span_ok (lcb_data cb)"
    and "2 ^ 27 < unat n \<or> length (lcb_data cb) < unat (acquired_index cb) + 8 + unat n"
  shows "LinearWriter_Acquire id cb n = (None, cb)"
  using assms by (rule Acquire_refused)

theorem oversized_acquire_refused_witness:
  "LinearWriter_Acquire id \<lparr>lcb_data = [0, 0, 0, 0, 0, 0, 0, 0], acquired_index = 0, written_index = 0,
      number_of_writers = 0\<rparr> 1
   = (None, \<lparr>lcb_data = [0, 0, 0, 0, 0, 0, 0, 0], acquired_index = 0, written_index = 0,
      number_of_writers = 0\<rparr>)"
  by (rule oversized_acquire_refused) (simp_all add: span_ok_def)

end
