(* ===== verification/LinearConcurrent.thy ===== *)
theory LinearConcurrent
  imports LinearBuffer
begin

text \<open>
  Interleaved execution of \<^verbatim>\<open>WaitFreeLinearWriter::Acquire\<close>, the client's writing and
  \<^verbatim>\<open>Release\<close> by any number of threads. Every access to an atomic of the control
  block and every copy into the buffer is one step; between two steps of a thread any
  other thread may run. All atomic accesses of the source have sequentially
  consistent order (the default of \<^verbatim>\<open>std::atomic\<close>), which interleaving models.

  The program counter \<open>wpc\<close> of a thread holds its local variables. Three fields of
  the system state are ghosts that no guard reads: the lengths of all
  reservations in the order of the atomic additions, the fate of each, and the
  reservation a thread works on.
\<close>

section \<open>Threads and steps\<close>

datatype wpc =
    Idle
  | Entered u64            \<comment> \<open>after \<^verbatim>\<open>++number_of_writers\<close>, with the wanted length\<close>
  | Guarded u64            \<comment> \<open>number of writers and length accepted\<close>
  | Ready u64              \<comment> \<open>\<^verbatim>\<open>old_offset\<close> accepted, before \<^verbatim>\<open>fetch_add\<close>\<close>
  | Reserved u64 u64       \<comment> \<open>offset obtained and fitting, before the copy of the length\<close>
  | Writing u64 u64        \<comment> \<open>\<^verbatim>\<open>Acquire\<close> has returned, the client fills the span\<close>
  | Overrun u64 u64        \<comment> \<open>offset obtained, not fitting, in \<^verbatim>\<open>TerminateBuffer\<close>\<close>
  | Marked u64 u64         \<comment> \<open>in \<^verbatim>\<open>TerminateBuffer\<close>, length copied if it fits\<close>
  | Leaving                \<comment> \<open>before \<^verbatim>\<open>number_of_writers--\<close>\<close>

datatype fate = Pending nat | Done bytes | Failed

record sys =
  blk :: LinearControlBlock
  pcs :: "nat \<Rightarrow> wpc"
  lens :: "nat list"
  fates :: "nat \<Rightarrow> fate"
  slot_of :: "nat \<Rightarrow> nat"

text \<open>
  One step of thread \<open>t\<close>. The conditions and the updates are those of
  \<open>CheckAndGetAcquireOffset\<close>, \<open>TerminateBuffer\<close>, \<open>LinearWriter_Acquire\<close> and
  \<open>LinearWriter_Release\<close>, cut at the accesses to shared memory.
\<close>

definition accepts_writer :: "LinearControlBlock \<Rightarrow> u64 \<Rightarrow> bool" where
  "accepts_writer cb n \<longleftrightarrow> \<not> number_of_writers cb > GetMaxNumberOfConcurrentWriters
     \<and> \<not> n > GetMaxAcquireLengthBytes"

definition accepts_offset :: "LinearControlBlock \<Rightarrow> u64 \<Rightarrow> bool" where
  "accepts_offset cb n \<longleftrightarrow> \<not> acquired_index cb \<ge> GetMaxLinearBufferCapacityBytes
     \<and> DoBytesFitInRemainingCapacity (lcb_data cb) (acquired_index cb) (n + GetLengthOffsetBytes)"

definition add_step :: "nat \<Rightarrow> u64 \<Rightarrow> sys \<Rightarrow> sys" where
  "add_step t n s =
     (let cb = blk s; offset = acquired_index cb in
      s\<lparr>blk := cb\<lparr>acquired_index := offset + (n + GetLengthOffsetBytes)\<rparr>,
        pcs := (pcs s)(t := if DoBytesFitInRemainingCapacity (lcb_data cb) offset (n + GetLengthOffsetBytes)
                            then Reserved offset n else Overrun offset n),
        lens := lens s @ [unat n],
        fates := (fates s)(length (lens s) := Pending t),
        slot_of := (slot_of s)(t := length (lens s))\<rparr>)"

definition mark_step :: "nat \<Rightarrow> u64 \<Rightarrow> u64 \<Rightarrow> sys \<Rightarrow> sys" where
  "mark_step t offset n s =
     (let cb = blk s in
      s\<lparr>blk := (if DoBytesFitInRemainingCapacity (lcb_data cb) offset GetLengthOffsetBytes
                then cb\<lparr>lcb_data := put_at (unat offset) (le64 n) (lcb_data cb)\<rparr> else cb),
        pcs := (pcs s)(t := Marked offset n)\<rparr>)"

inductive wstep :: "nat \<Rightarrow> sys \<Rightarrow> sys \<Rightarrow> bool" for t :: nat where
  enter: "pcs s t = Idle \<Longrightarrow>
    wstep t s (s\<lparr>blk := (blk s)\<lparr>number_of_writers := number_of_writers (blk s) + 1\<rparr>,
                 pcs := (pcs s)(t := Entered n)\<rparr>)"
| guard: "pcs s t = Entered n \<Longrightarrow>
    wstep t s (s\<lparr>pcs := (pcs s)(t := if accepts_writer (blk s) n then Guarded n else Leaving)\<rparr>)"
| load: "pcs s t = Guarded n \<Longrightarrow>
    wstep t s (s\<lparr>pcs := (pcs s)(t := if accepts_offset (blk s) n then Ready n else Leaving)\<rparr>)"
| add: "pcs s t = Ready n \<Longrightarrow> wstep t s (add_step t n s)"
| put_length: "pcs s t = Reserved offset n \<Longrightarrow>
    wstep t s (s\<lparr>blk := (blk s)\<lparr>lcb_data := put_at (unat offset) (le64 n) (lcb_data (blk s))\<rparr>,
                 pcs := (pcs s)(t := Writing offset n)\<rparr>)"
| put_payload: "pcs s t = Writing offset n \<Longrightarrow> k + length src \<le> unat n \<Longrightarrow>
    wstep t s (s\<lparr>blk := (blk s)\<lparr>lcb_data :=
       put_at (unat (offset + GetLengthOffsetBytes) + k) src (lcb_data (blk s))\<rparr>\<rparr>)"
| release: "pcs s t = Writing offset n \<Longrightarrow>
    wstep t s (s\<lparr>blk := (blk s)\<lparr>written_index := written_index (blk s) + (n + GetLengthOffsetBytes)\<rparr>,
                 pcs := (pcs s)(t := Leaving),
                 fates := (fates s)(slot_of s t :=
                   Done (subspan (unat (offset + GetLengthOffsetBytes)) (unat n) (lcb_data (blk s))))\<rparr>)"
| mark: "pcs s t = Overrun offset n \<Longrightarrow> wstep t s (mark_step t offset n s)"
| terminate: "pcs s t = Marked offset n \<Longrightarrow>
    wstep t s (s\<lparr>blk := (blk s)\<lparr>written_index := written_index (blk s) + (n + GetLengthOffsetBytes)\<rparr>,
                 pcs := (pcs s)(t := Leaving),
                 fates := (fates s)(slot_of s t := Failed)\<rparr>)"
| leave: "pcs s t = Leaving \<Longrightarrow>
    wstep t s (s\<lparr>blk := (blk s)\<lparr>number_of_writers := number_of_writers (blk s) - 1\<rparr>,
                 pcs := (pcs s)(t := Idle)\<rparr>)"

text \<open>A block as the consumer hands it to the writers: empty, nobody writing.\<close>

definition fresh_block :: "bytes \<Rightarrow> LinearControlBlock" where
  "fresh_block d = \<lparr>lcb_data = d, acquired_index = 0, written_index = 0, number_of_writers = 0\<rparr>"

definition init_sys :: "bytes \<Rightarrow> sys" where
  "init_sys d = \<lparr>blk = fresh_block d, pcs = (\<lambda>_. Idle), lens = [], fates = (\<lambda>_. Failed),
     slot_of = (\<lambda>_. 0)\<rparr>"

inductive reach :: "nat \<Rightarrow> bytes \<Rightarrow> sys \<Rightarrow> bool" for nthreads d where
  start: "reach nthreads d (init_sys d)"
| step: "reach nthreads d s \<Longrightarrow> t < nthreads \<Longrightarrow> wstep t s s' \<Longrightarrow> reach nthreads d s'"

section \<open>Offsets of the reservations\<close>

definition offs :: "nat list \<Rightarrow> nat \<Rightarrow> nat" where
  "offs ls i = sum_list (map (\<lambda>l. 8 + l) (take i ls))"

lemma offs_simps [simp]:
  "offs ls 0 = 0" "i < length ls \<Longrightarrow> offs ls (Suc i) = offs ls i + 8 + ls ! i"
  "i \<le> length ls \<Longrightarrow> offs (ls @ [n]) i = offs ls i"
  "offs (ls @ [n]) (Suc (length ls)) = offs ls (length ls) + 8 + n"
  by (simp_all add: offs_def take_Suc_conv_app_nth)

lemma offs_mono: "i \<le> j \<Longrightarrow> offs ls i \<le> offs ls j"
proof -
  assume "i \<le> j"
  then obtain k where "j = i + k" by (auto simp: le_iff_add)
  then show ?thesis by (simp add: offs_def take_add)
qed

lemma offs_disjoint: "i < j \<Longrightarrow> j \<le> length ls \<Longrightarrow> offs ls i + 8 + ls ! i \<le> offs ls j"
  using offs_mono [of "Suc i" j ls] by simp

definition is_pending :: "fate \<Rightarrow> bool" where
  "is_pending f \<longleftrightarrow> (\<exists>t. f = Pending t)"

text \<open>The bytes accounted for in \<^verbatim>\<open>written_index\<close>.\<close>

definition settled :: "nat list \<Rightarrow> (nat \<Rightarrow> fate) \<Rightarrow> nat" where
  "settled ls fs = (\<Sum>i<length ls. if is_pending (fs i) then 0 else 8 + ls ! i)"

lemma offs_sum: "offs ls (length ls) = (\<Sum>i<length ls. 8 + ls ! i)"
  by (simp add: offs_def sum_list_sum_nth atLeast0LessThan)

lemma settled_le: "settled ls fs \<le> offs ls (length ls)"
  unfolding settled_def offs_sum by (rule sum_mono) simp

lemma settled_all:
  assumes "settled ls fs = offs ls (length ls)" "i < length ls"
  shows "\<not> is_pending (fs i)"
proof
  assume "is_pending (fs i)"
  then have "settled ls fs < offs ls (length ls)"
    unfolding settled_def offs_sum by (intro sum_strict_mono_ex1) (use assms(2) in auto)
  with assms(1) show False by simp
qed

lemma settled_append: "settled (ls @ [n]) (fs(length ls := Pending t)) = settled ls fs"
  by (auto simp: settled_def is_pending_def nth_append intro!: sum.cong)

lemma settled_settle:
  assumes "i < length ls" "is_pending (fs i)" "\<not> is_pending f"
  shows "settled ls (fs(i := f)) = settled ls fs + (8 + ls ! i)"
proof -
  have split: "(\<Sum>j<length ls. g j) = (\<Sum>j\<in>{..<length ls} - {i}. g j) + g i" for g :: "nat \<Rightarrow> nat"
    using assms(1) by (simp add: sum.remove)
  have "(\<Sum>j\<in>{..<length ls} - {i}. if is_pending ((fs(i := f)) j) then 0 else 8 + ls ! j)
      = (\<Sum>j\<in>{..<length ls} - {i}. if is_pending (fs j) then 0 else 8 + ls ! j)"
    by (rule sum.cong) auto
  with assms show ?thesis
    unfolding settled_def split by simp
qed

section \<open>The invariant\<close>

fun past_guard :: "wpc \<Rightarrow> bool" where
  "past_guard Idle = False" | "past_guard (Entered n) = False" | "past_guard Leaving = False"
| "past_guard _ = True"

fun pc_len :: "wpc \<Rightarrow> nat" where
  "pc_len (Guarded n) = unat n" | "pc_len (Ready n) = unat n" | "pc_len (Reserved off n) = unat n"
| "pc_len (Writing off n) = unat n" | "pc_len (Overrun off n) = unat n" | "pc_len (Marked off n) = unat n"
| "pc_len _ = 0"

fun is_ready :: "wpc \<Rightarrow> bool" where
  "is_ready (Ready n) = True" | "is_ready _ = False"

fun holding :: "wpc \<Rightarrow> bool" where
  "holding (Reserved off n) = True" | "holding (Writing off n) = True"
| "holding (Overrun off n) = True" | "holding (Marked off n) = True" | "holding _ = False"

definition active :: "(nat \<Rightarrow> wpc) \<Rightarrow> nat set" where "active f = {t. f t \<noteq> Idle}"
definition inside :: "(nat \<Rightarrow> wpc) \<Rightarrow> nat set" where "inside f = {t. past_guard (f t)}"
definition readies :: "(nat \<Rightarrow> wpc) \<Rightarrow> nat set" where "readies f = {t. is_ready (f t)}"

abbreviation max_entry :: nat where "max_entry \<equiv> 2 ^ 27 + 8"

text \<open>
  Counting: \<^verbatim>\<open>number_of_writers\<close> is the number of threads inside, and at most 64 threads
  have passed the guard. Indices: the two atomics are the sums of the reservations and
  of the settled reservations, and the sum stays away from the end of the 64-bit range:
  beyond \<open>2 ^ 63\<close> only threads that had already passed the check can still add.
\<close>

definition count_inv :: "nat \<Rightarrow> sys \<Rightarrow> bool" where
  "count_inv nthreads s \<longleftrightarrow> active (pcs s) \<subseteq> {..<nthreads} \<and> nthreads < 2 ^ 64
     \<and> unat (number_of_writers (blk s)) = card (active (pcs s))
     \<and> card (inside (pcs s)) \<le> 64"

definition index_inv :: "sys \<Rightarrow> bool" where
  "index_inv s \<longleftrightarrow> unat (acquired_index (blk s)) = offs (lens s) (length (lens s))
     \<and> unat (written_index (blk s)) = settled (lens s) (fates s)
     \<and> (2 ^ 63 \<le> offs (lens s) (length (lens s)) \<longrightarrow>
          offs (lens s) (length (lens s)) + card (readies (pcs s)) * max_entry \<le> 2 ^ 63 + 64 * max_entry)
     \<and> (\<forall>l\<in>set (lens s). l \<le> 2 ^ 27)
     \<and> (\<forall>t. past_guard (pcs s t) \<longrightarrow> pc_len (pcs s t) \<le> 2 ^ 27)"

text \<open>Slots: what memory holds in the range of a reservation, by its fate.\<close>

definition slot_inv :: "bytes \<Rightarrow> wpc \<Rightarrow> nat \<Rightarrow> nat \<Rightarrow> bool" where
  "slot_inv d pc off n \<longleftrightarrow> (case pc of
       Reserved o' n' \<Rightarrow> unat o' = off \<and> unat n' = n \<and> off + 8 + n \<le> length d
     | Writing o' n' \<Rightarrow> unat o' = off \<and> unat n' = n \<and> off + 8 + n \<le> length d
         \<and> subspan off 8 d = le64 n'
     | Overrun o' n' \<Rightarrow> unat o' = off \<and> unat n' = n \<and> length d < off + 8 + n
     | Marked o' n' \<Rightarrow> unat o' = off \<and> unat n' = n \<and> length d < off + 8 + n
         \<and> (off + 8 \<le> length d \<longrightarrow> subspan off 8 d = le64 n')
     | _ \<Rightarrow> False)"

definition fate_inv :: "sys \<Rightarrow> nat \<Rightarrow> bool" where
  "fate_inv s i \<longleftrightarrow>
     (let d = lcb_data (blk s); off = offs (lens s) i; n = lens s ! i in
      case fates s i of
        Done p \<Rightarrow> length p = n \<and> off + 8 + n \<le> length d \<and> subspan off (8 + n) d = entry p
      | Failed \<Rightarrow> length d < off + 8 + n \<and> (off + 8 \<le> length d \<longrightarrow> le_value (subspan off 8 d) = n)
      | Pending t \<Rightarrow> slot_of s t = i \<and> slot_inv d (pcs s t) off n)"

definition mem_inv :: "sys \<Rightarrow> bool" where
  "mem_inv s \<longleftrightarrow> span_ok (lcb_data (blk s)) \<and> (\<forall>i<length (lens s). fate_inv s i)
     \<and> (\<forall>t. holding (pcs s t) \<longrightarrow> slot_of s t < length (lens s) \<and> fates s (slot_of s t) = Pending t)"

lemma pc_sets_upd [simp]:
  "active (f(t := v)) = (if v = Idle then active f - {t} else insert t (active f))"
  "inside (f(t := v)) = (if past_guard v then insert t (inside f) else inside f - {t})"
  "readies (f(t := v)) = (if is_ready v then insert t (readies f) else readies f - {t})"
  by (auto simp: active_def inside_def readies_def)

lemma pc_sets_mem [simp]:
  "t \<in> active f \<longleftrightarrow> f t \<noteq> Idle" "t \<in> inside f \<longleftrightarrow> past_guard (f t)" "t \<in> readies f \<longleftrightarrow> is_ready (f t)"
  by (simp_all add: active_def inside_def readies_def)

lemma past_guard_active: "past_guard pc \<Longrightarrow> pc \<noteq> Idle"
  by auto

lemma is_ready_past: "is_ready pc \<Longrightarrow> past_guard pc"
  by (cases pc) simp_all

lemma holding_past: "holding pc \<Longrightarrow> past_guard pc"
  by (cases pc) simp_all

lemma count_inv_finite:
  assumes "count_inv nthreads s"
  shows "finite (active (pcs s))" "finite (inside (pcs s))" "finite (readies (pcs s))"
    "card (readies (pcs s)) \<le> card (inside (pcs s))" "card (readies (pcs s)) \<le> 64"
proof -
  show fin: "finite (active (pcs s))"
    using assms by (auto simp: count_inv_def intro: finite_subset)
  show fin2: "finite (inside (pcs s))"
    by (rule finite_subset [OF _ fin]) (auto dest: past_guard_active)
  show "finite (readies (pcs s))" "card (readies (pcs s)) \<le> card (inside (pcs s))"
    using is_ready_past by (auto intro!: finite_subset [OF _ fin2] card_mono [OF fin2])
  then show "card (readies (pcs s)) \<le> 64"
    using assms by (simp add: count_inv_def)
qed

text \<open>A step that neither enters nor leaves and does not pass the guard.\<close>

lemma count_inv_move:
  assumes inv: "count_inv nthreads s" and "pcs s t \<noteq> Idle" "v \<noteq> Idle"
    and "past_guard v \<Longrightarrow> past_guard (pcs s t)"
    and "pcs s' = (pcs s)(t := v)" "number_of_writers (blk s') = number_of_writers (blk s)"
  shows "count_inv nthreads s'"
proof -
  have 1: "insert t (active (pcs s)) = active (pcs s)"
    using assms(2) by auto
  have "inside (pcs s') \<subseteq> inside (pcs s)"
    using assms(4,5) by (auto split: if_splits)
  then have "card (inside (pcs s')) \<le> card (inside (pcs s))"
    by (rule card_mono [OF count_inv_finite(2) [OF inv]])
  with inv 1 assms(3,5,6) show ?thesis
    by (simp add: count_inv_def)
qed

lemma count_inv_enter:
  assumes inv: "count_inv nthreads s" and t: "t < nthreads" "pcs s t = Idle"
    and "pcs s' = (pcs s)(t := Entered n)"
    and "number_of_writers (blk s') = number_of_writers (blk s) + 1"
  shows "count_inv nthreads s'"
proof -
  let ?A = "active (pcs s)"
  have sub: "insert t ?A \<subseteq> {..<nthreads}" and nw: "nthreads < 2 ^ 64" "unat (number_of_writers (blk s)) = card ?A"
    and past: "card (inside (pcs s)) \<le> 64"
    using inv t by (auto simp: count_inv_def)
  have new: "card (insert t ?A) = Suc (card ?A)"
    using count_inv_finite(1) [OF inv] t by simp
  then have "Suc (card ?A) \<le> nthreads"
    using card_mono [OF _ sub] by simp
  then have "unat (number_of_writers (blk s) + 1) = Suc (card ?A)"
    using nw unat_add_bound [of "number_of_writers (blk s)" 1] by simp
  moreover have "inside (pcs s) - {t} = inside (pcs s)"
    using t by auto
  ultimately show ?thesis
    using assms(4,5) sub nw(1) new past by (simp add: count_inv_def)
qed

lemma count_inv_leave:
  assumes inv: "count_inv nthreads s" and t: "pcs s t = Leaving"
    and "pcs s' = (pcs s)(t := Idle)"
    and "number_of_writers (blk s') = number_of_writers (blk s) - 1"
  shows "count_inv nthreads s'"
proof -
  let ?A = "active (pcs s)"
  have nw: "unat (number_of_writers (blk s)) = card ?A" using inv by (simp add: count_inv_def)
  have "card (?A - {t}) = card ?A - 1" "0 < card ?A"
    using t count_inv_finite(1) [OF inv] by (auto simp: card_gt_0_iff dest: equals0D [where a = t])
  moreover from this have "unat (number_of_writers (blk s) - 1) = unat (number_of_writers (blk s)) - 1"
    using nw by (simp add: unat_sub word_le_nat_alt)
  moreover have "inside (pcs s) - {t} = inside (pcs s)"
    using t by auto
  ultimately show ?thesis
    using inv assms(3,4) nw by (auto simp: count_inv_def)
qed

lemma count_inv_guard:
  assumes inv: "count_inv nthreads s" and t: "pcs s t = Entered n" and acc: "accepts_writer (blk s) n"
    and "pcs s' = (pcs s)(t := Guarded n)" "blk s' = blk s"
  shows "count_inv nthreads s'"
proof -
  let ?A = "active (pcs s)"
  have "insert t (inside (pcs s)) \<subseteq> ?A"
    using t by (auto dest: past_guard_active)
  then have "card (insert t (inside (pcs s))) \<le> card ?A"
    by (rule card_mono [OF count_inv_finite(1) [OF inv]])
  also have "\<dots> \<le> 64"
    using acc inv by (simp add: accepts_writer_def word_less_nat_alt not_less count_inv_def)
  finally have "card (insert t (inside (pcs s))) \<le> 64" .
  moreover have "insert t ?A = ?A" using t by auto
  ultimately show ?thesis
    using inv assms(4,5) by (simp add: count_inv_def)
qed

lemma count_inv_step:
  assumes inv: "count_inv nthreads s" and t: "t < nthreads" and step: "wstep t s s'"
  shows "count_inv nthreads s'"
  using step
proof cases
  case (enter n)
  then show ?thesis using inv t by (intro count_inv_enter [of nthreads s t s' n]) simp_all
next
  case (guard n)
  then show ?thesis
    using inv count_inv_guard [of nthreads s t n s'] count_inv_move [of nthreads s t Leaving s']
    by (cases "accepts_writer (blk s) n") simp_all
next
  case leave
  then show ?thesis using inv by (intro count_inv_leave [of nthreads s t s']) simp_all
next
  case (put_payload off n k src)
  then show ?thesis using inv by (simp add: count_inv_def)
qed (rule count_inv_move [OF inv, where t = t]; simp add: add_step_def mark_step_def Let_def)+

lemma index_inv_move:
  assumes inv: "index_inv s" and cnt: "count_inv nthreads s"
    and v: "past_guard v \<Longrightarrow> pc_len v \<le> 2 ^ 27"
      "is_ready v \<Longrightarrow> offs (lens s) (length (lens s)) < 2 ^ 63"
    and same: "pcs s' = (pcs s)(t := v)" "lens s' = lens s" "fates s' = fates s"
      "acquired_index (blk s') = acquired_index (blk s)" "written_index (blk s') = written_index (blk s)"
  shows "index_inv s'"
proof -
  have "card (readies (pcs s')) \<le> card (readies (pcs s))" if "2 ^ 63 \<le> offs (lens s) (length (lens s))"
    using that v(2) same(1) card_Diff1_le [of "readies (pcs s)" t] by fastforce
  then have "card (readies (pcs s')) * max_entry \<le> card (readies (pcs s)) * max_entry"
    if "2 ^ 63 \<le> offs (lens s) (length (lens s))"
    using that by (intro mult_le_mono1)
  moreover have "past_guard (pcs s' t') \<longrightarrow> pc_len (pcs s' t') \<le> 2 ^ 27" for t'
    using inv v(1) same(1) by (cases "t' = t") (simp_all add: index_inv_def)
  ultimately show ?thesis
    using inv same(2-) by (fastforce simp: index_inv_def)
qed

lemma index_inv_total:
  assumes "index_inv s"
  shows "offs (lens s) (length (lens s)) \<le> 2 ^ 63 + 64 * max_entry"
  using assms by (cases "2 ^ 63 \<le> offs (lens s) (length (lens s))") (auto simp: index_inv_def)

lemma index_inv_add:
  assumes inv: "index_inv s" and cnt: "count_inv nthreads s" and t: "pcs s t = Ready n"
  shows "index_inv (add_step t n s)"
proof -
  let ?total = "offs (lens s) (length (lens s))" and ?R = "readies (pcs s)"
  let ?v = "if DoBytesFitInRemainingCapacity (lcb_data (blk s)) (acquired_index (blk s))
      (n + GetLengthOffsetBytes) then Reserved (acquired_index (blk s)) n else Overrun (acquired_index (blk s)) n"
  have n: "unat n \<le> 2 ^ 27"
    using inv t by (auto simp: index_inv_def dest: spec [where x = t])
  have card: "card (?R - {t}) = card ?R - 1" "0 < card ?R" "card ?R \<le> 64"
    using t count_inv_finite(3,5) [OF cnt] by (auto simp: card_gt_0_iff dest: equals0D [where a = t])
  then have split: "card ?R * max_entry = (card ?R - 1) * max_entry + max_entry"
    by (cases "card ?R") simp_all
  have bound: "?total + (8 + unat n) + (card ?R - 1) * max_entry \<le> 2 ^ 63 + 64 * max_entry"
  proof (cases "2 ^ 63 \<le> ?total")
    case True
    with inv split n show ?thesis by (simp add: index_inv_def)
  next
    case False
    have "(card ?R - 1) * max_entry \<le> 63 * max_entry" using card(3) by (intro mult_le_mono1) simp
    with False n show ?thesis by simp
  qed
  then have "unat (acquired_index (blk s) + (n + GetLengthOffsetBytes)) = ?total + 8 + unat n"
    using inv n by (subst unat_add_bound) (simp_all add: index_inv_def unat_total)
  moreover have "past_guard (((pcs s)(t := ?v)) t') \<longrightarrow> pc_len (((pcs s)(t := ?v)) t') \<le> 2 ^ 27" for t'
    using inv n by (cases "t' = t") (simp_all add: index_inv_def)
  ultimately show ?thesis
    using inv bound n card(1)
    by (auto simp: index_inv_def add_step_def Let_def settled_append simp del: fun_upd_apply)
qed

lemma index_inv_settle:
  assumes inv: "index_inv s" and cnt: "count_inv nthreads s" and t: "pcs s t = pc" "pc_len pc = unat n"
    and slot: "slot_of s t < length (lens s)" "fates s (slot_of s t) = Pending t"
      "lens s ! slot_of s t = unat n"
    and f: "\<not> is_pending f"
  shows "index_inv (s\<lparr>blk := (blk s)\<lparr>written_index := written_index (blk s) + (n + GetLengthOffsetBytes)\<rparr>,
      pcs := (pcs s)(t := Leaving), fates := (fates s)(slot_of s t := f)\<rparr>)"
proof -
  let ?s' = "s\<lparr>pcs := (pcs s)(t := Leaving)\<rparr>"
  have n: "unat n \<le> 2 ^ 27"
    using inv slot(1,3) by (auto simp: index_inv_def in_set_conv_nth)
  have new: "settled (lens s) ((fates s)(slot_of s t := f)) = settled (lens s) (fates s) + (8 + unat n)"
    using slot f by (subst settled_settle) (auto simp: is_pending_def)
  then have "settled (lens s) (fates s) + (8 + unat n) \<le> 2 ^ 63 + 64 * max_entry"
    using settled_le [of "lens s" "(fates s)(slot_of s t := f)"] index_inv_total [OF inv] by linarith
  then have "unat (written_index (blk s) + (n + GetLengthOffsetBytes)) = settled (lens s) (fates s) + (8 + unat n)"
    using inv n by (subst unat_add_bound) (simp_all add: index_inv_def unat_total)
  moreover have "index_inv ?s'" by (rule index_inv_move [OF inv cnt]) simp_all
  ultimately show ?thesis using new by (simp add: index_inv_def del: pc_sets_upd fun_upd_apply)
qed

lemma accepts_offset_below:
  assumes "index_inv s" "span_ok (lcb_data (blk s))" "accepts_offset (blk s) n"
  shows "offs (lens s) (length (lens s)) < 2 ^ 63"
  using assms by (simp add: index_inv_def accepts_offset_def fits_iff span_ok_def)

lemma mem_inv_slot:
  assumes "mem_inv s" "holding (pcs s t)"
  shows "slot_of s t < length (lens s)" "fates s (slot_of s t) = Pending t"
    "slot_inv (lcb_data (blk s)) (pcs s t) (offs (lens s) (slot_of s t)) (lens s ! slot_of s t)"
proof -
  show i: "slot_of s t < length (lens s)" "fates s (slot_of s t) = Pending t"
    using assms by (auto simp: mem_inv_def)
  then have "fate_inv s (slot_of s t)" using assms(1) by (simp add: mem_inv_def)
  with i(2) show "slot_inv (lcb_data (blk s)) (pcs s t) (offs (lens s) (slot_of s t)) (lens s ! slot_of s t)"
    by (simp add: fate_inv_def Let_def)
qed

lemma index_inv_step:
  assumes inv: "index_inv s" and cnt: "count_inv nthreads s" and mem: "mem_inv s" and step: "wstep t s s'"
  shows "index_inv s'"
  using step
proof cases
  case (load n)
  then show ?thesis
    using inv accepts_offset_below [OF inv, of n] mem
    by (intro index_inv_move [OF inv cnt, where t = t])
      (auto simp: index_inv_def mem_inv_def dest: spec [where x = t] split: if_splits)
next
  case (add n)
  then show ?thesis using index_inv_add [OF inv cnt] by simp
next
  case (release off n)
  moreover from this have "holding (pcs s t)" by simp
  note mem_inv_slot [OF mem this]
  ultimately show ?thesis
    using index_inv_settle [OF inv cnt release(2)] by (simp add: slot_inv_def is_pending_def)
next
  case (terminate off n)
  moreover from this have "holding (pcs s t)" by simp
  note mem_inv_slot [OF mem this]
  ultimately show ?thesis
    using index_inv_settle [OF inv cnt terminate(2)] by (simp add: slot_inv_def is_pending_def)
next
  case (put_payload off n k src)
  then show ?thesis using inv by (simp add: index_inv_def)
qed (rule index_inv_move [OF inv cnt, where t = t];
     use inv in \<open>auto simp: mark_step_def Let_def index_inv_def accepts_writer_def word_less_nat_alt
       dest: spec [where x = t] split: if_splits\<close>)+

text \<open>A copy inside one reservation leaves the bytes of every other reservation alone.\<close>

definition keeps :: "bytes \<Rightarrow> bytes \<Rightarrow> nat \<Rightarrow> nat \<Rightarrow> bool" where
  "keeps d d' off n \<longleftrightarrow> length d' = length d
     \<and> (\<forall>a k. off \<le> a \<longrightarrow> a + k \<le> off + 8 + n \<longrightarrow> a + k \<le> length d \<longrightarrow> subspan a k d' = subspan a k d)"

lemma keeps_refl [simp]: "keeps d d off n"
  by (simp add: keeps_def)

lemma keeps_other:
  assumes "i < length ls" "j < length ls" "i \<noteq> j"
    and "offs ls i \<le> at" "at + length src \<le> offs ls i + 8 + ls ! i" "at + length src \<le> length d"
  shows "keeps d (put_at at src d) (offs ls j) (ls ! j)"
proof (cases "i < j")
  case True
  with assms have "at + length src \<le> offs ls j" using offs_disjoint [of i j ls] by simp
  with assms(6) show ?thesis by (auto simp: keeps_def mem_simps)
next
  case False
  with assms have "offs ls j + 8 + ls ! j \<le> at" using offs_disjoint [of j i ls] by simp
  with assms(6) show ?thesis by (auto simp: keeps_def mem_simps)
qed

lemma fate_inv_frame:
  assumes "fate_inv s j" "fates s' j = fates s j"
    and "lens s' ! j = lens s ! j" "offs (lens s') j = offs (lens s) j"
    and "\<And>t. fates s j = Pending t \<Longrightarrow> pcs s' t = pcs s t \<and> slot_of s' t = slot_of s t"
    and keep: "keeps (lcb_data (blk s)) (lcb_data (blk s')) (offs (lens s) j) (lens s ! j)"
  shows "fate_inv s' j"
proof -
  let ?d = "lcb_data (blk s)" and ?d' = "lcb_data (blk s')" and ?o = "offs (lens s) j" and ?n = "lens s ! j"
  have len: "length ?d' = length ?d" using keep by (simp add: keeps_def)
  have whole: "?o + 8 + ?n \<le> length ?d \<Longrightarrow> subspan ?o (8 + ?n) ?d' = subspan ?o (8 + ?n) ?d"
    and head: "?o + 8 \<le> length ?d \<Longrightarrow> subspan ?o 8 ?d' = subspan ?o 8 ?d"
    using keep by (simp_all add: keeps_def)
  have "slot_inv ?d' pc ?o ?n \<longleftrightarrow> slot_inv ?d pc ?o ?n" for pc
    using head len by (cases pc) (auto simp: slot_inv_def)
  with assms(1-5) len whole head show ?thesis
    by (cases "fates s j") (auto simp: fate_inv_def Let_def)
qed

lemma mem_inv_own:
  assumes inv: "mem_inv s" and h: "holding (pcs s t)"
    and s': "pcs s' = (pcs s)(t := v)" "lens s' = lens s" "slot_of s' = slot_of s"
      "fates s' = (fates s)(slot_of s t := f)"
    and keep: "\<And>j. j < length (lens s) \<Longrightarrow> j \<noteq> slot_of s t \<Longrightarrow>
      keeps (lcb_data (blk s)) (lcb_data (blk s')) (offs (lens s) j) (lens s ! j)"
    and len: "length (lcb_data (blk s')) = length (lcb_data (blk s))"
    and own: "fate_inv s' (slot_of s t)" and v: "holding v \<Longrightarrow> f = Pending t"
  shows "mem_inv s'"
proof -
  note slot = mem_inv_slot [OF inv h]
  have other: "t' \<noteq> t" if "fates s j = Pending t'" "j < length (lens s)" "j \<noteq> slot_of s t" for j t'
    using that inv by (auto simp: mem_inv_def fate_inv_def Let_def)
  have "fate_inv s' j" if "j < length (lens s')" for j
  proof (cases "j = slot_of s t")
    case False
    show ?thesis
    proof (rule fate_inv_frame [of s])
      show "fate_inv s j" using inv that s' by (simp add: mem_inv_def)
      show "keeps (lcb_data (blk s)) (lcb_data (blk s')) (offs (lens s) j) (lens s ! j)"
        using keep False that s' by simp
    qed (use s' False other that in auto)
  qed (use own in simp)
  moreover have "slot_of s' t' < length (lens s') \<and> fates s' (slot_of s' t') = Pending t'"
    if "holding (pcs s' t')" for t'
  proof (cases "t' = t")
    case False
    with that s' have h': "holding (pcs s t')" by simp
    from mem_inv_slot(1,2) [OF inv h'] False slot(2) s' show ?thesis by auto
  qed (use slot v that s' in auto)
  ultimately show ?thesis
    using inv len by (simp add: mem_inv_def span_ok_def)
qed

lemma mem_inv_move:
  assumes inv: "mem_inv s" and "\<not> holding (pcs s t)" "\<not> holding v"
    and "pcs s' = (pcs s)(t := v)" "lens s' = lens s" "slot_of s' = slot_of s" "fates s' = fates s"
      "lcb_data (blk s') = lcb_data (blk s)"
  shows "mem_inv s'"
proof -
  have "pcs s' t' = pcs s t'" if "fates s j = Pending t'" "j < length (lens s)" for j t'
  proof -
    have "slot_inv (lcb_data (blk s)) (pcs s t') (offs (lens s) j) (lens s ! j)"
      using that inv by (auto simp: mem_inv_def fate_inv_def Let_def)
    then have "holding (pcs s t')" by (cases "pcs s t'") (simp_all add: slot_inv_def)
    with assms(2,4) show ?thesis by auto
  qed
  then have "fate_inv s' j" if "j < length (lens s)" for j
    using that inv assms(5-) by (intro fate_inv_frame [of s j s']) (auto simp: mem_inv_def)
  moreover have "holding (pcs s' t') \<Longrightarrow> holding (pcs s t')" for t'
    using assms(3,4) by (auto split: if_splits)
  ultimately show ?thesis
    using inv assms(5-) by (auto simp: mem_inv_def)
qed

lemma mem_inv_add:
  assumes inv: "mem_inv s" and idx: "index_inv s" and t: "pcs s t = Ready n"
  shows "mem_inv (add_step t n s)"
proof -
  let ?s' = "add_step t n s" and ?m = "length (lens s)"
  have n: "unat n \<le> 2 ^ 27"
    using idx t by (auto simp: index_inv_def dest: spec [where x = t])
  have acq: "unat (acquired_index (blk s)) = offs (lens s) ?m" and ok: "span_ok (lcb_data (blk s))"
    using idx inv by (simp_all add: index_inv_def mem_inv_def)
  have old: "fate_inv ?s' j" if "j < ?m" for j
  proof (rule fate_inv_frame [of s])
    show "fate_inv s j" using inv that by (simp add: mem_inv_def)
  next
    fix t' assume p: "fates s j = Pending t'"
    then have "slot_inv (lcb_data (blk s)) (pcs s t') (offs (lens s) j) (lens s ! j)"
      using that inv by (auto simp: mem_inv_def fate_inv_def Let_def)
    with t have "t' \<noteq> t" by (auto simp: slot_inv_def)
    then show "pcs ?s' t' = pcs s t' \<and> slot_of ?s' t' = slot_of s t'"
      by (simp add: add_step_def Let_def)
  qed (use that in \<open>auto simp: add_step_def Let_def nth_append\<close>)
  have "fate_inv ?s' ?m"
    using n acq ok by (simp add: fate_inv_def add_step_def Let_def slot_inv_def fits_iff unat_total)
  with old have "\<forall>j<length (lens ?s'). fate_inv ?s' j"
    by (auto simp: add_step_def Let_def less_Suc_eq)
  moreover have "slot_of ?s' t' < length (lens ?s') \<and> fates ?s' (slot_of ?s' t') = Pending t'"
    if "holding (pcs ?s' t')" for t'
  proof (cases "t' = t")
    case False
    with that have "holding (pcs s t')" by (simp add: add_step_def Let_def)
    from mem_inv_slot(1,2) [OF inv this] False show ?thesis by (simp add: add_step_def Let_def)
  qed (simp add: add_step_def Let_def)
  ultimately show ?thesis
    using ok by (simp add: mem_inv_def) (simp add: add_step_def Let_def)
qed

lemma slot_head:
  assumes "unat off = o'" "o' + 8 \<le> length d" "span_ok d"
  shows "unat (off + GetLengthOffsetBytes) = o' + 8"
  using assms unat_add_bound [of off GetLengthOffsetBytes] by (simp add: span_ok_def)

lemma entry_from_parts:
  assumes "subspan o' 8 d = le64 w" "unat w = n" "o' + 8 + n \<le> length d"
  shows "subspan o' (8 + n) d = entry (subspan (o' + 8) n d)"
proof -
  have "word_of_nat (length (subspan (o' + 8) n d)) = w" using assms(2,3) by (auto simp: min_def)
  then show ?thesis using assms(1) by (simp add: entry_def subspan_append_split)
qed

lemma mem_inv_step:
  assumes inv: "mem_inv s" and idx: "index_inv s" and step: "wstep t s s'"
  shows "mem_inv s'"
  using step
proof cases
  case (add n)
  then show ?thesis using mem_inv_add [OF inv idx] by simp
next
  case (put_length off n)
  then have h: "holding (pcs s t)" by simp
  note slot = mem_inv_slot [OF inv h]
  from slot(3) put_length have sl: "unat off = offs (lens s) (slot_of s t)" "unat n = lens s ! slot_of s t"
    "unat off + 8 + unat n \<le> length (lcb_data (blk s))" by (auto simp: slot_inv_def)
  show ?thesis
  proof (rule mem_inv_own [OF inv h, where v = "Writing off n" and f = "Pending t"])
    show "fate_inv s' (slot_of s t)"
      using put_length slot sl subspan_put_at_same [of "unat off" "le64 n" "lcb_data (blk s)"]
      by (simp add: fate_inv_def Let_def slot_inv_def)
  qed (use put_length slot sl in \<open>auto intro!: keeps_other [of "slot_of s t"]\<close>)
next
  case (put_payload off n k src)
  then have h: "holding (pcs s t)" by simp
  note slot = mem_inv_slot [OF inv h]
  let ?d = "lcb_data (blk s)"
  from slot(3) put_payload have sl: "unat off = offs (lens s) (slot_of s t)" "unat n = lens s ! slot_of s t"
    "unat off + 8 + unat n \<le> length ?d" "subspan (unat off) 8 ?d = le64 n" by (auto simp: slot_inv_def)
  have head: "unat (off + GetLengthOffsetBytes) = unat off + 8"
    using sl(3) inv by (intro slot_head [of _ _ ?d]) (simp_all add: mem_inv_def)
  show ?thesis
  proof (rule mem_inv_own [OF inv h, where v = "Writing off n" and f = "Pending t"])
    show "fate_inv s' (slot_of s t)"
      using put_payload slot sl head
      by (auto simp: fate_inv_def Let_def slot_inv_def mem_simps)
  qed (use put_payload slot sl head in \<open>auto intro!: keeps_other [of "slot_of s t"] simp: fun_upd_idem\<close>)
next
  case (release off n)
  then have h: "holding (pcs s t)" by simp
  note slot = mem_inv_slot [OF inv h]
  let ?d = "lcb_data (blk s)"
  from slot(3) release have sl: "unat off = offs (lens s) (slot_of s t)" "unat n = lens s ! slot_of s t"
    "unat off + 8 + unat n \<le> length ?d" "subspan (unat off) 8 ?d = le64 n" by (auto simp: slot_inv_def)
  have head: "unat (off + GetLengthOffsetBytes) = unat off + 8"
    using sl(3) inv by (intro slot_head [of _ _ ?d]) (simp_all add: mem_inv_def)
  show ?thesis
  proof (rule mem_inv_own [OF inv h, where v = Leaving])
    show "fate_inv s' (slot_of s t)"
      using release slot sl head entry_from_parts [OF sl(4)]
      by (simp add: fate_inv_def Let_def)
  qed (use release slot in auto)
next
  case (mark off n)
  then have h: "holding (pcs s t)" by simp
  note slot = mem_inv_slot [OF inv h]
  let ?d = "lcb_data (blk s)"
  have ok: "span_ok ?d" using inv by (simp add: mem_inv_def)
  from slot(3) mark have sl: "unat off = offs (lens s) (slot_of s t)" "unat n = lens s ! slot_of s t"
    "length ?d < unat off + 8 + unat n" by (auto simp: slot_inv_def)
  show ?thesis
  proof (rule mem_inv_own [OF inv h, where v = "Marked off n" and f = "Pending t"])
    show "fate_inv s' (slot_of s t)"
      using mark slot sl ok subspan_put_at_same [of "unat off" "le64 n" ?d]
      by (simp add: fate_inv_def Let_def slot_inv_def mark_step_def fits_iff)
  next
    fix j assume "j < length (lens s)" "j \<noteq> slot_of s t"
    with mark slot sl ok show "keeps ?d (lcb_data (blk s')) (offs (lens s) j) (lens s ! j)"
      by (auto simp: mark_step_def Let_def fits_iff intro!: keeps_other [of "slot_of s t"])
  qed (use mark slot sl ok in \<open>auto simp: mark_step_def Let_def fits_iff\<close>)
next
  case (terminate off n)
  then have h: "holding (pcs s t)" by simp
  note slot = mem_inv_slot [OF inv h]
  show ?thesis
  proof (rule mem_inv_own [OF inv h, where v = Leaving and f = Failed])
    show "fate_inv s' (slot_of s t)"
      using terminate slot
      by (auto simp: fate_inv_def Let_def slot_inv_def)
  qed (use terminate slot in auto)
qed (rule mem_inv_move [OF inv, where t = t]; simp)+

section \<open>Reachable states\<close>

definition lin_inv :: "nat \<Rightarrow> sys \<Rightarrow> bool" where
  "lin_inv nthreads s \<longleftrightarrow> count_inv nthreads s \<and> index_inv s \<and> mem_inv s"

lemma lin_inv_init: "span_ok d \<Longrightarrow> nthreads < 2 ^ 64 \<Longrightarrow> lin_inv nthreads (init_sys d)"
  by (simp add: lin_inv_def init_sys_def fresh_block_def count_inv_def index_inv_def mem_inv_def
      active_def inside_def readies_def settled_def)

lemma lin_inv_step: "lin_inv nthreads s \<Longrightarrow> t < nthreads \<Longrightarrow> wstep t s s' \<Longrightarrow> lin_inv nthreads s'"
  by (auto simp: lin_inv_def intro: count_inv_step index_inv_step mem_inv_step)

lemma reach_inv:
  assumes "reach nthreads d s" "span_ok d" "nthreads < 2 ^ 64"
  shows "lin_inv nthreads s"
  using assms by (induction rule: reach.induct) (auto intro: lin_inv_init lin_inv_step)

section \<open>What the consumer of a released block reads\<close>

definition payload_of :: "fate \<Rightarrow> bytes" where
  "payload_of f = (case f of Done p \<Rightarrow> p | _ \<Rightarrow> [])"

definition is_done :: "fate \<Rightarrow> bool" where
  "is_done f \<longleftrightarrow> (case f of Done p \<Rightarrow> True | _ \<Rightarrow> False)"

text \<open>The records of the successful writers, in the order of their reservations.\<close>

definition committed :: "sys \<Rightarrow> bytes list" where
  "committed s = map (\<lambda>i. payload_of (fates s i)) (filter (\<lambda>i. is_done (fates s i)) [0..<length (lens s)])"

lemma done_prefix_layout:
  assumes inv: "mem_inv s" "index_inv s" and k: "k \<le> length (lens s)" "\<forall>i<k. is_done (fates s i)"
  shows "length (layout (map (\<lambda>i. payload_of (fates s i)) [0..<k])) = offs (lens s) k
    \<and> take (offs (lens s) k) (lcb_data (blk s)) = layout (map (\<lambda>i. payload_of (fates s i)) [0..<k])
    \<and> offs (lens s) k \<le> length (lcb_data (blk s))
    \<and> list_all small (map (\<lambda>i. payload_of (fates s i)) [0..<k])"
  using k
proof (induction k)
  case (Suc k)
  let ?d = "lcb_data (blk s)" and ?o = "offs (lens s) k" and ?n = "lens s ! k"
  from Suc.prems obtain p where p: "fates s k = Done p"
    by (cases "fates s k") (auto simp: is_done_def)
  have "fate_inv s k" using inv(1) Suc.prems by (simp add: mem_inv_def)
  with p have slot: "length p = ?n" "?o + 8 + ?n \<le> length ?d" "subspan ?o (8 + ?n) ?d = entry p"
    by (simp_all add: fate_inv_def Let_def)
  have "small p"
    using slot(1) inv(2) Suc.prems by (simp add: small_def index_inv_def)
  moreover have "take (?o + (8 + ?n)) ?d = take ?o ?d @ entry p"
    using slot(3) by (simp add: take_add subspan_def)
  ultimately show ?case
    using Suc p slot by (simp add: payload_of_def add.assoc)
qed simp

lemma settled_fates:
  assumes "mem_inv s" "i < length (lens s)" "\<not> is_pending (fates s i)"
  shows "is_done (fates s i) \<longleftrightarrow> offs (lens s) i + 8 + lens s ! i \<le> length (lcb_data (blk s))"
proof -
  have "fate_inv s i" using assms by (simp add: mem_inv_def)
  with assms(3) show ?thesis
    by (cases "fates s i") (auto simp: fate_inv_def Let_def is_pending_def is_done_def)
qed

lemma filter_prefix:
  assumes "k \<le> m" "\<forall>i<k. P i" "\<forall>i. k \<le> i \<and> i < m \<longrightarrow> \<not> P i"
  shows "filter P [0..<m] = [0..<k]"
proof -
  have "[0..<m] = [0..<k] @ [k..<m]" using assms(1) by (metis le0 upt_add_eq_append le_add_diff_inverse)
  moreover have "filter P [0..<k] = [0..<k]" using assms(2) by simp
  moreover have "filter P [k..<m] = []" using assms(3) by simp
  ultimately show ?thesis by simp
qed

lemma quiescent_contents:
  assumes inv: "mem_inv s" "index_inv s" and quiet: "written_index (blk s) = acquired_index (blk s)"
  shows "block_contents (blk s) = committed s"
proof -
  let ?d = "lcb_data (blk s)" and ?m = "length (lens s)" and ?w = "unat (written_index (blk s))"
  let ?fits = "\<lambda>i. offs (lens s) i + 8 + lens s ! i \<le> length ?d"
  have w: "?w = offs (lens s) ?m" and "settled (lens s) (fates s) = offs (lens s) ?m"
    using inv(2) quiet by (auto simp: index_inv_def)
  then have np: "\<not> is_pending (fates s i)" if "i < ?m" for i using that by (intro settled_all)
  have done_iff: "is_done (fates s i) \<longleftrightarrow> ?fits i" if "i < ?m" for i
    using settled_fates [OF inv(1) that np [OF that]] .
  define k where "k = (LEAST k. k = ?m \<or> \<not> ?fits k)"
  have k: "k = ?m \<or> \<not> ?fits k" unfolding k_def by (rule LeastI [of _ ?m]) simp
  have before: "?fits i \<and> i \<noteq> ?m" if "i < k" for i using that unfolding k_def by (auto dest: not_less_Least)
  have km: "k \<le> ?m" using Least_le [of "\<lambda>k. k = ?m \<or> \<not> ?fits k" ?m] by (simp add: k_def)
  have after: "\<not> ?fits i" if "k \<le> i" "i < ?m" for i
    using that k offs_mono [of "Suc k" i "lens s"] by (cases "i = k") auto
  have comm: "committed s = map (\<lambda>i. payload_of (fates s i)) [0..<k]"
    unfolding committed_def using km before after done_iff
    by (subst filter_prefix [of k]) auto
  have "\<forall>i<k. is_done (fates s i)" using before done_iff km by auto
  note lay = done_prefix_layout [OF inv km this]
  have "log_stops (take ?w ?d) (offs (lens s) k)"
  proof (cases "k = ?m")
    case True
    then show ?thesis using w by (auto simp: log_stops_def min_def)
  next
    case False
    with k km have nofit: "length ?d < offs (lens s) k + 8 + lens s ! k" "k < ?m" by auto
    then have "length ?d < ?w" using w offs_disjoint [of k ?m "lens s"] by simp
    moreover have "offs (lens s) k + 8 \<le> length ?d \<longrightarrow> le_value (subspan (offs (lens s) k) 8 ?d) = lens s ! k"
      using inv(1) nofit np [of k] done_iff [of k]
      by (cases "fates s k") (auto simp: mem_inv_def fate_inv_def Let_def is_pending_def is_done_def)
    ultimately show ?thesis using nofit by (auto simp: log_stops_def)
  qed
  moreover have "offs (lens s) k \<le> ?w" using w km by (simp add: offs_mono)
  ultimately show ?thesis
    using inv(1) lay unfolding block_contents_def comm
    by (intro ReadAll_block) (auto simp: mem_inv_def)
qed

section \<open>An uninterrupted call is the sequential operation\<close>

lemmas star_step = rtranclp.rtrancl_into_rtrancl

lemma solo_append:
  assumes idle: "pcs s t = Idle" and ok: "span_ok (lcb_data (blk s))" and p: "small p"
    and app: "append_record (blk s) p = Some b"
  shows "\<exists>s1 s'. wstep t s s1 \<and> pcs s1 t = Entered (word_of_nat (length p)) \<and> (wstep t)\<^sup>*\<^sup>* s1 s' \<and> blk s' = b \<and> pcs s' = pcs s
    \<and> lens s' = lens s @ [length p] \<and> fates s' = (fates s)(length (lens s) := Done p)"
proof -
  let ?n = "word_of_nat (length p) :: u64"
  let ?b1 = "(blk s)\<lparr>number_of_writers := number_of_writers (blk s) + 1\<rparr>"
  let ?off = "acquired_index (blk s)"
  have n: "unat ?n = length p" using p by (rule unat_length_small)
  have acc: "accepts_writer ?b1 ?n" "accepts_offset ?b1 ?n"
    using app by (auto simp: append_record_def LinearWriter_Acquire_def CheckAndGetAcquireOffset_def
        Let_def accepts_writer_def accepts_offset_def split: if_splits)
  then have fit: "unat ?off + 8 + length p \<le> length (lcb_data (blk s))"
    using ok n by (simp add: accepts_offset_def fits_iff unat_total accepts_writer_def word_less_nat_alt)
  have off: "unat (?off + GetLengthOffsetBytes) = unat ?off + 8"
    using fit ok by (intro slot_head [of _ _ "lcb_data (blk s)"]) simp_all
  let ?s1 = "s\<lparr>blk := ?b1, pcs := (pcs s)(t := Entered ?n)\<rparr>"
  let ?s2 = "?s1\<lparr>pcs := (pcs s)(t := Guarded ?n)\<rparr>"
  let ?s3 = "?s1\<lparr>pcs := (pcs s)(t := Ready ?n)\<rparr>"
  let ?s4 = "add_step t ?n ?s3"
  let ?s5 = "?s4\<lparr>blk := (blk ?s4)\<lparr>lcb_data := put_at (unat ?off) (le64 ?n) (lcb_data (blk ?s4))\<rparr>,
      pcs := (pcs ?s4)(t := Writing ?off ?n)\<rparr>"
  let ?s6 = "?s5\<lparr>blk := (blk ?s5)\<lparr>lcb_data :=
      put_at (unat (?off + GetLengthOffsetBytes) + 0) p (lcb_data (blk ?s5))\<rparr>\<rparr>"
  let ?s7 = "?s6\<lparr>blk := (blk ?s6)\<lparr>written_index := written_index (blk ?s6) + (?n + GetLengthOffsetBytes)\<rparr>,
      pcs := (pcs ?s6)(t := Leaving), fates := (fates ?s6)(slot_of ?s6 t :=
        Done (subspan (unat (?off + GetLengthOffsetBytes)) (unat ?n) (lcb_data (blk ?s6))))\<rparr>"
  let ?s8 = "?s7\<lparr>blk := (blk ?s7)\<lparr>number_of_writers := number_of_writers (blk ?s7) - 1\<rparr>,
      pcs := (pcs ?s7)(t := Idle)\<rparr>"
  have enter: "wstep t s ?s1" "pcs ?s1 t = Entered ?n" using wstep.enter [OF idle] by simp_all
  have "wstep t ?s1 ?s2" using wstep.guard [of ?s1 t ?n] acc(1) by simp
  moreover have "wstep t ?s2 ?s3" using wstep.load [of ?s2 t ?n] acc(2) by simp
  moreover have "wstep t ?s3 ?s4" by (rule wstep.add) simp
  moreover have "pcs ?s4 t = Reserved ?off ?n"
    using acc(2) by (simp add: add_step_def Let_def accepts_offset_def)
  then have "wstep t ?s4 ?s5" by (rule wstep.put_length)
  moreover have "wstep t ?s5 ?s6" by (rule wstep.put_payload [where n = ?n]) (use n in simp_all)
  moreover have "wstep t ?s6 ?s7" by (rule wstep.release) simp
  moreover have "wstep t ?s7 ?s8" by (rule wstep.leave) simp
  ultimately have "(wstep t)\<^sup>*\<^sup>* ?s1 ?s8"
    by (meson rtranclp.rtrancl_refl star_step)
  moreover have "blk ?s8 = b"
    using app acc by (auto simp: append_record_def LinearWriter_Acquire_def CheckAndGetAcquireOffset_def
        LinearWriter_Release_def write_acquired_def Let_def accepts_writer_def accepts_offset_def
        add_step_def split: if_splits)
  moreover have "subspan (unat ?off + 8) (length p) (lcb_data (blk ?s6)) = p"
    using fit off by (simp add: add_step_def Let_def mem_simps)
  then have "fates ?s8 = (fates s)(length (lens s) := Done p)"
    using n off by (simp add: add_step_def Let_def)
  moreover have "pcs ?s8 = pcs s" "lens ?s8 = lens s @ [length p]"
    using idle n by (auto simp: add_step_def Let_def)
  ultimately show ?thesis using enter by blast
qed

lemma solo_refused:
  assumes idle: "pcs s t = Idle" and app: "append_record (blk s) p = None"
  shows "\<exists>s1 s'. wstep t s s1 \<and> pcs s1 t = Entered (word_of_nat (length p)) \<and> (wstep t)\<^sup>*\<^sup>* s1 s' \<and>
    blk s' = snd (LinearWriter_Acquire id (blk s) (word_of_nat (length p))) \<and> pcs s' = pcs s \<and> lens s' = lens s \<and> fates s' = fates s"
proof -
  let ?n = "word_of_nat (length p) :: u64"
  let ?b1 = "(blk s)\<lparr>number_of_writers := number_of_writers (blk s) + 1\<rparr>"
  let ?s1 = "s\<lparr>blk := ?b1, pcs := (pcs s)(t := Entered ?n)\<rparr>"
  let ?s2 = "?s1\<lparr>pcs := (pcs s)(t := Guarded ?n)\<rparr>"
  let ?s3 = "?s1\<lparr>pcs := (pcs s)(t := Leaving)\<rparr>"
  let ?s4 = "?s3\<lparr>blk := (blk ?s3)\<lparr>number_of_writers := number_of_writers (blk ?s3) - 1\<rparr>,
      pcs := (pcs ?s3)(t := Idle)\<rparr>"
  have rej: "\<not> (accepts_writer ?b1 ?n \<and> accepts_offset ?b1 ?n)"
    using app by (auto simp: append_record_def LinearWriter_Acquire_def CheckAndGetAcquireOffset_def
        Let_def accepts_writer_def accepts_offset_def split: if_splits)
  have enter: "wstep t s ?s1" "pcs ?s1 t = Entered ?n" using wstep.enter [OF idle] by simp_all
  have "(wstep t)\<^sup>*\<^sup>* ?s1 ?s3"
  proof (cases "accepts_writer ?b1 ?n")
    case True
    then have "wstep t ?s1 ?s2" using wstep.guard [of ?s1 t ?n] by simp
    moreover have "wstep t ?s2 ?s3" using wstep.load [of ?s2 t ?n] True rej by simp
    ultimately show ?thesis by (meson rtranclp.rtrancl_refl star_step)
  next
    case False
    then have "wstep t ?s1 ?s3" using wstep.guard [of ?s1 t ?n] by simp
    then show ?thesis by blast
  qed
  moreover have "wstep t ?s3 ?s4" by (rule wstep.leave) simp
  ultimately have "(wstep t)\<^sup>*\<^sup>* ?s1 ?s4" by (rule star_step)
  moreover have "blk ?s4 = snd (LinearWriter_Acquire id (blk s) ?n)"
    using rej by (auto simp: LinearWriter_Acquire_def CheckAndGetAcquireOffset_def Let_def accepts_writer_def accepts_offset_def)
  moreover have "pcs ?s4 = pcs s" "lens ?s4 = lens s" "fates ?s4 = fates s" using idle by auto
  ultimately show ?thesis using enter by blast
qed

lemma reach_star:
  assumes "(wstep t)\<^sup>*\<^sup>* s s'" "reach nthreads d s" "t < nthreads"
  shows "reach nthreads d s'"
  using assms by (induction rule: rtranclp_induct) (auto intro: reach.step)

section \<open>Properties of the wait-free linear buffer\<close>

text \<open>C3: When no writer is inside a linear buffer and \<^verbatim>\<open>written_index\<close> equals
  \<^verbatim>\<open>acquired_index\<close> (the test of \<^verbatim>\<open>IsBlockReleasedByWriters\<close>), the linear reader returns
  exactly the payloads the writers had in their spans when they released them, in the
  order of their reservations, whatever the interleaving: nothing is lost, duplicated,
  reordered or torn, and marks of failed acquisitions are never read as records.\<close>

theorem released_block_reads_committed:
  assumes "reach nthreads d s" "span_ok d" "nthreads < 2 ^ 64"
    and "number_of_writers (blk s) = 0" "written_index (blk s) = acquired_index (blk s)"
  shows "block_contents (blk s) = committed s \<and> (\<forall>t. pcs s t = Idle)"
proof
  have inv: "lin_inv nthreads s" using assms(1-3) by (rule reach_inv)
  then show "block_contents (blk s) = committed s"
    using assms(5) by (intro quiescent_contents) (simp_all add: lin_inv_def)
  have cnt: "count_inv nthreads s" using inv by (simp add: lin_inv_def)
  then have "card (active (pcs s)) = 0" using assms(4) by (simp add: count_inv_def)
  then have "active (pcs s) = {}" using count_inv_finite(1) [OF cnt] by simp
  then show "\<forall>t. pcs s t = Idle" by (simp add: active_def)
qed

lemma reach_example:
  assumes d: "span_ok d" "length p + 8 \<le> length d" and p: "small p"
  shows "\<exists>s. reach 1 d s \<and> number_of_writers (blk s) = 0
    \<and> written_index (blk s) = acquired_index (blk s) \<and> committed s = [p]"
proof -
  have log: "holds_log (fresh_block d) []" "length p + 8 \<le> block_room (fresh_block d)"
    "number_of_writers (fresh_block d) < GetMaxNumberOfConcurrentWriters"
    using d by (simp_all add: holds_log_def fresh_block_def block_room_def linear_limits)
  obtain b where b: "append_record (fresh_block d) p = Some b" "holds_log b [p]"
    "number_of_writers b = number_of_writers (fresh_block d)"
    using append_record_holds [OF log(1) p log(3,2)] by auto
  have i: "pcs (init_sys d) 0 = Idle" "span_ok (lcb_data (blk (init_sys d)))" "blk (init_sys d) = fresh_block d"
    using d by (simp_all add: init_sys_def fresh_block_def)
  obtain s1 s where "wstep 0 (init_sys d) s1" "(wstep 0)\<^sup>*\<^sup>* s1 s" and s: "blk s = b" "lens s = lens (init_sys d) @ [length p]"
    "fates s = (fates (init_sys d))(length (lens (init_sys d)) := Done p)"
    using solo_append [OF i(1,2) p, of b] i(3) b(1) by auto
  then have star: "(wstep 0)\<^sup>*\<^sup>* (init_sys d) s" by simp
  have "reach 1 d s" by (intro reach_star [OF star reach.start]) simp
  moreover have "committed s = [p]"
    using s(2,3) by (simp add: committed_def is_done_def payload_of_def init_sys_def)
  moreover have "number_of_writers b = 0" "written_index b = acquired_index b"
    using b(2,3) by (simp_all add: fresh_block_def holds_log_def)
  ultimately show ?thesis using s(1) by blast
qed

theorem released_block_reads_committed_witness:
  "\<exists>s. reach 1 (replicate 32 0) s \<and> block_contents (blk s) = committed s \<and> committed s = [[7, 9]]"
proof -
  obtain s where s: "reach 1 (replicate 32 0) s" "number_of_writers (blk s) = 0"
    "written_index (blk s) = acquired_index (blk s)" "committed s = [[7, 9]]"
    using reach_example [of "replicate 32 0" "[7, 9]"] by (auto simp: span_ok_def small_def)
  moreover have "span_ok (replicate 32 0 :: bytes)" by (simp add: span_ok_def)
  ultimately show ?thesis
    using released_block_reads_committed [of 1 "replicate 32 0" s] by auto
qed

text \<open>C6: Two threads that hold acquired spans at the same time never share a byte, length
  prefix included, and every acquired span lies inside the buffer.\<close>

theorem acquired_spans_disjoint:
  assumes "reach nthreads d s" "span_ok d" "nthreads < 2 ^ 64"
    and "pcs s t = Writing off n" "pcs s t' = Writing off' n'" "t \<noteq> t'"
  shows "unat off + 8 + unat n \<le> length (lcb_data (blk s))
    \<and> (unat off + 8 + unat n \<le> unat off' \<or> unat off' + 8 + unat n' \<le> unat off)"
proof -
  have mem: "mem_inv s" using reach_inv [OF assms(1-3)] by (simp add: lin_inv_def)
  note slot = mem_inv_slot [OF mem, of t] and slot' = mem_inv_slot [OF mem, of t']
  have "slot_of s t \<noteq> slot_of s t'" using slot(2) slot'(2) assms(4-6) by auto
  then show ?thesis
    using slot slot' assms(4,5) offs_disjoint [of "slot_of s t" "slot_of s t'" "lens s"]
      offs_disjoint [of "slot_of s t'" "slot_of s t" "lens s"]
    by (cases "slot_of s t < slot_of s t'") (auto simp: slot_inv_def)
qed

text \<open>The two threads of the witness: each runs up to the point where it fills its span.\<close>

lemma two_writers:
  "\<exists>s. reach 2 (replicate 64 0) s \<and> pcs s 0 = Writing 0 4 \<and> pcs s 1 = Writing 12 2"
proof -
  let ?s0 = "init_sys (replicate 64 0)"
  define go where "go = (\<lambda>t n (s::sys).
    let s1 = s\<lparr>blk := (blk s)\<lparr>number_of_writers := number_of_writers (blk s) + 1\<rparr>, pcs := (pcs s)(t := Ready n)\<rparr>;
        s2 = add_step t n s1
    in s2\<lparr>blk := (blk s2)\<lparr>lcb_data := put_at (unat (acquired_index (blk s))) (le64 n) (lcb_data (blk s2))\<rparr>,
          pcs := (pcs s2)(t := Writing (acquired_index (blk s)) n)\<rparr>)"
  have run: "reach 2 (replicate 64 0) (go t n s)"
    if r: "reach 2 (replicate 64 0) s" and t: "t < 2" and i: "pcs s t = Idle"
      and w: "accepts_writer ((blk s)\<lparr>number_of_writers := number_of_writers (blk s) + 1\<rparr>) n"
      and a: "accepts_offset ((blk s)\<lparr>number_of_writers := number_of_writers (blk s) + 1\<rparr>) n" for t n s
  proof -
    let ?b = "(blk s)\<lparr>number_of_writers := number_of_writers (blk s) + 1\<rparr>"
    let ?e = "s\<lparr>blk := ?b, pcs := (pcs s)(t := Entered n)\<rparr>"
    have "reach 2 (replicate 64 0) ?e" using reach.step [OF r t wstep.enter [OF i]] .
    then have "reach 2 (replicate 64 0) (?e\<lparr>pcs := (pcs s)(t := Guarded n)\<rparr>)"
      using reach.step [OF _ t wstep.guard [of ?e t n]] w by simp
    then have "reach 2 (replicate 64 0) (?e\<lparr>pcs := (pcs s)(t := Ready n)\<rparr>)"
      using reach.step [OF _ t wstep.load [of "?e\<lparr>pcs := (pcs s)(t := Guarded n)\<rparr>" t n]] a by simp
    then have add: "reach 2 (replicate 64 0) (add_step t n (?e\<lparr>pcs := (pcs s)(t := Ready n)\<rparr>))"
      by (rule reach.step [OF _ t wstep.add]) simp
    have "pcs (add_step t n (?e\<lparr>pcs := (pcs s)(t := Ready n)\<rparr>)) t = Reserved (acquired_index (blk s)) n"
      using a by (simp add: add_step_def Let_def accepts_offset_def)
    from reach.step [OF add t wstep.put_length [OF this]] show ?thesis
      by (simp add: go_def Let_def)
  qed
  have r1: "reach 2 (replicate 64 0) (go 0 4 ?s0)"
    by (rule run [OF reach.start]) (simp_all add: init_sys_def fresh_block_def accepts_writer_def
        accepts_offset_def linear_limits fits_iff span_ok_def)
  have ok1: "length (lcb_data (blk (go 0 4 ?s0))) = 64"
    by (simp add: go_def Let_def add_step_def init_sys_def fresh_block_def)
  have "reach 2 (replicate 64 0) (go 1 2 (go 0 4 ?s0))"
  proof (rule run [OF r1])
    show "accepts_offset ((blk (go 0 4 ?s0))\<lparr>number_of_writers := number_of_writers (blk (go 0 4 ?s0)) + 1\<rparr>) 2"
      using ok1 by (simp add: accepts_offset_def fits_iff span_ok_def)
        (simp add: go_def Let_def add_step_def init_sys_def fresh_block_def linear_limits)
  qed (simp_all add: go_def Let_def add_step_def init_sys_def fresh_block_def accepts_writer_def linear_limits)
  moreover have "pcs (go 1 2 (go 0 4 ?s0)) 0 = Writing 0 4" "pcs (go 1 2 (go 0 4 ?s0)) 1 = Writing 12 2"
    by (simp_all add: go_def Let_def add_step_def init_sys_def fresh_block_def linear_limits)
  ultimately show ?thesis by blast
qed

theorem acquired_spans_disjoint_witness:
  "\<exists>s. reach 2 (replicate 64 0) s \<and> pcs s 0 = Writing 0 4 \<and> pcs s 1 = Writing 12 2
    \<and> unat (0 :: u64) + 8 + unat (4 :: u64) \<le> length (lcb_data (blk s))"
proof -
  obtain s where s: "reach 2 (replicate 64 0) s" "pcs s 0 = Writing 0 4" "pcs s 1 = Writing 12 2"
    using two_writers by blast
  have "span_ok (replicate 64 0 :: bytes)" by (simp add: span_ok_def)
  from acquired_spans_disjoint [OF s(1) this _ s(2,3)] s show ?thesis by auto
qed

text \<open>C16: The 64-bit counters never wrap, for any number of threads and any
  interleaving: \<^verbatim>\<open>acquired_index\<close> is the exact sum of all reservations and never
  decreases, \<^verbatim>\<open>written_index\<close> is the exact sum of those that are no longer pending and never passes it,
  \<^verbatim>\<open>number_of_writers\<close> is the exact number of threads inside, and at most 64 threads
  are past the guard.\<close>

theorem counters_never_wrap:
  assumes "reach nthreads d s" "span_ok d" "nthreads < 2 ^ 64" "t < nthreads" "wstep t s s'"
  shows "unat (acquired_index (blk s')) = sum_list (map (\<lambda>l. 8 + l) (lens s'))
    \<and> acquired_index (blk s) \<le> acquired_index (blk s')
    \<and> unat (written_index (blk s')) = (\<Sum>i<length (lens s'). if is_pending (fates s' i) then 0 else 8 + lens s' ! i)
    \<and> written_index (blk s') \<le> acquired_index (blk s')
    \<and> unat (number_of_writers (blk s')) = card {t. pcs s' t \<noteq> Idle}
    \<and> card {t. past_guard (pcs s' t)} \<le> 64"
proof -
  have inv: "lin_inv nthreads s" "lin_inv nthreads s'"
    using reach_inv [OF assms(1-3)] lin_inv_step assms(4,5) by blast+
  then have idx: "index_inv s" "index_inv s'" and cnt: "count_inv nthreads s'"
    by (simp_all add: lin_inv_def)
  have "\<exists>ls. lens s' = lens s @ ls"
    using assms(5) by cases (auto simp: add_step_def mark_step_def Let_def)
  then have "offs (lens s) (length (lens s)) \<le> offs (lens s') (length (lens s'))"
    by (auto simp: offs_def)
  moreover have "offs (lens s') (length (lens s')) = sum_list (map (\<lambda>l. 8 + l) (lens s'))"
    by (simp add: offs_def)
  ultimately show ?thesis
    using idx cnt settled_le [of "lens s'" "fates s'"]
    by (simp add: index_inv_def count_inv_def word_le_nat_alt active_def inside_def settled_def)
qed

theorem counters_never_wrap_witness:
  "wstep 0 (init_sys (replicate 16 0))
     ((init_sys (replicate 16 0))\<lparr>blk := (blk (init_sys (replicate 16 0)))\<lparr>number_of_writers := 1\<rparr>,
       pcs := (pcs (init_sys (replicate 16 0)))(0 := Entered 5)\<rparr>)
   \<and> unat (1 :: u64) = card {t. ((pcs (init_sys (replicate 16 0)))(0 := Entered 5)) t \<noteq> Idle}"
proof -
  let ?s = "init_sys (replicate 16 0)"
  let ?s' = "?s\<lparr>blk := (blk ?s)\<lparr>number_of_writers := 1\<rparr>, pcs := (pcs ?s)(0 := Entered 5)\<rparr>"
  have step: "wstep 0 ?s ?s'"
    using wstep.enter [of ?s 0 5] by (simp add: init_sys_def fresh_block_def)
  have "span_ok (replicate 16 0 :: bytes)" by (simp add: span_ok_def)
  from counters_never_wrap [OF reach.start [of 1] this _ _ step]
  have "unat (number_of_writers (blk ?s')) = card {t. pcs ?s' t \<noteq> Idle}" by simp
  with step show ?thesis by (simp only: sys.simps LinearControlBlock.simps) simp
qed

fun rank :: "wpc \<Rightarrow> nat" where
  "rank Idle = 0" | "rank Leaving = 1" | "rank (Writing off n) = 2" | "rank (Marked off n) = 2"
| "rank (Reserved off n) = 3" | "rank (Overrun off n) = 3" | "rank (Ready n) = 4"
| "rank (Guarded n) = 5" | "rank (Entered n) = 6"

lemma rank_progress:
  assumes "pcs s t \<noteq> Idle"
  shows "\<exists>s'. wstep t s s' \<and> rank (pcs s' t) < rank (pcs s t)"
proof (cases "pcs s t")
  case (Entered n)
  from wstep.guard [OF this] Entered show ?thesis by fastforce
next
  case (Guarded n)
  from wstep.load [OF this] Guarded show ?thesis by fastforce
next
  case (Ready n)
  from wstep.add [OF this] Ready show ?thesis by (fastforce simp: add_step_def Let_def)
next
  case (Reserved off n)
  from wstep.put_length [OF this] Reserved show ?thesis by fastforce
next
  case (Writing off n)
  from wstep.release [OF this] Writing show ?thesis by fastforce
next
  case (Overrun off n)
  from wstep.mark [OF this] Overrun show ?thesis by (fastforce simp: mark_step_def Let_def)
next
  case (Marked off n)
  from wstep.terminate [OF this] Marked show ?thesis by fastforce
next
  case Leaving
  from wstep.leave [OF this] Leaving show ?thesis by fastforce
qed (use assms in simp)

lemma rank_step:
  "wstep t s s' \<Longrightarrow> rank (pcs s' t) < rank (pcs s t) \<or> pcs s t = Idle
    \<or> (\<exists>off n. pcs s t = Writing off n \<and> pcs s' t = Writing off n)"
  by (erule wstep.cases) (auto simp: add_step_def mark_step_def Let_def)

lemma others_keep_pc: "wstep t' s s' \<Longrightarrow> t' \<noteq> t \<Longrightarrow> pcs s' t = pcs s t"
  by (erule wstep.cases) (auto simp: add_step_def mark_step_def Let_def)

lemma rank_le: "rank pc \<le> 6"
  by (cases pc) simp_all

section \<open>Calls end\<close>

text \<open>
  What happens while thread \<open>t\<close> is in a call: steps of other threads, copies of its client into
  its span, and its own steps, which are counted.
\<close>

inductive call_run :: "nat \<Rightarrow> nat \<Rightarrow> sys \<Rightarrow> nat \<Rightarrow> sys \<Rightarrow> bool" for nthreads t s where
  start: "call_run nthreads t s 0 s"
| other: "call_run nthreads t s k s1 \<Longrightarrow> t' < nthreads \<Longrightarrow> t' \<noteq> t \<Longrightarrow> wstep t' s1 s2 \<Longrightarrow> call_run nthreads t s k s2"
| fill: "call_run nthreads t s k s1 \<Longrightarrow> pcs s1 t = Writing off n \<Longrightarrow> wstep t s1 s2 \<Longrightarrow> pcs s2 t = Writing off n \<Longrightarrow>
    call_run nthreads t s k s2"
| own: "call_run nthreads t s k s1 \<Longrightarrow> pcs s1 t \<noteq> Idle \<Longrightarrow> wstep t s1 s2 \<Longrightarrow> pcs s2 t \<noteq> pcs s1 t \<Longrightarrow>
    call_run nthreads t s (Suc k) s2"

lemma call_run_rank: "call_run nthreads t s k s' \<Longrightarrow> k + rank (pcs s' t) \<le> rank (pcs s t)"
proof (induction rule: call_run.induct)
  case (other k s1 t' s2)
  then show ?case using others_keep_pc [OF other(4), of t] by simp
next
  case (own k s1 s2)
  then show ?case using rank_step [OF own(3)] by auto
qed simp_all

lemma rank_zero: "rank pc = 0 \<longleftrightarrow> pc = Idle"
  by (cases pc) simp_all

text \<open>Any thread inside can finish alone; then the whole block is given back.\<close>

abbreviation steps :: "nat \<Rightarrow> sys \<Rightarrow> sys \<Rightarrow> bool" where
  "steps nthreads \<equiv> (\<lambda>s s'. \<exists>t < nthreads. wstep t s s')\<^sup>*\<^sup>*"

lemma finish_call:
  assumes "t < nthreads"
  shows "\<exists>s'. steps nthreads s s' \<and> pcs s' = (pcs s)(t := Idle)"
proof (induction "rank (pcs s t)" arbitrary: s rule: less_induct)
  case less
  show ?case
  proof (cases "pcs s t = Idle")
    case True
    then have "pcs s = (pcs s)(t := Idle)" by (metis fun_upd_triv)
    then show ?thesis by blast
  next
    case False
    obtain s1 where s1: "wstep t s s1" "rank (pcs s1 t) < rank (pcs s t)" using rank_progress [OF False] by blast
    obtain s' where s': "steps nthreads s1 s'" "pcs s' = (pcs s1)(t := Idle)" using less [OF s1(2)] by blast
    have "(pcs s1)(t := Idle) = (pcs s)(t := Idle)" using others_keep_pc [OF s1(1)] by fastforce
    moreover have "steps nthreads s s'" by (rule converse_rtranclp_into_rtranclp [OF _ s'(1)]) (use s1(1) assms in blast)
    ultimately show ?thesis using s'(2) by metis
  qed
qed

lemma finish_all: "\<exists>s'. steps nthreads s s' \<and> (\<forall>t < nthreads. pcs s' t = Idle)"
proof -
  have "\<exists>s'. steps nthreads s s' \<and> (\<forall>t < m. pcs s' t = Idle)" if "m \<le> nthreads" for m
    using that
  proof (induction m)
    case (Suc m)
    then obtain s1 where s1: "steps nthreads s s1" "\<forall>t < m. pcs s1 t = Idle" by auto
    obtain s2 where "steps nthreads s1 s2" "pcs s2 = (pcs s1)(m := Idle)" using finish_call [of m nthreads s1] Suc.prems by auto
    with s1 show ?case by (intro exI [of _ s2]) (auto simp: less_Suc_eq)
  qed auto
  then show ?thesis by blast
qed

lemma reach_steps: "steps nthreads s s' \<Longrightarrow> reach nthreads d s \<Longrightarrow> reach nthreads d s'"
  by (induction rule: rtranclp_induct) (auto intro: reach.step)

lemma all_idle_released:
  assumes "lin_inv nthreads s" "\<forall>t < nthreads. pcs s t = Idle"
  shows "number_of_writers (blk s) = 0" "written_index (blk s) = acquired_index (blk s)"
proof -
  have inv: "count_inv nthreads s" "index_inv s" "mem_inv s" using assms(1) by (simp_all add: lin_inv_def)
  have idle: "pcs s t = Idle" for t
    using assms(2) inv(1) by (cases "t < nthreads") (auto simp: count_inv_def active_def)
  then show "number_of_writers (blk s) = 0" using inv(1) by (simp add: count_inv_def active_def unat_eq_zero)
  have "\<not> is_pending (fates s i)" if "i < length (lens s)" for i
    using inv(3) that idle by (fastforce simp: mem_inv_def fate_inv_def is_pending_def slot_inv_def Let_def)
  then have "settled (lens s) (fates s) = offs (lens s) (length (lens s))" by (simp add: settled_def offs_sum)
  then show "written_index (blk s) = acquired_index (blk s)" using inv(2) by (simp add: index_inv_def word_unat_eq_iff)
qed

text \<open>C17: The writer is wait-free and gives the block back. In any interleaving a thread that has entered
  a call takes at most six more steps of its own before it is out again, apart from the copies of
  its client into the span. And from every reachable state the threads can finish what they have
  begun, each by its own steps: then no writer is counted any more, \<^verbatim>\<open>written_index\<close> has come up
  with \<^verbatim>\<open>acquired_index\<close>, which is what the consumer waits for, and the block reads as the
  records that were committed.\<close>

theorem writer_wait_free:
  assumes "reach nthreads d s" "span_ok d" "nthreads < 2 ^ 64"
  shows "(\<forall>t k s'. call_run nthreads t s k s' \<longrightarrow> k \<le> 6 \<and> (k = 6 \<longrightarrow> pcs s' t = Idle))
    \<and> (\<exists>s'. steps nthreads s s' \<and> number_of_writers (blk s') = 0 \<and> written_index (blk s') = acquired_index (blk s')
         \<and> block_contents (blk s') = committed s')"
proof
  show "\<forall>t k s'. call_run nthreads t s k s' \<longrightarrow> k \<le> 6 \<and> (k = 6 \<longrightarrow> pcs s' t = Idle)"
  proof (intro allI impI)
    fix t k s' assume "call_run nthreads t s k s'"
    from call_run_rank [OF this] rank_le [of "pcs s t"] rank_zero [of "pcs s' t"]
    show "k \<le> 6 \<and> (k = 6 \<longrightarrow> pcs s' t = Idle)" by auto
  qed
  obtain s' where s': "steps nthreads s s'" "\<forall>t < nthreads. pcs s' t = Idle" using finish_all by blast
  have inv: "lin_inv nthreads s'" using reach_inv [OF reach_steps [OF s'(1) assms(1)] assms(2,3)] .
  note released = all_idle_released [OF inv s'(2)]
  moreover have "block_contents (blk s') = committed s'"
    using inv released(2) by (intro quiescent_contents) (simp_all add: lin_inv_def)
  ultimately show "\<exists>s'. steps nthreads s s' \<and> number_of_writers (blk s') = 0 \<and> written_index (blk s') = acquired_index (blk s')
      \<and> block_contents (blk s') = committed s'"
    using s'(1) by blast
qed

text \<open>Two threads that are filling their spans.\<close>

theorem writer_wait_free_witness:
  "\<exists>s s'. reach 2 (replicate 64 0) s \<and> pcs s 0 = Writing 0 4 \<and> pcs s 1 = Writing 12 2 \<and> steps 2 s s' \<and>
    number_of_writers (blk s') = 0 \<and> written_index (blk s') = acquired_index (blk s')"
proof -
  obtain s where s: "reach 2 (replicate 64 0) s" "pcs s 0 = Writing 0 4" "pcs s 1 = Writing 12 2"
    using two_writers by blast
  have "span_ok (replicate 64 0 :: bytes)" by (simp add: span_ok_def)
  from writer_wait_free [OF s(1) this] s show ?thesis by auto
qed

text \<open>C18: The interleaving model and the sequential one agree: a thread that calls for a span without
  interference turns the control block into exactly what the sequential \<^verbatim>\<open>Acquire\<close>, copy and
  \<^verbatim>\<open>Release\<close> compute, and into what \<^verbatim>\<open>Acquire\<close> alone computes when it refuses.\<close>

theorem uninterrupted_append_is_sequential:
  assumes "pcs s t = Idle" "span_ok (lcb_data (blk s))" "small p"
  shows "\<exists>s1 s'. wstep t s s1 \<and> pcs s1 t = Entered (word_of_nat (length p)) \<and> (wstep t)\<^sup>*\<^sup>* s1 s' \<and> pcs s' = pcs s
    \<and> blk s' = (case LinearWriter_Acquire id (blk s) (word_of_nat (length p)) of
        (None, cb) \<Rightarrow> cb
      | (Some ad, cb) \<Rightarrow> LinearWriter_Release ad (write_acquired ad p cb))
    \<and> lens s' = lens s @ (if fst (LinearWriter_Acquire id (blk s) (word_of_nat (length p))) = None then [] else [length p])"
proof (cases "append_record (blk s) p")
  case None
  then have "fst (LinearWriter_Acquire id (blk s) (word_of_nat (length p))) = None"
    by (auto simp: append_record_def split: prod.splits option.splits)
  then show ?thesis using solo_refused [OF assms(1) None] by (auto simp: split_beta)
next
  case (Some b)
  then obtain ad cb where "LinearWriter_Acquire id (blk s) (word_of_nat (length p)) = (Some ad, cb)"
    "b = LinearWriter_Release ad (write_acquired ad p cb)"
    by (auto simp: append_record_def split: prod.splits option.splits)
  then show ?thesis using solo_append [OF assms Some] by auto
qed

text \<open>A record that fits and one that is refused.\<close>

theorem uninterrupted_append_is_sequential_witness:
  "(\<exists>s1 s'. wstep 0 (init_sys (replicate 16 0)) s1 \<and> pcs s1 0 = Entered 1 \<and> (wstep 0)\<^sup>*\<^sup>* s1 s' \<and> pcs s' 0 = Idle \<and>
      written_index (blk s') = 9 \<and> number_of_writers (blk s') = 0) \<and>
   (\<exists>s1 s'. wstep 0 (init_sys [0, 0]) s1 \<and> pcs s1 0 = Entered 1 \<and> (wstep 0)\<^sup>*\<^sup>* s1 s' \<and> pcs s' 0 = Idle \<and> blk s' = fresh_block [0, 0])"
proof
  have idle: "pcs (init_sys d) = (\<lambda>_. Idle)" "blk (init_sys d) = fresh_block d" for d by (simp_all add: init_sys_def)
  have ok: "span_ok (lcb_data (fresh_block (replicate 16 0)))" "span_ok (lcb_data (fresh_block [0, 0]))" "small [3 :: byte]"
    by (simp_all add: fresh_block_def span_ok_def small_def)
  have "LinearWriter_Acquire id (fresh_block (replicate 16 0)) 1 =
     (Some \<lparr>ad_offset = 8, ad_size = 1\<rparr>,
      (fresh_block (replicate 16 0))\<lparr>lcb_data := put_at 0 (le64 1) (replicate 16 0), acquired_index := 9, number_of_writers := 1\<rparr>)"
    using Acquire_ok [OF ok(1), of 1] by (simp add: fresh_block_def linear_limits)
  with uninterrupted_append_is_sequential [of "init_sys (replicate 16 0)" 0 "[3]"] ok
  show "\<exists>s1 s'. wstep 0 (init_sys (replicate 16 0)) s1 \<and> pcs s1 0 = Entered 1 \<and> (wstep 0)\<^sup>*\<^sup>* s1 s' \<and> pcs s' 0 = Idle \<and>
      written_index (blk s') = 9 \<and> number_of_writers (blk s') = 0"
    unfolding idle by (elim impE exE conjE meta_impE; fastforce simp: LinearWriter_Release_def write_acquired_def fresh_block_def linear_limits)
  have "LinearWriter_Acquire id (fresh_block [0, 0]) 1 = (None, fresh_block [0, 0])"
    by (rule Acquire_refused [OF ok(2)]) (simp add: fresh_block_def)
  with uninterrupted_append_is_sequential [of "init_sys [0, 0]" 0 "[3]"] ok
  show "\<exists>s1 s'. wstep 0 (init_sys [0, 0]) s1 \<and> pcs s1 0 = Entered 1 \<and> (wstep 0)\<^sup>*\<^sup>* s1 s' \<and> pcs s' 0 = Idle \<and> blk s' = fresh_block [0, 0]"
    unfolding idle by fastforce
qed

end
