(* ===== verification/AlternatingBuffer.thy ===== *)
theory AlternatingBuffer
  imports LinearBuffer
begin

text \<open>
  The two alternating linear buffers of \<^verbatim>\<open>wait_free_producer_queue\<close>: the control block
  that pairs them (\<^verbatim>\<open>alternating_control_block\<close>), the writer that picks the active
  one (\<^verbatim>\<open>wait_free_alternating_writer\<close>), the switch run on behalf of the reader
  (\<^verbatim>\<open>alternating_reader_proxy\<close>) and the read-only reader (\<^verbatim>\<open>alternating_reader\<close>).

  \<open>AcquireBlock\<close> races with the switch. Its interference is an argument: \<open>env k\<close> is
  whatever the other threads do between two of its atomic accesses, numbered in
  program order; \<open>\<lambda>_ acb. acb\<close> is the uninterrupted call.
\<close>

section \<open>Control block\<close>

datatype AlternatingControlBlockSelectId = kBlockEven | kBlockOdd

record AlternatingControlBlock =
  control_block_even :: LinearControlBlock
  control_block_odd :: LinearControlBlock
  switch_count_points_active_for_writing :: u32

definition InitializeAlternatingControlBlock :: "AlternatingControlBlock \<Rightarrow> AlternatingControlBlock" where
  "InitializeAlternatingControlBlock acb = acb\<lparr>switch_count_points_active_for_writing := 1\<rparr>"

definition SelectLinearControlBlockReference ::
  "AlternatingControlBlockSelectId \<Rightarrow> AlternatingControlBlock \<Rightarrow> LinearControlBlock" where
  "SelectLinearControlBlockReference block_id control =
     (if block_id = kBlockEven then control_block_even control else control_block_odd control)"

text \<open>Assignment through the reference that \<open>SelectLinearControlBlockReference\<close> returns.\<close>

definition upd_block ::
  "AlternatingControlBlockSelectId \<Rightarrow> (LinearControlBlock \<Rightarrow> LinearControlBlock) \<Rightarrow>
   AlternatingControlBlock \<Rightarrow> AlternatingControlBlock" where
  "upd_block block_id f control =
     (if block_id = kBlockEven then control\<lparr>control_block_even := f (control_block_even control)\<rparr>
      else control\<lparr>control_block_odd := f (control_block_odd control)\<rparr>)"

fun GetOppositeLinearControlBlock ::
  "AlternatingControlBlockSelectId \<Rightarrow> AlternatingControlBlockSelectId" where
  "GetOppositeLinearControlBlock kBlockOdd = kBlockEven"
| "GetOppositeLinearControlBlock kBlockEven = kBlockOdd"

definition SelectLinearControlBlockId :: "u32 \<Rightarrow> AlternatingControlBlockSelectId" where
  "SelectLinearControlBlockId count' = (if count' mod 2 = 0 then kBlockEven else kBlockOdd)"

section \<open>Writer\<close>

definition add_writers :: "u64 \<Rightarrow> LinearControlBlock \<Rightarrow> LinearControlBlock" where
  "add_writers k cb = cb\<lparr>number_of_writers := number_of_writers cb + k\<rparr>"

definition ReleaseBlock ::
  "AlternatingControlBlockSelectId \<Rightarrow> AlternatingControlBlock \<Rightarrow> AlternatingControlBlock" where
  "ReleaseBlock block_id acb = upd_block block_id (add_writers (- 1)) acb"

definition AcquireBlock ::
  "(nat \<Rightarrow> AlternatingControlBlock \<Rightarrow> AlternatingControlBlock) \<Rightarrow> u32 \<Rightarrow> AlternatingControlBlock \<Rightarrow>
   AlternatingControlBlockSelectId option \<times> AlternatingControlBlock" where
  "AcquireBlock env loaded_switch_counter_value acb =
     (let candidate = SelectLinearControlBlockId loaded_switch_counter_value;
          acb = upd_block candidate (add_writers 1) (env 0 acb);
          acb = env 1 acb;
          check_counter = switch_count_points_active_for_writing acb;
          second_counter_value = loaded_switch_counter_value + 1
      in if check_counter = loaded_switch_counter_value then (Some candidate, acb)
         else if check_counter = second_counter_value then
           let changed = GetOppositeLinearControlBlock candidate;
               acb = upd_block changed (add_writers 1) (env 2 acb);
               acb = env 3 acb;
               second_check_counter = switch_count_points_active_for_writing acb;
               acb = upd_block candidate (add_writers (- 1)) (env 4 acb)
           in if second_check_counter \<noteq> second_counter_value
              then (None, upd_block changed (add_writers (- 1)) (env 5 acb))
              else (Some changed, acb)
         else (None, upd_block candidate (add_writers (- 1)) (env 2 acb)))"

record AlternatingAcquiredData =
  aad_data :: AcquiredData
  control_block_id :: AlternatingControlBlockSelectId

definition AcquireLinearDataOnAcquiredBlock ::
  "AlternatingControlBlockSelectId \<Rightarrow> u64 \<Rightarrow> AlternatingControlBlock \<Rightarrow>
   AlternatingAcquiredData option \<times> AlternatingControlBlock" where
  "AcquireLinearDataOnAcquiredBlock block_id length' acb =
     (let (acquired_linear_data, cb) =
            LinearWriter_Acquire id (SelectLinearControlBlockReference block_id acb) length';
          acb = upd_block block_id (\<lambda>_. cb) acb
      in case acquired_linear_data of
           Some d \<Rightarrow> (Some \<lparr>aad_data = d, control_block_id = block_id\<rparr>, acb)
         | None \<Rightarrow> (None, acb))"

definition AlternatingWriter_Acquire ::
  "(nat \<Rightarrow> AlternatingControlBlock \<Rightarrow> AlternatingControlBlock) \<Rightarrow> u64 \<Rightarrow> AlternatingControlBlock \<Rightarrow>
   AlternatingAcquiredData option \<times> AlternatingControlBlock" where
  "AlternatingWriter_Acquire env length' acb =
     (let loaded = switch_count_points_active_for_writing acb in
      case AcquireBlock env loaded acb of
        (None, acb) \<Rightarrow> (None, acb)
      | (Some block_id, acb) \<Rightarrow>
          let (acquired_data, acb) = AcquireLinearDataOnAcquiredBlock block_id length' acb
          in (acquired_data, ReleaseBlock block_id acb))"

definition AlternatingWriter_Release ::
  "AlternatingAcquiredData \<Rightarrow> AlternatingControlBlock \<Rightarrow> AlternatingControlBlock" where
  "AlternatingWriter_Release acquired_data acb =
     (if control_block_id acquired_data = kBlockEven
      then upd_block kBlockEven (LinearWriter_Release (aad_data acquired_data)) acb
      else upd_block kBlockOdd (LinearWriter_Release (aad_data acquired_data)) acb)"

section \<open>Switch and read-only reader\<close>

record AlternatingReaderProxy =
  previous_logging_ipc_counter_value :: u32

definition NewAlternatingReaderProxy :: "AlternatingControlBlock \<Rightarrow> AlternatingReaderProxy" where
  "NewAlternatingReaderProxy dcb =
     \<lparr>previous_logging_ipc_counter_value = switch_count_points_active_for_writing dcb\<rparr>"

text \<open>\<^verbatim>\<open>GetSplitBlocks\<close>: the block to restart and the block to terminate.\<close>

definition GetSplitBlocks ::
  "AlternatingControlBlockSelectId \<Rightarrow> AlternatingControlBlockSelectId \<times> AlternatingControlBlockSelectId" where
  "GetSplitBlocks active_for_writing = (GetOppositeLinearControlBlock active_for_writing, active_for_writing)"

definition Switch ::
  "AlternatingReaderProxy \<Rightarrow> AlternatingControlBlock \<Rightarrow>
   u32 \<times> AlternatingReaderProxy \<times> AlternatingControlBlock" where
  "Switch proxy acb =
     (let active_for_writing = SelectLinearControlBlockId (switch_count_points_active_for_writing acb);
          (restarting, terminating) = GetSplitBlocks active_for_writing;
          acb = upd_block restarting (\<lambda>cb. cb\<lparr>acquired_index := 0\<rparr>) acb;
          acb = upd_block restarting (\<lambda>cb. cb\<lparr>written_index := 0\<rparr>) acb;
          save_switch_count = switch_count_points_active_for_writing acb;
          acb = acb\<lparr>switch_count_points_active_for_writing := save_switch_count + 1\<rparr>
      in (save_switch_count,
          proxy\<lparr>previous_logging_ipc_counter_value := save_switch_count + 1\<rparr>, acb))"

text \<open>The spans of the read-only reader, as the bytes they denote when it looks at them.\<close>

record AlternatingReadOnlyReader =
  buffer_even :: bytes
  buffer_odd :: bytes

definition reader_buffer :: "AlternatingReadOnlyReader \<Rightarrow> AlternatingControlBlockSelectId \<Rightarrow> bytes" where
  "reader_buffer r block_id = (if block_id = kBlockEven then buffer_even r else buffer_odd r)"

definition AlternatingReader_CreateLinearReader ::
  "AlternatingReadOnlyReader \<Rightarrow> AlternatingControlBlock \<Rightarrow> u32 \<Rightarrow>
   AlternatingControlBlockSelectId \<times> LinearReader" where
  "AlternatingReader_CreateLinearReader r acb block_id_count =
     (let block_id = SelectLinearControlBlockId block_id_count;
          written_bytes = written_index (SelectLinearControlBlockReference block_id acb)
      in (block_id, CreateLinearReaderFromDataAndLength (reader_buffer r block_id) written_bytes))"

definition AlternatingReader_IsBlockReleasedByWriters :: "AlternatingControlBlock \<Rightarrow> u32 \<Rightarrow> bool" where
  "AlternatingReader_IsBlockReleasedByWriters acb block_id_count =
     (let block_id = SelectLinearControlBlockId block_id_count;
          block = SelectLinearControlBlockReference block_id acb
      in number_of_writers block = 0 \<and> written_index block = acquired_index block)"

section \<open>Selecting and updating blocks\<close>

abbreviation blk_of :: "AlternatingControlBlock \<Rightarrow> AlternatingControlBlockSelectId \<Rightarrow> LinearControlBlock" where
  "blk_of acb b \<equiv> SelectLinearControlBlockReference b acb"

abbreviation active_id :: "AlternatingControlBlock \<Rightarrow> AlternatingControlBlockSelectId" where
  "active_id acb \<equiv> SelectLinearControlBlockId (switch_count_points_active_for_writing acb)"

lemma block_simps [simp]:
  "blk_of (upd_block b f acb) b = f (blk_of acb b)"
  "b \<noteq> b' \<Longrightarrow> blk_of (upd_block b f acb) b' = blk_of acb b'"
  "switch_count_points_active_for_writing (upd_block b f acb) = switch_count_points_active_for_writing acb"
  "upd_block b f (upd_block b g acb) = upd_block b (f \<circ> g) acb"
  "blk_of (acb\<lparr>switch_count_points_active_for_writing := c\<rparr>) b = blk_of acb b"
  by (cases b; cases b'; simp add: SelectLinearControlBlockReference_def upd_block_def)+

lemma upd_block_id: "f (blk_of acb b) = blk_of acb b \<Longrightarrow> upd_block b f acb = acb"
  by (cases b) (simp_all add: SelectLinearControlBlockReference_def upd_block_def)

lemma upd_block_cong: "f (blk_of acb b) = g (blk_of acb b) \<Longrightarrow> upd_block b f acb = upd_block b g acb"
  by (cases b) (simp_all add: SelectLinearControlBlockReference_def upd_block_def)

lemma opposite_simps [simp]:
  "GetOppositeLinearControlBlock b \<noteq> b" "b \<noteq> GetOppositeLinearControlBlock b"
  "GetOppositeLinearControlBlock (GetOppositeLinearControlBlock b) = b"
  by (cases b; simp)+

lemma select_id_succ: "SelectLinearControlBlockId (c + 1) = GetOppositeLinearControlBlock (SelectLinearControlBlockId c)"
  by (simp add: SelectLinearControlBlockId_def even_iff_mod_2_eq_zero [symmetric])

lemma add_writers_simps [simp]:
  "add_writers a (add_writers b cb) = add_writers (b + a) cb" "add_writers 0 cb = cb"
  "lcb_data (add_writers k cb) = lcb_data cb" "acquired_index (add_writers k cb) = acquired_index cb"
  "written_index (add_writers k cb) = written_index cb"
  "number_of_writers (add_writers k cb) = number_of_writers cb + k"
  "add_writers a \<circ> add_writers b = add_writers (b + a)"
  by (simp_all add: add_writers_def fun_eq_iff)

lemma upd_block_commute:
  "b \<noteq> b' \<Longrightarrow> upd_block b f (upd_block b' g acb) = upd_block b' g (upd_block b f acb)"
  by (cases b; cases b'; simp add: upd_block_def)

section \<open>Picking the active block\<close>

text \<open>The block that \<^verbatim>\<open>AcquireBlock\<close> returns is the one the switch counter selects at its
  last look at the counter, whatever other threads and the switch did in between; so a
  writer never starts on a block that had already been handed to the reader at that
  point.\<close>

theorem acquired_block_is_active:
  assumes "AcquireBlock env loaded acb = (Some b, acb')"
    and "\<And>x. switch_count_points_active_for_writing (env 4 x) = switch_count_points_active_for_writing x"
  shows "b = active_id acb'"
  using assms by (auto simp: AcquireBlock_def Let_def select_id_succ split: if_splits)

theorem acquired_block_is_active_witness:
  "kBlockOdd = active_id (snd (AcquireBlock (\<lambda>_ x. x) 1
     \<lparr>control_block_even = \<lparr>lcb_data = [], acquired_index = 0, written_index = 0, number_of_writers = 0\<rparr>,
      control_block_odd = \<lparr>lcb_data = [], acquired_index = 0, written_index = 0, number_of_writers = 0\<rparr>,
      switch_count_points_active_for_writing = 1\<rparr>))"
  by (rule acquired_block_is_active [where env = "\<lambda>_ x. x" and loaded = 1])
    (auto simp: AcquireBlock_def Let_def SelectLinearControlBlockId_def prod_eq_iff)

text \<open>The arbitration with the switch. If anything at all happens between the load of
  the counter and the registration as a writer, \<^verbatim>\<open>AcquireBlock\<close> ends registered exactly
  once on the block that is active now when there was no switch or one switch, and
  registered nowhere, reporting failure, when there were more; every other count is
  restored.\<close>

theorem acquire_block_arbitration:
  "AcquireBlock (\<lambda>k. if k = 0 then g else id) loaded acb =
     (let now = switch_count_points_active_for_writing (g acb) in
      if now = loaded \<or> now = loaded + 1
      then (Some (active_id (g acb)), upd_block (active_id (g acb)) (add_writers 1) (g acb))
      else (None, g acb))"
  by (auto simp: AcquireBlock_def Let_def select_id_succ upd_block_commute [of "GetOppositeLinearControlBlock _"]
      intro!: upd_block_cong upd_block_id)

section \<open>One writer\<close>

definition alt_append :: "AlternatingControlBlock \<Rightarrow> bytes \<Rightarrow> AlternatingControlBlock option" where
  "alt_append acb p =
     (case AlternatingWriter_Acquire (\<lambda>_ x. x) (word_of_nat (length p)) acb of
        (None, _) \<Rightarrow> None
      | (Some ad, acb) \<Rightarrow>
          Some (AlternatingWriter_Release ad (upd_block (control_block_id ad) (write_acquired (aad_data ad) p) acb)))"

definition active_contents :: "AlternatingControlBlock \<Rightarrow> bytes list" where
  "active_contents acb = block_contents (blk_of acb (active_id acb))"

definition active_room :: "AlternatingControlBlock \<Rightarrow> nat" where
  "active_room acb = block_room (blk_of acb (active_id acb))"

definition active_idle :: "AlternatingControlBlock \<Rightarrow> bool" where
  "active_idle acb \<longleftrightarrow> (\<exists>ps. holds_log (blk_of acb (active_id acb)) ps)
     \<and> number_of_writers (blk_of acb (active_id acb)) = 0
     \<and> span_ok (lcb_data (blk_of acb (GetOppositeLinearControlBlock (active_id acb))))"

lemma AcquireBlock_solo:
  "AcquireBlock (\<lambda>_ x. x) (switch_count_points_active_for_writing acb) acb =
     (Some (active_id acb), upd_block (active_id acb) (add_writers 1) acb)"
  by (simp add: AcquireBlock_def Let_def)

lemma Release_by_id:
  "AlternatingWriter_Release ad acb = upd_block (control_block_id ad) (LinearWriter_Release (aad_data ad)) acb"
  by (cases "control_block_id ad") (simp_all add: AlternatingWriter_Release_def)

lemma writer_margin:
  assumes "number_of_writers cb < GetMaxNumberOfConcurrentWriters - 1"
  shows "number_of_writers cb < GetMaxNumberOfConcurrentWriters"
    "number_of_writers (add_writers 1 cb) < GetMaxNumberOfConcurrentWriters"
proof -
  have "unat (number_of_writers cb) < 63"
    using assms by (simp add: word_less_nat_alt GetMaxNumberOfConcurrentWriters_def)
  moreover from this have "unat (number_of_writers cb + 1) = unat (number_of_writers cb) + 1"
    using unat_add_bound [of "number_of_writers cb" 1] by simp
  ultimately show "number_of_writers cb < GetMaxNumberOfConcurrentWriters"
    "number_of_writers (add_writers 1 cb) < GetMaxNumberOfConcurrentWriters"
    by (simp_all add: word_less_nat_alt)
qed

text \<open>Seen from outside, the alternating writer appends to its active block.\<close>

lemma alt_append_eq:
  assumes "span_ok (lcb_data (blk_of acb (active_id acb)))" "span_ok p"
    and "number_of_writers (blk_of acb (active_id acb)) < GetMaxNumberOfConcurrentWriters - 1"
  shows "alt_append acb p =
    map_option (\<lambda>cb. upd_block (active_id acb) (\<lambda>_. cb) acb) (append_record (blk_of acb (active_id acb)) p)"
proof -
  let ?b = "active_id acb" and ?n = "word_of_nat (length p) :: u64"
  let ?cb = "blk_of acb ?b"
  note margin = writer_margin [OF assms(3)]
  have n: "unat ?n = length p" using assms(2) by (simp add: span_ok_def unat_word_of_nat)
  show ?thesis
  proof (cases "length p \<le> 2 ^ 27 \<and> unat (acquired_index ?cb) + 8 + length p \<le> length (lcb_data ?cb)")
    case True
    then have "LinearWriter_Acquire id (add_writers 1 ?cb) ?n =
        (fst (LinearWriter_Acquire id ?cb ?n), add_writers 1 (snd (LinearWriter_Acquire id ?cb ?n)))"
      and "fst (LinearWriter_Acquire id ?cb ?n) \<noteq> None"
      using n assms(1) margin
      by (simp_all add: Acquire_ok add_writers_def)
    then show ?thesis
      by (auto simp: alt_append_def AlternatingWriter_Acquire_def AcquireBlock_solo Let_def
          AcquireLinearDataOnAcquiredBlock_def ReleaseBlock_def Release_by_id append_record_def
          comp_def split: prod.splits option.splits intro!: upd_block_cong)
  next
    case False
    then have "LinearWriter_Acquire id (add_writers 1 ?cb) ?n = (None, add_writers 1 ?cb)"
      "LinearWriter_Acquire id ?cb ?n = (None, ?cb)"
      using n assms(1) by (auto intro!: Acquire_refused)
    then show ?thesis
      by (simp add: alt_append_def AlternatingWriter_Acquire_def AcquireBlock_solo Let_def
          AcquireLinearDataOnAcquiredBlock_def append_record_def)
  qed
qed

lemma active_idle_simps:
  assumes "active_idle acb"
  shows "block_idle (blk_of acb (active_id acb))" "span_ok (lcb_data (blk_of acb (active_id acb)))"
    "number_of_writers (blk_of acb (active_id acb)) < GetMaxNumberOfConcurrentWriters - 1"
  using assms by (auto simp: active_idle_def block_idle_def holds_log_def GetMaxNumberOfConcurrentWriters_def)

text \<open>The acquisition of an idle queue, explicitly.\<close>

lemma AlternatingWriter_Acquire_ok:
  assumes "active_idle acb" "unat n \<le> 2 ^ 27"
    and "unat (acquired_index (blk_of acb (active_id acb))) + 8 + unat n
      \<le> length (lcb_data (blk_of acb (active_id acb)))"
  shows "AlternatingWriter_Acquire (\<lambda>_ x. x) n acb =
    (Some \<lparr>aad_data = \<lparr>ad_offset = acquired_index (blk_of acb (active_id acb)) + GetLengthOffsetBytes, ad_size = n\<rparr>,
       control_block_id = active_id acb\<rparr>,
     upd_block (active_id acb) (\<lambda>cb. cb\<lparr>
       lcb_data := put_at (unat (acquired_index cb)) (le64 n) (lcb_data cb),
       acquired_index := acquired_index cb + (n + GetLengthOffsetBytes),
       number_of_writers := number_of_writers cb + 1\<rparr>) acb)"
proof -
  let ?cb = "blk_of acb (active_id acb)"
  note blk = active_idle_simps [OF assms(1)]
  have "LinearWriter_Acquire id (add_writers 1 ?cb) n =
    (Some \<lparr>ad_offset = acquired_index ?cb + GetLengthOffsetBytes, ad_size = n\<rparr>,
     (add_writers 1 ?cb)\<lparr>lcb_data := put_at (unat (acquired_index ?cb)) (le64 n) (lcb_data ?cb),
        acquired_index := acquired_index ?cb + (n + GetLengthOffsetBytes),
        number_of_writers := number_of_writers (add_writers 1 ?cb) + 1\<rparr>)"
    using assms(2,3) blk(2) writer_margin(2) [OF blk(3)] Acquire_ok [of "add_writers 1 ?cb" n] by simp
  then show ?thesis
    by (auto simp: AlternatingWriter_Acquire_def AcquireBlock_solo Let_def ReleaseBlock_def
        AcquireLinearDataOnAcquiredBlock_def comp_def add_writers_def intro!: upd_block_cong)
qed

lemma AlternatingWriter_Acquire_refused:
  assumes "active_idle acb" "length (lcb_data (blk_of acb (active_id acb))) <
      unat (acquired_index (blk_of acb (active_id acb))) + 8 + unat n"
  shows "AlternatingWriter_Acquire (\<lambda>_ x. x) n acb = (None, acb)"
proof -
  let ?cb = "blk_of acb (active_id acb)"
  have "LinearWriter_Acquire id (add_writers 1 ?cb) n = (None, add_writers 1 ?cb)"
    using assms active_idle_simps [OF assms(1)] by (intro Acquire_refused) simp_all
  then show ?thesis
    by (auto simp: AlternatingWriter_Acquire_def AcquireBlock_solo Let_def ReleaseBlock_def
        AcquireLinearDataOnAcquiredBlock_def comp_def intro!: upd_block_id)
qed

interpretation alt: record_log alt_append active_contents active_idle active_room "2 ^ 27" 8
proof unfold_locales
  fix acb and p :: bytes
  let ?cb = "blk_of acb (active_id acb)"
  assume idle: "active_idle acb" and p: "length p \<le> 2 ^ 27" "length p + 8 \<le> active_room acb"
  note blk = active_idle_simps [OF idle]
  have ok: "span_ok p" using p by (simp add: span_ok_def)
  obtain cb' where cb': "append_record ?cb p = Some cb'" "block_idle cb'"
      "block_contents cb' = block_contents ?cb @ [p]" "block_room cb' = block_room ?cb - (length p + 8)"
    using lin.append_ok [OF blk(1)] p by (auto simp: active_room_def)
  have "number_of_writers cb' = number_of_writers ?cb"
    using cb'(1) append_record_holds [of ?cb _ p] blk(1) p
    by (auto simp: block_idle_def small_def active_room_def)
  with cb' idle blk ok show "\<exists>b'. alt_append acb p = Some b' \<and> active_idle b'
      \<and> active_contents b' = active_contents acb @ [p] \<and> active_room b' = active_room acb - (length p + 8)"
    by (auto simp: alt_append_eq active_idle_def active_contents_def active_room_def block_idle_def)
next
  fix acb and p :: bytes
  assume idle: "active_idle acb" and p: "span_ok p" and big: "2 ^ 27 < length p \<or> active_room acb < length p + 8"
  with active_idle_simps [OF idle] show "alt_append acb p = None"
    by (simp add: alt_append_eq active_room_def lin.append_refused)
qed

text \<open>Appending changes neither the switch counter nor the block that is not active.\<close>

lemma alt_append_frame:
  assumes "active_idle acb" "span_ok p" "alt_append acb p = Some acb'"
  shows "switch_count_points_active_for_writing acb' = switch_count_points_active_for_writing acb"
    "blk_of acb' (GetOppositeLinearControlBlock (active_id acb)) = blk_of acb (GetOppositeLinearControlBlock (active_id acb))"
  using assms alt_append_eq [OF active_idle_simps(2) _ active_idle_simps(3)] by auto

section \<open>The switch\<close>

lemma Switch_eq:
  "Switch proxy acb =
     (switch_count_points_active_for_writing acb,
      proxy\<lparr>previous_logging_ipc_counter_value := switch_count_points_active_for_writing acb + 1\<rparr>,
      (upd_block (GetOppositeLinearControlBlock (active_id acb)) (\<lambda>cb. cb\<lparr>acquired_index := 0, written_index := 0\<rparr>) acb)
        \<lparr>switch_count_points_active_for_writing := switch_count_points_active_for_writing acb + 1\<rparr>)"
  by (auto simp: Switch_def GetSplitBlocks_def Let_def comp_def intro!: upd_block_cong)

text \<open>A switch returns the count of the block it takes away from the writers, makes the
  other block the active one and empties it, and leaves the block that was active as it
  was; the count wraps around at 32 bits without breaking the alternation.\<close>

theorem switch_hands_over:
  "case Switch proxy acb of (count', proxy', acb') \<Rightarrow>
     SelectLinearControlBlockId count' = active_id acb \<and>
     active_id acb' = GetOppositeLinearControlBlock (active_id acb) \<and>
     previous_logging_ipc_counter_value proxy' = switch_count_points_active_for_writing acb' \<and>
     blk_of acb' (active_id acb) = blk_of acb (active_id acb) \<and>
     blk_of acb' (active_id acb') =
       (blk_of acb (active_id acb'))\<lparr>acquired_index := 0, written_index := 0\<rparr>"
  by (simp add: Switch_eq select_id_succ)

definition reader_view :: "AlternatingControlBlock \<Rightarrow> AlternatingReadOnlyReader" where
  "reader_view acb = \<lparr>buffer_even = lcb_data (control_block_even acb),
     buffer_odd = lcb_data (control_block_odd acb)\<rparr>"

definition read_block :: "AlternatingControlBlock \<Rightarrow> u32 \<Rightarrow> bytes list" where
  "read_block acb count' =
     (let (block_id, reader) = AlternatingReader_CreateLinearReader (reader_view acb) acb count'
      in ReadAll (reader_buffer (reader_view acb) block_id) reader)"

lemma reader_buffer_view [simp]: "reader_buffer (reader_view acb) b = lcb_data (blk_of acb b)"
  by (cases b) (simp_all add: reader_buffer_def reader_view_def SelectLinearControlBlockReference_def)

lemma read_block_contents: "read_block acb c = block_contents (blk_of acb (SelectLinearControlBlockId c))"
  by (simp add: read_block_def AlternatingReader_CreateLinearReader_def Let_def block_contents_def
      CreateLinearReaderFromControlBlock_def)

lemma empty_holds_log:
  "span_ok (lcb_data cb) \<Longrightarrow> holds_log (cb\<lparr>acquired_index := 0, written_index := 0\<rparr>) []"
  by (simp add: holds_log_def)

text \<open>C25: One round of the queue. Records appended to the active block, then a switch: the
  reader of the returned count gets exactly the records of that block in order, the
  block counts as released, and the writers go on with the other block, empty and with
  its whole length free.\<close>

theorem append_switch_read:
  assumes "active_idle acb" "list_all (\<lambda>p. length p \<le> 2 ^ 27) ps"
    and "sum_list (map (\<lambda>p. length p + 8) ps) \<le> active_room acb"
  shows "\<exists>acb1. alt.append_all acb ps = Some acb1 \<and>
    (case Switch proxy acb1 of (count', _, acb2) \<Rightarrow>
       read_block acb2 count' = active_contents acb @ ps \<and>
       AlternatingReader_IsBlockReleasedByWriters acb2 count' \<and>
       active_contents acb2 = [] \<and>
       active_room acb2 = length (lcb_data (blk_of acb1 (GetOppositeLinearControlBlock (active_id acb1)))))"
proof -
  obtain acb1 where acb1: "alt.append_all acb ps = Some acb1" "active_idle acb1"
      "active_contents acb1 = active_contents acb @ ps"
    using alt.append_all_ok [OF assms] by blast
  then have "acquired_index (blk_of acb1 (active_id acb1)) = written_index (blk_of acb1 (active_id acb1))"
    by (auto simp: active_idle_def holds_log_def)
  with acb1 show ?thesis
    by (auto simp: Switch_eq read_block_contents active_contents_def active_room_def select_id_succ
        block_room_def AlternatingReader_IsBlockReleasedByWriters_def Let_def
        active_idle_def holds_log_contents [OF empty_holds_log])
qed

definition fresh_queue :: "bytes \<Rightarrow> bytes \<Rightarrow> AlternatingControlBlock" where
  "fresh_queue even_data odd_data = InitializeAlternatingControlBlock
    \<lparr>control_block_even = \<lparr>lcb_data = even_data, acquired_index = 0, written_index = 0, number_of_writers = 0\<rparr>,
     control_block_odd = \<lparr>lcb_data = odd_data, acquired_index = 0, written_index = 0, number_of_writers = 0\<rparr>,
     switch_count_points_active_for_writing = 0\<rparr>"

lemma fresh_queue_idle:
  assumes "span_ok d" "span_ok e"
  shows "active_idle (fresh_queue d e)" "active_room (fresh_queue d e) = length e"
  using assms by (auto simp: active_idle_def active_room_def block_room_def holds_log_def
      SelectLinearControlBlockId_def SelectLinearControlBlockReference_def fresh_queue_def
      InitializeAlternatingControlBlock_def intro: exI [of _ "[]"])

theorem append_switch_read_witness:
  "\<exists>acb1. alt.append_all (fresh_queue (replicate 40 0) (replicate 40 0)) [[1, 2], [3]] = Some acb1 \<and>
    (case Switch \<lparr>previous_logging_ipc_counter_value = 1\<rparr> acb1 of (count', _, acb2) \<Rightarrow>
       read_block acb2 count' = active_contents (fresh_queue (replicate 40 0) (replicate 40 0)) @ [[1, 2], [3]] \<and>
       AlternatingReader_IsBlockReleasedByWriters acb2 count' \<and> active_contents acb2 = [] \<and>
       active_room acb2 = length (lcb_data (blk_of acb1 (GetOppositeLinearControlBlock (active_id acb1)))))"
proof -
  have ok: "span_ok (replicate 40 (0 :: byte))" by (simp add: span_ok_def)
  show ?thesis by (rule append_switch_read) (use fresh_queue_idle [OF ok ok] in simp_all)
qed

end
