(* ===== verification/SharedMemory.thy ===== *)
theory SharedMemory
  imports AlternatingBuffer
begin

text \<open>
  The shared-memory ring buffer between a logging process and the data router
  (\<^verbatim>\<open>score/mw/log/detail/data_router/shared_memory\<close>): the shared structure
  (\<^verbatim>\<open>common\<close>), the writer in the logging process (\<^verbatim>\<open>shared_memory_writer\<close>), the reader
  in the data router (\<^verbatim>\<open>shared_memory_reader\<close>) and the checks with which the reader is
  attached to a mapped file (\<^verbatim>\<open>reader_factory_impl\<close>).

  The reader's spans and the control blocks denote the same memory; the reader's
  operations therefore take the shared structure as an argument. Callbacks of the reader
  are the list of events it delivers, in order. A write callback is a function from the
  bytes of the span it is given to the bytes it leaves there, threading the state it
  captures.
\<close>

section \<open>Shared structure\<close>

type_synonym TimePoint = u64
type_synonym TypeIdentifier = u16

record SharedData =
  control_block :: AlternatingControlBlock
  linear_buffer_1_offset :: u64
  linear_buffer_2_offset :: u64
  number_of_drops_buffer_full :: u64
  size_of_drops_buffer_full :: u64
  number_of_drops_invalid_size :: u64
  number_of_drops_type_registration_failed :: u64
  writer_detached :: bool
  producer_pid :: "32 word"

definition InitializeSharedData :: "SharedData \<Rightarrow> SharedData" where
  "InitializeSharedData sd = sd\<lparr>control_block := InitializeAlternatingControlBlock (control_block sd)\<rparr>"

record BufferEntryHeader =
  time_stamp :: TimePoint
  type_identifier :: TypeIdentifier

text \<open>
  The image of the header in memory: eight bytes of time, two of type identifier and six
  of padding, whose value the language leaves open; \<open>pad\<close> is that value.
\<close>

definition sizeof_BufferEntryHeader :: u64 where "sizeof_BufferEntryHeader = 16"

definition header_image :: "bytes \<Rightarrow> BufferEntryHeader \<Rightarrow> bytes" where
  "header_image pad h = le64 (time_stamp h) @ le16 (type_identifier h) @ pad"

definition header_of_image :: "bytes \<Rightarrow> BufferEntryHeader" where
  "header_of_image bs = \<lparr>time_stamp = from_le64 (subspan 0 8 bs), type_identifier = from_le16 (subspan 8 2 bs)\<rparr>"

record ReadAcquireResult =
  acquired_buffer :: u32

definition GetExpectedNextAcquiredBlockId :: "ReadAcquireResult \<Rightarrow> u32" where
  "GetExpectedNextAcquiredBlockId acquired = acquired_buffer acquired + 1"

definition GetRegisterTypeToken :: TypeIdentifier where
  "GetRegisterTypeToken = - 1"

section \<open>Writer\<close>

record SharedMemoryWriter =
  alternating_reader :: AlternatingReaderProxy
  unmap_callback_set :: bool
  next_type_identifier :: TypeIdentifier
  moved_from :: bool

definition NewSharedMemoryWriter :: "SharedData \<Rightarrow> bool \<Rightarrow> SharedMemoryWriter" where
  "NewSharedMemoryWriter sd has_unmap_callback =
     \<lparr>alternating_reader = NewAlternatingReaderProxy (control_block sd),
      unmap_callback_set = has_unmap_callback, next_type_identifier = 0, moved_from = False\<rparr>"

text \<open>The move constructor: the new object and what is left of the old one.\<close>

definition MoveSharedMemoryWriter ::
  "SharedData \<Rightarrow> SharedMemoryWriter \<Rightarrow> SharedMemoryWriter \<times> SharedMemoryWriter" where
  "MoveSharedMemoryWriter sd other =
     (\<lparr>alternating_reader = NewAlternatingReaderProxy (control_block sd),
       unmap_callback_set = unmap_callback_set other,
       next_type_identifier = next_type_identifier other, moved_from = moved_from other\<rparr>,
      other\<lparr>moved_from := True, unmap_callback_set := False\<rparr>)"

definition GetMaxPayloadSize :: u64 where "GetMaxPayloadSize = 65500"

definition AllocAndWrite ::
  "(nat \<Rightarrow> AlternatingControlBlock \<Rightarrow> AlternatingControlBlock) \<Rightarrow> bytes \<Rightarrow> TimePoint \<Rightarrow> TypeIdentifier \<Rightarrow> u64 \<Rightarrow>
   ('s \<Rightarrow> bytes \<Rightarrow> 's \<times> bytes) \<Rightarrow> 's \<Rightarrow> SharedData \<Rightarrow> 's \<times> SharedData" where
  "AllocAndWrite env pad timestamp type_id payload_size write_callback s sd =
     (if payload_size > GetMaxPayloadSize
      then (s, sd\<lparr>number_of_drops_invalid_size := number_of_drops_invalid_size sd + 1\<rparr>)
      else
        let total_size = payload_size + sizeof_BufferEntryHeader in
        case AlternatingWriter_Acquire env total_size (control_block sd) of
          (None, acb) \<Rightarrow>
            (s, sd\<lparr>control_block := acb,
                  number_of_drops_buffer_full := number_of_drops_buffer_full sd + 1,
                  size_of_drops_buffer_full := size_of_drops_buffer_full sd + total_size\<rparr>)
        | (Some acquired_data, acb) \<Rightarrow>
            let block = control_block_id acquired_data;
                header = \<lparr>time_stamp = timestamp, type_identifier = type_id\<rparr>;
                acb = upd_block block (write_acquired (aad_data acquired_data) (header_image pad header)) acb;
                payload_span = aad_data acquired_data
                  \<lparr>ad_offset := ad_offset (aad_data acquired_data) + sizeof_BufferEntryHeader,
                   ad_size := payload_size\<rparr>;
                (s, written) = write_callback s
                  (subspan (unat (ad_offset payload_span)) (unat (ad_size payload_span))
                     (lcb_data (SelectLinearControlBlockReference block acb)));
                acb = upd_block block (write_acquired payload_span written) acb
            in (s, sd\<lparr>control_block := AlternatingWriter_Release acquired_data acb\<rparr>))"

text \<open>
  \<^verbatim>\<open>TryRegisterType\<close> is a template over the type information: its \<^verbatim>\<open>size()\<close> and its
  \<^verbatim>\<open>Copy\<close>. The callback copies the first two bytes of the object \<^verbatim>\<open>result\<close>, an optional
  of the base library, whose image is the parameter \<open>optional_image\<close>.
\<close>

record TypeInfoSource =
  ti_size :: u64
  ti_Copy :: "bytes \<Rightarrow> bytes"

definition register_callback ::
  "(TypeIdentifier \<Rightarrow> bytes) \<Rightarrow> TypeInfoSource \<Rightarrow> TypeIdentifier option \<times> SharedMemoryWriter \<Rightarrow> bytes \<Rightarrow>
   (TypeIdentifier option \<times> SharedMemoryWriter) \<times> bytes" where
  "register_callback optional_image info st payload_span =
     (let (_, w) = st;
          fetched = next_type_identifier w;
          w = w\<lparr>next_type_identifier := fetched + 1\<rparr>;
          payload_span = put_at 0 (take 2 (optional_image fetched)) payload_span;
          type_info_span = subspan 2 (unat (ti_size info)) payload_span
      in ((Some fetched, w), put_at 2 (ti_Copy info type_info_span) payload_span))"

definition TryRegisterType ::
  "(nat \<Rightarrow> AlternatingControlBlock \<Rightarrow> AlternatingControlBlock) \<Rightarrow> bytes \<Rightarrow> (TypeIdentifier \<Rightarrow> bytes) \<Rightarrow>
   TimePoint \<Rightarrow> TypeInfoSource \<Rightarrow> SharedMemoryWriter \<Rightarrow> SharedData \<Rightarrow>
   TypeIdentifier option \<times> SharedMemoryWriter \<times> SharedData" where
  "TryRegisterType env pad optional_image now info w sd =
     (let total_size = 2 + ti_size info;
          ((result, w), sd) =
            AllocAndWrite env pad now GetRegisterTypeToken total_size
              (register_callback optional_image info) (None, w) sd
      in (result, w, sd))"

definition ReadAcquire ::
  "SharedMemoryWriter \<Rightarrow> SharedData \<Rightarrow> ReadAcquireResult \<times> SharedMemoryWriter \<times> SharedData" where
  "ReadAcquire w sd =
     (let (acquired, proxy, acb) = Switch (alternating_reader w) (control_block sd)
      in (\<lparr>acquired_buffer = acquired\<rparr>, w\<lparr>alternating_reader := proxy\<rparr>, sd\<lparr>control_block := acb\<rparr>))"

definition Writer_DetachWriter :: "SharedData \<Rightarrow> SharedData" where
  "Writer_DetachWriter sd = sd\<lparr>writer_detached := True\<rparr>"

definition IncrementTypeRegistrationFailures :: "SharedData \<Rightarrow> SharedData" where
  "IncrementTypeRegistrationFailures sd =
     sd\<lparr>number_of_drops_type_registration_failed := number_of_drops_type_registration_failed sd + 1\<rparr>"

text \<open>The destructor; the flag of the result says whether it called the unmap callback.\<close>

definition DestroySharedMemoryWriter :: "SharedMemoryWriter \<Rightarrow> SharedData \<Rightarrow> bool \<times> SharedData" where
  "DestroySharedMemoryWriter w sd =
     (if moved_from w then (False, sd) else (unmap_callback_set w, Writer_DetachWriter sd))"

section \<open>Reader\<close>

record TypeRegistration =
  type_id :: TypeIdentifier
  registration_data :: bytes

record SharedMemoryRecord =
  smr_header :: BufferEntryHeader
  smr_payload :: bytes

datatype ReadEvent = TypeRegistered TypeRegistration | NewRecord SharedMemoryRecord

function ReadLinearBuffer_loop :: "bytes \<Rightarrow> LinearReader \<Rightarrow> ReadEvent list" where
  "ReadLinearBuffer_loop mem reader =
     (case LinearReader_Read mem reader of
        (None, _) \<Rightarrow> []
      | (Some (off, n), reader') \<Rightarrow>
          let read_result = subspan (unat off) (unat n) mem in
          if GetDataSizeAsLength read_result < sizeof_BufferEntryHeader
          then ReadLinearBuffer_loop mem reader'
          else
            let header = header_of_image (subspan 0 16 read_result);
                payload_span = drop 16 read_result
            in if type_identifier header = GetRegisterTypeToken
               then if GetDataSizeAsLength payload_span < 2
                    then ReadLinearBuffer_loop mem reader'
                    else TypeRegistered \<lparr>type_id = from_le16 (subspan 0 2 payload_span),
                           registration_data = drop 2 payload_span\<rparr>
                         # ReadLinearBuffer_loop mem reader'
               else NewRecord \<lparr>smr_header = header, smr_payload = payload_span\<rparr>
                    # ReadLinearBuffer_loop mem reader')"
  by pat_completeness auto
termination by (relation "measure (\<lambda>(mem, r). unread mem r)") (auto dest!: Read_progress)

declare ReadLinearBuffer_loop.simps [simp del]

definition ReadLinearBuffer :: "bytes \<Rightarrow> LinearReader \<Rightarrow> u64 \<times> ReadEvent list" where
  "ReadLinearBuffer mem reader =
     (LinearReader_GetSizeOfWholeDataBuffer mem reader, ReadLinearBuffer_loop mem reader)"

record SharedMemoryReader =
  linear_reader :: "(AlternatingControlBlockSelectId \<times> LinearReader) option"
  acquired_data :: "ReadAcquireResult option"
  number_of_acquired_bytes :: u64
  finished_reading_after_detach :: bool
  buffer_expected_to_read_next :: u32
  is_writer_detached :: bool
  reader_unmap_callback_set :: bool

definition NewSharedMemoryReader :: "SharedData \<Rightarrow> bool \<Rightarrow> SharedMemoryReader" where
  "NewSharedMemoryReader sd has_unmap_callback =
     \<lparr>linear_reader = None, acquired_data = None, number_of_acquired_bytes = 0,
      finished_reading_after_detach = False,
      buffer_expected_to_read_next = switch_count_points_active_for_writing (control_block sd),
      is_writer_detached = False, reader_unmap_callback_set = has_unmap_callback\<rparr>"

definition MoveSharedMemoryReader :: "SharedMemoryReader \<Rightarrow> SharedMemoryReader \<times> SharedMemoryReader" where
  "MoveSharedMemoryReader other = (other, other\<lparr>reader_unmap_callback_set := False\<rparr>)"

text \<open>The destructor's result says whether it called the unmap callback.\<close>

definition DestroySharedMemoryReader :: "SharedMemoryReader \<Rightarrow> bool" where
  "DestroySharedMemoryReader r = reader_unmap_callback_set r"

definition IsWriterDetached :: "SharedMemoryReader \<Rightarrow> SharedData \<Rightarrow> bool" where
  "IsWriterDetached r sd \<longleftrightarrow> is_writer_detached r = True \<or> writer_detached sd = True"

definition SharedMemoryReader_Read ::
  "SharedMemoryReader \<Rightarrow> SharedData \<Rightarrow> u64 option \<times> ReadEvent list \<times> SharedMemoryReader" where
  "SharedMemoryReader_Read r sd =
     (if finished_reading_after_detach r then (None, [], r)
      else
        let view = reader_view (control_block sd);
            (return_written_bytes, events, r) =
              (case linear_reader r of
                 Some (block, reader) \<Rightarrow>
                   let (n, evs) = ReadLinearBuffer (reader_buffer view block) reader
                   in (Some n, evs, r\<lparr>linear_reader := None\<rparr>)
               | None \<Rightarrow> (None, [], r))
        in if IsWriterDetached r sd then
             let (block, reader) = AlternatingReader_CreateLinearReader view (control_block sd)
                   (buffer_expected_to_read_next r);
                 (written_bytes_detached, evs) = ReadLinearBuffer (reader_buffer view block) reader;
                 return_written_bytes =
                   (case return_written_bytes of
                      Some k \<Rightarrow> Some (k + written_bytes_detached)
                    | None \<Rightarrow> Some written_bytes_detached)
             in (return_written_bytes, events @ evs, r\<lparr>finished_reading_after_detach := True\<rparr>)
           else (return_written_bytes, events, r))"

definition Reader_DetachWriter :: "SharedMemoryReader \<Rightarrow> SharedMemoryReader" where
  "Reader_DetachWriter r = r\<lparr>is_writer_detached := True\<rparr>"

definition ReadDetached ::
  "SharedMemoryReader \<Rightarrow> SharedData \<Rightarrow> u64 option \<times> ReadEvent list \<times> SharedMemoryReader" where
  "ReadDetached r sd = SharedMemoryReader_Read (Reader_DetachWriter r) sd"

definition GetNumberOfDropsWithBufferFull :: "SharedData \<Rightarrow> u64" where
  "GetNumberOfDropsWithBufferFull sd = number_of_drops_buffer_full sd"

definition GetSizeOfDropsWithBufferFull :: "SharedData \<Rightarrow> u64" where
  "GetSizeOfDropsWithBufferFull sd = size_of_drops_buffer_full sd"

definition GetNumberOfDropsWithInvalidSize :: "SharedData \<Rightarrow> u64" where
  "GetNumberOfDropsWithInvalidSize sd = number_of_drops_invalid_size sd"

definition GetNumberOfDropsWithTypeRegistrationFailed :: "SharedData \<Rightarrow> u64" where
  "GetNumberOfDropsWithTypeRegistrationFailed sd = number_of_drops_type_registration_failed sd"

definition GetRingBufferSizeBytes :: "SharedData \<Rightarrow> u64" where
  "GetRingBufferSizeBytes sd =
     GetDataSizeAsLength (lcb_data (control_block_even (control_block sd))) +
     GetDataSizeAsLength (lcb_data (control_block_odd (control_block sd)))"

definition SharedMemoryReader_IsBlockReleasedByWriters :: "SharedData \<Rightarrow> u32 \<Rightarrow> bool" where
  "SharedMemoryReader_IsBlockReleasedByWriters sd block_count =
     AlternatingReader_IsBlockReleasedByWriters (control_block sd) block_count"

definition NotifyAcquisitionSetReader ::
  "ReadAcquireResult \<Rightarrow> SharedMemoryReader \<Rightarrow> SharedData \<Rightarrow> u64 option \<times> SharedMemoryReader" where
  "NotifyAcquisitionSetReader acquire_result r sd =
     (if \<not> AlternatingReader_IsBlockReleasedByWriters (control_block sd) (acquired_buffer acquire_result)
      then (None, r)
      else
        let view = reader_view (control_block sd);
            (block, reader) = AlternatingReader_CreateLinearReader view (control_block sd)
              (acquired_buffer acquire_result);
            n = LinearReader_GetSizeOfWholeDataBuffer (reader_buffer view block) reader
        in (Some n, r\<lparr>number_of_acquired_bytes := n, linear_reader := Some (block, reader),
              buffer_expected_to_read_next := acquired_buffer acquire_result + 1\<rparr>))"

definition PeekNumberOfBytesAcquiredInBuffer :: "u32 \<Rightarrow> SharedData \<Rightarrow> u64 option" where
  "PeekNumberOfBytesAcquiredInBuffer acquired_buffer_count_id sd =
     (let block_id = SelectLinearControlBlockId acquired_buffer_count_id;
          block = SelectLinearControlBlockReference block_id (control_block sd)
      in Some (acquired_index block))"

section \<open>What the reader makes of an entry\<close>

definition decode_entry :: "bytes \<Rightarrow> ReadEvent option" where
  "decode_entry p =
     (if length p < 16 then None
      else let h = header_of_image (take 16 p); q = drop 16 p in
        if type_identifier h \<noteq> GetRegisterTypeToken then Some (NewRecord \<lparr>smr_header = h, smr_payload = q\<rparr>)
        else if length q < 2 then None
        else Some (TypeRegistered \<lparr>type_id = from_le16 (take 2 q), registration_data = drop 2 q\<rparr>))"

definition events_of :: "bytes list \<Rightarrow> ReadEvent list" where
  "events_of ps = List.map_filter decode_entry ps"

lemma events_of_simps [simp]:
  "events_of [] = []"
  "events_of (p # ps) = (case decode_entry p of None \<Rightarrow> events_of ps | Some e \<Rightarrow> e # events_of ps)"
  "events_of (ps @ qs) = events_of ps @ events_of qs"
  by (simp_all add: events_of_def map_filter_def split: option.splits)

lemma size_less_iff:
  "span_ok p \<Longrightarrow> GetDataSizeAsLength p < k \<longleftrightarrow> length p < unat k"
  by (simp add: word_less_nat_alt)

text \<open>The loop of \<^verbatim>\<open>ReadLinearBuffer\<close> decodes every record of the buffer in order.\<close>

lemma ReadLinearBuffer_loop_eq: "ReadLinearBuffer_loop mem r = events_of (ReadAll mem r)"
proof (induction mem r rule: ReadAll.induct)
  case (1 mem r)
  show ?case
  proof (cases "LinearReader_Read mem r")
    case (Pair res r')
    show ?thesis
    proof (cases res)
      case None
      with Pair show ?thesis by (simp add: ReadLinearBuffer_loop.simps ReadAll.simps)
    next
      case (Some x)
      obtain off n where x: "x = (off, n)" by (cases x)
      let ?p = "subspan (unat off) (unat n) mem"
      have read: "LinearReader_Read mem r = (Some (off, n), r')" using Pair Some x by simp
      then have ih: "ReadLinearBuffer_loop mem r' = events_of (ReadAll mem r')" using 1 by simp
      have "unat n \<le> 2 ^ 27" using Read_Some_advances [OF read] by simp
      then have "length ?p < 2 ^ 63" by simp
      then have ok: "span_ok ?p" "span_ok (drop 16 ?p)" by (simp_all add: span_ok_def)
      have p: "subspan 0 16 ?p = take 16 ?p" "\<And>q. subspan 0 2 q = take 2 q"
        by (simp_all add: subspan_def)
      show ?thesis
        by (subst ReadLinearBuffer_loop.simps, subst ReadAll.simps)
          (simp add: read ih Let_def decode_entry_def size_less_iff [OF ok(1)] size_less_iff [OF ok(2)] p
            sizeof_BufferEntryHeader_def del: length_subspan subspan_subspan length_drop)
    qed
  qed
qed

lemma header_of_header_image [simp]:
  "length pad = 6 \<Longrightarrow> header_of_image (header_image pad h) = h"
  "length pad = 6 \<Longrightarrow> length (header_image pad h) = 16"
  by (simp_all add: header_image_def header_of_image_def subspan_def)

lemma decode_record:
  assumes "length pad = 6" "type_identifier h \<noteq> GetRegisterTypeToken"
  shows "decode_entry (header_image pad h @ p) = Some (NewRecord \<lparr>smr_header = h, smr_payload = p\<rparr>)"
  using assms by (simp add: decode_entry_def Let_def)

lemma decode_registration:
  assumes "length pad = 6" "type_identifier h = GetRegisterTypeToken"
  shows "decode_entry (header_image pad h @ le16 i @ p) =
    Some (TypeRegistered \<lparr>type_id = i, registration_data = p\<rparr>)"
  using assms by (simp add: decode_entry_def Let_def)

section \<open>What the writer appends\<close>

text \<open>
  With nobody in between, \<open>AllocAndWrite\<close> appends the header and what the callback leaves
  as one record, or counts a drop.
\<close>

lemma AllocAndWrite_eq:
  assumes idle: "active_idle (control_block sd)" and pad: "length pad = 6"
    and n: "unat n = length p" "n \<le> GetMaxPayloadSize"
    and cb: "\<And>old. length old = length p \<Longrightarrow> write_callback s old = (s', p)"
  shows "AllocAndWrite (\<lambda>_ x. x) pad ts t n write_callback s sd =
    (let e = header_image pad \<lparr>time_stamp = ts, type_identifier = t\<rparr> @ p in
     case alt_append (control_block sd) e of
       Some acb \<Rightarrow> (s', sd\<lparr>control_block := acb\<rparr>)
     | None \<Rightarrow> (s, sd\<lparr>number_of_drops_buffer_full := number_of_drops_buffer_full sd + 1,
         size_of_drops_buffer_full := size_of_drops_buffer_full sd + (n + sizeof_BufferEntryHeader)\<rparr>))"
proof -
  let ?acb = "control_block sd" and ?total = "n + sizeof_BufferEntryHeader"
  let ?b = "active_id ?acb" and ?h = "header_image pad \<lparr>time_stamp = ts, type_identifier = t\<rparr>"
  let ?cb = "blk_of ?acb ?b"
  note blk = active_idle_simps [OF idle]
  have small: "length p \<le> 65500" using n by (simp add: word_le_nat_alt GetMaxPayloadSize_def)
  then have "unat ?total = length p + 16"
    using n(1) unat_add_bound [of n sizeof_BufferEntryHeader] by (simp add: sizeof_BufferEntryHeader_def)
  moreover have "word_of_nat (unat n) = n" by simp
  then have "word_of_nat (length (?h @ p)) = ?total"
    unfolding n(1) using pad by (simp add: sizeof_BufferEntryHeader_def)
  ultimately have total: "unat ?total = length p + 16" "word_of_nat (length (?h @ p)) = ?total" by simp_all
  show ?thesis
  proof (cases "length (lcb_data ?cb) < unat (acquired_index ?cb) + 8 + unat ?total")
    case True
    note refused = AlternatingWriter_Acquire_refused [OF idle True]
    have "\<not> GetMaxPayloadSize < n" using n(2) by simp
    then show ?thesis
      unfolding AllocAndWrite_def alt_append_def total(2) refused Let_def by simp
  next
    case False
    let ?o = "acquired_index ?cb + GetLengthOffsetBytes"
    have len: "length (lcb_data ?cb) < 2 ^ 63" using blk(2) by (simp add: span_ok_def)
    have o: "unat ?o = unat (acquired_index ?cb) + 8"
      using False len unat_add_bound [of "acquired_index ?cb" GetLengthOffsetBytes] by simp
    have po: "unat (?o + sizeof_BufferEntryHeader) = unat ?o + 16"
      using False len total unat_add_bound [of ?o sizeof_BufferEntryHeader] o
      by (simp add: sizeof_BufferEntryHeader_def)
    have room: "unat ?o + 16 + length p \<le> length (lcb_data ?cb)" using False total o by simp
    then have idx8: "unat (acquired_index ?cb) + 8 \<le> length (lcb_data ?cb)" using o by simp
    have acq: "AlternatingWriter_Acquire (\<lambda>_ x. x) ?total ?acb =
      (Some \<lparr>aad_data = \<lparr>ad_offset = ?o, ad_size = ?total\<rparr>, control_block_id = ?b\<rparr>,
       upd_block ?b (\<lambda>cb. cb\<lparr>lcb_data := put_at (unat (acquired_index cb)) (le64 ?total) (lcb_data cb),
         acquired_index := acquired_index cb + (?total + GetLengthOffsetBytes),
         number_of_writers := number_of_writers cb + 1\<rparr>) ?acb)"
      using False total(1) small by (intro AlternatingWriter_Acquire_ok [OF idle]) simp_all
    have two: "put_at (unat (?o + sizeof_BufferEntryHeader)) p (put_at (unat ?o) ?h d) = put_at (unat ?o) (?h @ p) d"
      if "length d = length (lcb_data ?cb)" for d
      using that po room pad by (intro put_at_append) simp_all
    have span: "length (subspan (unat (?o + sizeof_BufferEntryHeader)) (unat n) (put_at (unat ?o) ?h
        (put_at (unat (acquired_index ?cb)) (le64 ?total) (lcb_data ?cb)))) = length p"
      using po room pad o n(1) by simp
    have "\<not> GetMaxPayloadSize < n" using n(2) by simp
    then show ?thesis
      unfolding AllocAndWrite_def alt_append_def total(2) acq Let_def
      using idx8 by (auto simp: Release_by_id write_acquired_def cb [OF span] two
          intro!: arg_cong [where f = "\<lambda>a. sd\<lparr>control_block := a\<rparr>"] upd_block_cong)
  qed
qed

section \<open>A writer, specified as a bounded log\<close>

text \<open>What a logging process does: trace a payload under a type, or register a type.\<close>

datatype log_op = Trace TimePoint TypeIdentifier bytes | Register TimePoint bytes

fun op_payload :: "TypeIdentifier \<Rightarrow> log_op \<Rightarrow> bytes" where
  "op_payload i (Trace ts t p) = p"
| "op_payload i (Register ts d) = le16 i @ d"

fun op_header :: "log_op \<Rightarrow> BufferEntryHeader" where
  "op_header (Trace ts t p) = \<lparr>time_stamp = ts, type_identifier = t\<rparr>"
| "op_header (Register ts d) = \<lparr>time_stamp = ts, type_identifier = GetRegisterTypeToken\<rparr>"

fun op_next :: "TypeIdentifier \<Rightarrow> log_op \<Rightarrow> TypeIdentifier" where
  "op_next i (Trace ts t p) = i"
| "op_next i (Register ts d) = i + 1"

fun op_event :: "TypeIdentifier \<Rightarrow> log_op \<Rightarrow> ReadEvent" where
  "op_event i (Trace ts t p) =
     NewRecord \<lparr>smr_header = \<lparr>time_stamp = ts, type_identifier = t\<rparr>, smr_payload = p\<rparr>"
| "op_event i (Register ts d) = TypeRegistered \<lparr>type_id = i, registration_data = d\<rparr>"

fun op_size :: "log_op \<Rightarrow> nat" where
  "op_size (Trace ts t p) = length p"
| "op_size (Register ts d) = 2 + length d"

text \<open>The identifier \<open>0xFFFF\<close> is reserved; no span has \<open>2 ^ 63\<close> bytes.\<close>

fun op_ok :: "log_op \<Rightarrow> bool" where
  "op_ok (Trace ts t p) = (t \<noteq> GetRegisterTypeToken \<and> length p < 2 ^ 63)"
| "op_ok (Register ts d) = (length d < 2 ^ 63)"

text \<open>An object of the optional type starts with the contained value.\<close>

definition value_first :: "(TypeIdentifier \<Rightarrow> bytes) \<Rightarrow> bool" where
  "value_first optional_image \<longleftrightarrow> (\<forall>v. take 2 (optional_image v) = le16 v)"

fun run_op ::
  "bytes \<Rightarrow> (TypeIdentifier \<Rightarrow> bytes) \<Rightarrow> log_op \<Rightarrow> SharedMemoryWriter \<times> SharedData \<Rightarrow> SharedMemoryWriter \<times> SharedData" where
  "run_op pad img (Trace ts t p) (w, sd) =
     (w, snd (AllocAndWrite (\<lambda>_ x. x) pad ts t (word_of_nat (length p)) (\<lambda>s _. (s, p)) () sd))"
| "run_op pad img (Register ts d) (w, sd) =
     snd (TryRegisterType (\<lambda>_ x. x) pad img ts \<lparr>ti_size = word_of_nat (length d), ti_Copy = \<lambda>_. d\<rparr> w sd)"

lemma op_payload_length [simp]: "length (op_payload i op) = op_size op"
  by (cases op) simp_all

lemma op_decode:
  "length pad = 6 \<Longrightarrow> op_ok op \<Longrightarrow>
   decode_entry (header_image pad (op_header op) @ op_payload i op) = Some (op_event i op)"
  by (cases op) (simp_all add: decode_record decode_registration)

lemma op_size_word:
  assumes "op_ok op"
  shows "unat (word_of_nat (op_size op) :: u64) = op_size op"
    "word_of_nat (op_size op) \<le> GetMaxPayloadSize \<longleftrightarrow> op_size op \<le> 65500"
proof -
  show u: "unat (word_of_nat (op_size op) :: u64) = op_size op"
    using assms by (cases op) (auto intro!: unat_word_of_nat simp del: of_nat_add of_nat_Suc)
  show "word_of_nat (op_size op) \<le> GetMaxPayloadSize \<longleftrightarrow> op_size op \<le> 65500"
    unfolding word_le_nat_alt u by (simp add: GetMaxPayloadSize_def)
qed

lemma register_callback_eq:
  assumes "value_first img" "length old = 2 + length d" "unat (ti_size info) = length d" "ti_Copy info = (\<lambda>_. d)"
  shows "register_callback img info (res, w) old =
    ((Some (next_type_identifier w), w\<lparr>next_type_identifier := next_type_identifier w + 1\<rparr>),
     le16 (next_type_identifier w) @ d)"
  using assms by (simp add: register_callback_def Let_def value_first_def put_at_def)

text \<open>One step of the writer.\<close>

lemma run_op_eq:
  assumes idle: "active_idle (control_block sd)" and "length pad = 6" "value_first img" "op_ok op"
  shows "run_op pad img op (w, sd) =
    (if 65500 < op_size op then (w, sd\<lparr>number_of_drops_invalid_size := number_of_drops_invalid_size sd + 1\<rparr>)
     else case alt_append (control_block sd)
         (header_image pad (op_header op) @ op_payload (next_type_identifier w) op) of
       Some acb \<Rightarrow> (w\<lparr>next_type_identifier := op_next (next_type_identifier w) op\<rparr>, sd\<lparr>control_block := acb\<rparr>)
     | None \<Rightarrow> (w, sd\<lparr>number_of_drops_buffer_full := number_of_drops_buffer_full sd + 1,
         size_of_drops_buffer_full := size_of_drops_buffer_full sd + word_of_nat (op_size op + 16)\<rparr>))"
proof (cases "65500 < op_size op")
  case True
  then have big: "GetMaxPayloadSize < word_of_nat (op_size op)"
    using op_size_word(2) [OF assms(4)] by (simp add: not_le)
  then show ?thesis
    using True by (cases op) (simp_all add: AllocAndWrite_def TryRegisterType_def Let_def)
next
  case False
  then have n: "word_of_nat (op_size op) \<le> GetMaxPayloadSize"
    using op_size_word(2) [OF assms(4)] by (simp add: not_le)
  let ?i = "next_type_identifier w"
  have u: "unat (word_of_nat (op_size op) :: u64) = length (op_payload ?i op)"
    using op_size_word(1) [OF assms(4)] by simp
  show ?thesis
  proof (cases op)
    case (Trace ts t p)
    note eq = AllocAndWrite_eq [OF idle assms(2) u n, of "\<lambda>s _. (s, p)" "()" "()" ts t]
    show ?thesis
      using eq Trace False by (simp add: Let_def sizeof_BufferEntryHeader_def split: option.splits)
  next
    case (Register ts d)
    let ?info = "\<lparr>ti_size = word_of_nat (length d), ti_Copy = \<lambda>_. d\<rparr>"
    have "unat (word_of_nat (length d) :: u64) = length d"
      using assms(4) Register by (intro unat_word_of_nat) simp
    then have "register_callback img ?info (None, w) old =
        ((Some ?i, w\<lparr>next_type_identifier := ?i + 1\<rparr>), op_payload ?i op)"
      if "length old = length (op_payload ?i op)" for old
      using register_callback_eq [OF assms(3), of old d ?info None w] that Register by simp
    note eq = AllocAndWrite_eq [where write_callback = "register_callback img ?info" and s = "(None, w)",
        OF idle assms(2) u n this, of ts GetRegisterTypeToken]
    show ?thesis
      using eq Register False
      by (simp add: TryRegisterType_def Let_def sizeof_BufferEntryHeader_def split: option.splits)
  qed
qed

definition run_ops ::
  "bytes \<Rightarrow> (TypeIdentifier \<Rightarrow> bytes) \<Rightarrow> log_op list \<Rightarrow> SharedMemoryWriter \<times> SharedData \<Rightarrow> SharedMemoryWriter \<times> SharedData" where
  "run_ops pad img ops st = fold (run_op pad img) ops st"

text \<open>
  The promise of the writer: a log with \<open>room\<close> bytes left that keeps what fits behind 24
  bytes of headers and drops the rest, counting it. \<open>deliver room i ops\<close> are the events a
  reader gets, the drops for lack of room, their bytes, and the drops for their size.
\<close>

fun deliver :: "nat \<Rightarrow> TypeIdentifier \<Rightarrow> log_op list \<Rightarrow> ReadEvent list \<times> nat \<times> nat \<times> nat" where
  "deliver room i [] = ([], 0, 0, 0)"
| "deliver room i (op # ops) =
     (if 65500 < op_size op then
        (let (evs, full, bytes, invalid) = deliver room i ops in (evs, full, bytes, invalid + 1))
      else if room < op_size op + 24 then
        (let (evs, full, bytes, invalid) = deliver room i ops in (evs, full + 1, bytes + (op_size op + 16), invalid))
      else
        (let (evs, full, bytes, invalid) = deliver (room - (op_size op + 24)) (op_next i op) ops
         in (op_event i op # evs, full, bytes, invalid)))"

text \<open>What a run of the writer leaves in the shared structure, compared with \<open>deliver\<close>.\<close>

definition delivered :: "SharedData \<Rightarrow> SharedData \<Rightarrow> ReadEvent list \<times> nat \<times> nat \<times> nat \<Rightarrow> bool" where
  "delivered sd sd' d \<longleftrightarrow>
     switch_count_points_active_for_writing (control_block sd') =
       switch_count_points_active_for_writing (control_block sd) \<and>
     blk_of (control_block sd') (GetOppositeLinearControlBlock (active_id (control_block sd))) =
       blk_of (control_block sd) (GetOppositeLinearControlBlock (active_id (control_block sd))) \<and>
     (case d of (evs, full, bytes, invalid) \<Rightarrow>
        events_of (active_contents (control_block sd')) = events_of (active_contents (control_block sd)) @ evs \<and>
        number_of_drops_buffer_full sd' = number_of_drops_buffer_full sd + word_of_nat full \<and>
        size_of_drops_buffer_full sd' = size_of_drops_buffer_full sd + word_of_nat bytes \<and>
        number_of_drops_invalid_size sd' = number_of_drops_invalid_size sd + word_of_nat invalid \<and>
        number_of_drops_type_registration_failed sd' = number_of_drops_type_registration_failed sd \<and>
        writer_detached sd' = writer_detached sd)"

lemma run_op_cases:
  assumes idle: "active_idle (control_block sd)" and "length pad = 6" "value_first img" "op_ok op"
  shows "65500 < op_size op \<Longrightarrow> run_op pad img op (w, sd) =
      (w, sd\<lparr>number_of_drops_invalid_size := number_of_drops_invalid_size sd + 1\<rparr>)"
    and "op_size op \<le> 65500 \<Longrightarrow> active_room (control_block sd) < op_size op + 24 \<Longrightarrow>
      run_op pad img op (w, sd) = (w, sd\<lparr>number_of_drops_buffer_full := number_of_drops_buffer_full sd + 1,
         size_of_drops_buffer_full := size_of_drops_buffer_full sd + word_of_nat (op_size op + 16)\<rparr>)"
    and "op_size op \<le> 65500 \<Longrightarrow> op_size op + 24 \<le> active_room (control_block sd) \<Longrightarrow>
      \<exists>acb. run_op pad img op (w, sd) =
          (w\<lparr>next_type_identifier := op_next (next_type_identifier w) op\<rparr>, sd\<lparr>control_block := acb\<rparr>) \<and>
        active_idle acb \<and> active_room acb = active_room (control_block sd) - (op_size op + 24) \<and>
        switch_count_points_active_for_writing acb = switch_count_points_active_for_writing (control_block sd) \<and>
        blk_of acb (GetOppositeLinearControlBlock (active_id (control_block sd))) =
          blk_of (control_block sd) (GetOppositeLinearControlBlock (active_id (control_block sd))) \<and>
        events_of (active_contents acb) = events_of (active_contents (control_block sd))
          @ [op_event (next_type_identifier w) op]"
proof -
  let ?e = "header_image pad (op_header op) @ op_payload (next_type_identifier w) op"
  note eq = run_op_eq [OF assms, of w]
  have len: "length ?e = op_size op + 16" using assms(2) by simp
  show "run_op pad img op (w, sd) =
      (w, sd\<lparr>number_of_drops_invalid_size := number_of_drops_invalid_size sd + 1\<rparr>)" if "65500 < op_size op"
    using eq that by simp
  show "run_op pad img op (w, sd) = (w, sd\<lparr>number_of_drops_buffer_full := number_of_drops_buffer_full sd + 1,
         size_of_drops_buffer_full := size_of_drops_buffer_full sd + word_of_nat (op_size op + 16)\<rparr>)"
    if "op_size op \<le> 65500" "active_room (control_block sd) < op_size op + 24"
  proof -
    have "alt_append (control_block sd) ?e = None"
      using that len by (intro alt.append_refused [OF idle]) (simp_all add: span_ok_def)
    with eq that show ?thesis by simp
  qed
  show "\<exists>acb. run_op pad img op (w, sd) =
          (w\<lparr>next_type_identifier := op_next (next_type_identifier w) op\<rparr>, sd\<lparr>control_block := acb\<rparr>) \<and>
        active_idle acb \<and> active_room acb = active_room (control_block sd) - (op_size op + 24) \<and>
        switch_count_points_active_for_writing acb = switch_count_points_active_for_writing (control_block sd) \<and>
        blk_of acb (GetOppositeLinearControlBlock (active_id (control_block sd))) =
          blk_of (control_block sd) (GetOppositeLinearControlBlock (active_id (control_block sd))) \<and>
        events_of (active_contents acb) = events_of (active_contents (control_block sd))
          @ [op_event (next_type_identifier w) op]"
    if "op_size op \<le> 65500" "op_size op + 24 \<le> active_room (control_block sd)"
  proof -
    have fit: "length ?e \<le> 2 ^ 27" "length ?e + 8 \<le> active_room (control_block sd)"
      unfolding len using that by simp_all
    obtain acb where acb: "alt_append (control_block sd) ?e = Some acb" "active_idle acb"
        "active_contents acb = active_contents (control_block sd) @ [?e]"
        "active_room acb = active_room (control_block sd) - (length ?e + 8)"
      using alt.append_ok [OF idle fit] by blast
    moreover have "span_ok ?e" using fit(1) unfolding span_ok_def by simp
    note alt_append_frame [OF idle this acb(1)]
    ultimately show ?thesis
      using eq that len by (intro exI [of _ acb]) (simp add: op_decode [OF assms(2,4)] add.commute)
  qed
qed

lemma run_ops_deliver:
  assumes "active_idle (control_block sd)" "length pad = 6" "value_first img" "list_all op_ok ops"
  shows "active_idle (control_block (snd (run_ops pad img ops (w, sd)))) \<and>
    delivered sd (snd (run_ops pad img ops (w, sd)))
      (deliver (active_room (control_block sd)) (next_type_identifier w) ops)"
  using assms
proof (induction ops arbitrary: w sd)
  case Nil
  then show ?case by (simp add: run_ops_def delivered_def)
next
  case (Cons op ops)
  have op: "op_ok op" and ops: "list_all op_ok ops" using Cons.prems by simp_all
  note step = run_op_cases [OF Cons.prems(1-3) op, of w]
  have unfold: "run_ops pad img (op # ops) st = run_ops pad img ops (run_op pad img op st)" for st
    by (simp add: run_ops_def)
  consider (invalid) "65500 < op_size op"
    | (full) "op_size op \<le> 65500" "active_room (control_block sd) < op_size op + 24"
    | (kept) "op_size op \<le> 65500" "op_size op + 24 \<le> active_room (control_block sd)"
    by linarith
  then show ?case
  proof cases
    case invalid
    let ?sd = "sd\<lparr>number_of_drops_invalid_size := number_of_drops_invalid_size sd + 1\<rparr>"
    from invalid step(1) Cons.IH [of ?sd w] Cons.prems ops show ?thesis
      by (auto simp: unfold delivered_def split: prod.splits)
  next
    case full
    let ?sd = "sd\<lparr>number_of_drops_buffer_full := number_of_drops_buffer_full sd + 1,
      size_of_drops_buffer_full := size_of_drops_buffer_full sd + word_of_nat (op_size op + 16)\<rparr>"
    from full step(2) Cons.IH [of ?sd w] Cons.prems ops show ?thesis
      by (auto simp: unfold delivered_def split: prod.splits)
  next
    case kept
    with step(3) obtain acb where acb: "run_op pad img op (w, sd) =
          (w\<lparr>next_type_identifier := op_next (next_type_identifier w) op\<rparr>, sd\<lparr>control_block := acb\<rparr>)"
        "active_idle acb" "active_room acb = active_room (control_block sd) - (op_size op + 24)"
        "switch_count_points_active_for_writing acb = switch_count_points_active_for_writing (control_block sd)"
        "blk_of acb (GetOppositeLinearControlBlock (active_id (control_block sd))) =
          blk_of (control_block sd) (GetOppositeLinearControlBlock (active_id (control_block sd)))"
        "events_of (active_contents acb) = events_of (active_contents (control_block sd))
          @ [op_event (next_type_identifier w) op]"
      by blast
    let ?w = "w\<lparr>next_type_identifier := op_next (next_type_identifier w) op\<rparr>"
    from acb kept Cons.IH [of "sd\<lparr>control_block := acb\<rparr>" ?w] Cons.prems ops show ?thesis
      by (auto simp: unfold delivered_def split: prod.splits)
  qed
qed

section \<open>From the writer to the reader\<close>

lemma Read_via_contents:
  "ReadLinearBuffer (lcb_data (blk_of acb b)) (CreateLinearReaderFromDataAndLength (lcb_data (blk_of acb b)) (written_index (blk_of acb b)))
   = (min (written_index (blk_of acb b)) (GetDataSizeAsLength (lcb_data (blk_of acb b))),
      events_of (block_contents (blk_of acb b)))"
  if "span_ok (lcb_data (blk_of acb b))" for acb b
proof -
  let ?d = "lcb_data (blk_of acb b)" and ?n = "written_index (blk_of acb b)"
  have "unat (min ?n (GetDataSizeAsLength ?d)) \<le> length ?d"
    using that by (simp add: min_def word_le_nat_alt)
  then have "GetDataSizeAsLength (take (unat (min ?n (GetDataSizeAsLength ?d))) ?d) = min ?n (GetDataSizeAsLength ?d)"
    by (simp add: GetDataSizeAsLength_def min_absorb2)
  then show ?thesis
    by (simp add: ReadLinearBuffer_def ReadLinearBuffer_loop_eq block_contents_def
        LinearReader_GetSizeOfWholeDataBuffer_def CreateLinearReaderFromControlBlock_def reader_data_def
        CreateLinearReaderFromDataAndLength_def Let_def)
qed

text \<open>A reader that can still be given data.\<close>

definition reader_ready :: "SharedMemoryReader \<Rightarrow> SharedData \<Rightarrow> bool" where
  "reader_ready r sd \<longleftrightarrow> \<not> finished_reading_after_detach r \<and> \<not> is_writer_detached r \<and> \<not> writer_detached sd"

lemma acquire_notify:
  assumes idle: "active_idle (control_block sd)" and ready: "reader_ready r sd"
  obtains n r' w' sd' where
    "ReadAcquire w sd = (\<lparr>acquired_buffer = switch_count_points_active_for_writing (control_block sd)\<rparr>, w', sd')"
    "NotifyAcquisitionSetReader \<lparr>acquired_buffer = switch_count_points_active_for_writing (control_block sd)\<rparr> r sd' = (Some n, r')"
    "linear_reader r' = Some (active_id (control_block sd),
        CreateLinearReaderFromControlBlock (blk_of (control_block sd) (active_id (control_block sd))))"
    "buffer_expected_to_read_next r' = switch_count_points_active_for_writing (control_block sd')"
    "reader_ready r' sd'"
    "blk_of (control_block sd') (active_id (control_block sd)) = blk_of (control_block sd) (active_id (control_block sd))"
    "control_block sd' = snd (snd (Switch (alternating_reader w) (control_block sd)))"
    "writer_detached sd' = writer_detached sd" "moved_from w' = moved_from w"
    "next_type_identifier w' = next_type_identifier w"
proof -
  let ?b = "active_id (control_block sd)"
  have "acquired_index (blk_of (control_block sd) ?b) = written_index (blk_of (control_block sd) ?b)"
    "number_of_writers (blk_of (control_block sd) ?b) = 0"
    using idle by (auto simp: active_idle_def holds_log_def)
  with ready show thesis
    by (intro that [of "fst (snd (ReadAcquire w sd))" "snd (snd (ReadAcquire w sd))" _
          "snd (NotifyAcquisitionSetReader (fst (ReadAcquire w sd)) r (snd (snd (ReadAcquire w sd))))"])
      (simp_all add: ReadAcquire_def Switch_eq NotifyAcquisitionSetReader_def Let_def reader_ready_def
        AlternatingReader_IsBlockReleasedByWriters_def AlternatingReader_CreateLinearReader_def
        CreateLinearReaderFromControlBlock_def)
qed

text \<open>The block the writers get by the switch.\<close>

lemma switched_idle:
  assumes "active_idle acb" "number_of_writers (blk_of acb (GetOppositeLinearControlBlock (active_id acb))) = 0"
    and "acb' = snd (snd (Switch proxy acb))"
  shows "active_idle acb'" "active_contents acb' = []"
    "active_room acb' = length (lcb_data (blk_of acb (GetOppositeLinearControlBlock (active_id acb))))"
    "GetOppositeLinearControlBlock (active_id acb') = active_id acb"
  using assms empty_holds_log [of "blk_of acb (GetOppositeLinearControlBlock (active_id acb))"] active_idle_simps [OF assms(1)]
  by (auto simp: Switch_eq select_id_succ active_idle_def active_contents_def active_room_def block_room_def
      holds_log_contents)

lemma delivered_simps:
  assumes "delivered sd sd' (deliver room i ops)"
  shows "events_of (active_contents (control_block sd')) =
      events_of (active_contents (control_block sd)) @ fst (deliver room i ops)"
    "writer_detached sd' = writer_detached sd"
    "switch_count_points_active_for_writing (control_block sd') =
       switch_count_points_active_for_writing (control_block sd)"
    "blk_of (control_block sd') (GetOppositeLinearControlBlock (active_id (control_block sd))) =
       blk_of (control_block sd) (GetOppositeLinearControlBlock (active_id (control_block sd)))"
  using assms by (auto simp: delivered_def split: prod.splits)

lemma run_op_writer:
  assumes "active_idle (control_block sd)" "length pad = 6" "value_first img" "op_ok op"
  shows "moved_from (fst (run_op pad img op (w, sd))) = moved_from w"
  by (simp add: run_op_eq [OF assms] split: option.splits)

lemma run_ops_writer:
  assumes "active_idle (control_block sd)" "length pad = 6" "value_first img" "list_all op_ok ops"
  shows "moved_from (fst (run_ops pad img ops (w, sd))) = moved_from w"
  using assms
proof (induction ops rule: rev_induct)
  case (snoc op ops)
  then have "active_idle (control_block (snd (run_ops pad img ops (w, sd))))"
    using run_ops_deliver [of sd pad img ops w] by simp
  with snoc run_op_writer [of "snd (run_ops pad img ops (w, sd))" pad img op "fst (run_ops pad img ops (w, sd))"]
  show ?case by (simp add: run_ops_def)
qed (simp add: run_ops_def)

text \<open>C24: The writer keeps its promise as a bounded log, for every sequence of traces and
  type registrations: what fits is kept with its time, type and payload, under
  consecutive type identifiers for registrations; what does not fit or is longer than
  65500 bytes is dropped whole and counted in the matching counter. The other block and
  the switch counter are untouched.\<close>

theorem writer_is_bounded_log:
  assumes "active_idle (control_block sd)" "length pad = 6" "value_first img" "list_all op_ok ops"
  shows "delivered sd (snd (run_ops pad img ops (w, sd)))
    (deliver (active_room (control_block sd)) (next_type_identifier w) ops)"
  using run_ops_deliver [OF assms] by blast

definition fresh_shared_data :: "bytes \<Rightarrow> bytes \<Rightarrow> SharedData" where
  "fresh_shared_data d e = \<lparr>control_block = fresh_queue d e, linear_buffer_1_offset = 0, linear_buffer_2_offset = 0,
     number_of_drops_buffer_full = 0, size_of_drops_buffer_full = 0, number_of_drops_invalid_size = 0,
     number_of_drops_type_registration_failed = 0, writer_detached = False, producer_pid = 0\<rparr>"

definition example_image :: "TypeIdentifier \<Rightarrow> bytes" where
  "example_image v = le16 v @ [1, 0]"

lemma example_value_first: "value_first example_image"
  by (simp add: value_first_def example_image_def)

lemma fresh_shared_data_idle:
  "length d = n \<Longrightarrow> length e = n \<Longrightarrow> n < 2 ^ 63 \<Longrightarrow>
   active_idle (control_block (fresh_shared_data d e)) \<and> active_room (control_block (fresh_shared_data d e)) = n"
  using fresh_queue_idle [of d e] by (simp add: fresh_shared_data_def span_ok_def)

theorem writer_is_bounded_log_witness:
  "delivered (fresh_shared_data (replicate 60 0) (replicate 60 0))
     (snd (run_ops [0, 0, 0, 0, 0, 0] example_image [Register 5 [7], Trace 6 0 [1, 2], Trace 7 0 [3]]
        (NewSharedMemoryWriter (fresh_shared_data [] []) False, fresh_shared_data (replicate 60 0) (replicate 60 0))))
     ([TypeRegistered \<lparr>type_id = 0, registration_data = [7]\<rparr>,
       NewRecord \<lparr>smr_header = \<lparr>time_stamp = 6, type_identifier = 0\<rparr>, smr_payload = [1, 2]\<rparr>], 1, 17, 0)"
proof -
  note idle = fresh_shared_data_idle [of "replicate 60 0" 60 "replicate 60 0"]
  show ?thesis
    using writer_is_bounded_log [of "fresh_shared_data (replicate 60 0) (replicate 60 0)" "[0, 0, 0, 0, 0, 0]"
        example_image "[Register 5 [7], Trace 6 0 [1, 2], Trace 7 0 [3]]" "NewSharedMemoryWriter (fresh_shared_data [] []) False"]
      idle example_value_first
    by (simp add: NewSharedMemoryWriter_def GetRegisterTypeToken_def)
qed

lemma SharedMemoryReader_Read_attached:
  assumes "reader_ready r sd" "linear_reader r = Some (b, CreateLinearReaderFromControlBlock (blk_of (control_block sd) b))"
    and "span_ok (lcb_data (blk_of (control_block sd) b))"
  shows "SharedMemoryReader_Read r sd =
    (Some (min (written_index (blk_of (control_block sd) b)) (GetDataSizeAsLength (lcb_data (blk_of (control_block sd) b)))),
     events_of (block_contents (blk_of (control_block sd) b)), r\<lparr>linear_reader := None\<rparr>)"
  using assms Read_via_contents [OF assms(3)]
  by (simp add: SharedMemoryReader_Read_def reader_ready_def Let_def IsWriterDetached_def
      CreateLinearReaderFromControlBlock_def)

text \<open>C7: End to end through shared memory. Whatever a logging process traced and registered
  since its buffer became active, within the room it had, is delivered by the data router
  after the acknowledged switch: the events are exactly those of the bounded log, in
  order, and nothing is delivered twice.\<close>

theorem shared_memory_round_trip:
  assumes "active_idle (control_block sd)" "length pad = 6" "value_first img" "list_all op_ok ops"
    and "reader_ready r sd"
  shows "case run_ops pad img ops (w, sd) of (w1, sd1) \<Rightarrow>
    case ReadAcquire w1 sd1 of (result, w2, sd2) \<Rightarrow>
    case NotifyAcquisitionSetReader result r sd2 of (n, r1) \<Rightarrow>
    case SharedMemoryReader_Read r1 sd2 of (m, evs, r2) \<Rightarrow>
      n \<noteq> None \<and> m \<noteq> None \<and>
      evs = events_of (active_contents (control_block sd)) @
        fst (deliver (active_room (control_block sd)) (next_type_identifier w) ops) \<and>
      SharedMemoryReader_Read r2 sd2 = (None, [], r2)"
proof -
  obtain w1 sd1 where run: "run_ops pad img ops (w, sd) = (w1, sd1)" by (cases "run_ops pad img ops (w, sd)")
  then have idle1: "active_idle (control_block sd1)"
    and del: "delivered sd sd1 (deliver (active_room (control_block sd)) (next_type_identifier w) ops)"
    using run_ops_deliver [OF assms(1-4), of w] by simp_all
  have ready1: "reader_ready r sd1"
    using assms(5) delivered_simps [OF del] by (simp add: reader_ready_def)
  let ?c = "switch_count_points_active_for_writing (control_block sd1)" and ?b = "active_id (control_block sd1)"
  obtain n r1 w2 sd2 where acq: "ReadAcquire w1 sd1 = (\<lparr>acquired_buffer = ?c\<rparr>, w2, sd2)"
      "NotifyAcquisitionSetReader \<lparr>acquired_buffer = ?c\<rparr> r sd2 = (Some n, r1)"
      "linear_reader r1 = Some (?b, CreateLinearReaderFromControlBlock (blk_of (control_block sd1) ?b))"
      "reader_ready r1 sd2" "blk_of (control_block sd2) ?b = blk_of (control_block sd1) ?b"
    using acquire_notify [OF idle1 ready1, of w1] by metis
  have "SharedMemoryReader_Read r1 sd2 = (Some (min (written_index (blk_of (control_block sd2) ?b))
        (GetDataSizeAsLength (lcb_data (blk_of (control_block sd2) ?b)))),
      events_of (active_contents (control_block sd1)), r1\<lparr>linear_reader := None\<rparr>)"
    using SharedMemoryReader_Read_attached [OF acq(4), of ?b] acq(3,5) active_idle_simps(2) [OF idle1]
    by (simp add: active_contents_def)
  moreover have "SharedMemoryReader_Read (r1\<lparr>linear_reader := None\<rparr>) sd2 = (None, [], r1\<lparr>linear_reader := None\<rparr>)"
    using acq(4) by (simp add: SharedMemoryReader_Read_def reader_ready_def IsWriterDetached_def Let_def)
  ultimately show ?thesis
    using run acq delivered_simps [OF del] by simp
qed

lemma example_idle:
  "active_idle (control_block (fresh_shared_data (replicate 60 0) (replicate 60 0)))"
  "active_room (control_block (fresh_shared_data (replicate 60 0) (replicate 60 0))) = 60"
  "reader_ready (NewSharedMemoryReader sd False) (fresh_shared_data (replicate 60 0) (replicate 60 0))"
  using fresh_shared_data_idle [of "replicate 60 0" 60 "replicate 60 0"]
  by (simp_all add: reader_ready_def NewSharedMemoryReader_def fresh_shared_data_def)

theorem shared_memory_round_trip_witness:
  "case run_ops [0, 0, 0, 0, 0, 0] example_image [Register 5 [7], Trace 6 0 [1, 2], Trace 7 0 [3]]
      (NewSharedMemoryWriter (fresh_shared_data [] []) False, fresh_shared_data (replicate 60 0) (replicate 60 0)) of (w1, sd1) \<Rightarrow>
    case ReadAcquire w1 sd1 of (result, w2, sd2) \<Rightarrow>
    case NotifyAcquisitionSetReader result (NewSharedMemoryReader (fresh_shared_data [] []) False) sd2 of (n, r1) \<Rightarrow>
    case SharedMemoryReader_Read r1 sd2 of (m, evs, r2) \<Rightarrow>
      n \<noteq> None \<and> m \<noteq> None \<and>
      evs = events_of (active_contents (control_block (fresh_shared_data (replicate 60 0) (replicate 60 0)))) @
        fst (deliver (active_room (control_block (fresh_shared_data (replicate 60 0) (replicate 60 0))))
          (next_type_identifier (NewSharedMemoryWriter (fresh_shared_data [] []) False))
          [Register 5 [7], Trace 6 0 [1, 2], Trace 7 0 [3]]) \<and>
      SharedMemoryReader_Read r2 sd2 = (None, [], r2)"
  by (rule shared_memory_round_trip)
    (simp_all add: example_idle example_value_first GetRegisterTypeToken_def)

text \<open>Nothing is lost when a logging process ends. It traced \<open>ops\<close>, the data router
  acquired that buffer, it traced \<open>later\<close> into the other one and its writer was destroyed:
  the next read delivers both buffers, older first, and then the reader is done for good.\<close>

theorem detached_read_delivers_both_blocks:
  assumes "active_idle (control_block sd)" "length pad = 6" "value_first img"
    and "list_all op_ok ops" "list_all op_ok later" "reader_ready r sd" "\<not> moved_from w"
    and "number_of_writers (blk_of (control_block sd) (GetOppositeLinearControlBlock (active_id (control_block sd)))) = 0"
  shows "case run_ops pad img ops (w, sd) of (w1, sd1) \<Rightarrow>
    case ReadAcquire w1 sd1 of (result, w2, sd2) \<Rightarrow>
    case NotifyAcquisitionSetReader result r sd2 of (n, r1) \<Rightarrow>
    case run_ops pad img later (w2, sd2) of (w3, sd3) \<Rightarrow>
    case DestroySharedMemoryWriter w3 sd3 of (_, sd4) \<Rightarrow>
    case SharedMemoryReader_Read r1 sd4 of (m, evs, r2) \<Rightarrow>
      evs = events_of (active_contents (control_block sd)) @
        fst (deliver (active_room (control_block sd)) (next_type_identifier w) ops) @
        fst (deliver (length (lcb_data (blk_of (control_block sd) (GetOppositeLinearControlBlock (active_id (control_block sd))))))
          (next_type_identifier w1) later) \<and>
      (\<forall>sd'. SharedMemoryReader_Read r2 sd' = (None, [], r2))"
proof -
  obtain w1 sd1 where run: "run_ops pad img ops (w, sd) = (w1, sd1)" by (cases "run_ops pad img ops (w, sd)")
  then have idle1: "active_idle (control_block sd1)"
    and del: "delivered sd sd1 (deliver (active_room (control_block sd)) (next_type_identifier w) ops)"
    using run_ops_deliver [OF assms(1-4), of w] by simp_all
  note d1 = delivered_simps [OF del]
  have ready1: "reader_ready r sd1" using assms(6) d1 by (simp add: reader_ready_def)
  let ?c = "switch_count_points_active_for_writing (control_block sd1)" and ?b = "active_id (control_block sd1)"
  obtain n r1 w2 sd2 where acq: "ReadAcquire w1 sd1 = (\<lparr>acquired_buffer = ?c\<rparr>, w2, sd2)"
      "NotifyAcquisitionSetReader \<lparr>acquired_buffer = ?c\<rparr> r sd2 = (Some n, r1)"
      "linear_reader r1 = Some (?b, CreateLinearReaderFromControlBlock (blk_of (control_block sd1) ?b))"
      "buffer_expected_to_read_next r1 = switch_count_points_active_for_writing (control_block sd2)"
      "reader_ready r1 sd2" "blk_of (control_block sd2) ?b = blk_of (control_block sd1) ?b"
      "control_block sd2 = snd (snd (Switch (alternating_reader w1) (control_block sd1)))"
      "moved_from w2 = moved_from w1" "next_type_identifier w2 = next_type_identifier w1"
    using acquire_notify [OF idle1 ready1, of w1] by metis
  have "number_of_writers (blk_of (control_block sd1) (GetOppositeLinearControlBlock ?b)) = 0"
    using assms(8) d1(3,4) by simp
  note sw = switched_idle [OF idle1 this acq(7)]
  obtain w3 sd3 where run2: "run_ops pad img later (w2, sd2) = (w3, sd3)" by (cases "run_ops pad img later (w2, sd2)")
  then have idle3: "active_idle (control_block sd3)"
    and del2: "delivered sd2 sd3 (deliver (active_room (control_block sd2)) (next_type_identifier w2) later)"
    using run_ops_deliver [OF sw(1) assms(2,3,5), of w2] by simp_all
  note d2 = delivered_simps [OF del2]
  have "\<not> moved_from w3"
    using run_ops_writer [OF sw(1) assms(2,3,5), of w2] run_ops_writer [OF assms(1-4), of w] run run2 acq(8) assms(7) by simp
  then have destroy: "DestroySharedMemoryWriter w3 sd3 = (unmap_callback_set w3, sd3\<lparr>writer_detached := True\<rparr>)"
    by (simp add: DestroySharedMemoryWriter_def Writer_DetachWriter_def)
  have b: "blk_of (control_block sd3) ?b = blk_of (control_block sd1) ?b"
    using d2(4) sw(4) acq(6) by simp
  note view1 = Read_via_contents [OF active_idle_simps(2) [OF idle1]]
  note view3 = Read_via_contents [OF active_idle_simps(2) [OF idle3]]
  have "fst (snd (SharedMemoryReader_Read r1 (sd3\<lparr>writer_detached := True\<rparr>))) =
      events_of (active_contents (control_block sd1)) @ events_of (active_contents (control_block sd3)) \<and>
    finished_reading_after_detach (snd (snd (SharedMemoryReader_Read r1 (sd3\<lparr>writer_detached := True\<rparr>))))"
    using acq(3-5) b view1 view3 d2(3)
    by (simp add: SharedMemoryReader_Read_def reader_ready_def Let_def IsWriterDetached_def active_contents_def
        AlternatingReader_CreateLinearReader_def CreateLinearReaderFromControlBlock_def)
  then show ?thesis
    using run acq(1,2,9) run2 destroy d1 d2 sw
    by (auto simp: SharedMemoryReader_Read_def split: prod.splits)
qed

theorem detached_read_delivers_both_blocks_witness:
  "case run_ops [0, 0, 0, 0, 0, 0] example_image [Register 5 [7], Trace 6 0 [1, 2]]
      (NewSharedMemoryWriter (fresh_shared_data [] []) False, fresh_shared_data (replicate 60 0) (replicate 60 0)) of (w1, sd1) \<Rightarrow>
    case ReadAcquire w1 sd1 of (result, w2, sd2) \<Rightarrow>
    case NotifyAcquisitionSetReader result (NewSharedMemoryReader (fresh_shared_data [] []) False) sd2 of (n, r1) \<Rightarrow>
    case run_ops [0, 0, 0, 0, 0, 0] example_image [Trace 8 0 [4]] (w2, sd2) of (w3, sd3) \<Rightarrow>
    case DestroySharedMemoryWriter w3 sd3 of (_, sd4) \<Rightarrow>
    case SharedMemoryReader_Read r1 sd4 of (m, evs, r2) \<Rightarrow>
      evs = events_of (active_contents (control_block (fresh_shared_data (replicate 60 0) (replicate 60 0)))) @
        fst (deliver (active_room (control_block (fresh_shared_data (replicate 60 0) (replicate 60 0))))
          (next_type_identifier (NewSharedMemoryWriter (fresh_shared_data [] []) False)) [Register 5 [7], Trace 6 0 [1, 2]]) @
        fst (deliver (length (lcb_data (blk_of (control_block (fresh_shared_data (replicate 60 0) (replicate 60 0)))
            (GetOppositeLinearControlBlock (active_id (control_block (fresh_shared_data (replicate 60 0) (replicate 60 0))))))))
          (next_type_identifier w1) [Trace 8 0 [4]]) \<and>
      (\<forall>sd'. SharedMemoryReader_Read r2 sd' = (None, [], r2))"
proof (rule detached_read_delivers_both_blocks)
  show "number_of_writers (blk_of (control_block (fresh_shared_data (replicate 60 0) (replicate 60 0)))
      (GetOppositeLinearControlBlock (active_id (control_block (fresh_shared_data (replicate 60 0) (replicate 60 0)))))) = 0"
    by (simp add: fresh_shared_data_def fresh_queue_def InitializeAlternatingControlBlock_def
        SelectLinearControlBlockReference_def)
qed (simp_all add: example_idle example_value_first GetRegisterTypeToken_def NewSharedMemoryWriter_def)

text \<open>A block that some writer still holds is never handed to the reader: the
  notification is refused and the reader keeps its state, so that a later read returns
  nothing from it.\<close>

theorem unreleased_block_not_read:
  assumes "number_of_writers (blk_of (control_block sd) (SelectLinearControlBlockId c)) \<noteq> 0
    \<or> written_index (blk_of (control_block sd) (SelectLinearControlBlockId c))
      \<noteq> acquired_index (blk_of (control_block sd) (SelectLinearControlBlockId c))"
    and "reader_ready r sd" "linear_reader r = None"
  shows "NotifyAcquisitionSetReader \<lparr>acquired_buffer = c\<rparr> r sd = (None, r)
    \<and> SharedMemoryReader_Read r sd = (None, [], r)"
  using assms by (auto simp: NotifyAcquisitionSetReader_def AlternatingReader_IsBlockReleasedByWriters_def Let_def
      SharedMemoryReader_Read_def reader_ready_def IsWriterDetached_def)

theorem unreleased_block_not_read_witness:
  "let acb = fresh_queue [] [];
       sd = (fresh_shared_data [] [])\<lparr>control_block := upd_block kBlockOdd (add_writers 1) acb\<rparr>;
       r = NewSharedMemoryReader sd False
   in NotifyAcquisitionSetReader \<lparr>acquired_buffer = 1\<rparr> r sd = (None, r) \<and> SharedMemoryReader_Read r sd = (None, [], r)"
  unfolding Let_def
  by (rule unreleased_block_not_read)
    (simp_all add: fresh_queue_def SelectLinearControlBlockId_def InitializeAlternatingControlBlock_def
      SelectLinearControlBlockReference_def upd_block_def add_writers_def fresh_shared_data_def
      reader_ready_def NewSharedMemoryReader_def)

end
