(* ===== verification/Factories.thy ===== *)
theory Factories
  imports SharedMemory
begin

text \<open>
  How a ring buffer comes into being (\<^verbatim>\<open>shared_memory/writer_factory.cpp\<close>) and how the
  data router attaches to it (\<^verbatim>\<open>shared_memory/reader_factory_impl.cpp\<close>).

  The operating system is a parameter: a record with the outcome of every call the
  factories make. The calls themselves are recorded in order, so that the clean-up after
  a failure can be stated. The sizes of structures are parameters too.
\<close>

section \<open>Operating system\<close>

datatype OpenFlag = kReadWrite | kExclusive | kCloseOnExec | kCreate
datatype ModeFlag = kReadUser | kReadGroup | kReadOthers | kWriteUser

datatype OsCall =
    AccessCall string
  | UnlinkCall string
  | OpenCall string "OpenFlag list" "ModeFlag list"
  | ChmodCall string "ModeFlag list"
  | FtruncateCall "32 word" u64
  | MmapCall u64 "32 word"
  | MunmapCall nat u64
  | MkstempsCall string nat

record Osal =
  has_fcntl :: bool
  has_unistd :: bool
  has_mman :: bool
  has_stat :: bool
  has_stdlib :: bool
  os_getuid :: nat
  os_getpid :: "32 word"
  os_exists :: "string \<Rightarrow> bool"
  os_open :: "string \<Rightarrow> OpenFlag list \<Rightarrow> 32 word option"
  os_chmod :: "string \<Rightarrow> bool"
  os_ftruncate :: "32 word \<Rightarrow> u64 \<Rightarrow> bool"
  os_mmap :: "u64 \<Rightarrow> 32 word \<Rightarrow> nat option"
  os_mkstemps :: "string \<Rightarrow> string"
  os_mapped :: bytes

text \<open>\<open>os_mkstemps\<close> gives the name buffer after the call; \<open>os_mapped\<close> are the bytes behind the
  shared structure in the new mapping.\<close>

section \<open>Writer factory\<close>

fun show_nat :: "nat \<Rightarrow> string" where
  "show_nat n = (if n < 10 then [char_of (48 + n)] else show_nat (n div 10) @ [char_of (48 + n mod 10)])"

declare show_nat.simps [simp del]

record LoggingClientFileNameResult =
  file_name :: string
  client_identifier :: string

definition kFileNameTemplate :: string where "kFileNameTemplate = ''/tmp/logging-XXXXXX.shmem''"
definition kFileNameDirectoryTemplate :: string where "kFileNameDirectoryTemplate = ''/tmp/''"
definition kFileNameBaseTemplate :: string where "kFileNameBaseTemplate = ''logging-XXXXXX''"
definition kSuffixName :: string where "kSuffixName = ''.shmem''"

definition GetStaticLoggingClientFilename :: "Osal \<Rightarrow> string \<Rightarrow> LoggingClientFileNameResult" where
  "GetStaticLoggingClientFilename os app_id =
     (let logging_id = ''logging'' @ ''.'' @ app_id @ ''.'' @ show_nat (os_getuid os)
      in \<lparr>file_name = kFileNameDirectoryTemplate @ logging_id @ kSuffixName, client_identifier = logging_id\<rparr>)"

definition UnlinkExistingFile :: "Osal \<Rightarrow> string \<Rightarrow> OsCall list" where
  "UnlinkExistingFile os name =
     AccessCall name # (if os_exists os name then [UnlinkCall name] else [])"

definition kOpenModeFlags :: "ModeFlag list" where
  "kOpenModeFlags = [kReadUser, kReadGroup, kReadOthers]"

definition OpenAndTruncateFile ::
  "Osal \<Rightarrow> u64 \<Rightarrow> string \<Rightarrow> OpenFlag list \<Rightarrow> 32 word option \<times> OsCall list" where
  "OpenAndTruncateFile os buffer_total_size name flags =
     (let calls = [OpenCall name flags kOpenModeFlags] in
      case os_open os name flags of
        None \<Rightarrow> (None, calls)
      | Some memfd_write \<Rightarrow>
          let calls = calls @ [ChmodCall name kOpenModeFlags] in
          if \<not> os_chmod os name then (None, calls)
          else
            let calls = calls @ [FtruncateCall memfd_write buffer_total_size] in
            if \<not> os_ftruncate os memfd_write buffer_total_size
            then (None, calls @ [UnlinkCall name])
            else (Some memfd_write, calls))"

text \<open>The unmap callback is the address and size it will unmap.\<close>

definition MapSharedMemory ::
  "Osal \<Rightarrow> u64 \<Rightarrow> 32 word \<Rightarrow> string \<Rightarrow> nat option \<times> (nat \<times> u64) option \<times> OsCall list" where
  "MapSharedMemory os buffer_total_size memfd_write name =
     (let calls = [MmapCall buffer_total_size memfd_write] in
      case os_mmap os buffer_total_size memfd_write of
        None \<Rightarrow> (None, None, calls @ [UnlinkCall name])
      | Some address \<Rightarrow>
          let unmap_callback = (address, buffer_total_size) in
          if address = 0 then (None, Some unmap_callback, calls @ [MunmapCall address buffer_total_size])
          else (Some address, Some unmap_callback, calls))"

definition IsMemoryAligned :: "nat \<Rightarrow> nat \<times> u64 \<Rightarrow> nat \<Rightarrow> bool \<times> OsCall list" where
  "IsMemoryAligned alignof_SharedData unmap_callback ring_buffer_address =
     (if ring_buffer_address mod alignof_SharedData \<noteq> 0
      then (False, [MunmapCall (fst unmap_callback) (snd unmap_callback)])
      else (True, []))"

definition ConstructSharedData :: "Osal \<Rightarrow> u64 \<Rightarrow> u64 \<Rightarrow> SharedData" where
  "ConstructSharedData os sizeof_SharedData ring_buffer_size =
     (let block = \<lparr>lcb_data = [], acquired_index = 0, written_index = 0, number_of_writers = 0\<rparr>;
          shared_data = \<lparr>control_block = \<lparr>control_block_even = block, control_block_odd = block,
              switch_count_points_active_for_writing = 0\<rparr>,
            linear_buffer_1_offset = 0, linear_buffer_2_offset = 0, number_of_drops_buffer_full = 0,
            size_of_drops_buffer_full = 0, number_of_drops_invalid_size = 0,
            number_of_drops_type_registration_failed = 0, writer_detached = False, producer_pid = 0\<rparr>;
          shared_data = shared_data\<lparr>producer_pid := os_getpid os\<rparr>;
          half_buffer_size = ring_buffer_size div 2;
          shared_data = shared_data\<lparr>control_block := upd_block kBlockEven
            (\<lambda>cb. cb\<lparr>lcb_data := subspan 0 (unat half_buffer_size) (os_mapped os)\<rparr>) (control_block shared_data)\<rparr>;
          shared_data = InitializeSharedData shared_data;
          shared_data = shared_data\<lparr>linear_buffer_1_offset := sizeof_SharedData\<rparr>;
          shared_data = shared_data\<lparr>control_block := upd_block kBlockOdd
            (\<lambda>cb. cb\<lparr>lcb_data := subspan (unat half_buffer_size) (unat half_buffer_size) (os_mapped os)\<rparr>)
            (control_block shared_data)\<rparr>
      in shared_data\<lparr>linear_buffer_2_offset := sizeof_SharedData + half_buffer_size\<rparr>)"

definition PrepareFileNameAndUpdateOpenFlags ::
  "Osal \<Rightarrow> OpenFlag list \<Rightarrow> bool \<Rightarrow> string \<Rightarrow> LoggingClientFileNameResult \<times> OpenFlag list \<times> OsCall list" where
  "PrepareFileNameAndUpdateOpenFlags os file_open_flags dynamic_mode app_id =
     (if dynamic_mode then
        let name_buffer = os_mkstemps os kFileNameTemplate;
            calls = [MkstempsCall kFileNameTemplate (length kSuffixName),
                     ChmodCall name_buffer [kReadUser, kReadGroup, kReadOthers, kWriteUser]]
        in (\<lparr>file_name = name_buffer,
             client_identifier = take (length kFileNameBaseTemplate) (drop (length kFileNameDirectoryTemplate) name_buffer)\<rparr>,
            file_open_flags, calls)
      else
        let result_file_name = GetStaticLoggingClientFilename os app_id
        in (result_file_name, file_open_flags @ [kCreate], UnlinkExistingFile os (file_name result_file_name)))"

definition GetAlignedRingBufferAddress ::
  "Osal \<Rightarrow> nat \<Rightarrow> u64 \<Rightarrow> string \<Rightarrow> OpenFlag list \<Rightarrow> (nat \<times> nat \<times> u64) option \<times> OsCall list" where
  "GetAlignedRingBufferAddress os alignof_SharedData total_size name file_open_flags =
     (case OpenAndTruncateFile os total_size name file_open_flags of
        (None, calls) \<Rightarrow> (None, calls)
      | (Some memfd_write, calls) \<Rightarrow>
          (case MapSharedMemory os total_size memfd_write name of
             (Some address, Some unmap_callback, calls2) \<Rightarrow>
               (case IsMemoryAligned alignof_SharedData unmap_callback address of
                  (False, calls3) \<Rightarrow> (None, calls @ calls2 @ calls3)
                | (True, calls3) \<Rightarrow> (Some (address, unmap_callback), calls @ calls2 @ calls3))
           | (_, _, calls2) \<Rightarrow> (None, calls @ calls2)))"

record WriterFactory =
  file_attributes :: LoggingClientFileNameResult

definition WriterFactory_Create ::
  "Osal \<Rightarrow> u64 \<Rightarrow> nat \<Rightarrow> u64 \<Rightarrow> bool \<Rightarrow> string \<Rightarrow> WriterFactory \<Rightarrow>
   (SharedMemoryWriter \<times> SharedData) option \<times> WriterFactory \<times> OsCall list" where
  "WriterFactory_Create os sizeof_SharedData alignof_SharedData ring_buffer_size dynamic_mode app_id fac =
     (if ((\<not> has_fcntl os \<or> \<not> has_unistd os) \<or> \<not> has_mman os) \<or> (\<not> has_stat os \<or> \<not> has_stdlib os)
      then (None, fac, [])
      else
        let flags = [kReadWrite, kExclusive, kCloseOnExec];
            (name, flags, calls) = PrepareFileNameAndUpdateOpenFlags os flags dynamic_mode app_id;
            fac = fac\<lparr>file_attributes := name\<rparr>;
            total_size = sizeof_SharedData + ring_buffer_size
        in case GetAlignedRingBufferAddress os alignof_SharedData total_size (file_name name) flags of
             (None, calls2) \<Rightarrow> (None, fac, calls @ calls2)
           | (Some _, calls2) \<Rightarrow>
               let shared_data = ConstructSharedData os sizeof_SharedData ring_buffer_size
               in (Some (NewSharedMemoryWriter shared_data True, shared_data), fac, calls @ calls2))"

definition GetIdentifier :: "WriterFactory \<Rightarrow> string" where
  "GetIdentifier fac = client_identifier (file_attributes fac)"

definition GetFileName :: "WriterFactory \<Rightarrow> string" where
  "GetFileName fac = file_name (file_attributes fac)"

section \<open>Reader factory\<close>

text \<open>
  What the factory reads of the mapped file: the fields of the shared structure that it
  checks, whatever process wrote them. The two sizes are those of the spans.
\<close>

record MappedHeader =
  mh_offset_1 :: u64
  mh_offset_2 :: u64
  mh_even_size :: u64
  mh_odd_size :: u64
  mh_pid :: "32 word"
  mh_switch_count :: u32

datatype ReaderFactoryError =
  FstatFailed | NegativeSize | SizeTooSmall | MmapFailed | OffsetOutOfRange | WrongPid

text \<open>The spans of the reader: offset in the mapping and size.\<close>

record ReaderSpans =
  span_even :: "u64 \<times> u64"
  span_odd :: "u64 \<times> u64"

definition GetBufferAddress :: "nat \<Rightarrow> u64 \<Rightarrow> nat" where
  "GetBufferAddress start offset = start + unat offset"

definition ReaderFactoryImpl_Create ::
  "int option \<Rightarrow> (u64 \<Rightarrow> nat option) \<Rightarrow> MappedHeader \<Rightarrow> u64 \<Rightarrow> 32 word \<Rightarrow>
   (ReaderFactoryError + ReaderSpans) \<times> OsCall list" where
  "ReaderFactoryImpl_Create fstat_size mmap shared_data sizeof_SharedData expected_pid =
     (case fstat_size of
        None \<Rightarrow> (Inl FstatFailed, [])
      | Some st_size \<Rightarrow>
          if st_size < 0 then (Inl NegativeSize, [])
          else
            let map_size_bytes = (of_int st_size :: u64) in
            if map_size_bytes < sizeof_SharedData then (Inl SizeTooSmall, [])
            else
              case mmap map_size_bytes of
                None \<Rightarrow> (Inl MmapFailed, [])
              | Some address \<Rightarrow>
                  let max_offset_bytes = max (mh_offset_1 shared_data + mh_even_size shared_data)
                        (mh_offset_2 shared_data + mh_odd_size shared_data);
                      unmap = [MunmapCall address map_size_bytes]
                  in if max_offset_bytes > map_size_bytes then (Inl OffsetOutOfRange, unmap)
                     else if mh_pid shared_data \<noteq> expected_pid then (Inl WrongPid, unmap)
                     else (Inr \<lparr>span_even = (mh_offset_1 shared_data, mh_even_size shared_data),
                                span_odd = (mh_offset_2 shared_data, mh_odd_size shared_data)\<rparr>, []))"

section \<open>A new ring buffer\<close>

text \<open>The five interfaces are there and every call of a creation succeeds.\<close>

definition os_works :: "Osal \<Rightarrow> nat \<Rightarrow> u64 \<Rightarrow> bool" where
  "os_works os align total' \<longleftrightarrow> has_fcntl os \<and> has_unistd os \<and> has_mman os \<and> has_stat os \<and> has_stdlib os
     \<and> (\<forall>name flags. os_open os name flags \<noteq> None) \<and> (\<forall>name. os_chmod os name)
     \<and> (\<forall>fd. os_ftruncate os fd total')
     \<and> (\<forall>fd. \<exists>a. os_mmap os total' fd = Some a \<and> a \<noteq> 0 \<and> a mod align = 0)"

definition header_of :: "SharedData \<Rightarrow> MappedHeader" where
  "header_of sd = \<lparr>mh_offset_1 = linear_buffer_1_offset sd, mh_offset_2 = linear_buffer_2_offset sd,
     mh_even_size = GetDataSizeAsLength (lcb_data (control_block_even (control_block sd))),
     mh_odd_size = GetDataSizeAsLength (lcb_data (control_block_odd (control_block sd))),
     mh_pid = producer_pid sd,
     mh_switch_count = switch_count_points_active_for_writing (control_block sd)\<rparr>"

lemma ConstructSharedData_eq:
  "ConstructSharedData os sz n =
     \<lparr>control_block = fresh_queue (subspan 0 (unat n div 2) (os_mapped os)) (subspan (unat n div 2) (unat n div 2) (os_mapped os)),
      linear_buffer_1_offset = sz, linear_buffer_2_offset = sz + n div 2, number_of_drops_buffer_full = 0,
      size_of_drops_buffer_full = 0, number_of_drops_invalid_size = 0,
      number_of_drops_type_registration_failed = 0, writer_detached = False, producer_pid = os_getpid os\<rparr>"
  by (simp add: ConstructSharedData_def Let_def fresh_queue_def InitializeSharedData_def upd_block_def
      InitializeAlternatingControlBlock_def unat_div)

lemma Create_ok:
  assumes "os_works os align (sz + n)"
  shows "\<exists>fac' calls. WriterFactory_Create os sz align n dyn app fac =
    (Some (NewSharedMemoryWriter (ConstructSharedData os sz n) True, ConstructSharedData os sz n), fac', calls)"
proof -
  obtain name flags calls where name:
    "PrepareFileNameAndUpdateOpenFlags os [kReadWrite, kExclusive, kCloseOnExec] dyn app = (name, flags, calls)"
    by (metis prod.exhaust)
  from assms obtain fd where fd: "os_open os (file_name name) flags = Some fd"
    unfolding os_works_def by blast
  have "\<exists>a. os_mmap os (sz + n) fd = Some a \<and> a \<noteq> 0 \<and> a mod align = 0"
    using assms by (simp add: os_works_def)
  then obtain a where a: "os_mmap os (sz + n) fd = Some a" "a \<noteq> 0" "a mod align = 0" by (elim exE conjE)
  show ?thesis
    using assms name fd a
    by (simp add: WriterFactory_Create_def os_works_def GetAlignedRingBufferAddress_def OpenAndTruncateFile_def
        MapSharedMemory_def IsMemoryAligned_def Let_def)
qed

lemma halves_in_bounds:
  fixes sz n :: u64
  assumes "unat sz + unat n < 2 ^ 64"
  shows "unat (sz + n div 2) = unat sz + unat n div 2" "unat (sz + n) = unat sz + unat n"
    "unat (sz + n div 2 + n div 2) = unat sz + unat n div 2 + unat n div 2"
proof -
  have h: "unat (n div 2) = unat n div 2" by (simp add: unat_div)
  show a: "unat (sz + n div 2) = unat sz + unat n div 2"
    using assms unat_add_bound [of sz "n div 2"] h by simp
  show "unat (sz + n) = unat sz + unat n" using assms by (simp add: unat_add_bound)
  show "unat (sz + n div 2 + n div 2) = unat sz + unat n div 2 + unat n div 2"
    using assms unat_add_bound [of "sz + n div 2" "n div 2"] h a by simp
qed

text \<open>C40: A ring buffer that the writer factory creates is empty, ready for one writer and half
  of the requested size is free for it; and the data router's factory, given the
  resulting file and the right process, attaches to it with two spans that lie behind
  the shared structure, inside the file and do not overlap.\<close>

theorem created_buffer_attaches:
  assumes "os_works os align (sz + n)" "length (os_mapped os) = unat n" "unat sz + unat n < 2 ^ 63"
  shows "\<exists>w sd fac' calls.
    WriterFactory_Create os sz align n dyn app fac = (Some (w, sd), fac', calls) \<and>
    active_idle (control_block sd) \<and> active_contents (control_block sd) = [] \<and>
    active_room (control_block sd) = unat n div 2 \<and>
    (\<forall>mmap address. mmap (sz + n) = Some address \<longrightarrow>
      (\<exists>spans. ReaderFactoryImpl_Create (Some (int (unat sz + unat n))) mmap (header_of sd) sz (os_getpid os) = (Inr spans, []) \<and>
        unat (fst (span_even spans)) = unat sz \<and>
        unat (fst (span_odd spans)) = unat (fst (span_even spans)) + unat (snd (span_even spans)) \<and>
        unat (fst (span_odd spans)) + unat (snd (span_odd spans)) \<le> unat sz + unat n))"
proof -
  let ?sd = "ConstructSharedData os sz n" and ?h = "unat n div 2"
  obtain fac' calls where create: "WriterFactory_Create os sz align n dyn app fac =
      (Some (NewSharedMemoryWriter ?sd True, ?sd), fac', calls)"
    using Create_ok [OF assms(1)] by blast
  have len: "length (subspan 0 ?h (os_mapped os)) = ?h" "length (subspan ?h ?h (os_mapped os)) = ?h"
    using assms(2) div_times_less_eq_dividend [of "unat n" 2] by (simp_all add: min_absorb1)
  have ok: "span_ok (subspan 0 ?h (os_mapped os))" "span_ok (subspan ?h ?h (os_mapped os))"
    using assms(3) unfolding span_ok_def len by simp_all
  note idle = fresh_queue_idle [OF ok]
  have contents: "active_contents (control_block ?sd) = []"
    using ok by (simp add: ConstructSharedData_eq active_contents_def fresh_queue_def InitializeAlternatingControlBlock_def
        SelectLinearControlBlockId_def SelectLinearControlBlockReference_def holds_log_contents [where ps = "[]"] holds_log_def)
  have h: "unat (n div 2) = ?h" by (simp add: unat_div)
  have half: "word_of_nat ?h = n div 2" by (simp add: h [symmetric])
  have bound: "unat sz + unat n < 2 ^ 64" using assms(3) by simp
  note b = halves_in_bounds [OF bound]
  have "(of_int (int (unat sz + unat n)) :: u64) = sz + n" by simp
  moreover have "header_of ?sd = \<lparr>mh_offset_1 = sz, mh_offset_2 = sz + n div 2, mh_even_size = n div 2,
      mh_odd_size = n div 2, mh_pid = os_getpid os, mh_switch_count = 1\<rparr>"
    unfolding header_of_def ConstructSharedData_eq fresh_queue_def InitializeAlternatingControlBlock_def GetDataSizeAsLength_def
    by (simp add: len half del: length_subspan)
  moreover have "\<not> uint sz + uint n < 0" by (simp add: not_less)
  moreover have "\<not> sz + n < sz" "\<not> sz + n < sz + n div 2" "\<not> sz + n < sz + n div 2 + n div 2"
    unfolding word_less_nat_alt b by linarith+
  ultimately have "ReaderFactoryImpl_Create (Some (int (unat sz + unat n))) mmap (header_of ?sd) sz (os_getpid os) =
      (Inr \<lparr>span_even = (sz, n div 2), span_odd = (sz + n div 2, n div 2)\<rparr>, [])"
    if "mmap (sz + n) = Some address" for mmap address
    using that by (simp add: ReaderFactoryImpl_Create_def max_def)
  moreover have "unat sz + ?h + ?h \<le> unat sz + unat n" by linarith
  ultimately show ?thesis
    using create idle len contents b h by (auto simp: ConstructSharedData_eq)
qed

definition example_os :: Osal where
  "example_os = \<lparr>has_fcntl = True, has_unistd = True, has_mman = True, has_stat = True, has_stdlib = True,
     os_getuid = 42, os_getpid = 7, os_exists = \<lambda>_. False, os_open = \<lambda>_ _. Some 3, os_chmod = \<lambda>_. True,
     os_ftruncate = \<lambda>_ _. True, os_mmap = \<lambda>_ _. Some 4096, os_mkstemps = id, os_mapped = replicate 64 0\<rparr>"

theorem created_buffer_attaches_witness:
  "\<exists>w sd fac' calls.
    WriterFactory_Create example_os 144 8 64 False ''APP'' \<lparr>file_attributes = \<lparr>file_name = [], client_identifier = []\<rparr>\<rparr>
      = (Some (w, sd), fac', calls) \<and>
    active_idle (control_block sd) \<and> active_contents (control_block sd) = [] \<and>
    active_room (control_block sd) = unat (64 :: u64) div 2 \<and>
    (\<forall>mmap address. mmap (144 + 64 :: u64) = Some (address :: nat) \<longrightarrow>
      (\<exists>spans. ReaderFactoryImpl_Create (Some (int (unat (144 :: u64) + unat (64 :: u64)))) mmap (header_of sd) 144
          (os_getpid example_os) = (Inr spans, []) \<and>
        unat (fst (span_even spans)) = unat (144 :: u64) \<and>
        unat (fst (span_odd spans)) = unat (fst (span_even spans)) + unat (snd (span_even spans)) \<and>
        unat (fst (span_odd spans)) + unat (snd (span_odd spans)) \<le> unat (144 :: u64) + unat (64 :: u64)))"
  by (rule created_buffer_attaches) (simp_all add: os_works_def example_os_def)

section \<open>Failures\<close>

text \<open>The writer factory reports failure exactly when an interface is missing or one of
  the calls open, chmod, ftruncate, mmap fails, or the mapping is at address 0 or
  misaligned. It never leaves a mapping behind: one that was made is unmapped with its
  address and size; and the file is unlinked again when it could not be sized or
  mapped.\<close>

theorem failed_creation_cleans_up:
  "case PrepareFileNameAndUpdateOpenFlags os [kReadWrite, kExclusive, kCloseOnExec] dyn app of (name, flags, _) \<Rightarrow>
   case WriterFactory_Create os sz align n dyn app fac of (result, fac', calls) \<Rightarrow>
     if has_fcntl os \<and> has_unistd os \<and> has_mman os \<and> has_stat os \<and> has_stdlib os then
       (case os_open os (file_name name) flags of
          None \<Rightarrow> result = None
        | Some fd \<Rightarrow>
            if \<not> os_chmod os (file_name name) then result = None
            else if \<not> os_ftruncate os fd (sz + n) then result = None \<and> last calls = UnlinkCall (file_name name)
            else case os_mmap os (sz + n) fd of
              None \<Rightarrow> result = None \<and> last calls = UnlinkCall (file_name name)
            | Some a \<Rightarrow>
                if a \<noteq> 0 \<and> a mod align = 0 then result \<noteq> None \<and> last calls = MmapCall (sz + n) fd
                else result = None \<and> last calls = MunmapCall a (sz + n))
     else result = None \<and> calls = []"
  by (auto simp: WriterFactory_Create_def GetAlignedRingBufferAddress_def OpenAndTruncateFile_def
      MapSharedMemory_def IsMemoryAligned_def Let_def split: prod.splits option.splits)

text \<open>The data router attaches only to a file whose two buffers lie inside the mapping and
  whose producer is the expected process, provided the offsets and sizes in the file do
  not overflow when added; every refusal after the mapping unmaps it.\<close>

theorem attached_spans_in_map:
  assumes "unat (mh_offset_1 h) + unat (mh_even_size h) < 2 ^ 64" "unat (mh_offset_2 h) + unat (mh_odd_size h) < 2 ^ 64"
  shows "case ReaderFactoryImpl_Create st mmap h sz pid of
    (Inr spans, calls) \<Rightarrow>
      mh_pid h = pid \<and> calls = [] \<and> (\<exists>s. st = Some s \<and> 0 \<le> s \<and> sz \<le> of_int s \<and>
        unat (fst (span_even spans)) + unat (snd (span_even spans)) \<le> unat (of_int s :: u64) \<and>
        unat (fst (span_odd spans)) + unat (snd (span_odd spans)) \<le> unat (of_int s :: u64))
  | (Inl e, calls) \<Rightarrow>
      (if e = OffsetOutOfRange \<or> e = WrongPid
       then \<exists>s a. st = Some s \<and> mmap (of_int s) = Some a \<and> calls = [MunmapCall a (of_int s)]
       else calls = [])"
  using assms
  by (auto simp: ReaderFactoryImpl_Create_def Let_def not_less max_def word_le_nat_alt unat_add_bound
      split: option.splits if_splits)

theorem attached_spans_in_map_witness:
  "case ReaderFactoryImpl_Create (Some 200) (\<lambda>_. Some 4096)
      \<lparr>mh_offset_1 = 144, mh_offset_2 = 160, mh_even_size = 16, mh_odd_size = 16, mh_pid = 7, mh_switch_count = 1\<rparr> 144 7 of
    (Inr spans, calls) \<Rightarrow>
      mh_pid \<lparr>mh_offset_1 = 144, mh_offset_2 = 160, mh_even_size = 16, mh_odd_size = 16, mh_pid = 7, mh_switch_count = 1\<rparr> = 7
      \<and> calls = [] \<and> (\<exists>s. Some 200 = Some s \<and> 0 \<le> s \<and> 144 \<le> (of_int s :: u64) \<and>
        unat (fst (span_even spans)) + unat (snd (span_even spans)) \<le> unat (of_int s :: u64) \<and>
        unat (fst (span_odd spans)) + unat (snd (span_odd spans)) \<le> unat (of_int s :: u64))
  | (Inl e, calls) \<Rightarrow>
      (if e = OffsetOutOfRange \<or> e = WrongPid
       then \<exists>s a. Some 200 = Some s \<and> (Some 4096 :: nat option) = Some a \<and> calls = [MunmapCall a (of_int s)]
       else calls = [])"
  by (rule attached_spans_in_map) simp_all

text \<open>
  Without that proviso the check of the factory says nothing: the sum of an offset and a
  size wraps around, and a file of 200 bytes is accepted with a buffer that starts behind
  its end.
\<close>

lemma wrapped_offset_accepted:
  "fst (ReaderFactoryImpl_Create (Some 200) (\<lambda>_. Some 4096)
      \<lparr>mh_offset_1 = - 16, mh_offset_2 = 144, mh_even_size = 16, mh_odd_size = 16, mh_pid = 7, mh_switch_count = 1\<rparr> 144 7)
   = Inr \<lparr>span_even = (- 16, 16), span_odd = (144, 16)\<rparr>"
  by (simp add: ReaderFactoryImpl_Create_def max_def)

text \<open>
  Likewise the overflow that \<^verbatim>\<open>WriterFactory::Create\<close> detects is only reported: the creation
  goes on with the wrapped size, and the two buffers it lays out do not fit the mapping.
\<close>

lemma overflowing_size_mapped:
  assumes "os_works os align (sz + n)" "2 ^ 64 \<le> unat sz + unat n"
  shows "\<exists>w sd fac' calls. WriterFactory_Create os sz align n dyn app fac = (Some (w, sd), fac', calls)
    \<and> unat (sz + n) < unat n"
proof -
  have "unat (sz + n) = unat sz + unat n - 2 ^ 64"
    using assms(2) unat_bound [of sz] unat_bound [of n] by (simp add: unat_word_ariths mod_if)
  moreover have "unat sz < 2 ^ 64" using unat_bound [of sz] by simp
  ultimately have "unat (sz + n) < unat n" using assms(2) by linarith
  with Create_ok [OF assms(1)] show ?thesis by blast
qed

end
