(* ===== verification/DltFormat.thy ===== *)
theory DltFormat
  imports Prelude
begin

unbundle bit_operations_syntax

text \<open>
  The verbose DLT payload of a log message: \<^verbatim>\<open>score/mw/log/detail/common/dlt_format.cpp\<close> and
  \<^verbatim>\<open>helper_functions.h\<close>. Every overload of \<^verbatim>\<open>DLTFormat::Log\<close> appends one argument, a type
  info word followed by the data, or refuses it.

  Two things come from outside the repository and are parameters: the bit helpers
  \<^verbatim>\<open>SetBit\<close> and \<^verbatim>\<open>CheckBit\<close> of the platform, and the \<^verbatim>\<open>VerbosePayload\<close> buffer with its
  operations \<^verbatim>\<open>WillOverflow\<close>, \<^verbatim>\<open>Put\<close> and \<^verbatim>\<open>RemainingCapacity\<close>. What is relied on is
  \<open>platform_ok\<close>: the helpers act on the bit of that index, and the buffer is a bounded
  sequence of bytes.
\<close>

section \<open>Helpers\<close>

fun Sum :: "u64 list \<Rightarrow> u64" where
  "Sum [] = 0"
| "Sum [t] = t"
| "Sum (t # rest) =
     (let partial_sum = Sum rest in
      if t > - 1 - partial_sum then - 1 else t + partial_sum)"

text \<open>\<^verbatim>\<open>ClampTo<std::uint16_t>\<close>, the only instance in use.\<close>

definition ClampTo16 :: "u64 \<Rightarrow> u16" where
  "ClampTo16 v = (if v > 65535 then - 1 else ucast v)"

definition ClampAddNullTerminator :: "u16 \<Rightarrow> u16" where
  "ClampAddNullTerminator length' = (if length' < - 1 then length' + 1 else length')"

section \<open>Parameters\<close>

record 'p Platform =
  SetBit :: "u32 \<Rightarrow> nat \<Rightarrow> u32"
  CheckBit :: "u32 \<Rightarrow> nat \<Rightarrow> bool"
  WillOverflow :: "'p \<Rightarrow> u64 \<Rightarrow> bool"
  Put :: "bytes \<Rightarrow> 'p \<Rightarrow> 'p"
  RemainingCapacity :: "'p \<Rightarrow> u64"

definition platform_ok :: "'p Platform \<Rightarrow> ('p \<Rightarrow> bytes) \<Rightarrow> ('p \<Rightarrow> nat) \<Rightarrow> bool" where
  "platform_ok P contents remaining \<longleftrightarrow>
     (\<forall>w i. i < 32 \<longrightarrow> SetBit P w i = w OR push_bit i 1) \<and>
     (\<forall>w i. i < 32 \<longrightarrow> CheckBit P w i = bit w i) \<and>
     (\<forall>p n. WillOverflow P p n \<longleftrightarrow> remaining p < unat n) \<and>
     (\<forall>p. unat (RemainingCapacity P p) = remaining p) \<and>
     (\<forall>p bs. length bs \<le> remaining p \<longrightarrow>
        contents (Put P bs p) = contents p @ bs \<and> remaining (Put P bs p) = remaining p - length bs)"

section \<open>Type info\<close>

datatype TypeLength = kNotDefined | k8Bit | k16Bit | k32Bit | k64Bit | k128Bi

fun TypeLength_value :: "TypeLength \<Rightarrow> u32" where
  "TypeLength_value kNotDefined = 0"
| "TypeLength_value k8Bit = 1"
| "TypeLength_value k16Bit = 2"
| "TypeLength_value k32Bit = 3"
| "TypeLength_value k64Bit = 4"
| "TypeLength_value k128Bi = 5"

datatype StringEncoding = kASCII | kUTF8

fun StringEncoding_value :: "StringEncoding \<Rightarrow> u32" where
  "StringEncoding_value kASCII = 0"
| "StringEncoding_value kUTF8 = 1"

definition kTypeBoolBit :: nat where "kTypeBoolBit = 4"
definition kTypeSignedBit :: nat where "kTypeSignedBit = 5"
definition kTypeUnsignedBit :: nat where "kTypeUnsignedBit = 6"
definition kTypeFloatBit :: nat where "kTypeFloatBit = 7"
definition kTypeStringBit :: nat where "kTypeStringBit = 9"
definition kTypeRawBit :: nat where "kTypeRawBit = 10"
definition kTraceInfoBit :: nat where "kTraceInfoBit = 13"
definition kStringEncodingStart :: nat where "kStringEncodingStart = 15"
definition kIntegerEncodingStart :: nat where "kIntegerEncodingStart = 15"

lemmas type_bits = kTypeBoolBit_def kTypeSignedBit_def kTypeUnsignedBit_def kTypeFloatBit_def
  kTypeStringBit_def kTypeRawBit_def kTraceInfoBit_def kStringEncodingStart_def kIntegerEncodingStart_def

record TypeInfo =
  underlying_type :: u32

definition NewTypeInfo :: "'p Platform \<Rightarrow> nat \<Rightarrow> TypeInfo" where
  "NewTypeInfo P type' = \<lparr>underlying_type = SetBit P 0 type'\<rparr>"

definition TypeInfo_Set_length :: "TypeLength \<Rightarrow> TypeInfo \<Rightarrow> TypeInfo option" where
  "TypeInfo_Set_length length' ti = Some (ti\<lparr>underlying_type := underlying_type ti OR TypeLength_value length'\<rparr>)"

definition TypeInfo_Set_encoding :: "'p Platform \<Rightarrow> StringEncoding \<Rightarrow> TypeInfo \<Rightarrow> TypeInfo option" where
  "TypeInfo_Set_encoding P encoding ti =
     (let is_type_string_bit_set = CheckBit P (underlying_type ti) kTypeStringBit;
          is_trace_info_bit_set = CheckBit P (underlying_type ti) kTraceInfoBit
      in if (is_type_string_bit_set \<or> is_trace_info_bit_set) = False then None
         else Some (ti\<lparr>underlying_type := underlying_type ti OR
           push_bit kStringEncodingStart (StringEncoding_value encoding)\<rparr>))"

text \<open>The representation of integers is an enumeration over 8 bits of the base library: its value.\<close>

definition TypeInfo_Set_representation :: "'p Platform \<Rightarrow> u8 \<Rightarrow> TypeInfo \<Rightarrow> TypeInfo option" where
  "TypeInfo_Set_representation P encoding ti =
     (let is_type_unsigned_bit_set = CheckBit P (underlying_type ti) kTypeUnsignedBit;
          is_type_signed_bit_set = CheckBit P (underlying_type ti) kTypeSignedBit
      in if (is_type_unsigned_bit_set \<or> is_type_signed_bit_set) = False then None
         else Some (ti\<lparr>underlying_type := underlying_type ti OR push_bit kIntegerEncodingStart (ucast encoding)\<rparr>))"

section \<open>Storing the parts of an argument\<close>

datatype AddArgumentResult = kAdded | kNotAdded

text \<open>A part of a message is the byte view of its value.\<close>

definition SizeOf :: "bytes \<Rightarrow> u64" where
  "SizeOf t = word_of_nat (length t)"

definition WillMessageFit :: "'p Platform \<Rightarrow> 'p \<Rightarrow> bytes list \<Rightarrow> bool" where
  "WillMessageFit P payload message_parts =
     (let n = Sum (map SizeOf message_parts) in \<not> WillOverflow P payload n)"

definition Store :: "'p Platform \<Rightarrow> 'p \<Rightarrow> bytes list \<Rightarrow> AddArgumentResult \<times> 'p" where
  "Store P payload data_for_payload =
     (if WillMessageFit P payload data_for_payload
      then (kAdded, fold (Put P) data_for_payload payload)
      else (kNotAdded, payload))"

definition type_info_view :: "TypeInfo \<Rightarrow> bytes" where
  "type_info_view ti = le32 (underlying_type ti)"

definition TryStore :: "'p Platform \<Rightarrow> 'p \<Rightarrow> TypeInfo \<Rightarrow> u64 \<Rightarrow> bytes \<Rightarrow> AddArgumentResult \<times> 'p" where
  "TryStore P payload type_info max_string_len_incl_null data' =
     (let max_string_len = (if max_string_len_incl_null > 0 then max_string_len_incl_null - 1 else 0);
          data_size = (word_of_nat (length data') :: u64);
          cropped_length_size = (if data_size > max_string_len then max_string_len else data_size);
          length_cropped = ClampTo16 cropped_length_size;
          length_incl_null = ClampAddNullTerminator length_cropped;
          data_cropped = take (unat length_cropped) data'
      in Store P payload [type_info_view type_info, le16 length_incl_null, data_cropped, [0]])"

definition LogData ::
  "'p Platform \<Rightarrow> 'p \<Rightarrow> bytes \<Rightarrow> u8 \<Rightarrow> nat \<Rightarrow> TypeLength \<Rightarrow> AddArgumentResult \<times> 'p" where
  "LogData P payload data_view repr type' type_length =
     (let type_info = NewTypeInfo P type' in
      case TypeInfo_Set_length type_length type_info of
        None \<Rightarrow> (kNotAdded, payload)
      | Some type_info \<Rightarrow>
          (case TypeInfo_Set_representation P repr type_info of
             None \<Rightarrow> (kNotAdded, payload)
           | Some type_info \<Rightarrow> Store P payload [type_info_view type_info, data_view]))"

section \<open>The overloads of Log\<close>

definition bool_view :: "bool \<Rightarrow> bytes" where
  "bool_view b = [if b then 1 else 0]"

definition Log_bool :: "'p Platform \<Rightarrow> 'p \<Rightarrow> bool \<Rightarrow> AddArgumentResult \<times> 'p" where
  "Log_bool P payload data' =
     (let type_info = NewTypeInfo P kTypeBoolBit in
      case TypeInfo_Set_length k8Bit type_info of
        None \<Rightarrow> (kNotAdded, payload)
      | Some type_info \<Rightarrow> Store P payload [type_info_view type_info, bool_view data'])"

definition Log_uint8 :: "'p Platform \<Rightarrow> 'p \<Rightarrow> u8 \<Rightarrow> u8 \<Rightarrow> AddArgumentResult \<times> 'p" where
  "Log_uint8 P payload data' repr = LogData P payload [data'] repr kTypeUnsignedBit k8Bit"
definition Log_uint16 :: "'p Platform \<Rightarrow> 'p \<Rightarrow> u16 \<Rightarrow> u8 \<Rightarrow> AddArgumentResult \<times> 'p" where
  "Log_uint16 P payload data' repr = LogData P payload (le16 data') repr kTypeUnsignedBit k16Bit"
definition Log_uint32 :: "'p Platform \<Rightarrow> 'p \<Rightarrow> u32 \<Rightarrow> u8 \<Rightarrow> AddArgumentResult \<times> 'p" where
  "Log_uint32 P payload data' repr = LogData P payload (le32 data') repr kTypeUnsignedBit k32Bit"
definition Log_uint64 :: "'p Platform \<Rightarrow> 'p \<Rightarrow> u64 \<Rightarrow> u8 \<Rightarrow> AddArgumentResult \<times> 'p" where
  "Log_uint64 P payload data' repr = LogData P payload (le64 data') repr kTypeUnsignedBit k64Bit"

text \<open>Signed integers are two's complement words of the same width.\<close>

definition Log_int8 :: "'p Platform \<Rightarrow> 'p \<Rightarrow> u8 \<Rightarrow> u8 \<Rightarrow> AddArgumentResult \<times> 'p" where
  "Log_int8 P payload data' repr = LogData P payload [data'] repr kTypeSignedBit k8Bit"
definition Log_int16 :: "'p Platform \<Rightarrow> 'p \<Rightarrow> u16 \<Rightarrow> u8 \<Rightarrow> AddArgumentResult \<times> 'p" where
  "Log_int16 P payload data' repr = LogData P payload (le16 data') repr kTypeSignedBit k16Bit"
definition Log_int32 :: "'p Platform \<Rightarrow> 'p \<Rightarrow> u32 \<Rightarrow> u8 \<Rightarrow> AddArgumentResult \<times> 'p" where
  "Log_int32 P payload data' repr = LogData P payload (le32 data') repr kTypeSignedBit k32Bit"
definition Log_int64 :: "'p Platform \<Rightarrow> 'p \<Rightarrow> u64 \<Rightarrow> u8 \<Rightarrow> AddArgumentResult \<times> 'p" where
  "Log_int64 P payload data' repr = LogData P payload (le64 data') repr kTypeSignedBit k64Bit"

definition Log_hex8 :: "'p Platform \<Rightarrow> 'p \<Rightarrow> u8 \<Rightarrow> u8 \<Rightarrow> AddArgumentResult \<times> 'p" where
  "Log_hex8 P payload data' repr = LogData P payload [data'] repr kTypeUnsignedBit k8Bit"
definition Log_hex16 :: "'p Platform \<Rightarrow> 'p \<Rightarrow> u16 \<Rightarrow> u8 \<Rightarrow> AddArgumentResult \<times> 'p" where
  "Log_hex16 P payload data' repr = LogData P payload (le16 data') repr kTypeUnsignedBit k16Bit"
definition Log_hex32 :: "'p Platform \<Rightarrow> 'p \<Rightarrow> u32 \<Rightarrow> u8 \<Rightarrow> AddArgumentResult \<times> 'p" where
  "Log_hex32 P payload data' repr = LogData P payload (le32 data') repr kTypeUnsignedBit k32Bit"
definition Log_hex64 :: "'p Platform \<Rightarrow> 'p \<Rightarrow> u64 \<Rightarrow> u8 \<Rightarrow> AddArgumentResult \<times> 'p" where
  "Log_hex64 P payload data' repr = LogData P payload (le64 data') repr kTypeUnsignedBit k64Bit"

definition Log_bin8 :: "'p Platform \<Rightarrow> 'p \<Rightarrow> u8 \<Rightarrow> u8 \<Rightarrow> AddArgumentResult \<times> 'p" where
  "Log_bin8 P payload data' repr = LogData P payload [data'] repr kTypeUnsignedBit k8Bit"
definition Log_bin16 :: "'p Platform \<Rightarrow> 'p \<Rightarrow> u16 \<Rightarrow> u8 \<Rightarrow> AddArgumentResult \<times> 'p" where
  "Log_bin16 P payload data' repr = LogData P payload (le16 data') repr kTypeUnsignedBit k16Bit"
definition Log_bin32 :: "'p Platform \<Rightarrow> 'p \<Rightarrow> u32 \<Rightarrow> u8 \<Rightarrow> AddArgumentResult \<times> 'p" where
  "Log_bin32 P payload data' repr = LogData P payload (le32 data') repr kTypeUnsignedBit k32Bit"
definition Log_bin64 :: "'p Platform \<Rightarrow> 'p \<Rightarrow> u64 \<Rightarrow> u8 \<Rightarrow> AddArgumentResult \<times> 'p" where
  "Log_bin64 P payload data' repr = LogData P payload (le64 data') repr kTypeUnsignedBit k64Bit"

text \<open>Floating-point values are their 32- or 64-bit images.\<close>

definition Log_float :: "'p Platform \<Rightarrow> 'p \<Rightarrow> u32 \<Rightarrow> AddArgumentResult \<times> 'p" where
  "Log_float P payload data' =
     (let type_info = NewTypeInfo P kTypeFloatBit in
      case TypeInfo_Set_length k32Bit type_info of
        None \<Rightarrow> (kNotAdded, payload)
      | Some type_info \<Rightarrow> Store P payload [type_info_view type_info, le32 data'])"

definition Log_double :: "'p Platform \<Rightarrow> 'p \<Rightarrow> u64 \<Rightarrow> AddArgumentResult \<times> 'p" where
  "Log_double P payload data' =
     (let type_info = NewTypeInfo P kTypeFloatBit in
      case TypeInfo_Set_length k64Bit type_info of
        None \<Rightarrow> (kNotAdded, payload)
      | Some type_info \<Rightarrow> Store P payload [type_info_view type_info, le64 data'])"

definition Log_string :: "'p Platform \<Rightarrow> 'p \<Rightarrow> bytes \<Rightarrow> AddArgumentResult \<times> 'p" where
  "Log_string P payload data' =
     (let type_info = NewTypeInfo P kTypeStringBit in
      case TypeInfo_Set_encoding P kUTF8 type_info of
        None \<Rightarrow> (kNotAdded, payload)
      | Some type_info \<Rightarrow>
          let kHeaderSize = 4 + 2 in
          if RemainingCapacity P payload \<le> kHeaderSize then (kNotAdded, payload)
          else
            let capacity_after_header = RemainingCapacity P payload - kHeaderSize;
                max_string_len_incl_null = min capacity_after_header 65535
            in TryStore P payload type_info max_string_len_incl_null data')"

definition Log_raw :: "'p Platform \<Rightarrow> 'p \<Rightarrow> bytes \<Rightarrow> AddArgumentResult \<times> 'p" where
  "Log_raw P payload data' =
     (let type_info = NewTypeInfo P kTypeRawBit;
          kHeaderSize = 4 + 2
      in if RemainingCapacity P payload \<le> kHeaderSize then (kNotAdded, payload)
         else
           let capacity_after_header = RemainingCapacity P payload - kHeaderSize;
               max_length = ClampTo16 capacity_after_header;
               data_size = (word_of_nat (length data') :: u64);
               length_cropped = (if data_size > ucast max_length then max_length else ucast data_size);
               data_cropped = take (unat length_cropped) data'
           in Store P payload [type_info_view type_info, le16 length_cropped, data_cropped])"

section \<open>Storing, under the assumptions on the platform\<close>

lemma Sum_exact:
  "parts \<noteq> [] \<Longrightarrow> sum_list (map length parts) < 2 ^ 64 \<Longrightarrow>
   unat (Sum (map SizeOf parts)) = sum_list (map length parts)"
proof (induction parts)
  case (Cons a parts)
  have a: "unat (SizeOf a) = length a"
    unfolding SizeOf_def using Cons.prems by (intro unat_word_of_nat) simp
  show ?case
  proof (cases parts)
    case Nil
    then show ?thesis using a by simp
  next
    case (Cons b bs)
    let ?s = "Sum (map SizeOf parts)"
    have s: "unat ?s = sum_list (map length parts)" using Cons.IH Cons.prems Cons by simp
    have "unat (- 1 - ?s) = 2 ^ 64 - 1 - unat ?s"
      by (subst unat_sub) (simp_all add: unsigned_minus_1_eq_mask mask_eq_exp_minus_1)
    then have "\<not> SizeOf a > - 1 - ?s"
      using Cons.prems a s by (simp add: word_less_nat_alt)
    moreover have "unat (SizeOf a + ?s) = length a + sum_list (map length parts)"
      using Cons.prems a s by (simp add: unat_word_ariths)
    moreover have "Sum (map SizeOf (a # parts)) = (if SizeOf a > - 1 - ?s then - 1 else SizeOf a + ?s)"
      using Cons by (simp add: Let_def)
    ultimately show ?thesis by simp
  qed
qed simp

lemma fold_Put:
  assumes "platform_ok P contents remaining"
  shows "sum_list (map length parts) \<le> remaining p \<Longrightarrow>
    contents (fold (Put P) parts p) = contents p @ concat parts \<and>
    remaining (fold (Put P) parts p) = remaining p - sum_list (map length parts)"
  using assms by (induction parts arbitrary: p) (simp_all add: platform_ok_def)

text \<open>\<open>Store\<close> is all or nothing.\<close>

lemma Store_ok:
  assumes P: "platform_ok P contents remaining" and parts: "parts \<noteq> []" "sum_list (map length parts) < 2 ^ 64"
  shows "remaining p < sum_list (map length parts) \<Longrightarrow> Store P p parts = (kNotAdded, p)"
    and "sum_list (map length parts) \<le> remaining p \<Longrightarrow>
      \<exists>p'. Store P p parts = (kAdded, p') \<and> contents p' = contents p @ concat parts \<and>
        remaining p' = remaining p - sum_list (map length parts)"
proof -
  have "WillMessageFit P p parts \<longleftrightarrow> sum_list (map length parts) \<le> remaining p"
    using P Sum_exact [OF parts] by (simp add: WillMessageFit_def platform_ok_def not_less)
  then show "remaining p < sum_list (map length parts) \<Longrightarrow> Store P p parts = (kNotAdded, p)"
    and "sum_list (map length parts) \<le> remaining p \<Longrightarrow>
      \<exists>p'. Store P p parts = (kAdded, p') \<and> contents p' = contents p @ concat parts \<and>
        remaining p' = remaining p - sum_list (map length parts)"
    using fold_Put [OF P, of parts p] by (simp_all add: Store_def)
qed

section \<open>The arguments of a DLT message\<close>

text \<open>The layout of the arguments after the DLT protocol specification, and its reading.\<close>

datatype DltArg = DBool bool | DInt bool bytes u8 | DFloat bytes | DString bytes | DRaw bytes

definition length_code :: "nat \<Rightarrow> u32" where
  "length_code n = (if n = 1 then 1 else if n = 2 then 2 else if n = 4 then 3 else 4)"

fun arg_bytes :: "DltArg \<Rightarrow> bytes" where
  "arg_bytes (DBool b) = le32 0x11 @ [if b then 1 else 0]"
| "arg_bytes (DInt sg bs r) =
     le32 ((if sg then 0x20 else 0x40) OR length_code (length bs) OR push_bit 15 (ucast r)) @ bs"
| "arg_bytes (DFloat bs) = le32 (0x80 OR length_code (length bs)) @ bs"
| "arg_bytes (DString s) = le32 0x8200 @ le16 (word_of_nat (length s + 1)) @ s @ [0]"
| "arg_bytes (DRaw d) = le32 0x400 @ le16 (word_of_nat (length d)) @ d"

definition code_length :: "u32 \<Rightarrow> nat" where
  "code_length ti = (let c = ti AND 15 in if c = 1 then 1 else if c = 2 then 2 else if c = 3 then 4 else 8)"

definition parse_arg :: "bytes \<Rightarrow> (DltArg \<times> bytes) option" where
  "parse_arg bs =
     (if length bs < 4 then None
      else
        let ti = from_le32 (take 4 bs); r = drop 4 bs; n = code_length ti; k = unat (from_le16 (take 2 r)) in
        if bit ti 4 then (if length r < 1 then None else Some (DBool (hd r \<noteq> 0), tl r))
        else if bit ti 5 \<or> bit ti 6 then
          (if length r < n then None
           else Some (DInt (bit ti 5) (take n r) (ucast (drop_bit 15 ti AND 7)), drop n r))
        else if bit ti 7 then (if length r < n then None else Some (DFloat (take n r), drop n r))
        else if length r < 2 + k then None
        else if bit ti 9 then (if k = 0 then None else Some (DString (take (k - 1) (drop 2 r)), drop (2 + k) r))
        else if bit ti 10 then Some (DRaw (take k (drop 2 r)), drop (2 + k) r)
        else None)"

lemma parse_arg_shorter: "parse_arg bs = Some (a, rest) \<Longrightarrow> length rest < length bs"
  by (auto simp: parse_arg_def Let_def split: if_splits)

function parse_args :: "bytes \<Rightarrow> DltArg list option" where
  "parse_args bs =
     (if bs = [] then Some []
      else case parse_arg bs of
        None \<Rightarrow> None
      | Some (a, rest) \<Rightarrow> (case parse_args rest of None \<Rightarrow> None | Some as \<Rightarrow> Some (a # as)))"
  by pat_completeness auto
termination by (relation "measure length") (auto dest: parse_arg_shorter)

declare parse_args.simps [simp del]

fun arg_ok :: "DltArg \<Rightarrow> bool" where
  "arg_ok (DBool b) = True"
| "arg_ok (DInt sg bs r) = (length bs \<in> {1, 2, 4, 8} \<and> r \<le> 3)"
| "arg_ok (DFloat bs) = (length bs \<in> {4, 8})"
| "arg_ok (DString s) = (length s < 65535)"
| "arg_ok (DRaw d) = (length d < 65536)"

lemma repr_cases:
  fixes r :: u8
  assumes "r \<le> 3"
  obtains "r = 0" | "r = 1" | "r = 2" | "r = 3"
proof -
  have "unat r = 0 \<or> unat r = 1 \<or> unat r = 2 \<or> unat r = 3"
    using assms by (auto simp: word_le_nat_alt)
  then have "r = 0 \<or> r = 1 \<or> r = 2 \<or> r = 3"
    by (simp add: unat_eq_iff_word)
  then show thesis using that by blast
qed

lemma le32_prefix [simp]: "take 4 (le32 w @ bs) = le32 w" "drop 4 (le32 w @ bs) = bs"
  "from_le32 (take 4 (le32 w @ bs)) = w"
  by simp_all

lemma le32_nonempty [simp]: "le32 w \<noteq> []"
  by (metis length_le32 list.size(3) zero_neq_numeral)

lemma arg_bytes_nonempty [simp]: "arg_bytes a \<noteq> []"
  by (cases a) simp_all

lemma parse_arg_bytes: "arg_ok a \<Longrightarrow> parse_arg (arg_bytes a @ rest) = Some (a, rest)"
proof (cases a)
  case (DInt sg bs r)
  moreover assume "arg_ok a"
  ultimately have n: "length bs \<in> {1, 2, 4, 8}" and r: "r \<le> 3" by simp_all
  from r show ?thesis
    by (cases rule: repr_cases) (use DInt n in \<open>auto simp: parse_arg_def Let_def length_code_def code_length_def\<close>)
next
  case (DString s)
  moreover assume "arg_ok a"
  ultimately have "unat (word_of_nat (length s + 1) :: u16) = length s + 1"
    by (intro unat_word_of_nat) simp
  with DString show ?thesis by (simp add: parse_arg_def Let_def del: of_nat_add of_nat_Suc)
next
  case (DRaw d)
  moreover assume "arg_ok a"
  ultimately have "unat (word_of_nat (length d) :: u16) = length d"
    by (intro unat_word_of_nat) simp
  with DRaw show ?thesis by (simp add: parse_arg_def Let_def)
qed (auto simp: parse_arg_def Let_def length_code_def code_length_def)

lemma parse_args_bytes: "list_all arg_ok as \<Longrightarrow> parse_args (concat (map arg_bytes as)) = Some as"
proof (induction as)
  case (Cons a as)
  then show ?case by (subst parse_args.simps) (simp add: parse_arg_bytes)
qed (simp add: parse_args.simps)

section \<open>What a sequence of Log calls leaves in the payload\<close>

datatype LogValue =
    VBool bool
  | VU8 u8 u8 | VU16 u16 u8 | VU32 u32 u8 | VU64 u64 u8
  | VI8 u8 u8 | VI16 u16 u8 | VI32 u32 u8 | VI64 u64 u8
  | VHex8 u8 u8 | VHex16 u16 u8 | VHex32 u32 u8 | VHex64 u64 u8
  | VBin8 u8 u8 | VBin16 u16 u8 | VBin32 u32 u8 | VBin64 u64 u8
  | VFloat u32 | VDouble u64 | VString bytes | VRaw bytes

text \<open>The overload that a value of its type selects.\<close>

fun Log :: "'p Platform \<Rightarrow> 'p \<Rightarrow> LogValue \<Rightarrow> AddArgumentResult \<times> 'p" where
  "Log P p (VBool d) = Log_bool P p d"
| "Log P p (VU8 d r) = Log_uint8 P p d r"
| "Log P p (VU16 d r) = Log_uint16 P p d r"
| "Log P p (VU32 d r) = Log_uint32 P p d r"
| "Log P p (VU64 d r) = Log_uint64 P p d r"
| "Log P p (VI8 d r) = Log_int8 P p d r"
| "Log P p (VI16 d r) = Log_int16 P p d r"
| "Log P p (VI32 d r) = Log_int32 P p d r"
| "Log P p (VI64 d r) = Log_int64 P p d r"
| "Log P p (VHex8 d r) = Log_hex8 P p d r"
| "Log P p (VHex16 d r) = Log_hex16 P p d r"
| "Log P p (VHex32 d r) = Log_hex32 P p d r"
| "Log P p (VHex64 d r) = Log_hex64 P p d r"
| "Log P p (VBin8 d r) = Log_bin8 P p d r"
| "Log P p (VBin16 d r) = Log_bin16 P p d r"
| "Log P p (VBin32 d r) = Log_bin32 P p d r"
| "Log P p (VBin64 d r) = Log_bin64 P p d r"
| "Log P p (VFloat d) = Log_float P p d"
| "Log P p (VDouble d) = Log_double P p d"
| "Log P p (VString d) = Log_string P p d"
| "Log P p (VRaw d) = Log_raw P p d"

text \<open>The argument a value stands for when \<open>room\<close> bytes are left: texts are cut, never refused,
  once there is room for their header and one more byte.\<close>

fun whole_arg :: "nat \<Rightarrow> LogValue \<Rightarrow> DltArg" where
  "whole_arg room (VBool d) = DBool d"
| "whole_arg room (VU8 d r) = DInt False [d] r"
| "whole_arg room (VU16 d r) = DInt False (le16 d) r"
| "whole_arg room (VU32 d r) = DInt False (le32 d) r"
| "whole_arg room (VU64 d r) = DInt False (le64 d) r"
| "whole_arg room (VI8 d r) = DInt True [d] r"
| "whole_arg room (VI16 d r) = DInt True (le16 d) r"
| "whole_arg room (VI32 d r) = DInt True (le32 d) r"
| "whole_arg room (VI64 d r) = DInt True (le64 d) r"
| "whole_arg room (VHex8 d r) = DInt False [d] r"
| "whole_arg room (VHex16 d r) = DInt False (le16 d) r"
| "whole_arg room (VHex32 d r) = DInt False (le32 d) r"
| "whole_arg room (VHex64 d r) = DInt False (le64 d) r"
| "whole_arg room (VBin8 d r) = DInt False [d] r"
| "whole_arg room (VBin16 d r) = DInt False (le16 d) r"
| "whole_arg room (VBin32 d r) = DInt False (le32 d) r"
| "whole_arg room (VBin64 d r) = DInt False (le64 d) r"
| "whole_arg room (VFloat d) = DFloat (le32 d)"
| "whole_arg room (VDouble d) = DFloat (le64 d)"
| "whole_arg room (VString d) = DString (take (min (room - 7) 65534) d)"
| "whole_arg room (VRaw d) = DRaw (take (min (room - 6) 65535) d)"

fun value_repr_ok :: "LogValue \<Rightarrow> bool" where
  "value_repr_ok (VU8 d r) = (r \<le> 3)" | "value_repr_ok (VU16 d r) = (r \<le> 3)"
| "value_repr_ok (VU32 d r) = (r \<le> 3)" | "value_repr_ok (VU64 d r) = (r \<le> 3)"
| "value_repr_ok (VI8 d r) = (r \<le> 3)" | "value_repr_ok (VI16 d r) = (r \<le> 3)"
| "value_repr_ok (VI32 d r) = (r \<le> 3)" | "value_repr_ok (VI64 d r) = (r \<le> 3)"
| "value_repr_ok (VHex8 d r) = (r \<le> 3)" | "value_repr_ok (VHex16 d r) = (r \<le> 3)"
| "value_repr_ok (VHex32 d r) = (r \<le> 3)" | "value_repr_ok (VHex64 d r) = (r \<le> 3)"
| "value_repr_ok (VBin8 d r) = (r \<le> 3)" | "value_repr_ok (VBin16 d r) = (r \<le> 3)"
| "value_repr_ok (VBin32 d r) = (r \<le> 3)" | "value_repr_ok (VBin64 d r) = (r \<le> 3)"
| "value_repr_ok (VString d) = (length d < 2 ^ 63)"
| "value_repr_ok (VRaw d) = (length d < 2 ^ 63)"
| "value_repr_ok _ = True"

definition arg_needs :: "LogValue \<Rightarrow> nat \<Rightarrow> nat" where
  "arg_needs v room = (case v of VString _ \<Rightarrow> 7 | VRaw _ \<Rightarrow> 7 | _ \<Rightarrow> length (arg_bytes (whole_arg room v)))"

definition logged :: "('p \<Rightarrow> bytes) \<Rightarrow> ('p \<Rightarrow> nat) \<Rightarrow> 'p \<Rightarrow> DltArg \<Rightarrow> AddArgumentResult \<times> 'p \<Rightarrow> bool" where
  "logged contents remaining p a res \<longleftrightarrow>
     (\<exists>p'. res = (kAdded, p') \<and> contents p' = contents p @ arg_bytes a \<and>
        length (arg_bytes a) \<le> remaining p \<and> remaining p' = remaining p - length (arg_bytes a))"

lemma Store_logged:
  assumes "platform_ok P contents remaining" "concat parts = arg_bytes a" "length (arg_bytes a) < 2 ^ 64"
  shows "length (arg_bytes a) \<le> remaining p \<Longrightarrow> logged contents remaining p a (Store P p parts)"
    and "remaining p < length (arg_bytes a) \<Longrightarrow> Store P p parts = (kNotAdded, p)"
proof -
  have "sum_list (map length parts) = length (arg_bytes a)"
    using assms(2) by (metis length_concat)
  moreover have "parts \<noteq> []" using assms(2) by (metis concat.simps(1) arg_bytes_nonempty)
  ultimately show "length (arg_bytes a) \<le> remaining p \<Longrightarrow> logged contents remaining p a (Store P p parts)"
    and "remaining p < length (arg_bytes a) \<Longrightarrow> Store P p parts = (kNotAdded, p)"
    using Store_ok [OF assms(1), of parts p] assms(2,3) by (auto simp: logged_def)
qed

lemma platform_simps:
  assumes "platform_ok P contents remaining"
  shows "i < 32 \<Longrightarrow> SetBit P w i = w OR push_bit i 1" "i < 32 \<Longrightarrow> CheckBit P w i = bit w i"
    "unat (RemainingCapacity P p) = remaining p"
  using assms by (simp_all add: platform_ok_def)

lemma LogData_eq:
  assumes P: "platform_ok P contents remaining" and r: "r \<le> 3"
    and l: "(len, length d) \<in> {(k8Bit, 1), (k16Bit, 2), (k32Bit, 4), (k64Bit, 8)}"
  shows "LogData P p d r kTypeUnsignedBit len =
      Store P p [take 4 (arg_bytes (DInt False d r)), drop 4 (arg_bytes (DInt False d r))]"
    and "LogData P p d r kTypeSignedBit len =
      Store P p [take 4 (arg_bytes (DInt True d r)), drop 4 (arg_bytes (DInt True d r))]"
  using r by (cases rule: repr_cases;
    (use l in \<open>auto simp: LogData_def Let_def NewTypeInfo_def platform_simps [OF P] type_bits
      TypeInfo_Set_length_def TypeInfo_Set_representation_def type_info_view_def length_code_def\<close>))+

lemma unat_ClampTo16: "unat (ClampTo16 v) = min (unat v) 65535"
proof (cases "v > 65535")
  case True
  then have "65535 < unat v" by (simp add: word_less_nat_alt)
  with True show ?thesis
    by (simp add: ClampTo16_def unsigned_minus_1_eq_mask mask_eq_exp_minus_1)
next
  case False
  then have "unat v \<le> 65535" by (simp add: word_less_nat_alt)
  with False show ?thesis
    by (simp add: ClampTo16_def unsigned_ucast_eq take_bit_nat_eq_self)
qed

lemma unat_word_cropped: "unat (w :: u16) = n \<Longrightarrow> w = word_of_nat n"
  by (metis word_unat_eq_iff unat_bound unat_word_of_nat)

lemma ClampAddNullTerminator_exact:
  "unat n < 65535 \<Longrightarrow> ClampAddNullTerminator n = word_of_nat (unat n + 1)"
  by (simp add: ClampAddNullTerminator_def word_less_nat_alt unsigned_minus_1_eq_mask mask_eq_exp_minus_1)

lemma TryStore_parts:
  assumes "0 < unat m" "unat m \<le> 65535" "length d < 2 ^ 63" "underlying_type ti = 0x8200"
  shows "\<exists>parts. TryStore P p ti m d = Store P p parts \<and>
    concat parts = arg_bytes (DString (take (unat m - 1) d))"
proof -
  let ?c = "if (word_of_nat (length d) :: u64) > m - 1 then m - 1 else word_of_nat (length d)"
  have m: "0 < m" using assms(1) by (simp add: word_less_nat_alt)
  then have m1: "unat (m - 1) = unat m - 1"
    using assms(1) by (subst unat_sub) (simp_all add: word_le_nat_alt)
  have d: "unat (word_of_nat (length d) :: u64) = length d"
    using assms(3) by (intro unat_word_of_nat) simp
  have c: "unat ?c = min (unat m - 1) (length d)"
    by (simp add: word_less_nat_alt m1 d)
  then have k: "unat (ClampTo16 ?c) = min (unat m - 1) (length d)"
    using assms(2) by (simp add: unat_ClampTo16)
  have "take (unat (ClampTo16 ?c)) d = take (unat m - 1) d"
    unfolding k by (simp add: min_def)
  moreover have "ClampAddNullTerminator (ClampTo16 ?c) = word_of_nat (length (take (unat m - 1) d) + 1)"
    using assms(2) by (subst ClampAddNullTerminator_exact) (simp_all add: k min.commute)
  ultimately have "TryStore P p ti m d = Store P p [type_info_view ti, le16 (word_of_nat (length (take (unat m - 1) d) + 1)),
      take (unat m - 1) d, [0]]"
    using m by (simp only: TryStore_def Let_def if_True)
  then show ?thesis
    by (intro exI [of _ "[type_info_view ti, le16 (word_of_nat (length (take (unat m - 1) d) + 1)), take (unat m - 1) d, [0]]"])
      (simp add: type_info_view_def assms(4))
qed

lemma Log_string_ok:
  assumes P: "platform_ok P contents remaining" and d: "length d < 2 ^ 63"
  shows "remaining p < 7 \<Longrightarrow> Log_string P p d = (kNotAdded, p)"
    and "7 \<le> remaining p \<Longrightarrow> logged contents remaining p (whole_arg (remaining p) (VString d)) (Log_string P p d)"
proof -
  let ?R = "RemainingCapacity P p" and ?ti = "\<lparr>underlying_type = 0x8200\<rparr>"
  have R: "unat ?R = remaining p" by (rule platform_simps [OF P])
  have log: "Log_string P p d = (if ?R \<le> 6 then (kNotAdded, p) else TryStore P p ?ti (min (?R - 6) 65535) d)"
    by (simp add: Log_string_def NewTypeInfo_def platform_simps [OF P] type_bits TypeInfo_Set_encoding_def Let_def)
  show "Log_string P p d = (kNotAdded, p)" if "remaining p < 7"
    using that log R by (simp add: word_le_nat_alt)
  show "logged contents remaining p (whole_arg (remaining p) (VString d)) (Log_string P p d)" if "7 \<le> remaining p"
  proof -
    have big: "\<not> ?R \<le> 6" using that R by (simp add: word_le_nat_alt)
    then have "unat (?R - 6) = remaining p - 6" using R by (subst unat_sub) (simp_all add: word_le_nat_alt)
    then have m: "unat (min (?R - 6) 65535) = min (remaining p - 6) 65535"
      by (simp add: min_def word_le_nat_alt)
    have "0 < unat (min (?R - 6) 65535)" "unat (min (?R - 6) 65535) \<le> 65535"
      unfolding m using that by simp_all
    from TryStore_parts [OF this d, of ?ti P p] obtain parts where
      parts: "TryStore P p ?ti (min (?R - 6) 65535) d = Store P p parts"
        "concat parts = arg_bytes (DString (take (min (remaining p - 6) 65535 - 1) d))"
      unfolding m by auto
    have "min (remaining p - 6) 65535 - 1 = min (remaining p - 7) 65534" by auto
    then have w: "DString (take (min (remaining p - 6) 65535 - 1) d) = whole_arg (remaining p) (VString d)"
      by simp
    have "length (arg_bytes (whole_arg (remaining p) (VString d))) \<le> remaining p"
      "length (arg_bytes (whole_arg (remaining p) (VString d))) < 2 ^ 64"
      using that by simp_all
    with Store_logged(1) [OF P parts(2) [unfolded w]] log big parts(1) show ?thesis by simp
  qed
qed

lemma Log_raw_ok:
  assumes P: "platform_ok P contents remaining" and d: "length d < 2 ^ 63"
  shows "remaining p < 7 \<Longrightarrow> Log_raw P p d = (kNotAdded, p)"
    and "7 \<le> remaining p \<Longrightarrow> logged contents remaining p (whole_arg (remaining p) (VRaw d)) (Log_raw P p d)"
proof -
  let ?R = "RemainingCapacity P p" and ?n = "word_of_nat (length d) :: u64"
  let ?m = "ClampTo16 (?R - 6)"
  let ?c = "if ?n > ucast ?m then ?m else ucast ?n"
  have R: "unat ?R = remaining p" by (rule platform_simps [OF P])
  have log: "Log_raw P p d = (if ?R \<le> 6 then (kNotAdded, p)
      else Store P p [le32 0x400, le16 ?c, take (unat ?c) d])"
    by (simp add: Log_raw_def NewTypeInfo_def platform_simps [OF P] type_bits Let_def type_info_view_def)
  show "Log_raw P p d = (kNotAdded, p)" if "remaining p < 7"
    using that log R by (simp add: word_le_nat_alt)
  show "logged contents remaining p (whole_arg (remaining p) (VRaw d)) (Log_raw P p d)" if "7 \<le> remaining p"
  proof -
    have big: "\<not> ?R \<le> 6" using that R by (simp add: word_le_nat_alt)
    then have "unat (?R - 6) = remaining p - 6" using R by (subst unat_sub) (simp_all add: word_le_nat_alt)
    then have m: "unat ?m = min (remaining p - 6) 65535" by (simp add: unat_ClampTo16)
    have n: "unat ?n = length d" using d by (intro unat_word_of_nat) simp
    have um: "unat (ucast ?m :: u64) = unat ?m"
      using unat_bound [of ?m] by (simp add: unsigned_ucast_eq take_bit_nat_eq_self)
    have c: "unat ?c = min (min (remaining p - 6) 65535) (length d)"
    proof (cases "?n > ucast ?m")
      case True
      then have "unat ?m < length d" by (simp add: word_less_nat_alt n um)
      with True show ?thesis by (simp add: m)
    next
      case False
      then have le: "length d \<le> unat ?m" by (simp add: word_less_nat_alt n um)
      moreover have "unat ?m < 2 ^ 16" using unat_bound [of ?m] by simp
      ultimately have "unat (ucast ?n :: u16) = length d"
        by (simp add: unsigned_ucast_eq n take_bit_nat_eq_self)
      with False le show ?thesis by (simp add: m)
    qed
    then have "take (unat ?c) d = take (min (remaining p - 6) 65535) d" by (simp add: min_def)
    moreover have "?c = word_of_nat (length (take (min (remaining p - 6) 65535) d))"
      by (rule unat_word_cropped) (simp add: c min.commute)
    ultimately have eq: "concat [le32 0x400, le16 ?c, take (unat ?c) d] = arg_bytes (whole_arg (remaining p) (VRaw d))"
      by simp
    have "length (arg_bytes (whole_arg (remaining p) (VRaw d))) \<le> remaining p"
      "length (arg_bytes (whole_arg (remaining p) (VRaw d))) < 2 ^ 64"
      using that by simp_all
    with Store_logged(1) [OF P eq] log big show ?thesis by simp
  qed
qed

lemmas log_int_defs = Log_uint8_def Log_uint16_def Log_uint32_def Log_uint64_def Log_int8_def Log_int16_def
  Log_int32_def Log_int64_def Log_hex8_def Log_hex16_def Log_hex32_def Log_hex64_def Log_bin8_def
  Log_bin16_def Log_bin32_def Log_bin64_def

lemma Log_parts:
  assumes P: "platform_ok P contents remaining" and v: "value_repr_ok v"
    and "\<forall>d. v \<noteq> VString d" "\<forall>d. v \<noteq> VRaw d"
  shows "Log P p v = Store P p [take 4 (arg_bytes (whole_arg room v)), drop 4 (arg_bytes (whole_arg room v))]"
    and "length (arg_bytes (whole_arg room v)) < 2 ^ 64"
proof -
  note fixed = Log_bool_def Log_float_def Log_double_def NewTypeInfo_def platform_simps [OF P] type_bits
    TypeInfo_Set_length_def type_info_view_def bool_view_def length_code_def Let_def
  show "Log P p v = Store P p [take 4 (arg_bytes (whole_arg room v)), drop 4 (arg_bytes (whole_arg room v))]"
  proof (cases "\<exists>b f d. v = VBool b \<or> v = VFloat f \<or> v = VDouble d")
    case True
    then show ?thesis by (auto simp: fixed)
  next
    case False
    with v assms(3,4) show ?thesis
      by (cases v) (simp_all add: log_int_defs LogData_eq [OF P] del: arg_bytes.simps)
  qed
  show "length (arg_bytes (whole_arg room v)) < 2 ^ 64"
    using assms(3,4) by (cases v) simp_all
qed

lemma Log_ok:
  assumes P: "platform_ok P contents remaining" and v: "value_repr_ok v"
  shows "arg_needs v (remaining p) \<le> remaining p \<Longrightarrow>
      logged contents remaining p (whole_arg (remaining p) v) (Log P p v)"
    and "remaining p < arg_needs v (remaining p) \<Longrightarrow> Log P p v = (kNotAdded, p)"
proof -
  have "(arg_needs v (remaining p) \<le> remaining p \<longrightarrow>
      logged contents remaining p (whole_arg (remaining p) v) (Log P p v)) \<and>
    (remaining p < arg_needs v (remaining p) \<longrightarrow> Log P p v = (kNotAdded, p))"
  proof (cases "\<exists>d. v = VString d \<or> v = VRaw d")
    case True
    then show ?thesis
      using v Log_string_ok [OF P] Log_raw_ok [OF P] by (auto simp: arg_needs_def)
  next
    case False
    then have n: "arg_needs v (remaining p) = length (arg_bytes (whole_arg (remaining p) v))"
      by (cases v) (simp_all add: arg_needs_def)
    from False have "\<forall>d. v \<noteq> VString d" "\<forall>d. v \<noteq> VRaw d" by simp_all
    note parts = Log_parts [OF P v this]
    show ?thesis
      unfolding n parts(1) [of p "remaining p"]
      using Store_logged [OF P _ parts(2) [of "remaining p"]] by simp
  qed
  then show "arg_needs v (remaining p) \<le> remaining p \<Longrightarrow>
      logged contents remaining p (whole_arg (remaining p) v) (Log P p v)"
    and "remaining p < arg_needs v (remaining p) \<Longrightarrow> Log P p v = (kNotAdded, p)" by simp_all
qed

lemma whole_arg_ok: "value_repr_ok v \<Longrightarrow> arg_ok (whole_arg room v)"
  by (cases v) simp_all

text \<open>A message: each value added in turn, the ones that do not fit left out.\<close>

definition LogAll :: "'p Platform \<Rightarrow> LogValue list \<Rightarrow> 'p \<Rightarrow> 'p" where
  "LogAll P vs p = fold (\<lambda>v p. snd (Log P p v)) vs p"

fun kept_args :: "nat \<Rightarrow> LogValue list \<Rightarrow> DltArg list" where
  "kept_args room [] = []"
| "kept_args room (v # vs) =
     (if room < arg_needs v room then kept_args room vs
      else whole_arg room v # kept_args (room - length (arg_bytes (whole_arg room v))) vs)"

lemma kept_args_ok: "list_all value_repr_ok vs \<Longrightarrow> list_all arg_ok (kept_args room vs)"
  by (induction vs arbitrary: room) (simp_all add: whole_arg_ok)

lemma LogAll_contents:
  assumes P: "platform_ok P contents remaining"
  shows "list_all value_repr_ok vs \<Longrightarrow>
    contents (LogAll P vs p) = contents p @ concat (map arg_bytes (kept_args (remaining p) vs))"
proof (induction vs arbitrary: p)
  case (Cons v vs)
  then show ?case
    using Log_ok [OF P, of v p] by (auto simp: LogAll_def logged_def not_less)
qed (simp add: LogAll_def)

text \<open>C8: The payload of a verbose message is well-formed whatever was logged: any sequence of
  booleans, integers of every width and base, floating-point numbers, texts and raw
  buffers is read back, after the DLT specification, as the sequence of the arguments
  that had room, texts and buffers cut to the room left and to the 16-bit length field
  with the length field and the terminator right.\<close>

theorem verbose_payload_parses_back:
  assumes "platform_ok P contents remaining" "contents p = []" "list_all value_repr_ok vs"
  shows "parse_args (contents (LogAll P vs p)) = Some (kept_args (remaining p) vs)"
  using assms by (simp add: LogAll_contents parse_args_bytes kept_args_ok)

text \<open>A concrete buffer: bytes and a capacity below \<open>2 ^ 16\<close>.\<close>

definition example_platform :: "(bytes \<times> u16) Platform" where
  "example_platform = \<lparr>SetBit = \<lambda>w i. w OR push_bit i 1, CheckBit = bit,
     WillOverflow = \<lambda>(bs, cap) n. unat cap - length bs < unat n,
     Put = \<lambda>src (bs, cap). (bs @ src, cap),
     RemainingCapacity = \<lambda>(bs, cap). word_of_nat (unat cap - length bs)\<rparr>"

definition example_remaining :: "bytes \<times> u16 \<Rightarrow> nat" where
  "example_remaining p = unat (snd p) - length (fst p)"

lemma example_platform_ok: "platform_ok example_platform fst example_remaining"
proof -
  have "unat (word_of_nat (unat cap - n) :: u64) = unat cap - n" for cap :: u16 and n
    using unat_bound [of cap] by (intro unat_word_of_nat) simp
  then show ?thesis by (auto simp: platform_ok_def example_platform_def example_remaining_def)
qed

theorem verbose_payload_parses_back_witness:
  "parse_args (fst (LogAll example_platform [VU8 5 0, VString [72, 105], VBool True, VRaw [1, 2, 3]] ([], 22)))
   = Some (kept_args (example_remaining ([], 22))
       [VU8 5 0, VString [72, 105], VBool True, VRaw [1, 2, 3]])"
  by (rule verbose_payload_parses_back [OF example_platform_ok]) simp_all

text \<open>A value is added whole (texts and buffers: cut to what fits) or not at all: when the
  result says it was not added the payload is as it was, and a text or buffer is refused
  only when fewer than seven bytes are left.\<close>

theorem log_all_or_nothing:
  assumes "platform_ok P contents remaining" "value_repr_ok v"
  shows "(if remaining p < arg_needs v (remaining p) then Log P p v = (kNotAdded, p)
    else fst (Log P p v) = kAdded \<and> contents (snd (Log P p v)) = contents p @ arg_bytes (whole_arg (remaining p) v) \<and>
      length (arg_bytes (whole_arg (remaining p) v)) \<le> remaining p)"
  using Log_ok [OF assms, of p] by (auto simp: logged_def not_less)

theorem log_all_or_nothing_witness:
  "(if example_remaining ([], 9) < arg_needs (VString [1, 2, 3, 4]) (example_remaining ([], 9))
    then Log example_platform ([], 9) (VString [1, 2, 3, 4]) = (kNotAdded, ([], 9))
    else fst (Log example_platform ([], 9) (VString [1, 2, 3, 4])) = kAdded \<and>
      fst (snd (Log example_platform ([], 9) (VString [1, 2, 3, 4]))) = fst ([], 9 :: u16) @
        arg_bytes (whole_arg (example_remaining ([], 9)) (VString [1, 2, 3, 4])) \<and>
      length (arg_bytes (whole_arg (example_remaining ([], 9)) (VString [1, 2, 3, 4]))) \<le> example_remaining ([], 9))"
  by (rule log_all_or_nothing [OF example_platform_ok]) simp

end
