(* ===== verification/DltHeaders.thy ===== *)
theory DltHeaders
  imports Prelude
begin

unbundle bit_operations_syntax

text \<open>
  The DLT headers that the data router puts in front of a payload
  (\<^verbatim>\<open>datarouter/include/dlt/dltid.h\<close>, \<^verbatim>\<open>dlt_common.h\<close>, \<^verbatim>\<open>dlt_headers.h\<close>), and the message
  builder of the file recorder (\<^verbatim>\<open>mw/log/detail/file_recorder/dlt_message_builder\<close>), which
  has its own code for the same headers.

  The packed structures are records; their image in memory is given by an encoder whose
  decoder makes them instances of \<open>fixed_codec\<close>. Identifiers are arrays of four
  characters.
\<close>

section \<open>Identifiers\<close>

type_synonym id4 = "byte \<times> byte \<times> byte \<times> byte"

definition char_at :: "bytes \<Rightarrow> nat \<Rightarrow> byte" where
  "char_at str i = (if i < length str then str ! i else 0)"

text \<open>The constructor and the assignment fill with zeros and copy at most four characters.\<close>

definition NewDltidT :: "bytes \<Rightarrow> id4" where
  "NewDltidT str =
     (let len = min (length str) 4; cut = take len str
      in (char_at cut 0, char_at cut 1, char_at cut 2, char_at cut 3))"

definition Dltid_assign :: "id4 \<Rightarrow> bytes \<Rightarrow> id4" where
  "Dltid_assign i str = NewDltidT str"

fun id_bytes :: "id4 \<Rightarrow> bytes" where
  "id_bytes (a, b, c, d) = [a, b, c, d]"

definition Dltid_Data :: "id4 \<Rightarrow> bytes" where
  "Dltid_Data i = (let actual_len = length (filter (\<lambda>byte. byte \<noteq> 0) (id_bytes i)) in take actual_len (id_bytes i))"

definition id_of_bytes :: "bytes \<Rightarrow> id4" where
  "id_of_bytes bs = (char_at bs 0, char_at bs 1, char_at bs 2, char_at bs 3)"

section \<open>Byte order\<close>

definition DLT_SWAP_16 :: "u64 \<Rightarrow> u16" where
  "DLT_SWAP_16 v = ucast ((drop_bit 8 v AND 0xff) OR (push_bit 8 v AND 0xff00))"

definition DLT_SWAP_32 :: "u32 \<Rightarrow> u32" where
  "DLT_SWAP_32 v = (drop_bit 24 v AND 0xff) OR (push_bit 8 v AND 0xff0000) OR (drop_bit 8 v AND 0xff00)
     OR (push_bit 24 v AND 0xff000000)"

definition DLT_HTOBE_16 :: "u64 \<Rightarrow> u16" where "DLT_HTOBE_16 x = DLT_SWAP_16 x"
definition DLT_HTOBE_32 :: "u32 \<Rightarrow> u32" where "DLT_HTOBE_32 x = DLT_SWAP_32 x"

text \<open>The library functions \<^verbatim>\<open>htons\<close> and \<^verbatim>\<open>htonl\<close> on a little-endian machine.\<close>

definition htons :: "u16 \<Rightarrow> u16" where "htons x = from_le16 (rev (le16 x))"
definition htonl :: "u32 \<Rightarrow> u32" where "htonl x = from_le32 (rev (le32 x))"

section \<open>Structures\<close>

record DltStorageHeader =
  pattern :: id4
  seconds :: u32
  microseconds :: u32
  sh_ecu :: id4

record DltStandardHeader =
  htyp :: u8
  mcnt :: u8
  len :: u16

record DltStandardHeaderExtra =
  stde_ecu :: id4
  tmsp :: u32

record DltExtendedHeader =
  msin :: u8
  noar :: u8
  apid :: id4
  ctid :: id4

record DltNvHeaderWithMsgid =
  nv_std :: DltStandardHeader
  nv_stde :: DltStandardHeaderExtra
  msgid :: u32

record DltVerboseHeader =
  v_std :: DltStandardHeader
  v_stde :: DltStandardHeaderExtra
  v_ext :: DltExtendedHeader

definition enc_storage :: "DltStorageHeader \<Rightarrow> bytes" where
  "enc_storage h = id_bytes (pattern h) @ le32 (seconds h) @ le32 (microseconds h) @ id_bytes (sh_ecu h)"
definition enc_std :: "DltStandardHeader \<Rightarrow> bytes" where
  "enc_std h = [htyp h, mcnt h] @ le16 (len h)"
definition enc_extra :: "DltStandardHeaderExtra \<Rightarrow> bytes" where
  "enc_extra h = id_bytes (stde_ecu h) @ le32 (tmsp h)"
definition enc_ext :: "DltExtendedHeader \<Rightarrow> bytes" where
  "enc_ext h = [msin h, noar h] @ id_bytes (apid h) @ id_bytes (ctid h)"
definition enc_nv :: "DltNvHeaderWithMsgid \<Rightarrow> bytes" where
  "enc_nv h = enc_std (nv_std h) @ enc_extra (nv_stde h) @ le32 (msgid h)"
definition enc_verbose :: "DltVerboseHeader \<Rightarrow> bytes" where
  "enc_verbose h = enc_std (v_std h) @ enc_extra (v_stde h) @ enc_ext (v_ext h)"

definition dec_storage :: "bytes \<Rightarrow> DltStorageHeader" where
  "dec_storage bs = \<lparr>pattern = id_of_bytes (subspan 0 4 bs), seconds = from_le32 (subspan 4 4 bs),
     microseconds = from_le32 (subspan 8 4 bs), sh_ecu = id_of_bytes (subspan 12 4 bs)\<rparr>"
definition dec_std :: "bytes \<Rightarrow> DltStandardHeader" where
  "dec_std bs = \<lparr>htyp = char_at bs 0, mcnt = char_at bs 1, len = from_le16 (subspan 2 2 bs)\<rparr>"
definition dec_extra :: "bytes \<Rightarrow> DltStandardHeaderExtra" where
  "dec_extra bs = \<lparr>stde_ecu = id_of_bytes (subspan 0 4 bs), tmsp = from_le32 (subspan 4 4 bs)\<rparr>"
definition dec_ext :: "bytes \<Rightarrow> DltExtendedHeader" where
  "dec_ext bs = \<lparr>msin = char_at bs 0, noar = char_at bs 1, apid = id_of_bytes (subspan 2 4 bs),
     ctid = id_of_bytes (subspan 6 4 bs)\<rparr>"
definition dec_nv :: "bytes \<Rightarrow> DltNvHeaderWithMsgid" where
  "dec_nv bs = \<lparr>nv_std = dec_std (subspan 0 4 bs), nv_stde = dec_extra (subspan 4 8 bs),
     msgid = from_le32 (subspan 12 4 bs)\<rparr>"
definition dec_verbose :: "bytes \<Rightarrow> DltVerboseHeader" where
  "dec_verbose bs = \<lparr>v_std = dec_std (subspan 0 4 bs), v_stde = dec_extra (subspan 4 8 bs),
     v_ext = dec_ext (subspan 12 10 bs)\<rparr>"

section \<open>Construction in the data router\<close>

definition kDltMessageSize :: u64 where "kDltMessageSize = 65536"

definition ConstructDltStorageHeader :: "u32 \<Rightarrow> u32 \<Rightarrow> DltStorageHeader" where
  "ConstructDltStorageHeader secs microsecs =
     \<lparr>pattern = (68, 76, 84, 1), seconds = secs, microseconds = microsecs, sh_ecu = (69, 67, 85, 0)\<rparr>"

definition DLT_HTYP_UEH :: u8 where "DLT_HTYP_UEH = 0x01"
definition DLT_HTYP_WEID :: u8 where "DLT_HTYP_WEID = 0x04"
definition DLT_HTYP_WTMS :: u8 where "DLT_HTYP_WTMS = 0x10"
definition DLT_HTYP_VERS :: u8 where "DLT_HTYP_VERS = 0x20"

definition ConstructDltStandardHeader :: "u64 \<Rightarrow> u8 \<Rightarrow> bool \<Rightarrow> DltStandardHeader" where
  "ConstructDltStandardHeader msg_size mc useextheader =
     (let h = DLT_HTYP_WEID OR DLT_HTYP_WTMS OR DLT_HTYP_VERS;
          h = (if useextheader then h OR DLT_HTYP_UEH else h)
      in \<lparr>htyp = h, mcnt = mc, len = DLT_HTOBE_16 msg_size\<rparr>)"

text \<open>\<^verbatim>\<open>std::copy_n\<close> of the characters of an identifier over an array of zeros.\<close>

definition ConstructDltStandardHeaderExtra :: "id4 \<Rightarrow> u32 \<Rightarrow> DltStandardHeaderExtra" where
  "ConstructDltStandardHeaderExtra ecu t =
     \<lparr>stde_ecu = id_of_bytes (Dltid_Data ecu), tmsp = DLT_HTOBE_32 t\<rparr>"

definition ConstructDltExtendedHeader :: "u8 \<Rightarrow> u8 \<Rightarrow> id4 \<Rightarrow> id4 \<Rightarrow> DltExtendedHeader" where
  "ConstructDltExtendedHeader loglevel nor app_id ctx_id =
     \<lparr>msin = ucast (push_bit 1 (0 :: u32) OR push_bit 4 (ucast loglevel) OR 0x01), noar = nor,
      apid = id_of_bytes (Dltid_Data app_id), ctid = id_of_bytes (Dltid_Data ctx_id)\<rparr>"

text \<open>
  A log entry. The identifiers are the base library's four-character identifiers; the
  view of their characters that it offers is the parameter \<open>GetStringView\<close>.
\<close>

record LogEntry =
  app_id :: id4
  ctx_id :: id4
  entry_payload :: bytes
  num_of_args :: u8
  log_level :: u8

definition ConstructStorageVerbosePacket ::
  "(id4 \<Rightarrow> bytes) \<Rightarrow> bytes \<Rightarrow> LogEntry \<Rightarrow> id4 \<Rightarrow> u8 \<Rightarrow> u32 \<Rightarrow> u32 \<Rightarrow> u32 \<Rightarrow> bytes" where
  "ConstructStorageVerbosePacket GetStringView dlt_message entry ecu mc t secs microsecs =
     (let sz = min (word_of_nat (length (entry_payload entry))) (kDltMessageSize - (16 + 22));
          dlt_message = put_at 0 (enc_storage (ConstructDltStorageHeader secs microsecs)) dlt_message;
          hdr = \<lparr>v_std = ConstructDltStandardHeader (22 + sz) mc True,
                 v_stde = ConstructDltStandardHeaderExtra ecu t,
                 v_ext = ConstructDltExtendedHeader (log_level entry) (num_of_args entry)
                   (NewDltidT (GetStringView (app_id entry))) (NewDltidT (GetStringView (ctx_id entry)))\<rparr>;
          dlt_message = put_at 16 (enc_verbose hdr) dlt_message
      in put_at (16 + 22) (take (unat sz) (entry_payload entry)) dlt_message)"

definition ConstructVerboseHeader :: "(id4 \<Rightarrow> bytes) \<Rightarrow> LogEntry \<Rightarrow> id4 \<Rightarrow> u8 \<Rightarrow> u32 \<Rightarrow> DltVerboseHeader \<times> u32" where
  "ConstructVerboseHeader GetStringView entry ecu mc t =
     (let payload_size = (min (word_of_nat (length (entry_payload entry)))
            (ucast (kDltMessageSize - 22)) :: u32)
      in (\<lparr>v_std = ConstructDltStandardHeader (22 + ucast payload_size) mc True,
           v_stde = ConstructDltStandardHeaderExtra ecu t,
           v_ext = ConstructDltExtendedHeader (log_level entry) (num_of_args entry)
             (NewDltidT (GetStringView (app_id entry))) (NewDltidT (GetStringView (ctx_id entry)))\<rparr>, 22))"

definition ConstructVerbosePacket :: "(id4 \<Rightarrow> bytes) \<Rightarrow> bytes \<Rightarrow> LogEntry \<Rightarrow> id4 \<Rightarrow> u8 \<Rightarrow> u32 \<Rightarrow> bytes" where
  "ConstructVerbosePacket GetStringView dlt_message entry ecu mc t =
     (let data_size = (word_of_nat (length (entry_payload entry)) :: u64);
          sz = min data_size (kDltMessageSize - 22);
          (hdr, constructed_header_size) = ConstructVerboseHeader GetStringView entry ecu mc t;
          dlt_message = put_at 0 (enc_verbose hdr) dlt_message
      in put_at (unat constructed_header_size) (take (unat sz) (entry_payload entry)) dlt_message)"

definition ConstructNonVerboseHeader :: "u64 \<Rightarrow> u32 \<Rightarrow> id4 \<Rightarrow> u8 \<Rightarrow> u32 \<Rightarrow> DltNvHeaderWithMsgid \<times> u32" where
  "ConstructNonVerboseHeader sz mid ecu mc t =
     (\<lparr>nv_std = ConstructDltStandardHeader (16 + sz) mc False,
       nv_stde = ConstructDltStandardHeaderExtra ecu t, msgid = mid\<rparr>, 16)"

definition ConstructNonVerbosePacket :: "bytes \<Rightarrow> bytes \<Rightarrow> u64 \<Rightarrow> u32 \<Rightarrow> id4 \<Rightarrow> u8 \<Rightarrow> u32 \<Rightarrow> bytes" where
  "ConstructNonVerbosePacket dlt_message data' sz mid ecu mc t =
     (let (hdr, constructed_header_size) = ConstructNonVerboseHeader sz mid ecu mc t;
          dlt_message = put_at 0 (enc_nv hdr) dlt_message
      in put_at (unat constructed_header_size) (take (unat sz) data') dlt_message)"

section \<open>The encodings\<close>

lemma id_of_id_bytes [simp]: "id_of_bytes (id_bytes i) = i" "length (id_bytes i) = 4"
  by (cases i; simp add: id_of_bytes_def char_at_def)+

lemma id_in_front [simp]: "subspan 0 4 (id_bytes i @ bs) = id_bytes i" "subspan 0 4 (id_bytes i) = id_bytes i"
  by (simp_all add: subspan_def)

lemma char_at_simps [simp]: "char_at (a # bs) 0 = a" "char_at (a # b # bs) (Suc 0) = b"
  by (simp_all add: char_at_def)

interpretation storage: fixed_codec enc_storage dec_storage 16
  by unfold_locales (simp_all add: enc_storage_def dec_storage_def subspan_def)

interpretation std: fixed_codec enc_std dec_std 4
  by unfold_locales (simp_all add: enc_std_def dec_std_def subspan_def)

interpretation extra: fixed_codec enc_extra dec_extra 8
  by unfold_locales (simp_all add: enc_extra_def dec_extra_def subspan_def)

interpretation ext: fixed_codec enc_ext dec_ext 10
  by unfold_locales (simp_all add: enc_ext_def dec_ext_def subspan_def)

interpretation nv: fixed_codec enc_nv dec_nv 16
  by unfold_locales (simp_all add: enc_nv_def dec_nv_def subspan_def std.enc_width extra.enc_width
      std.dec_enc extra.dec_enc)

interpretation verbose: fixed_codec enc_verbose dec_verbose 22
  by unfold_locales (simp_all add: enc_verbose_def dec_verbose_def subspan_def std.enc_width extra.enc_width
      ext.enc_width std.dec_enc extra.dec_enc ext.dec_enc)

section \<open>Byte order, proved\<close>

lemma byte_of: "(word_of_nat (unat w div 2 ^ k mod 256) :: byte) = ucast (drop_bit k (w :: 'a :: len word))"
proof -
  have "unat (drop_bit k w) = unat w div 2 ^ k"
    using drop_bit_eq_div [of k "unat w"] by (simp add: unsigned_drop_bit_eq take_bit_nat_eq_self [OF unat_bound])
  then have "unat (word_of_nat (unat w div 2 ^ k mod 256) :: byte) = unat (ucast (drop_bit k w) :: byte)"
    by (simp add: unat_word_of_nat unsigned_ucast_eq take_bit_eq_mod)
  then show ?thesis by (simp only: unat_eq_iff_word)
qed

lemma le_image_unfold:
  "le_image 2 x = [word_of_nat (x div 2 ^ 0 mod 256), word_of_nat (x div 2 ^ 8 mod 256)]"
  "le_image 4 x = [word_of_nat (x div 2 ^ 0 mod 256), word_of_nat (x div 2 ^ 8 mod 256),
     word_of_nat (x div 2 ^ 16 mod 256), word_of_nat (x div 2 ^ 24 mod 256)]"
proof -
  have "le_image (Suc (Suc 0)) x = [word_of_nat (x div 2 ^ 0 mod 256), word_of_nat (x div 2 ^ 8 mod 256)]"
    by simp
  then show "le_image 2 x = [word_of_nat (x div 2 ^ 0 mod 256), word_of_nat (x div 2 ^ 8 mod 256)]"
    unfolding Suc_1 [symmetric] One_nat_def .
  have "le_image (Suc (Suc (Suc (Suc 0)))) x = [word_of_nat (x div 2 ^ 0 mod 256), word_of_nat (x div 2 ^ 8 mod 256),
     word_of_nat (x div 2 ^ 16 mod 256), word_of_nat (x div 2 ^ 24 mod 256)]"
    by (simp add: div_mult2_eq [symmetric])
  moreover have "Suc (Suc (Suc (Suc 0))) = 4" by simp
  ultimately show "le_image 4 x = [word_of_nat (x div 2 ^ 0 mod 256), word_of_nat (x div 2 ^ 8 mod 256),
     word_of_nat (x div 2 ^ 16 mod 256), word_of_nat (x div 2 ^ 24 mod 256)]" by metis
qed

lemma le16_bytes: "le16 w = [ucast w, ucast (drop_bit 8 w)]"
  unfolding le16_def le_image_unfold byte_of by simp

lemma le32_bytes: "le32 w = [ucast w, ucast (drop_bit 8 w), ucast (drop_bit 16 w), ucast (drop_bit 24 w)]"
  unfolding le32_def le_image_unfold byte_of by simp

lemma less_8: "n < (8 :: nat) \<longleftrightarrow> n = 0 \<or> n = 1 \<or> n = 2 \<or> n = 3 \<or> n = 4 \<or> n = 5 \<or> n = 6 \<or> n = 7"
  by auto

text \<open>The macros put the bytes of a value in memory most significant byte first.\<close>

lemma le32_SWAP_32: "le32 (DLT_SWAP_32 v) = rev (le32 v)"
  unfolding le32_bytes DLT_SWAP_32_def by (auto intro!: bit_eqI simp: bit_simps less_8)

lemma le16_SWAP_16: "le16 (DLT_SWAP_16 v) = rev (le16 (ucast v))"
  unfolding le16_bytes DLT_SWAP_16_def by (auto intro!: bit_eqI simp: bit_simps less_8)

lemma htonl_eq: "htonl v = DLT_HTOBE_32 v"
  by (metis DLT_HTOBE_32_def from_le32_le32 htonl_def le32_SWAP_32)

lemma htons_eq: "htons (ucast v) = DLT_HTOBE_16 v"
  by (metis DLT_HTOBE_16_def from_le16_le16 htons_def le16_SWAP_16)

definition be_value :: "bytes \<Rightarrow> nat" where
  "be_value bs = le_value (rev bs)"

lemma be_value_HTOBE_16: "be_value (le16 (DLT_HTOBE_16 v)) = unat v mod 65536"
proof -
  have "be_value (le16 (DLT_HTOBE_16 v)) = le_value (le16 (ucast v))"
    by (simp add: be_value_def DLT_HTOBE_16_def le16_SWAP_16)
  also have "\<dots> = unat (ucast v :: u16)" by simp
  finally show ?thesis by (simp add: unsigned_ucast_eq take_bit_eq_mod)
qed

lemma be_value_HTOBE_32: "be_value (le32 (DLT_HTOBE_32 v)) = unat v"
  by (simp add: be_value_def DLT_HTOBE_32_def le32_SWAP_32)

section \<open>Identifiers, proved\<close>

text \<open>An identifier without a zero in front of a character, and a faithful view of it.\<close>

fun id_plain :: "id4 \<Rightarrow> bool" where
  "id_plain (a, b, c, d) \<longleftrightarrow> (a = 0 \<longrightarrow> b = 0) \<and> (b = 0 \<longrightarrow> c = 0) \<and> (c = 0 \<longrightarrow> d = 0)"

definition view_ok :: "(id4 \<Rightarrow> bytes) \<Rightarrow> bool" where
  "view_ok GetStringView \<longleftrightarrow> (\<forall>i. GetStringView i = takeWhile (\<lambda>b. b \<noteq> 0) (id_bytes i))"

lemma id_plain_data: "id_plain i \<Longrightarrow> id_of_bytes (Dltid_Data i) = i"
  by (cases i) (auto simp: Dltid_Data_def id_of_bytes_def char_at_def Let_def)

lemma view_round_trip: "view_ok gsv \<Longrightarrow> id_plain i \<Longrightarrow> NewDltidT (gsv i) = i"
  by (cases i) (auto simp: view_ok_def NewDltidT_def char_at_def Let_def)

text \<open>An identifier of at most four characters, none of them zero, survives the conversion to
  the fixed-size identifier and back; longer ones are cut to their first four characters.\<close>

theorem dltid_round_trip:
  assumes "0 \<notin> set str"
  shows "Dltid_Data (NewDltidT str) = take 4 str"
proof (cases "length str \<le> 3")
  case True
  then consider "str = []" | a where "str = [a]" | a b where "str = [a, b]" | a b c where "str = [a, b, c]"
    by (cases str; cases "tl str"; cases "tl (tl str)"; cases "tl (tl (tl str))") auto
  then show ?thesis
    using assms by cases (auto simp: Dltid_Data_def NewDltidT_def char_at_def Let_def)
next
  case False
  then obtain a b c d rest where "str = a # b # c # d # rest"
    by (cases str; cases "tl str"; cases "tl (tl str)"; cases "tl (tl (tl str))") auto
  then show ?thesis
    using assms by (auto simp: Dltid_Data_def NewDltidT_def char_at_def Let_def)
qed

theorem dltid_round_trip_witness: "Dltid_Data (NewDltidT [65, 66, 67]) = take 4 [65, 66, 67]"
  by (rule dltid_round_trip) simp

section \<open>Packets\<close>

lemma standard_header_length:
  "be_value (le16 (len (ConstructDltStandardHeader n mc ue))) = unat n mod 65536"
  by (simp add: ConstructDltStandardHeader_def Let_def be_value_HTOBE_16)

lemma payload_sizes:
  assumes "length p < 2 ^ 32"
  shows "unat (min (word_of_nat (length p)) (kDltMessageSize - 22) :: u64) = min (length p) 65514"
    and "unat (ucast (min (word_of_nat (length p)) (ucast (kDltMessageSize - 22)) :: u32) :: u64) = min (length p) 65514"
    and "unat (min (word_of_nat (length p)) (kDltMessageSize - (16 + 22)) :: u64) = min (length p) 65498"
proof -
  have "unat (word_of_nat (length p) :: u64) = length p" "unat (word_of_nat (length p) :: u32) = length p"
    using assms by (simp_all add: unat_word_of_nat)
  then show "unat (min (word_of_nat (length p)) (kDltMessageSize - 22) :: u64) = min (length p) 65514"
    and "unat (ucast (min (word_of_nat (length p)) (ucast (kDltMessageSize - 22)) :: u32) :: u64) = min (length p) 65514"
    and "unat (min (word_of_nat (length p)) (kDltMessageSize - (16 + 22)) :: u64) = min (length p) 65498"
    by (simp_all add: kDltMessageSize_def min_def word_le_nat_alt unsigned_ucast_eq take_bit_nat_eq_self)
qed

lemma verbose_header_length:
  assumes "length (entry_payload e) < 2 ^ 32"
  shows "v_std (fst (ConstructVerboseHeader gsv e ecu mc t)) =
    ConstructDltStandardHeader (word_of_nat (22 + min (length (entry_payload e)) 65514)) mc True"
proof -
  let ?n = "ucast (min (word_of_nat (length (entry_payload e))) (ucast (kDltMessageSize - 22)) :: u32) :: u64"
  have "word_of_nat (unat ?n) = ?n" by simp
  then have "22 + ?n = word_of_nat (22 + min (length (entry_payload e)) 65514)"
    unfolding payload_sizes(2) [OF assms] by simp
  then show ?thesis by (simp add: ConstructVerboseHeader_def Let_def)
qed

text \<open>A verbose packet is laid out as its reader expects, inside the message buffer: the header
  decodes to its fields, the payload follows it, cut to the buffer, and the big-endian
  length field counts header and payload whenever that number fits its 16 bits.\<close>

theorem verbose_packet_layout:
  assumes "length buf = 65536" "length (entry_payload e) < 2 ^ 32"
  shows "let n = min (length (entry_payload e)) 65514;
             m = ConstructVerbosePacket gsv buf e ecu mc t;
             h = dec_verbose (subspan 0 22 m)
         in length m = 65536 \<and> h = fst (ConstructVerboseHeader gsv e ecu mc t) \<and>
            subspan 22 n m = take n (entry_payload e) \<and>
            be_value (le16 (len (v_std h))) = (22 + n) mod 65536 \<and>
            mcnt (v_std h) = mc \<and> be_value (le32 (tmsp (v_stde h))) = unat t"
proof -
  let ?n = "min (length (entry_payload e)) 65514" and ?h = "fst (ConstructVerboseHeader gsv e ecu mc t)"
  let ?p = "take ?n (entry_payload e)"
  note n = payload_sizes [OF assms(2)]
  have m: "ConstructVerbosePacket gsv buf e ecu mc t = put_at 22 ?p (put_at 0 (enc_verbose ?h) buf)"
    by (simp add: ConstructVerbosePacket_def ConstructVerboseHeader_def Let_def n)
  have w: "length (enc_verbose ?h) = 22" by (rule verbose.enc_width)
  have fit: "22 + length ?p \<le> length (put_at 0 (enc_verbose ?h) buf)" using assms(1) w by simp
  have head: "subspan 0 22 (put_at 22 ?p (put_at 0 (enc_verbose ?h) buf)) = enc_verbose ?h"
    using fit w assms(1) subspan_put_at_same [of 0 "enc_verbose ?h" buf] by (simp add: subspan_put_at_before)
  have tail: "subspan 22 ?n (put_at 22 ?p (put_at 0 (enc_verbose ?h) buf)) = ?p"
    using subspan_put_at_same [OF fit] by (simp add: min_def split: if_splits)
  have "unat (word_of_nat (22 + ?n) :: u64) = 22 + ?n" by (rule unat_word_of_nat) simp
  then have "be_value (le16 (len (v_std ?h))) = (22 + ?n) mod 65536" "mcnt (v_std ?h) = mc"
    unfolding verbose_header_length [OF assms(2)]
    by (simp_all only: standard_header_length) (simp add: ConstructDltStandardHeader_def Let_def)
  moreover have "be_value (le32 (tmsp (v_stde ?h))) = unat t"
    by (simp add: ConstructVerboseHeader_def ConstructDltStandardHeaderExtra_def Let_def be_value_HTOBE_32)
  ultimately show ?thesis
    using assms(1) w fit by (simp add: m Let_def head tail verbose.dec_enc)
qed

definition example_entry :: LogEntry where
  "example_entry = \<lparr>app_id = (65, 80, 80, 0), ctx_id = (67, 84, 88, 0), entry_payload = [1, 2, 3], num_of_args = 1, log_level = 4\<rparr>"

definition example_view :: "id4 \<Rightarrow> bytes" where
  "example_view i = takeWhile (\<lambda>b. b \<noteq> 0) (id_bytes i)"

theorem verbose_packet_layout_witness:
  "let n = min (length (entry_payload example_entry)) 65514;
       m = ConstructVerbosePacket example_view (replicate 65536 0) example_entry (69, 67, 85, 49) 7 1234;
       h = dec_verbose (subspan 0 22 m)
   in length m = 65536 \<and> h = fst (ConstructVerboseHeader example_view example_entry (69, 67, 85, 49) 7 1234) \<and>
      subspan 22 n m = take n (entry_payload example_entry) \<and>
      be_value (le16 (len (v_std h))) = (22 + n) mod 65536 \<and>
      mcnt (v_std h) = 7 \<and> be_value (le32 (tmsp (v_stde h))) = unat (1234 :: u32)"
  by (rule verbose_packet_layout) (simp_all add: example_entry_def)

text \<open>
  The buffer of 65536 bytes lets a payload of 65514 bytes or more through, for which the
  length field is zero.
\<close>

lemma oversized_length_field_zero:
  assumes "65514 \<le> length (entry_payload e)" "length (entry_payload e) < 2 ^ 32"
  shows "len (v_std (fst (ConstructVerboseHeader gsv e ecu mc t))) = 0"
  using assms(1) by (simp add: verbose_header_length [OF assms(2)] ConstructDltStandardHeader_def Let_def
      min_absorb2 DLT_HTOBE_16_def DLT_SWAP_16_def)

text \<open>The verbose header of a packet for storage.\<close>

definition storage_header_of :: "(id4 \<Rightarrow> bytes) \<Rightarrow> LogEntry \<Rightarrow> id4 \<Rightarrow> u8 \<Rightarrow> u32 \<Rightarrow> DltVerboseHeader" where
  "storage_header_of gsv e ecu mc t =
     \<lparr>v_std = ConstructDltStandardHeader (word_of_nat (22 + min (length (entry_payload e)) 65498)) mc True,
      v_stde = ConstructDltStandardHeaderExtra ecu t,
      v_ext = ConstructDltExtendedHeader (log_level e) (num_of_args e)
        (NewDltidT (gsv (app_id e))) (NewDltidT (gsv (ctx_id e)))\<rparr>"

lemma storage_packet_parts:
  assumes m_def: "m = ConstructStorageVerbosePacket gsv buf e ecu mc t secs us"
    and "length buf = 65536" "length (entry_payload e) < 2 ^ 32"
  shows "length m = 65536" "subspan 0 16 m = enc_storage (ConstructDltStorageHeader secs us)"
    "subspan 16 22 m = enc_verbose (storage_header_of gsv e ecu mc t)"
    "subspan 38 (min (length (entry_payload e)) 65498) m = take (min (length (entry_payload e)) 65498) (entry_payload e)"
proof -
  let ?n = "min (length (entry_payload e)) 65498"
  let ?sz = "min (word_of_nat (length (entry_payload e))) (kDltMessageSize - (16 + 22)) :: u64"
  let ?h = "storage_header_of gsv e ecu mc t"
  let ?s = "enc_storage (ConstructDltStorageHeader secs us)" and ?p = "take ?n (entry_payload e)"
  have n: "unat ?sz = ?n" by (rule payload_sizes [OF assms(3)])
  have "word_of_nat (unat ?sz) = ?sz" by simp
  then have "22 + ?sz = word_of_nat (22 + ?n)" unfolding n by simp
  then have m: "m = put_at 38 ?p (put_at 16 (enc_verbose ?h) (put_at 0 ?s buf))"
    unfolding m_def ConstructStorageVerbosePacket_def Let_def n by (simp add: storage_header_of_def)
  have w: "length (enc_verbose ?h) = 22" "length ?s = 16" by (rule verbose.enc_width storage.enc_width)+
  have l: "length (put_at 0 ?s buf) = 65536" "length (put_at 16 (enc_verbose ?h) (put_at 0 ?s buf)) = 65536"
    using assms(2) w by simp_all
  have fit: "38 + length ?p \<le> length (put_at 16 (enc_verbose ?h) (put_at 0 ?s buf))" using l by simp
  show "length m = 65536" using m fit l by simp
  show "subspan 16 22 m = enc_verbose ?h"
    unfolding m using fit w l subspan_put_at_same [of 16 "enc_verbose ?h" "put_at 0 ?s buf"]
    by (simp add: subspan_put_at_before)
  show "subspan 0 16 m = ?s"
    unfolding m using fit w l assms(2) subspan_put_at_same [of 0 ?s buf] by (simp add: subspan_put_at_before)
  show "subspan 38 ?n m = ?p"
    unfolding m using subspan_put_at_same [OF fit] by (simp add: min_def split: if_splits)
qed

text \<open>A packet for storage: storage header with the DLT pattern and the time, verbose header,
  payload cut to the buffer, and a length field that counts verbose header and payload.\<close>

theorem storage_packet_layout:
  assumes "length buf = 65536" "length (entry_payload e) < 2 ^ 32"
  shows "let n = min (length (entry_payload e)) 65498;
             m = ConstructStorageVerbosePacket gsv buf e ecu mc t secs us;
             h = dec_verbose (subspan 16 22 m)
         in length m = 65536 \<and> dec_storage (subspan 0 16 m) = ConstructDltStorageHeader secs us \<and>
            subspan 38 n m = take n (entry_payload e) \<and>
            be_value (le16 (len (v_std h))) = 22 + n \<and> mcnt (v_std h) = mc"
proof -
  let ?n = "min (length (entry_payload e)) 65498"
  note parts = storage_packet_parts [OF refl assms]
  have "unat (word_of_nat (22 + ?n) :: u64) = 22 + ?n" by (rule unat_word_of_nat) simp
  moreover have "22 + ?n < 65536" by simp
  ultimately have "be_value (le16 (len (v_std (storage_header_of gsv e ecu mc t)))) = 22 + ?n"
    by (simp add: storage_header_of_def standard_header_length)
  moreover have "mcnt (v_std (storage_header_of gsv e ecu mc t)) = mc"
    by (simp add: storage_header_of_def ConstructDltStandardHeader_def Let_def)
  ultimately show ?thesis
    unfolding Let_def parts verbose.dec_enc storage.dec_enc by simp
qed

theorem storage_packet_layout_witness:
  "let n = min (length (entry_payload example_entry)) 65498;
       m = ConstructStorageVerbosePacket example_view (replicate 65536 0) example_entry (69, 67, 85, 49) 7 1234 99 5;
       h = dec_verbose (subspan 16 22 m)
   in length m = 65536 \<and> dec_storage (subspan 0 16 m) = ConstructDltStorageHeader 99 5 \<and>
      subspan 38 n m = take n (entry_payload example_entry) \<and>
      be_value (le16 (len (v_std h))) = 22 + n \<and> mcnt (v_std h) = 7"
  by (rule storage_packet_layout) (simp_all add: example_entry_def)

text \<open>A non-verbose packet: header with the message identifier, then the data, for every size
  that the message buffer has room for.\<close>

theorem nonverbose_packet_layout:
  assumes "length buf = 65536" "unat sz \<le> length d" "16 + unat sz \<le> 65536"
  shows "let m = ConstructNonVerbosePacket buf d sz mid ecu mc t; h = dec_nv (subspan 0 16 m)
         in length m = 65536 \<and> msgid h = mid \<and> mcnt (nv_std h) = mc \<and>
            be_value (le16 (len (nv_std h))) = (16 + unat sz) mod 65536 \<and>
            subspan 16 (unat sz) m = take (unat sz) d"
proof -
  let ?h = "fst (ConstructNonVerboseHeader sz mid ecu mc t)" and ?p = "take (unat sz) d"
  have m: "ConstructNonVerbosePacket buf d sz mid ecu mc t = put_at 16 ?p (put_at 0 (enc_nv ?h) buf)"
    by (simp add: ConstructNonVerbosePacket_def ConstructNonVerboseHeader_def Let_def)
  have w: "length (enc_nv ?h) = 16" by (rule nv.enc_width)
  have p: "length ?p = unat sz" using assms(2) by simp
  have fit: "16 + length ?p \<le> length (put_at 0 (enc_nv ?h) buf)" using assms w p by simp
  have head: "subspan 0 16 (put_at 16 ?p (put_at 0 (enc_nv ?h) buf)) = enc_nv ?h"
    using fit w assms(1) subspan_put_at_same [of 0 "enc_nv ?h" buf] by (simp add: subspan_put_at_before)
  have tail: "subspan 16 (unat sz) (put_at 16 ?p (put_at 0 (enc_nv ?h) buf)) = ?p"
    using subspan_put_at_same [OF fit] unfolding p .
  have "unat (16 + sz) = 16 + unat sz" using assms(3) by (simp add: unat_word_ariths)
  then have "be_value (le16 (len (nv_std ?h))) = (16 + unat sz) mod 65536"
    by (simp add: ConstructNonVerboseHeader_def standard_header_length)
  moreover have "msgid ?h = mid" "mcnt (nv_std ?h) = mc"
    by (simp_all add: ConstructNonVerboseHeader_def ConstructDltStandardHeader_def Let_def)
  ultimately show ?thesis
    unfolding m Let_def head tail nv.dec_enc using assms(1) w fit by simp
qed

theorem nonverbose_packet_layout_witness:
  "let m = ConstructNonVerbosePacket (replicate 65536 0) [5, 6, 7] 3 42 (69, 67, 85, 49) 7 1234; h = dec_nv (subspan 0 16 m)
   in length m = 65536 \<and> msgid h = 42 \<and> mcnt (nv_std h) = 7 \<and>
      be_value (le16 (len (nv_std h))) = (16 + unat (3 :: u64)) mod 65536 \<and>
      subspan 16 (unat (3 :: u64)) m = take (unat (3 :: u64)) [5, 6, 7]"
  by (rule nonverbose_packet_layout) simp_all

end
