(* ===== verification/MessageBuilder.thy ===== *)
theory MessageBuilder
  imports DltHeaders
begin

unbundle bit_operations_syntax

text \<open>
  The message builder of the file recorder
  (\<^verbatim>\<open>mw/log/detail/file_recorder/dlt_message_builder.cpp\<close> and \<^verbatim>\<open>.h\<close>, \<^verbatim>\<open>svp_time.h\<close>): it turns
  a log record into the bytes of the log file, span by span, in three phases.

  The byte buffers of the base library are a parameter: their operations \<^verbatim>\<open>Put\<close>
  (with a callback that fills a span and says how much it wrote), \<^verbatim>\<open>GetSpan\<close> and \<^verbatim>\<open>Reset\<close>.
  The readings of the two clocks, in nanoseconds, are arguments.
\<close>

section \<open>Headers\<close>

definition rec_kDltMessageSize :: u64 where "rec_kDltMessageSize = 65535"
definition kDltHeaderSize :: u64 where "kDltHeaderSize = 22"
definition kDltStorageHeaderSize :: u64 where "kDltStorageHeaderSize = 16"
definition kMaxDltHeaderSize :: nat where "kMaxDltHeaderSize = 512"

definition kDltHtypUEH :: u32 where "kDltHtypUEH = 0x01"
definition kDltHtypWEID :: u32 where "kDltHtypWEID = 0x04"
definition kDltHtypWTMS :: u32 where "kDltHtypWTMS = 0x10"
definition kDltHtypVERS :: u32 where "kDltHtypVERS = 0x20"
definition kDltMsinVerb :: u32 where "kDltMsinVerb = 0x01"
definition kDltMsinMstpShift :: nat where "kDltMsinMstpShift = 1"
definition kDltMsinMtinShift :: nat where "kDltMsinMtinShift = 4"
definition kDltTypeLOG :: u32 where "kDltTypeLOG = 0"

lemmas rec_consts = rec_kDltMessageSize_def kDltHeaderSize_def kDltStorageHeaderSize_def kDltHtypUEH_def
  kDltHtypWEID_def kDltHtypWTMS_def kDltHtypVERS_def kDltMsinVerb_def kDltMsinMstpShift_def
  kDltMsinMtinShift_def kDltTypeLOG_def

definition rec_ConstructDltStorageHeader :: "u32 \<Rightarrow> u32 \<Rightarrow> DltStorageHeader" where
  "rec_ConstructDltStorageHeader secs microsecs =
     \<lparr>pattern = (68, 76, 84, 1), seconds = secs, microseconds = microsecs, sh_ecu = (69, 67, 85, 0)\<rparr>"

definition ConstructDltStandardHeaderTypes :: "u16 \<Rightarrow> u8 \<Rightarrow> bool \<Rightarrow> DltStandardHeader" where
  "ConstructDltStandardHeaderTypes msg_size message_count use_extended_header =
     (let h = ucast (kDltHtypWEID OR kDltHtypWTMS OR kDltHtypVERS);
          h = (if use_extended_header then h OR ucast kDltHtypUEH else h)
      in \<lparr>htyp = h, mcnt = message_count, len = htons msg_size\<rparr>)"

definition rec_ConstructDltStandardHeaderExtra :: "id4 \<Rightarrow> u32 \<Rightarrow> DltStandardHeaderExtra" where
  "rec_ConstructDltStandardHeaderExtra ecu t = \<lparr>stde_ecu = ecu, tmsp = htonl t\<rparr>"

definition rec_ConstructDltExtendedHeader :: "u8 \<Rightarrow> u8 \<Rightarrow> id4 \<Rightarrow> id4 \<Rightarrow> DltExtendedHeader" where
  "rec_ConstructDltExtendedHeader loglevel number_of_arguments app ctx =
     (let level_normalized = (ucast loglevel :: u32) AND 7;
          message_info = push_bit kDltMsinMstpShift kDltTypeLOG OR push_bit kDltMsinMtinShift level_normalized
            OR kDltMsinVerb
      in \<lparr>msin = ucast message_info, noar = number_of_arguments, apid = app, ctid = ctx\<rparr>)"

record SVPTime =
  timestamp :: u32
  sec :: u32
  ms :: u32

section \<open>Buffers\<close>

record 'p BufferOps =
  PutWith :: "(nat \<Rightarrow> bytes) \<Rightarrow> 'p \<Rightarrow> 'p"
  GetSpan :: "'p \<Rightarrow> bytes"
  Reset :: "'p \<Rightarrow> 'p"

definition buffer_ok :: "'p BufferOps \<Rightarrow> ('p \<Rightarrow> nat) \<Rightarrow> bool" where
  "buffer_ok B room \<longleftrightarrow>
     (\<forall>f p. length (f (room p)) \<le> room p \<longrightarrow>
        GetSpan B (PutWith B f p) = GetSpan B p @ f (room p) \<and> room (PutWith B f p) = room p - length (f (room p))) \<and>
     (\<forall>p. GetSpan B (Reset B p) = [] \<and> room (Reset B p) = room p + length (GetSpan B p))"

definition rec_ConstructStorageVerbosePacket ::
  "'p BufferOps \<Rightarrow> 'p \<Rightarrow> LogEntry \<Rightarrow> id4 \<Rightarrow> u8 \<Rightarrow> SVPTime \<Rightarrow> 'p" where
  "rec_ConstructStorageVerbosePacket B header_payload entry ecu message_count svp_time =
     (let sz = min (word_of_nat (length (entry_payload entry)))
            (rec_kDltMessageSize - (kDltStorageHeaderSize + kDltHeaderSize));
          header_size = (ucast (kDltHeaderSize + sz) :: u16);
          storage_header = rec_ConstructDltStorageHeader (sec svp_time) (ms svp_time);
          header_payload = PutWith B (\<lambda>n. take (min n 16) (enc_storage storage_header)) header_payload;
          dlt_header = \<lparr>v_std = ConstructDltStandardHeaderTypes header_size message_count True,
            v_stde = rec_ConstructDltStandardHeaderExtra ecu (timestamp svp_time),
            v_ext = rec_ConstructDltExtendedHeader (log_level entry) (num_of_args entry) (app_id entry) (ctx_id entry)\<rparr>
      in PutWith B (\<lambda>n. take (min n 22) (enc_verbose dlt_header)) header_payload)"

section \<open>Builder\<close>

datatype ParsingPhase = kHeader | kPayload | kReinitialize

record 'p LogRecord =
  lr_entry :: LogEntry
  lr_payload :: 'p

record 'p DltMessageBuilder =
  log_record :: "'p LogRecord option"
  header_payload :: 'p
  parsing_phase :: ParsingPhase
  ecu_id :: id4
  message_count :: u8

definition NewDltMessageBuilder :: "'p \<Rightarrow> id4 \<Rightarrow> 'p DltMessageBuilder" where
  "NewDltMessageBuilder empty_buffer ecu =
     \<lparr>log_record = None, header_payload = empty_buffer, parsing_phase = kHeader, ecu_id = ecu, message_count = 0\<rparr>"

definition SetNextMessage ::
  "'p BufferOps \<Rightarrow> int \<Rightarrow> int \<Rightarrow> 'p LogRecord \<Rightarrow> 'p DltMessageBuilder \<Rightarrow> 'p DltMessageBuilder" where
  "SetNextMessage B time_stamp time_epoch rec b =
     (let b = b\<lparr>log_record := Some rec\<rparr>;
          entry = lr_entry rec;
          seconds' = (of_int (time_epoch div 1000000000) :: u32);
          secs_remainder = time_epoch - int (unat seconds') * 1000000000;
          microsecs = (of_int (secs_remainder div 1000) :: u32);
          timestamp' = (of_int (time_stamp div 100000) :: u32);
          count' = message_count b;
          b = b\<lparr>message_count := count' + 1\<rparr>
      in b\<lparr>header_payload := rec_ConstructStorageVerbosePacket B (header_payload b) entry (ecu_id b) count'
             \<lparr>timestamp = timestamp', sec = seconds', ms = microsecs\<rparr>\<rparr>)"

definition GetNextSpan :: "'p BufferOps \<Rightarrow> 'p DltMessageBuilder \<Rightarrow> bytes option \<times> 'p DltMessageBuilder" where
  "GetNextSpan B b =
     (case log_record b of
        None \<Rightarrow> (None, b)
      | Some rec \<Rightarrow>
          (case parsing_phase b of
             kHeader \<Rightarrow> (Some (GetSpan B (header_payload b)), b\<lparr>parsing_phase := kPayload\<rparr>)
           | kPayload \<Rightarrow> (Some (GetSpan B (lr_payload rec)), b\<lparr>parsing_phase := kReinitialize\<rparr>)
           | kReinitialize \<Rightarrow>
               (None, b\<lparr>parsing_phase := kHeader, header_payload := Reset B (header_payload b), log_record := None\<rparr>)))"

text \<open>The record's own buffer after the reinitialisation phase, a side effect on the caller's object.\<close>

definition reinitialised_payload :: "'p BufferOps \<Rightarrow> 'p LogRecord \<Rightarrow> 'p" where
  "reinitialised_payload B rec = Reset B (lr_payload rec)"

section \<open>Two implementations of one format\<close>

lemma rec_standard_eq:
  "ConstructDltStandardHeaderTypes (ucast n) mc ue = ConstructDltStandardHeader n mc ue"
  by (simp add: ConstructDltStandardHeaderTypes_def ConstructDltStandardHeader_def Let_def htons_eq rec_consts
      DLT_HTYP_UEH_def DLT_HTYP_WEID_def DLT_HTYP_WTMS_def DLT_HTYP_VERS_def)

lemma rec_extra_eq: "id_plain ecu \<Longrightarrow> rec_ConstructDltStandardHeaderExtra ecu t = ConstructDltStandardHeaderExtra ecu t"
  by (simp add: rec_ConstructDltStandardHeaderExtra_def ConstructDltStandardHeaderExtra_def htonl_eq id_plain_data)

lemma rec_extended_eq:
  assumes "l < 8" "id_plain a" "id_plain c"
  shows "rec_ConstructDltExtendedHeader l n a c = ConstructDltExtendedHeader l n a c"
proof -
  have "(ucast l :: u32) AND 7 = ucast l"
  proof -
    have "unat l < 8" using assms(1) by (simp add: word_less_nat_alt)
    then have "unat (ucast l :: u32) < 2 ^ 3"
      by (simp add: unsigned_ucast_eq take_bit_nat_eq_self)
    then have "take_bit 3 (ucast l :: u32) = ucast l"
      by (simp add: unat_eq_iff_word unsigned_take_bit_eq take_bit_nat_eq_self)
    then show ?thesis by (simp add: take_bit_eq_mask mask_eq_exp_minus_1)
  qed
  with assms show ?thesis
    by (simp add: rec_ConstructDltExtendedHeader_def ConstructDltExtendedHeader_def Let_def rec_consts id_plain_data)
qed

lemma rec_packet:
  assumes B: "buffer_ok B room" and "38 \<le> room hp" "view_ok gsv" "id_plain ecu" "id_plain (app_id e)" "id_plain (ctx_id e)"
    and "log_level e < 8" "length (entry_payload e) < 2 ^ 32"
  shows "GetSpan B (rec_ConstructStorageVerbosePacket B hp e ecu mc tm) =
      GetSpan B hp @ enc_storage (ConstructDltStorageHeader (sec tm) (ms tm)) @
      enc_verbose ((storage_header_of gsv e ecu mc (timestamp tm))
        \<lparr>v_std := ConstructDltStandardHeader (word_of_nat (22 + min (length (entry_payload e)) 65497)) mc True\<rparr>)"
    "room (rec_ConstructStorageVerbosePacket B hp e ecu mc tm) = room hp - 38"
proof -
  let ?sz = "min (word_of_nat (length (entry_payload e))) (rec_kDltMessageSize - (kDltStorageHeaderSize + kDltHeaderSize)) :: u64"
  have "unat (word_of_nat (length (entry_payload e)) :: u64) = length (entry_payload e)"
    using assms(8) by (intro unat_word_of_nat) simp
  then have n: "unat ?sz = min (length (entry_payload e)) 65497"
    by (simp add: rec_consts min_def word_le_nat_alt)
  have "word_of_nat (unat ?sz) = ?sz" by simp
  then have size: "kDltHeaderSize + ?sz = word_of_nat (22 + min (length (entry_payload e)) 65497)"
    unfolding n by (simp add: rec_consts)
  have s: "rec_ConstructDltStorageHeader a b = ConstructDltStorageHeader a b" for a b
    by (simp add: rec_ConstructDltStorageHeader_def ConstructDltStorageHeader_def)
  have w: "length (enc_storage x) = 16" "length (enc_verbose y) = 22" for x y
    by (rule storage.enc_width verbose.enc_width)+
  have put: "GetSpan B (PutWith B (\<lambda>n. take (min n k) src) p) = GetSpan B p @ src"
    "room (PutWith B (\<lambda>n. take (min n k) src) p) = room p - k"
    if "length src = k" "k \<le> room p" for src k p
    using B that by (simp_all add: buffer_ok_def)
  show "GetSpan B (rec_ConstructStorageVerbosePacket B hp e ecu mc tm) =
      GetSpan B hp @ enc_storage (ConstructDltStorageHeader (sec tm) (ms tm)) @
      enc_verbose ((storage_header_of gsv e ecu mc (timestamp tm))
        \<lparr>v_std := ConstructDltStandardHeader (word_of_nat (22 + min (length (entry_payload e)) 65497)) mc True\<rparr>)"
    "room (rec_ConstructStorageVerbosePacket B hp e ecu mc tm) = room hp - 38"
    unfolding rec_ConstructStorageVerbosePacket_def Let_def size rec_standard_eq s
    using assms by (simp_all add: put w storage_header_of_def rec_extra_eq rec_extended_eq view_round_trip)
qed

text \<open>C37: The file recorder and the data router write the same headers: for identifiers without
  inner zeros, a log level of the enumeration and a payload that neither has to cut, the
  recorder's header buffer is, byte for byte, the first 38 bytes of the data router's
  packet for storage.\<close>

theorem recorder_and_router_headers_agree:
  assumes "buffer_ok B room" "38 \<le> room hp" "GetSpan B hp = []" "view_ok gsv"
    and "id_plain ecu" "id_plain (app_id e)" "id_plain (ctx_id e)" "log_level e < 8"
    and "length (entry_payload e) \<le> 65497" "length buf = 65536"
  shows "GetSpan B (rec_ConstructStorageVerbosePacket B hp e ecu mc tm) =
    subspan 0 38 (ConstructStorageVerbosePacket gsv buf e ecu mc (timestamp tm) (sec tm) (ms tm))"
proof -
  have small: "length (entry_payload e) < 2 ^ 32" using assms(9) by simp
  have "min (length (entry_payload e)) 65497 = min (length (entry_payload e)) 65498" using assms(9) by simp
  then have "(storage_header_of gsv e ecu mc (timestamp tm))
      \<lparr>v_std := ConstructDltStandardHeader (word_of_nat (22 + min (length (entry_payload e)) 65497)) mc True\<rparr>
      = storage_header_of gsv e ecu mc (timestamp tm)"
    by (simp add: storage_header_of_def)
  then have "GetSpan B (rec_ConstructStorageVerbosePacket B hp e ecu mc tm) =
      enc_storage (ConstructDltStorageHeader (sec tm) (ms tm)) @ enc_verbose (storage_header_of gsv e ecu mc (timestamp tm))"
    using rec_packet(1) [OF assms(1,2,4-8) small, of mc tm] assms(3) by simp
  also have "\<dots> = subspan 0 (16 + 22) (ConstructStorageVerbosePacket gsv buf e ecu mc (timestamp tm) (sec tm) (ms tm))"
    by (simp only: subspan_append_split storage_packet_parts [OF refl assms(10) small] add_0)
  finally show ?thesis by simp
qed

text \<open>Buffers as byte lists of capacity 512.\<close>

definition example_buffer :: "bytes BufferOps" where
  "example_buffer = \<lparr>PutWith = \<lambda>f p. p @ take (512 - length p) (f (512 - length p)), GetSpan = \<lambda>p. take 512 p, Reset = \<lambda>_. []\<rparr>"

lemma example_buffer_ok: "buffer_ok example_buffer (\<lambda>p. 512 - length p)"
  by (auto simp: buffer_ok_def example_buffer_def)

theorem recorder_and_router_headers_agree_witness:
  "GetSpan example_buffer (rec_ConstructStorageVerbosePacket example_buffer [] example_entry (69, 67, 85, 49) 7
      \<lparr>timestamp = 5, sec = 6, ms = 7\<rparr>) =
    subspan 0 38 (ConstructStorageVerbosePacket example_view (replicate 65536 0) example_entry (69, 67, 85, 49) 7
      (timestamp \<lparr>timestamp = 5, sec = 6, ms = 7\<rparr>) (sec \<lparr>timestamp = 5, sec = 6, ms = 7\<rparr>) (ms \<lparr>timestamp = 5, sec = 6, ms = 7\<rparr>))"
  by (rule recorder_and_router_headers_agree [OF example_buffer_ok])
    (simp_all add: example_entry_def example_buffer_def view_ok_def example_view_def)

section \<open>From a record to the file\<close>

definition builder_ready :: "'p BufferOps \<Rightarrow> ('p \<Rightarrow> nat) \<Rightarrow> 'p DltMessageBuilder \<Rightarrow> bool" where
  "builder_ready B room b \<longleftrightarrow> log_record b = None \<and> parsing_phase b = kHeader
     \<and> GetSpan B (header_payload b) = [] \<and> 38 \<le> room (header_payload b) \<and> id_plain (ecu_id b)"

definition record_ok :: "'p LogRecord \<Rightarrow> bool" where
  "record_ok rec \<longleftrightarrow> id_plain (app_id (lr_entry rec)) \<and> id_plain (ctx_id (lr_entry rec))
     \<and> log_level (lr_entry rec) < 8 \<and> length (entry_payload (lr_entry rec)) < 2 ^ 32"

text \<open>What the writer of the file does: take spans until there is none.\<close>

definition write_record ::
  "'p BufferOps \<Rightarrow> int \<times> int \<times> 'p LogRecord \<Rightarrow> 'p DltMessageBuilder \<Rightarrow> bytes \<times> 'p DltMessageBuilder" where
  "write_record B m b =
     (case m of (time_stamp, time_epoch, rec) \<Rightarrow>
        let b = SetNextMessage B time_stamp time_epoch rec b;
            (s1, b) = GetNextSpan B b; (s2, b) = GetNextSpan B b; (s3, b) = GetNextSpan B b
        in (concat (map (\<lambda>s. case s of None \<Rightarrow> [] | Some bs \<Rightarrow> bs) [s1, s2, s3]), b))"

fun write_records ::
  "'p BufferOps \<Rightarrow> (int \<times> int \<times> 'p LogRecord) list \<Rightarrow> 'p DltMessageBuilder \<Rightarrow> bytes \<times> 'p DltMessageBuilder" where
  "write_records B [] b = ([], b)"
| "write_records B (m # msgs) b =
     (let (bs, b) = write_record B m b; (rest, b) = write_records B msgs b in (bs @ rest, b))"

text \<open>The bytes of one message in the file.\<close>

definition message_bytes :: "'p BufferOps \<Rightarrow> (id4 \<Rightarrow> bytes) \<Rightarrow> id4 \<Rightarrow> u8 \<Rightarrow> int \<times> int \<times> 'p LogRecord \<Rightarrow> bytes" where
  "message_bytes B gsv ecu mc m =
     (case m of (time_stamp, time_epoch, rec) \<Rightarrow>
        let s = (of_int (time_epoch div 1000000000) :: u32);
            us = (of_int ((time_epoch - int (unat s) * 1000000000) div 1000) :: u32);
            n = min (length (entry_payload (lr_entry rec))) 65497
        in enc_storage (ConstructDltStorageHeader s us) @
           enc_verbose ((storage_header_of gsv (lr_entry rec) ecu mc (of_int (time_stamp div 100000)))
             \<lparr>v_std := ConstructDltStandardHeader (word_of_nat (22 + n)) mc True\<rparr>) @
           GetSpan B (lr_payload rec))"

fun message_sequence ::
  "'p BufferOps \<Rightarrow> (id4 \<Rightarrow> bytes) \<Rightarrow> id4 \<Rightarrow> u8 \<Rightarrow> (int \<times> int \<times> 'p LogRecord) list \<Rightarrow> bytes" where
  "message_sequence B gsv ecu mc [] = []"
| "message_sequence B gsv ecu mc (m # msgs) = message_bytes B gsv ecu mc m @ message_sequence B gsv ecu (mc + 1) msgs"

lemma write_record_eq:
  assumes B: "buffer_ok B room" and ready: "builder_ready B room b" and rec: "record_ok rec" and gsv: "view_ok gsv"
  shows "\<exists>b'. write_record B (ts, ep, rec) b = (message_bytes B gsv (ecu_id b) (message_count b) (ts, ep, rec), b')
    \<and> builder_ready B room b' \<and> ecu_id b' = ecu_id b \<and> message_count b' = message_count b + 1"
proof -
  let ?s = "of_int (ep div 1000000000) :: u32"
  let ?tm = "\<lparr>timestamp = of_int (ts div 100000), sec = ?s, ms = of_int ((ep - int (unat ?s) * 1000000000) div 1000)\<rparr>"
  note r = ready [unfolded builder_ready_def] rec [unfolded record_ok_def]
  note packet = rec_packet [OF B _ gsv, of "header_payload b" "ecu_id b" "lr_entry rec" "message_count b" ?tm]
  show ?thesis
    using r packet B
    by (simp add: write_record_def SetNextMessage_def GetNextSpan_def Let_def message_bytes_def builder_ready_def
        buffer_ok_def storage.enc_width verbose.enc_width)
qed

lemma records_written:
  assumes "buffer_ok B room" "builder_ready B room b" "list_all (\<lambda>(_, _, rec). record_ok rec) msgs" "view_ok gsv"
  shows "\<exists>b'. write_records B msgs b = (message_sequence B gsv (ecu_id b) (message_count b) msgs, b')
    \<and> builder_ready B room b' \<and> message_count b' = message_count b + word_of_nat (length msgs)"
  using assms(2,3)
proof (induction msgs arbitrary: b)
  case (Cons m msgs)
  obtain ts ep rec where m: "m = (ts, ep, rec)" by (cases m)
  with Cons.prems have rec: "record_ok rec" by simp
  obtain b1 where b1: "write_record B m b = (message_bytes B gsv (ecu_id b) (message_count b) m, b1)"
      "builder_ready B room b1" "ecu_id b1 = ecu_id b" "message_count b1 = message_count b + 1"
    using write_record_eq [OF assms(1) Cons.prems(1) rec assms(4)] m by blast
  obtain b2 where "write_records B msgs b1 = (message_sequence B gsv (ecu_id b1) (message_count b1) msgs, b2)"
      "builder_ready B room b2" "message_count b2 = message_count b1 + word_of_nat (length msgs)"
    using Cons.IH [OF b1(2)] Cons.prems(2) by auto
  with b1 show ?case by simp
qed simp

section \<open>Reading the file\<close>

text \<open>A reader of the format: it takes the length of a message from its standard header.\<close>

function read_log :: "bytes \<Rightarrow> (DltStorageHeader \<times> DltVerboseHeader \<times> bytes) list" where
  "read_log bs =
     (let n = be_value (subspan 18 2 bs) in
      if length bs < 38 \<or> n < 22 \<or> length bs < 16 + n then []
      else (dec_storage (subspan 0 16 bs), dec_verbose (subspan 16 22 bs), subspan 38 (n - 22) bs) # read_log (drop (16 + n) bs))"
  by pat_completeness auto
termination by (relation "measure length") auto

declare read_log.simps [simp del]

text \<open>What it should find, message by message.\<close>

fun recorded ::
  "(id4 \<Rightarrow> bytes) \<Rightarrow> id4 \<Rightarrow> u8 \<Rightarrow> (int \<times> int \<times> 'p LogRecord) list \<Rightarrow> (DltStorageHeader \<times> DltVerboseHeader \<times> bytes) list" where
  "recorded gsv ecu mc [] = []"
| "recorded gsv ecu mc ((time_stamp, time_epoch, rec) # msgs) =
     (let s = (of_int (time_epoch div 1000000000) :: u32);
          us = (of_int ((time_epoch - int (unat s) * 1000000000) div 1000) :: u32)
      in (ConstructDltStorageHeader s us, storage_header_of gsv (lr_entry rec) ecu mc (of_int (time_stamp div 100000)), entry_payload (lr_entry rec)))
     # recorded gsv ecu (mc + 1) msgs"

definition whole_payload :: "'p BufferOps \<Rightarrow> 'p LogRecord \<Rightarrow> bool" where
  "whole_payload B rec \<longleftrightarrow> GetSpan B (lr_payload rec) = entry_payload (lr_entry rec)"

definition announced :: "'p LogRecord \<Rightarrow> nat" where
  "announced rec = 16 + 22 + min (length (entry_payload (lr_entry rec))) 65497"

text \<open>The first message of a file and its length field.\<close>

lemma message_parts:
  fixes rest :: bytes and v :: DltVerboseHeader
  assumes "length a = 16" "h = ConstructDltStandardHeader (word_of_nat (22 + n)) mc True" "n \<le> 65497"
  defines "bs \<equiv> a @ enc_verbose (v\<lparr>v_std := h\<rparr>) @ rest"
  shows "be_value (subspan 18 2 bs) = 22 + n" "subspan 0 16 bs = a" "subspan 16 22 bs = enc_verbose (v\<lparr>v_std := h\<rparr>)"
    "drop 38 bs = rest"
proof -
  have w: "length (enc_verbose (v\<lparr>v_std := h\<rparr>)) = 22" by (rule verbose.enc_width)
  show "subspan 0 16 bs = a" "subspan 16 22 bs = enc_verbose (v\<lparr>v_std := h\<rparr>)" "drop 38 bs = rest"
    using assms(1) w by (simp_all add: bs_def subspan_def)
  have "subspan 18 2 bs = subspan 2 2 (enc_std h)"
    using assms(1) by (simp add: bs_def subspan_def enc_verbose_def enc_std_def)
  also have "\<dots> = le16 (len h)" by (simp add: enc_std_def subspan_def)
  finally have "subspan 18 2 bs = le16 (len h)" .
  moreover have "unat (word_of_nat (22 + n) :: u64) = 22 + n" using assms(3) by (intro unat_word_of_nat) simp
  ultimately show "be_value (subspan 18 2 bs) = 22 + n"
    using assms(2,3) standard_header_length [of "word_of_nat (22 + n)" mc True] by simp
qed

lemma read_first:
  assumes "length a = 16" "h = ConstructDltStandardHeader (word_of_nat (22 + length p)) mc True" "length p \<le> 65497"
  shows "read_log (a @ enc_verbose (v\<lparr>v_std := h\<rparr>) @ p @ rest) = (dec_storage a, v\<lparr>v_std := h\<rparr>, p) # read_log rest"
proof -
  let ?bs = "a @ enc_verbose (v\<lparr>v_std := h\<rparr>) @ p @ rest"
  note parts = message_parts [OF assms, where rest = "p @ rest" and v = v]
  have "length (enc_verbose (v\<lparr>v_std := h\<rparr>)) = 22" by (rule verbose.enc_width)
  then have len: "length ?bs = 38 + length p + length rest" using assms(1) by simp
  have "16 + (22 + length p) = length p + 38" by simp
  then have d: "drop (16 + (22 + length p)) ?bs = rest" by (simp only: drop_drop [symmetric] parts(4)) simp
  have "subspan 38 (22 + length p - 22) ?bs = p" unfolding subspan_def parts(4) by simp
  then show ?thesis
    by (subst read_log.simps) (simp only: parts(1-3) d verbose.dec_enc Let_def len, simp)
qed

lemma written_read_back:
  assumes "list_all (\<lambda>(_, _, rec). whole_payload B rec \<and> length (entry_payload (lr_entry rec)) \<le> 65497) msgs"
  shows "read_log (message_sequence B gsv ecu mc msgs) = recorded gsv ecu mc msgs"
  using assms
proof (induction msgs arbitrary: mc)
  case Nil
  show ?case by (subst read_log.simps) (simp add: Let_def)
next
  case (Cons m msgs)
  obtain ts ep rec where m: "m = (ts, ep, rec)" by (cases m)
  have p: "GetSpan B (lr_payload rec) = entry_payload (lr_entry rec)" "length (entry_payload (lr_entry rec)) \<le> 65497"
    using Cons.prems m by (simp_all add: whole_payload_def)
  then have same: "(storage_header_of gsv (lr_entry rec) ecu mc t)
      \<lparr>v_std := ConstructDltStandardHeader (word_of_nat (22 + length (entry_payload (lr_entry rec)))) mc True\<rparr> =
      storage_header_of gsv (lr_entry rec) ecu mc t" for t
    by (simp add: storage_header_of_def min_def)
  note first = read_first [OF storage.enc_width refl p(2), where v = "storage_header_of gsv (lr_entry rec) ecu mc t" and mc = mc for t, unfolded same]
  have min: "min (length (entry_payload (lr_entry rec))) 65497 = length (entry_payload (lr_entry rec))" using p(2) by simp
  show ?case
    using Cons.IH [of "mc + 1"] Cons.prems
    by (simp only: m message_sequence.simps message_bytes_def prod.case Let_def p(1) min same append_assoc first storage.dec_enc recorded.simps)
      simp
qed

text \<open>C36: The file that the recorder writes is the sequence of its messages, with the message counter
  going up by one and wrapping at 256, and the builder is ready for the next record after each.
  When no payload is longer than 65497 bytes, a reader that goes by the length fields finds
  exactly the recorded messages in it: each with the right times, identifiers, level, counter,
  length and payload. The length in the header of a longer payload is cut while the payload is
  written whole, so that its message is longer than its header says.\<close>

theorem recorder_writes_messages_in_order:
  assumes "buffer_ok B room" "builder_ready B room b" "list_all (\<lambda>(_, _, rec). record_ok rec \<and> whole_payload B rec) msgs" "view_ok gsv"
  shows "\<exists>written b'. write_records B msgs b = (written, b') \<and> written = message_sequence B gsv (ecu_id b) (message_count b) msgs
    \<and> builder_ready B room b' \<and> message_count b' = message_count b + word_of_nat (length msgs)
    \<and> (list_all (\<lambda>(_, _, rec). length (entry_payload (lr_entry rec)) \<le> 65497) msgs \<longrightarrow>
         read_log written = recorded gsv (ecu_id b) (message_count b) msgs)
    \<and> (\<forall>(ts, ep, rec) \<in> set msgs. \<forall>mc.
         16 + be_value (subspan 18 2 (message_bytes B gsv (ecu_id b) mc (ts, ep, rec))) = announced rec
         \<and> (65497 < length (entry_payload (lr_entry rec)) \<longleftrightarrow>
              announced rec < length (message_bytes B gsv (ecu_id b) mc (ts, ep, rec))))"
proof -
  have ok: "list_all (\<lambda>(_, _, rec). record_ok rec) msgs" using assms(3) by (auto simp: list_all_iff)
  obtain b' where b': "write_records B msgs b = (message_sequence B gsv (ecu_id b) (message_count b) msgs, b')"
    "builder_ready B room b'" "message_count b' = message_count b + word_of_nat (length msgs)"
    using records_written [OF assms(1,2) ok assms(4)] by blast
  moreover have "read_log (message_sequence B gsv (ecu_id b) (message_count b) msgs) = recorded gsv (ecu_id b) (message_count b) msgs"
    if "list_all (\<lambda>(_, _, rec). length (entry_payload (lr_entry rec)) \<le> 65497) msgs"
    using that assms(3) by (intro written_read_back) (auto simp: list_all_iff)
  moreover have "16 + be_value (subspan 18 2 (message_bytes B gsv (ecu_id b) mc (ts, ep, rec))) = announced rec
      \<and> (65497 < length (entry_payload (lr_entry rec)) \<longleftrightarrow> announced rec < length (message_bytes B gsv (ecu_id b) mc (ts, ep, rec)))"
    if "(ts, ep, rec) \<in> set msgs" for ts ep rec mc
  proof -
    have "whole_payload B rec" using assms(3) that by (auto simp: list_all_iff)
    moreover have "min (length (entry_payload (lr_entry rec))) 65497 \<le> 65497" by simp
    ultimately show ?thesis
      using message_parts(1) [OF storage.enc_width refl, where v = "storage_header_of gsv (lr_entry rec) (ecu_id b) mc t" for t]
      by (auto simp: message_bytes_def announced_def whole_payload_def Let_def storage.enc_width verbose.enc_width)
  qed
  ultimately show ?thesis by blast
qed

theorem recorder_writes_messages_in_order_witness:
  "\<exists>written b'. write_records example_buffer [(1000000, 5000000000, \<lparr>lr_entry = example_entry, lr_payload = entry_payload example_entry\<rparr>)]
      (NewDltMessageBuilder [] (69, 67, 85, 49)) = (written, b') \<and>
    read_log written = recorded example_view (69, 67, 85, 49) 0
      [(1000000, 5000000000, \<lparr>lr_entry = example_entry, lr_payload = entry_payload example_entry\<rparr>)]"
  using recorder_writes_messages_in_order [OF example_buffer_ok, of "NewDltMessageBuilder [] (69, 67, 85, 49)"
      "[(1000000, 5000000000, \<lparr>lr_entry = example_entry, lr_payload = entry_payload example_entry\<rparr>)]" example_view]
  by (force simp: builder_ready_def NewDltMessageBuilder_def example_buffer_def record_ok_def example_entry_def
      view_ok_def example_view_def whole_payload_def)

end
