(* ===== verification/DltChannel.thy ===== *)
theory DltChannel
  imports DltHeaders
begin

text \<open>
  An output channel of the data router (\<^verbatim>\<open>datarouter/include/daemon/dlt_log_channel.h\<close>,
  \<^verbatim>\<open>src/daemon/dlt_log_channel.cpp\<close>): messages are collected in four buffers of one
  datagram each and handed to the socket together.

  The socket is a parameter: \<open>send\<close> gives the outcome of a call, \<open>None\<close> or the text of the
  error. What was handed to it is recorded in \<open>wire\<close>, one list of datagrams per call.
  The bytes of a datagram are read from the buffers when they are sent, as the vector
  of addresses and lengths in the source does. Sizes are natural numbers: they are
  lengths of spans in memory.
\<close>

section \<open>State\<close>

definition kUdpMaxPayload :: nat where "kUdpMaxPayload = 1500 - (20 + 8)"
definition kVectorCount :: nat where "kVectorCount = 4"

record DltLogChannelStatistics =
  stats_msgcnt :: u64
  stats_totalsize :: u64
  send_failures_count :: u64
  send_errno_count :: "string \<rightharpoonup> u64"

record DltLogChannel =
  channel_name :: id4
  ecu :: id4
  channel_threshold :: u8
  ch_mcnt :: u8
  count_verbose_messages_in_buffer :: u8
  count_nonverbose_messages_in_buffer :: u8
  vector_index :: nat
  prebuf_data :: "bytes list"
  io_len :: "nat list"
  prebuf_size :: nat
  prebuf_is_verbose :: bool
  verbose_stats :: DltLogChannelStatistics
  nonverbose_stats :: DltLogChannelStatistics
  message_id_data_stats :: "u32 \<rightharpoonup> nat"
  wire :: "bytes list list"

type_synonym socket = "bytes list \<Rightarrow> string option"

definition empty_stats :: DltLogChannelStatistics where
  "empty_stats = \<lparr>stats_msgcnt = 0, stats_totalsize = 0, send_failures_count = 0, send_errno_count = (\<lambda>_. None)\<rparr>"

definition NewDltLogChannel :: "id4 \<Rightarrow> u8 \<Rightarrow> id4 \<Rightarrow> DltLogChannel" where
  "NewDltLogChannel channel_id threshold ecu_id =
     \<lparr>channel_name = channel_id, ecu = ecu_id, channel_threshold = threshold, ch_mcnt = 0,
      count_verbose_messages_in_buffer = 0, count_nonverbose_messages_in_buffer = 0, vector_index = 0,
      prebuf_data = replicate kVectorCount (replicate kUdpMaxPayload 0), io_len = replicate kVectorCount 0,
      prebuf_size = 0, prebuf_is_verbose = False, verbose_stats = empty_stats, nonverbose_stats = empty_stats,
      message_id_data_stats = (\<lambda>_. None), wire = []\<rparr>"

text \<open>\<^verbatim>\<open>++m[k]\<close> and \<^verbatim>\<open>m[k] += d\<close> on a map that inserts missing keys with value zero.\<close>

definition bump :: "'v :: {zero, plus} \<Rightarrow> 'k \<Rightarrow> ('k \<rightharpoonup> 'v) \<Rightarrow> ('k \<rightharpoonup> 'v)" where
  "bump d k m = m(k \<mapsto> (case m k of None \<Rightarrow> 0 | Some v \<Rightarrow> v) + d)"

definition count_failure :: "string \<Rightarrow> DltLogChannelStatistics \<Rightarrow> DltLogChannelStatistics" where
  "count_failure err st = st\<lparr>send_failures_count := send_failures_count st + 1,
     send_errno_count := bump 1 err (send_errno_count st)\<rparr>"

section \<open>Operations\<close>

definition batch :: "DltLogChannel \<Rightarrow> bytes list" where
  "batch c = map (\<lambda>i. take (io_len c ! i) (prebuf_data c ! i)) [0..<vector_index c]"

text \<open>The two halves of \<^verbatim>\<open>SendUdp\<close>: closing the current buffer, and handing the closed buffers to the socket.\<close>

definition close_prebuf :: "DltLogChannel \<Rightarrow> DltLogChannel" where
  "close_prebuf c =
     (if prebuf_size c > 0
      then c\<lparr>io_len := (io_len c)[vector_index c := prebuf_size c],
             vector_index := vector_index c + 1, prebuf_size := 0\<rparr>
      else c)"

definition count_batch_failure :: "string option \<Rightarrow> DltLogChannel \<Rightarrow> DltLogChannel" where
  "count_batch_failure send_result c =
     (case send_result of
        None \<Rightarrow> c
      | Some err \<Rightarrow>
          let c = (if count_verbose_messages_in_buffer c > 0
                   then c\<lparr>verbose_stats := count_failure err (verbose_stats c)\<rparr> else c)
          in if count_nonverbose_messages_in_buffer c > 0
             then c\<lparr>nonverbose_stats := count_failure err (nonverbose_stats c)\<rparr> else c)"

definition SendUdp :: "socket \<Rightarrow> bool \<Rightarrow> DltLogChannel \<Rightarrow> DltLogChannel" where
  "SendUdp send flush c =
     (let c = close_prebuf c
      in if (flush \<and> vector_index c > 0) \<or> vector_index c \<ge> kVectorCount then
           let send_result = send (batch c);
               c = c\<lparr>wire := wire c @ [batch c]\<rparr>;
               c = count_batch_failure send_result c
           in c\<lparr>vector_index := 0, count_verbose_messages_in_buffer := 0, count_nonverbose_messages_in_buffer := 0\<rparr>
         else c)"

definition FlushUnprotected :: "socket \<Rightarrow> DltLogChannel \<Rightarrow> DltLogChannel" where
  "FlushUnprotected send c = SendUdp send True c"

definition Channel_Flush :: "socket \<Rightarrow> DltLogChannel \<Rightarrow> DltLogChannel" where
  "Channel_Flush send c = FlushUnprotected send c"

text \<open>Construct a packet at an offset of the current buffer.\<close>

definition in_prebuf :: "nat \<Rightarrow> (bytes \<Rightarrow> bytes) \<Rightarrow> DltLogChannel \<Rightarrow> DltLogChannel" where
  "in_prebuf off construct c =
     (let buffer = prebuf_data c ! vector_index c
      in c\<lparr>prebuf_data := (prebuf_data c)[vector_index c := take off buffer @ construct (drop off buffer)]\<rparr>)"

definition next_mcnt :: "DltLogChannel \<Rightarrow> DltLogChannel" where
  "next_mcnt c = c\<lparr>ch_mcnt := ch_mcnt c + 1\<rparr>"

record NvMsgDescriptor =
  nv_id :: u32
  nv_log_level :: u8
  nv_app :: id4
  nv_ctx :: id4

text \<open>A packet goes to an offset of the current buffer, which grows by its size.\<close>

definition append_packet :: "nat \<Rightarrow> (bytes \<Rightarrow> bytes) \<Rightarrow> nat \<Rightarrow> DltLogChannel \<Rightarrow> DltLogChannel" where
  "append_packet off construct full_size c =
     (let c = next_mcnt (in_prebuf off construct c) in c\<lparr>prebuf_size := prebuf_size c + full_size\<rparr>)"

definition count_nonverbose :: "u32 \<Rightarrow> nat \<Rightarrow> DltLogChannel \<Rightarrow> DltLogChannel" where
  "count_nonverbose mid sz c =
     (let c = c\<lparr>nonverbose_stats := (nonverbose_stats c)\<lparr>stats_msgcnt := stats_msgcnt (nonverbose_stats c) + 1\<rparr>\<rparr>;
          c = c\<lparr>count_nonverbose_messages_in_buffer := count_nonverbose_messages_in_buffer c + 1\<rparr>;
          c = c\<lparr>nonverbose_stats := (nonverbose_stats c)
                \<lparr>stats_totalsize := stats_totalsize (nonverbose_stats c) + word_of_nat sz\<rparr>\<rparr>
      in c\<lparr>message_id_data_stats := bump sz mid (message_id_data_stats c)\<rparr>)"

text \<open>A message that is too big for a buffer goes to the socket by itself.\<close>

definition nonverbose_alone :: "socket \<Rightarrow> NvMsgDescriptor \<Rightarrow> u32 \<Rightarrow> bytes \<Rightarrow> DltLogChannel \<Rightarrow> DltLogChannel" where
  "nonverbose_alone send desc t data' c =
     (let (header, header_size) =
            ConstructNonVerboseHeader (word_of_nat (length data')) (nv_id desc) (ecu c) (ch_mcnt c) t;
          c = next_mcnt c;
          datagram = take (unat header_size) (enc_nv header) @ data';
          c = c\<lparr>wire := wire c @ [[datagram]]\<rparr>
      in case send [datagram] of
           None \<Rightarrow> c
         | Some err \<Rightarrow> c\<lparr>nonverbose_stats := count_failure err (nonverbose_stats c)\<rparr>)"

definition Channel_SendNonVerbose :: "socket \<Rightarrow> NvMsgDescriptor \<Rightarrow> u32 \<Rightarrow> bytes \<Rightarrow> DltLogChannel \<Rightarrow> DltLogChannel" where
  "Channel_SendNonVerbose send desc t data' c =
     (if nv_log_level desc > channel_threshold c then c
      else
        let sz = length data';
            c = count_nonverbose (nv_id desc) sz c;
            full_size = 16 + sz;
            packet = (\<lambda>c dest. ConstructNonVerbosePacket dest data' (word_of_nat sz) (nv_id desc) (ecu c) (ch_mcnt c) t);
            c = (if prebuf_is_verbose c then (SendUdp send False c)\<lparr>prebuf_is_verbose := False\<rparr> else c)
        in if prebuf_size c + full_size \<le> kUdpMaxPayload then append_packet (prebuf_size c) (packet c) full_size c
           else
             let c = SendUdp send False c in
             if full_size < kUdpMaxPayload then append_packet 0 (packet c) full_size c
             else nonverbose_alone send desc t data' (FlushUnprotected send c))"

definition count_verbose :: "nat \<Rightarrow> DltLogChannel \<Rightarrow> DltLogChannel" where
  "count_verbose data_size c =
     (let c = c\<lparr>verbose_stats := (verbose_stats c)\<lparr>stats_msgcnt := stats_msgcnt (verbose_stats c) + 1\<rparr>\<rparr>;
          c = c\<lparr>count_verbose_messages_in_buffer := count_verbose_messages_in_buffer c + 1\<rparr>
      in c\<lparr>verbose_stats := (verbose_stats c)
             \<lparr>stats_totalsize := stats_totalsize (verbose_stats c) + word_of_nat data_size\<rparr>\<rparr>)"

definition verbose_alone ::
  "(id4 \<Rightarrow> bytes) \<Rightarrow> socket \<Rightarrow> u32 \<Rightarrow> LogEntry \<Rightarrow> DltLogChannel \<Rightarrow> DltLogChannel" where
  "verbose_alone GetStringView send t entry c =
     (let (header, header_size) = ConstructVerboseHeader GetStringView entry (ecu c) (ch_mcnt c) t;
          c = next_mcnt c;
          datagram = take (unat header_size) (enc_verbose header) @ entry_payload entry;
          c = c\<lparr>wire := wire c @ [[datagram]]\<rparr>
      in case send [datagram] of
           None \<Rightarrow> c
         | Some err \<Rightarrow> c\<lparr>verbose_stats := count_failure err (verbose_stats c)\<rparr>)"

definition Channel_SendVerbose ::
  "(id4 \<Rightarrow> bytes) \<Rightarrow> socket \<Rightarrow> u32 \<Rightarrow> LogEntry \<Rightarrow> DltLogChannel \<Rightarrow> DltLogChannel" where
  "Channel_SendVerbose GetStringView send t entry c =
     (if log_level entry > channel_threshold c then c
      else
        let data_size = unat (word_of_nat (length (entry_payload entry)) :: u32);
            c = count_verbose data_size c;
            full_size = 22 + data_size;
            packet = (\<lambda>c dest. ConstructVerbosePacket GetStringView dest entry (ecu c) (ch_mcnt c) t);
            c = (if \<not> prebuf_is_verbose c then (SendUdp send False c)\<lparr>prebuf_is_verbose := True\<rparr> else c)
        in if prebuf_size c + full_size \<le> kUdpMaxPayload then append_packet (prebuf_size c) (packet c) full_size c
           else
             let c = SendUdp send False c in
             if full_size < kUdpMaxPayload then append_packet 0 (packet c) full_size c
             else verbose_alone GetStringView send t entry (FlushUnprotected send c))"

text \<open>The pacing of file transfers by sleeping has no effect on the state.\<close>

definition Channel_SendFtVerbose ::
  "socket \<Rightarrow> bytes \<Rightarrow> u8 \<Rightarrow> id4 \<Rightarrow> id4 \<Rightarrow> u8 \<Rightarrow> u32 \<Rightarrow> DltLogChannel \<Rightarrow> DltLogChannel" where
  "Channel_SendFtVerbose send data' loglevel app ctx nor t c =
     (let data_size = length data';
          hdr = \<lparr>v_std = ConstructDltStandardHeader (word_of_nat (data_size + 22)) (ch_mcnt c) True,
                 v_stde = ConstructDltStandardHeaderExtra (ecu c) t,
                 v_ext = ConstructDltExtendedHeader loglevel nor app ctx\<rparr>;
          c = next_mcnt c;
          c = FlushUnprotected send c;
          datagram = enc_verbose hdr @ data';
          c = c\<lparr>wire := wire c @ [[datagram]]\<rparr>;
          c = (case send [datagram] of
                 None \<Rightarrow> c
               | Some err \<Rightarrow> c\<lparr>verbose_stats := count_failure err (verbose_stats c)\<rparr>);
          c = c\<lparr>verbose_stats := (verbose_stats c)\<lparr>stats_msgcnt := stats_msgcnt (verbose_stats c) + 1\<rparr>\<rparr>
      in c\<lparr>verbose_stats := (verbose_stats c)
             \<lparr>stats_totalsize := stats_totalsize (verbose_stats c) + word_of_nat (data_size + 22)\<rparr>\<rparr>)"

text \<open>The statistics after they have been shown.\<close>

definition ShowAndClearStatsDlt :: "DltLogChannelStatistics \<Rightarrow> DltLogChannelStatistics" where
  "ShowAndClearStatsDlt statistics = statistics\<lparr>stats_msgcnt := 0, stats_totalsize := 0, send_failures_count := 0\<rparr>"

definition ShowStats :: "DltLogChannel \<Rightarrow> DltLogChannel" where
  "ShowStats c = c\<lparr>verbose_stats := ShowAndClearStatsDlt (verbose_stats c),
     nonverbose_stats := ShowAndClearStatsDlt (nonverbose_stats c), message_id_data_stats := (\<lambda>_. None)\<rparr>"

section \<open>The channel as a queue of messages\<close>

text \<open>
  The channel carries the messages \<open>ms\<close>, in order: some were handed to the socket, some are
  in the closed buffers, some in the used part of the current one. Every datagram is made
  of whole messages.
\<close>

definition carries :: "DltLogChannel \<Rightarrow> bytes list \<Rightarrow> bool" where
  "carries c ms \<longleftrightarrow> (\<exists>W B cur. wire c = map (map concat) W \<and> batch c = map concat B \<and>
     take (prebuf_size c) (prebuf_data c ! vector_index c) = concat cur \<and> ms = concat (concat W) @ concat B @ cur)"

lemma carriesI:
  "wire c = map (map concat) W \<Longrightarrow> batch c = map concat B \<Longrightarrow>
   take (prebuf_size c) (prebuf_data c ! vector_index c) = concat cur \<Longrightarrow> ms = concat (concat W) @ concat B @ cur \<Longrightarrow>
   carries c ms"
  by (auto simp: carries_def)

lemma carriesE:
  assumes "carries c ms"
  obtains W B cur where "wire c = map (map concat) W" "batch c = map concat B"
    "take (prebuf_size c) (prebuf_data c ! vector_index c) = concat cur" "ms = concat (concat W) @ concat B @ cur"
  using assms by (auto simp: carries_def)

definition batch_ok :: "bytes list \<Rightarrow> bool" where
  "batch_ok b \<longleftrightarrow> length b = 1 \<or> length b \<le> kVectorCount \<and> list_all (\<lambda>d. length d \<le> kUdpMaxPayload) b"

definition channel_ok :: "DltLogChannel \<Rightarrow> bool" where
  "channel_ok c \<longleftrightarrow> length (prebuf_data c) = kVectorCount \<and> length (io_len c) = kVectorCount \<and>
     list_all (\<lambda>b. length b = kUdpMaxPayload) (prebuf_data c) \<and> vector_index c < kVectorCount \<and>
     prebuf_size c \<le> kUdpMaxPayload \<and> list_all batch_ok (wire c)"

lemma batch_update:
  "batch (c\<lparr>io_len := (io_len c)[vector_index c := n], vector_index := vector_index c + 1, prebuf_size := 0\<rparr>) =
     batch c @ [take n (prebuf_data c ! vector_index c)]"
  if "vector_index c < length (io_len c)" for c n
  using that by (auto simp: batch_def nth_list_update)

lemma batch_frame [simp]:
  "batch (c\<lparr>wire := a\<rparr>) = batch c" "batch (c\<lparr>prebuf_is_verbose := b\<rparr>) = batch c"
  "batch (c\<lparr>prebuf_size := n\<rparr>) = batch c" "batch (next_mcnt c) = batch c"
  "batch (c\<lparr>verbose_stats := st\<rparr>) = batch c" "batch (c\<lparr>nonverbose_stats := st\<rparr>) = batch c"
  "batch (c\<lparr>count_verbose_messages_in_buffer := k\<rparr>) = batch c"
  "batch (c\<lparr>count_nonverbose_messages_in_buffer := k\<rparr>) = batch c"
  "batch (c\<lparr>message_id_data_stats := mm\<rparr>) = batch c"
  by (simp_all add: batch_def next_mcnt_def)

lemma batch_sizes:
  "channel_ok c \<Longrightarrow> list_all (\<lambda>d. length d \<le> kUdpMaxPayload) (batch c)" "length (batch c) = vector_index c"
  by (auto simp: batch_def channel_ok_def list_all_length)

text \<open>The fields that sending does not touch.\<close>

definition same_setup :: "DltLogChannel \<Rightarrow> DltLogChannel \<Rightarrow> bool" where
  "same_setup c c' \<longleftrightarrow> ecu c' = ecu c \<and> channel_threshold c' = channel_threshold c \<and> channel_name c' = channel_name c"

lemma same_setup_simps [simp]:
  "same_setup c c" "same_setup a b \<Longrightarrow> same_setup b c \<Longrightarrow> same_setup a c"
  by (simp_all add: same_setup_def)

lemma close_prebuf_frame:
  "wire (close_prebuf c) = wire c" "prebuf_size (close_prebuf c) = 0" "prebuf_data (close_prebuf c) = prebuf_data c"
  "ch_mcnt (close_prebuf c) = ch_mcnt c" "ecu (close_prebuf c) = ecu c"
  "channel_threshold (close_prebuf c) = channel_threshold c" "channel_name (close_prebuf c) = channel_name c" "length (io_len (close_prebuf c)) = length (io_len c)"
  by (simp_all add: close_prebuf_def)

lemma close_prebuf_batch:
  assumes ok: "channel_ok c"
  shows "carries c ms \<Longrightarrow> carries (close_prebuf c) ms"
    "batch_ok (batch (close_prebuf c))" "vector_index (close_prebuf c) \<le> kVectorCount"
proof -
  have vi: "vector_index c < length (io_len c)" using ok by (simp add: channel_ok_def)
  note b = batch_update [OF vi, of "prebuf_size c"]
  show "carries (close_prebuf c) ms" if m: "carries c ms"
  proof (cases "prebuf_size c > 0")
    case True
    from m obtain W B cur where "wire c = map (map concat) W" "batch c = map concat B"
      "take (prebuf_size c) (prebuf_data c ! vector_index c) = concat cur" "ms = concat (concat W) @ concat B @ cur"
      by (rule carriesE)
    with b True show ?thesis
      by (intro carriesI [where W = W and B = "B @ [cur]" and cur = "[]"]) (simp_all add: close_prebuf_def)
  qed (simp add: close_prebuf_def m)
  show k: "vector_index (close_prebuf c) \<le> kVectorCount"
    using ok by (simp add: close_prebuf_def channel_ok_def)
  have "list_all (\<lambda>d. length d \<le> kUdpMaxPayload) (batch (close_prebuf c))"
    using batch_sizes(1) [OF ok] b ok by (auto simp: close_prebuf_def channel_ok_def min_le_iff_disj)
  then show "batch_ok (batch (close_prebuf c))" using k by (simp add: batch_ok_def batch_sizes(2))
qed

lemma count_batch_failure_frame:
  "wire (count_batch_failure r c) = wire c" "prebuf_size (count_batch_failure r c) = prebuf_size c"
  "prebuf_data (count_batch_failure r c) = prebuf_data c" "ch_mcnt (count_batch_failure r c) = ch_mcnt c"
  "ecu (count_batch_failure r c) = ecu c" "channel_threshold (count_batch_failure r c) = channel_threshold c"
  "io_len (count_batch_failure r c) = io_len c" "channel_name (count_batch_failure r c) = channel_name c"
  by (simp_all add: count_batch_failure_def Let_def split: option.splits)

lemma SendUdp_ok:
  assumes "channel_ok c"
  shows "channel_ok (SendUdp send flush c)" "carries c ms \<Longrightarrow> carries (SendUdp send flush c) ms"
    "prebuf_size (SendUdp send flush c) = 0" "flush \<Longrightarrow> vector_index (SendUdp send flush c) = 0"
    "ch_mcnt (SendUdp send flush c) = ch_mcnt c" "same_setup c (SendUdp send flush c)"
proof -
  note f = close_prebuf_frame count_batch_failure_frame
  show "prebuf_size (SendUdp send flush c) = 0" "flush \<Longrightarrow> vector_index (SendUdp send flush c) = 0"
    "ch_mcnt (SendUdp send flush c) = ch_mcnt c" "same_setup c (SendUdp send flush c)"
    by (simp_all add: SendUdp_def Let_def f same_setup_def)
  show "channel_ok (SendUdp send flush c)"
    using assms close_prebuf_batch(2,3) [OF assms]
    by (simp add: SendUdp_def Let_def f channel_ok_def kVectorCount_def)
  assume "carries c ms"
  then have "carries (close_prebuf c) ms" by (rule close_prebuf_batch(1) [OF assms])
  then obtain W B cur where m: "wire (close_prebuf c) = map (map concat) W" "batch (close_prebuf c) = map concat B"
      "take (prebuf_size (close_prebuf c)) (prebuf_data (close_prebuf c) ! vector_index (close_prebuf c)) = concat cur"
      "ms = concat (concat W) @ concat B @ cur"
    by (rule carriesE)
  show "carries (SendUdp send flush c) ms"
  proof (cases "(flush \<and> vector_index (close_prebuf c) > 0) \<or> vector_index (close_prebuf c) \<ge> kVectorCount")
    case True
    with m show ?thesis
      by (intro carriesI [where W = "W @ [B]" and B = "[]" and cur = cur])
        (simp_all add: SendUdp_def Let_def f, simp_all add: batch_def)
  next
    case False
    then show ?thesis using \<open>carries (close_prebuf c) ms\<close> by (auto simp: SendUdp_def Let_def)
  qed
qed

lemma put_packet:
  assumes "length h = k" "k + length d \<le> length dest"
  shows "put_at k d (put_at 0 h dest) = (h @ d) @ drop (length (h @ d)) dest"
  using assms by (simp add: put_at_append) (simp add: put_at_def)

lemma in_prebuf_ok:
  assumes ok: "channel_ok c" and fit: "prebuf_size c + length m \<le> kUdpMaxPayload"
    and construct: "\<And>dest. length m \<le> length dest \<Longrightarrow> construct dest = m @ drop (length m) dest"
    and c': "c' = append_packet (prebuf_size c) construct (length m) c"
  shows "channel_ok c'" "carries c ms \<Longrightarrow> carries c' (ms @ [m])" "ch_mcnt c' = ch_mcnt c + 1" "same_setup c c'"
proof -
  let ?b = "prebuf_data c ! vector_index c" and ?o = "prebuf_size c"
  have len: "length ?b = kUdpMaxPayload" "vector_index c < length (prebuf_data c)"
    using ok by (auto simp: channel_ok_def list_all_length)
  have new: "take ?o ?b @ construct (drop ?o ?b) = take ?o ?b @ m @ drop (?o + length m) ?b"
    using construct [of "drop ?o ?b"] fit len by (simp add: add.commute)
  have c'': "c' = c\<lparr>prebuf_data := (prebuf_data c)[vector_index c := take ?o ?b @ m @ drop (?o + length m) ?b],
      ch_mcnt := ch_mcnt c + 1, prebuf_size := ?o + length m\<rparr>"
    unfolding c' append_packet_def in_prebuf_def next_mcnt_def Let_def new by simp
  have "list_all (\<lambda>b. length b = kUdpMaxPayload) ((prebuf_data c)[vector_index c := take ?o ?b @ m @ drop (?o + length m) ?b])"
    using ok len fit by (auto simp: channel_ok_def list_all_length nth_list_update)
  then show "channel_ok c'" using ok fit by (simp add: c'' channel_ok_def)
  have "batch c' = batch c"
    by (auto simp: c'' batch_def)
  moreover have "take (prebuf_size c') (prebuf_data c' ! vector_index c') = take ?o ?b @ m"
    using len fit by (simp add: c'')
  moreover assume "carries c ms"
  then obtain W B cur where "wire c = map (map concat) W" "batch c = map concat B" "take ?o ?b = concat cur"
      "ms = concat (concat W) @ concat B @ cur"
    by (rule carriesE)
  ultimately show "carries c' (ms @ [m])"
    by (intro carriesI [where W = W and B = B and cur = "cur @ [m]"]) (simp_all, simp add: c'')
qed (simp_all add: c' append_packet_def next_mcnt_def in_prebuf_def same_setup_def Let_def)

text \<open>A message sent by itself after a flush.\<close>

lemma sent_alone_ok:
  assumes ok: "channel_ok c" and vi: "vector_index c = 0" "prebuf_size c = 0"
    and c': "wire c' = wire c @ [[m]]" "prebuf_data c' = prebuf_data c" "io_len c' = io_len c"
      "vector_index c' = 0" "prebuf_size c' = 0" "ch_mcnt c' = mc" "ecu c' = ecu c" "channel_threshold c' = channel_threshold c"
      "channel_name c' = channel_name c"
  shows "channel_ok c'" "carries c ms \<Longrightarrow> carries c' (ms @ [m])" "ch_mcnt c' = mc" "same_setup c c'"
proof -
  assume "carries c ms"
  then obtain W B cur where "wire c = map (map concat) W" "batch c = map concat B"
      "take (prebuf_size c) (prebuf_data c ! vector_index c) = concat cur" "ms = concat (concat W) @ concat B @ cur"
    by (rule carriesE)
  with vi c' show "carries c' (ms @ [m])"
    by (intro carriesI [where W = "W @ [[cur @ [m]]]" and B = "[]" and cur = "[]"]) (simp_all add: batch_def)
qed (use assms in \<open>simp_all add: channel_ok_def batch_ok_def same_setup_def\<close>)

text \<open>What the channel does with a request, and the bytes it is for.\<close>

datatype ChannelOp =
    OpNonVerbose NvMsgDescriptor u32 bytes
  | OpVerbose u32 LogEntry
  | OpFt bytes u8 id4 id4 u8 u32
  | OpFlush
  | OpShowStats

fun channel_op :: "(id4 \<Rightarrow> bytes) \<Rightarrow> socket \<Rightarrow> ChannelOp \<Rightarrow> DltLogChannel \<Rightarrow> DltLogChannel" where
  "channel_op gsv send (OpNonVerbose desc t d) c = Channel_SendNonVerbose send desc t d c"
| "channel_op gsv send (OpVerbose t e) c = Channel_SendVerbose gsv send t e c"
| "channel_op gsv send (OpFt d l a x n t) c = Channel_SendFtVerbose send d l a x n t c"
| "channel_op gsv send OpFlush c = Channel_Flush send c"
| "channel_op gsv send OpShowStats c = ShowStats c"

fun op_message :: "(id4 \<Rightarrow> bytes) \<Rightarrow> u8 \<Rightarrow> id4 \<Rightarrow> u8 \<Rightarrow> ChannelOp \<Rightarrow> bytes option" where
  "op_message gsv threshold ecu' mc (OpNonVerbose desc t d) =
     (if nv_log_level desc > threshold then None
      else Some (enc_nv (fst (ConstructNonVerboseHeader (word_of_nat (length d)) (nv_id desc) ecu' mc t)) @ d))"
| "op_message gsv threshold ecu' mc (OpVerbose t e) =
     (if log_level e > threshold then None
      else Some (enc_verbose (fst (ConstructVerboseHeader gsv e ecu' mc t)) @ entry_payload e))"
| "op_message gsv threshold ecu' mc (OpFt d l a x n t) =
     Some (enc_verbose \<lparr>v_std = ConstructDltStandardHeader (word_of_nat (length d + 22)) mc True,
                 v_stde = ConstructDltStandardHeaderExtra ecu' t,
                 v_ext = ConstructDltExtendedHeader l n a x\<rparr> @ d)"
| "op_message gsv threshold ecu' mc OpFlush = None"
| "op_message gsv threshold ecu' mc OpShowStats = None"

fun op_small :: "ChannelOp \<Rightarrow> bool" where
  "op_small (OpNonVerbose desc t d) = (length d < 2 ^ 63)"
| "op_small (OpVerbose t e) = (length (entry_payload e) < 2 ^ 32)"
| "op_small _ = True"

definition took :: "DltLogChannel \<Rightarrow> bytes option \<Rightarrow> DltLogChannel \<Rightarrow> bool" where
  "took c m c' \<longleftrightarrow> channel_ok c' \<and> same_setup c c' \<and>
     (\<forall>ms. carries c ms \<longrightarrow> carries c' (ms @ (case m of None \<Rightarrow> [] | Some bs \<Rightarrow> [bs]))) \<and>
     ch_mcnt c' = ch_mcnt c + (case m of None \<Rightarrow> 0 | Some bs \<Rightarrow> 1)"

lemma channel_ok_stats [simp]:
  "channel_ok (c\<lparr>verbose_stats := st\<rparr>) = channel_ok c" "channel_ok (c\<lparr>nonverbose_stats := st\<rparr>) = channel_ok c"
  "channel_ok (c\<lparr>count_verbose_messages_in_buffer := k\<rparr>) = channel_ok c"
  "channel_ok (c\<lparr>count_nonverbose_messages_in_buffer := k\<rparr>) = channel_ok c"
  "channel_ok (c\<lparr>message_id_data_stats := mm\<rparr>) = channel_ok c"
  "channel_ok (c\<lparr>prebuf_is_verbose := b\<rparr>) = channel_ok c"
  "carries (c\<lparr>verbose_stats := st\<rparr>) = carries c" "carries (c\<lparr>nonverbose_stats := st\<rparr>) = carries c"
  "carries (c\<lparr>count_verbose_messages_in_buffer := k\<rparr>) = carries c"
  "carries (c\<lparr>count_nonverbose_messages_in_buffer := k\<rparr>) = carries c"
  "carries (c\<lparr>message_id_data_stats := mm\<rparr>) = carries c"
  "carries (c\<lparr>prebuf_is_verbose := b\<rparr>) = carries c"
  by (simp_all add: channel_ok_def carries_def fun_eq_iff)

lemma Flush_took: "channel_ok c \<Longrightarrow> took c None (Channel_Flush send c)"
  using SendUdp_ok [where c = c and send = send and flush = True] by (simp add: Channel_Flush_def FlushUnprotected_def took_def)

lemma ShowStats_took: "channel_ok c \<Longrightarrow> took c None (ShowStats c)"
  by (simp add: ShowStats_def took_def same_setup_def)

lemma SendFt_took:
  assumes "channel_ok c"
  shows "took c (op_message gsv (channel_threshold c) (ecu c) (ch_mcnt c) (OpFt d l a x n t))
    (Channel_SendFtVerbose send d l a x n t c)"
proof -
  have ok1: "channel_ok (next_mcnt c)" using assms by (simp add: channel_ok_def next_mcnt_def)
  note f = SendUdp_ok [OF ok1, where send = send and flush = True]
  let ?f = "SendUdp send True (next_mcnt c)"
  let ?c = "Channel_SendFtVerbose send d l a x n t c"
  let ?m = "the (op_message gsv (channel_threshold c) (ecu c) (ch_mcnt c) (OpFt d l a x n t))"
  have s: "carries (next_mcnt c) = carries c" by (simp add: carries_def fun_eq_iff) (simp add: next_mcnt_def)
  have e: "ecu (next_mcnt c) = ecu c" "ch_mcnt (next_mcnt c) = ch_mcnt c + 1" "channel_threshold (next_mcnt c) = channel_threshold c" "channel_name (next_mcnt c) = channel_name c"
    by (simp_all add: next_mcnt_def)
  have w: "wire ?c = wire ?f @ [[?m]]" "prebuf_data ?c = prebuf_data ?f" "io_len ?c = io_len ?f"
    "vector_index ?c = 0" "prebuf_size ?c = 0" "ch_mcnt ?c = ch_mcnt c + 1" "ecu ?c = ecu ?f"
    "channel_threshold ?c = channel_threshold ?f" "channel_name ?c = channel_name ?f"
    using f(3-6) e by (simp_all add: Channel_SendFtVerbose_def FlushUnprotected_def Let_def same_setup_def split: option.split)
  show ?thesis
    using sent_alone_ok [OF f(1) f(4) f(3) w] f(2,6) s e by (simp add: took_def same_setup_def)
qed

text \<open>
  The shape the two message handlers share: append to the current buffer, or to the next
  one, or send alone.
\<close>

lemma place_took:
  assumes ok: "channel_ok c"
    and construct: "\<And>c'. same_setup c c' \<Longrightarrow> ch_mcnt c' = ch_mcnt c \<Longrightarrow>
        (\<And>dest. length m \<le> kUdpMaxPayload \<Longrightarrow> length m \<le> length dest \<Longrightarrow> construct c' dest = m @ drop (length m) dest)"
    and alone: "\<And>c'. channel_ok c' \<Longrightarrow> vector_index c' = 0 \<Longrightarrow> prebuf_size c' = 0 \<Longrightarrow> same_setup c c' \<Longrightarrow>
        ch_mcnt c' = ch_mcnt c \<Longrightarrow> took c' (Some m) (send_alone c')"
    and n: "n = length m"
  shows "took c (Some m)
    (if prebuf_size c + n \<le> kUdpMaxPayload then append_packet (prebuf_size c) (construct c) n c
     else
       let c1 = SendUdp send False c in
       if n < kUdpMaxPayload then append_packet 0 (construct c1) n c1
       else send_alone (FlushUnprotected send c1))"
proof -
  let ?c1 = "SendUdp send False c"
  let ?c2 = "FlushUnprotected send ?c1"
  note s1 = SendUdp_ok [OF ok, where send = send and flush = False]
  note s2 = SendUdp_ok [OF s1(1), where send = send and flush = True]
  show ?thesis
  proof (cases "prebuf_size c + n \<le> kUdpMaxPayload")
    case True
    with in_prebuf_ok [OF ok _ _ refl, of m "construct c"] construct [of c] n show ?thesis
      by (simp add: took_def)
  next
    case False
    show ?thesis
    proof (cases "n < kUdpMaxPayload")
      case True
      with in_prebuf_ok [OF s1(1) _ _ refl, of m "construct ?c1"] construct [of ?c1] n s1 False show ?thesis
        by (auto simp: took_def Let_def same_setup_def)
    next
      case big: False
      have "took ?c2 (Some m) (send_alone ?c2)"
        using s1 s2 by (intro alone) (auto simp: FlushUnprotected_def same_setup_def)
      with s1 s2 False big show ?thesis
        by (auto simp: took_def Let_def same_setup_def FlushUnprotected_def)
    qed
  qed
qed

text \<open>The packets the handlers construct in the buffer.\<close>

lemma nonverbose_packet_in_buffer:
  assumes "length d < 2 ^ 63" "length (enc_nv (fst (ConstructNonVerboseHeader (word_of_nat (length d)) mid ecu' mc t)) @ d) \<le> length dest"
  shows "ConstructNonVerbosePacket dest d (word_of_nat (length d)) mid ecu' mc t =
    (let m = enc_nv (fst (ConstructNonVerboseHeader (word_of_nat (length d)) mid ecu' mc t)) @ d in m @ drop (length m) dest)"
proof -
  have n: "unat (word_of_nat (length d) :: u64) = length d" using assms(1) by (simp add: unat_word_of_nat)
  show ?thesis
    using put_packet [OF nv.enc_width, of d dest "fst (ConstructNonVerboseHeader (word_of_nat (length d)) mid ecu' mc t)"] assms(2)
    by (simp add: ConstructNonVerbosePacket_def ConstructNonVerboseHeader_def Let_def n nv.enc_width)
qed

lemma verbose_packet_in_buffer:
  assumes "length (entry_payload e) \<le> 65514"
    "length (enc_verbose (fst (ConstructVerboseHeader gsv e ecu' mc t)) @ entry_payload e) \<le> length dest"
  shows "ConstructVerbosePacket gsv dest e ecu' mc t =
    (let m = enc_verbose (fst (ConstructVerboseHeader gsv e ecu' mc t)) @ entry_payload e in m @ drop (length m) dest)"
proof -
  have n: "unat (min (word_of_nat (length (entry_payload e))) (kDltMessageSize - 22) :: u64) = length (entry_payload e)"
    using payload_sizes(1) [of "entry_payload e"] assms(1) by simp
  show ?thesis
    using put_packet [OF verbose.enc_width, of "entry_payload e" dest "fst (ConstructVerboseHeader gsv e ecu' mc t)"] assms(2)
    by (simp add: ConstructVerbosePacket_def ConstructVerboseHeader_def Let_def n verbose.enc_width)
qed

lemma sent_alone_took:
  assumes "channel_ok c" "vector_index c = 0" "prebuf_size c = 0" "wire c' = wire c @ [[m]]" "prebuf_data c' = prebuf_data c"
    "io_len c' = io_len c" "vector_index c' = 0" "prebuf_size c' = 0" "ch_mcnt c' = ch_mcnt c + 1" "ecu c' = ecu c"
    "channel_threshold c' = channel_threshold c" "channel_name c' = channel_name c"
  shows "took c (Some m) c'"
  using sent_alone_ok [OF assms] by (simp add: took_def)

text \<open>The bookkeeping in front of a message leaves the queue as it is.\<close>

lemma count_frame:
  "channel_ok (count_nonverbose mid n c) = channel_ok c" "carries (count_nonverbose mid n c) = carries c"
  "ecu (count_nonverbose mid n c) = ecu c" "ch_mcnt (count_nonverbose mid n c) = ch_mcnt c"
  "channel_threshold (count_nonverbose mid n c) = channel_threshold c" "channel_name (count_nonverbose mid n c) = channel_name c"
  "channel_ok (count_verbose n c) = channel_ok c" "carries (count_verbose n c) = carries c"
  "ecu (count_verbose n c) = ecu c" "ch_mcnt (count_verbose n c) = ch_mcnt c"
  "channel_threshold (count_verbose n c) = channel_threshold c" "channel_name (count_verbose n c) = channel_name c"
  by (simp_all add: count_nonverbose_def count_verbose_def Let_def)

definition same_queue :: "DltLogChannel \<Rightarrow> DltLogChannel \<Rightarrow> bool" where
  "same_queue c c' \<longleftrightarrow> channel_ok c' \<and> (\<forall>ms. carries c ms \<longrightarrow> carries c' ms) \<and> ecu c' = ecu c \<and> ch_mcnt c' = ch_mcnt c \<and>
     channel_threshold c' = channel_threshold c \<and> channel_name c' = channel_name c"

lemma same_queue_took: "same_queue c c' \<Longrightarrow> took c' m c'' \<Longrightarrow> took c m c''"
  by (auto simp: took_def same_queue_def same_setup_def split: option.splits)

lemma switch_kind_same:
  "channel_ok c \<Longrightarrow> same_queue c ((if b then (SendUdp send False c)\<lparr>prebuf_is_verbose := v\<rparr> else c))"
  using SendUdp_ok [where c = c and send = send and flush = False] by (simp add: same_queue_def same_setup_def)

lemma SendNonVerbose_took:
  assumes ok: "channel_ok c" and small: "length d < 2 ^ 63"
  shows "took c (op_message gsv (channel_threshold c) (ecu c) (ch_mcnt c) (OpNonVerbose desc t d))
    (Channel_SendNonVerbose send desc t d c)"
proof (cases "nv_log_level desc > channel_threshold c")
  case True
  then show ?thesis using ok by (simp add: Channel_SendNonVerbose_def took_def)
next
  case False
  let ?m = "enc_nv (fst (ConstructNonVerboseHeader (word_of_nat (length d)) (nv_id desc) (ecu c) (ch_mcnt c) t)) @ d"
  let ?con = "\<lambda>c' dest. ConstructNonVerbosePacket dest d (word_of_nat (length d)) (nv_id desc) (ecu c') (ch_mcnt c') t"
  define c1 where "c1 = count_nonverbose (nv_id desc) (length d) c"
  define c2 where "c2 = (if prebuf_is_verbose c1 then (SendUdp send False c1)\<lparr>prebuf_is_verbose := False\<rparr> else c1)"
  have "same_queue c1 c2" unfolding c2_def by (rule switch_kind_same) (simp add: c1_def count_frame ok)
  then have same: "same_queue c c2" by (simp add: same_queue_def c1_def count_frame)
  have n: "16 + length d = length ?m" by (simp add: nv.enc_width)
  have "took c2 (Some ?m) (Channel_SendNonVerbose send desc t d c)"
    unfolding Channel_SendNonVerbose_def Let_def if_not_P [OF False] c1_def [symmetric] c2_def [symmetric]
  proof (rule place_took [OF _ _ _ n, unfolded Let_def])
    show "channel_ok c2" using same by (simp add: same_queue_def)
  next
    fix c' dest assume "same_setup c2 c'" "ch_mcnt c' = ch_mcnt c2" "length ?m \<le> length (dest :: bytes)"
    then show "?con c' dest = ?m @ drop (length ?m) dest"
      using nonverbose_packet_in_buffer [OF small] same by (simp add: same_setup_def same_queue_def Let_def)
  next
    fix c' assume "channel_ok c'" "vector_index c' = 0" "prebuf_size c' = 0" "same_setup c2 c'" "ch_mcnt c' = ch_mcnt c2"
    then show "took c' (Some ?m) (nonverbose_alone send desc t d c')"
      using same by (intro sent_alone_took)
        (simp_all add: nonverbose_alone_def ConstructNonVerboseHeader_def Let_def next_mcnt_def same_setup_def
          same_queue_def nv.enc_width split: option.split)
  qed
  then have "took c (Some ?m) (Channel_SendNonVerbose send desc t d c)" by (rule same_queue_took [OF same])
  then show ?thesis using False by simp
qed

lemma SendVerbose_took:
  assumes ok: "channel_ok c" and small: "length (entry_payload e) < 2 ^ 32"
  shows "took c (op_message gsv (channel_threshold c) (ecu c) (ch_mcnt c) (OpVerbose t e))
    (Channel_SendVerbose gsv send t e c)"
proof (cases "log_level e > channel_threshold c")
  case True
  then show ?thesis using ok by (simp add: Channel_SendVerbose_def took_def)
next
  case False
  let ?m = "enc_verbose (fst (ConstructVerboseHeader gsv e (ecu c) (ch_mcnt c) t)) @ entry_payload e"
  let ?con = "\<lambda>c' dest. ConstructVerbosePacket gsv dest e (ecu c') (ch_mcnt c') t"
  let ?n = "unat (word_of_nat (length (entry_payload e)) :: u32)"
  define c1 where "c1 = count_verbose ?n c"
  define c2 where "c2 = (if \<not> prebuf_is_verbose c1 then (SendUdp send False c1)\<lparr>prebuf_is_verbose := True\<rparr> else c1)"
  have "same_queue c1 c2" unfolding c2_def by (rule switch_kind_same) (simp add: c1_def count_frame ok)
  then have same: "same_queue c c2" by (simp add: same_queue_def c1_def count_frame)
  have n: "22 + ?n = length ?m" using small by (simp add: verbose.enc_width unat_word_of_nat)
  have "took c2 (Some ?m) (Channel_SendVerbose gsv send t e c)"
    unfolding Channel_SendVerbose_def Let_def if_not_P [OF False] c1_def [symmetric] c2_def [symmetric]
  proof (rule place_took [OF _ _ _ n, unfolded Let_def])
    show "channel_ok c2" using same by (simp add: same_queue_def)
  next
    fix c' dest assume "same_setup c2 c'" "ch_mcnt c' = ch_mcnt c2" "length ?m \<le> kUdpMaxPayload" "length ?m \<le> length (dest :: bytes)"
    then show "?con c' dest = ?m @ drop (length ?m) dest"
      using verbose_packet_in_buffer [of e gsv "ecu c" "ch_mcnt c" t dest] same
      by (simp add: same_setup_def same_queue_def Let_def kUdpMaxPayload_def)
  next
    fix c' assume "channel_ok c'" "vector_index c' = 0" "prebuf_size c' = 0" "same_setup c2 c'" "ch_mcnt c' = ch_mcnt c2"
    then show "took c' (Some ?m) (verbose_alone gsv send t e c')"
      using same by (intro sent_alone_took)
        (simp_all add: verbose_alone_def ConstructVerboseHeader_def Let_def next_mcnt_def same_setup_def
          same_queue_def verbose.enc_width split: option.split)
  qed
  then have "took c (Some ?m) (Channel_SendVerbose gsv send t e c)" by (rule same_queue_took [OF same])
  then show ?thesis using False by simp
qed

lemma channel_op_took:
  "channel_ok c \<Longrightarrow> op_small p \<Longrightarrow>
   took c (op_message gsv (channel_threshold c) (ecu c) (ch_mcnt c) p) (channel_op gsv send p c)"
  by (cases p) (simp_all only: channel_op.simps op_small.simps SendNonVerbose_took SendVerbose_took SendFt_took,
    simp_all add: Flush_took ShowStats_took)

text \<open>The messages of a list of requests, numbered by the message counter.\<close>

fun op_messages :: "(id4 \<Rightarrow> bytes) \<Rightarrow> u8 \<Rightarrow> id4 \<Rightarrow> u8 \<Rightarrow> ChannelOp list \<Rightarrow> bytes list" where
  "op_messages gsv threshold ecu' mc [] = []"
| "op_messages gsv threshold ecu' mc (p # ps) =
     (case op_message gsv threshold ecu' mc p of
        None \<Rightarrow> op_messages gsv threshold ecu' mc ps
      | Some m \<Rightarrow> m # op_messages gsv threshold ecu' (mc + 1) ps)"

definition run_channel :: "(id4 \<Rightarrow> bytes) \<Rightarrow> socket \<Rightarrow> ChannelOp list \<Rightarrow> DltLogChannel \<Rightarrow> DltLogChannel" where
  "run_channel gsv send ps c = fold (channel_op gsv send) ps c"

lemma run_channel_queue:
  "channel_ok c \<Longrightarrow> list_all op_small ps \<Longrightarrow> carries c ms \<Longrightarrow>
   channel_ok (run_channel gsv send ps c) \<and>
   carries (run_channel gsv send ps c) (ms @ op_messages gsv (channel_threshold c) (ecu c) (ch_mcnt c) ps)"
proof (induction ps arbitrary: c ms)
  case (Cons p ps)
  let ?c = "channel_op gsv send p c" and ?m = "op_message gsv (channel_threshold c) (ecu c) (ch_mcnt c) p"
  have t: "took c ?m ?c" by (rule channel_op_took) (use Cons.prems in simp_all)
  then have "channel_ok ?c" "carries ?c (ms @ (case ?m of None \<Rightarrow> [] | Some bs \<Rightarrow> [bs]))"
    using Cons.prems(3) by (simp_all add: took_def)
  from Cons.IH [OF this(1) _ this(2)] t Cons.prems(2) show ?case
    by (simp add: run_channel_def took_def same_setup_def split: option.splits)
qed (simp add: run_channel_def)

lemma new_channel_ok: "channel_ok (NewDltLogChannel i l e)" "carries (NewDltLogChannel i l e) []"
  by (simp_all add: NewDltLogChannel_def channel_ok_def carries_def batch_def kVectorCount_def list_all_length)

lemma flushed_queue:
  assumes "channel_ok c" "carries c ms" "[] \<notin> set ms"
  shows "\<exists>parts. wire (Channel_Flush send c) = map (map concat) parts \<and> concat (concat parts) = ms"
    "list_all batch_ok (wire (Channel_Flush send c))"
proof -
  let ?c = "Channel_Flush send c"
  note f = SendUdp_ok [OF assms(1), where send = send and flush = True]
  have "carries ?c ms" using f(2) [OF assms(2)] by (simp add: Channel_Flush_def FlushUnprotected_def)
  then obtain W B cur where w: "wire ?c = map (map concat) W" "batch ?c = map concat B"
    "take (prebuf_size ?c) (prebuf_data ?c ! vector_index ?c) = concat cur" "ms = concat (concat W) @ concat B @ cur"
    by (rule carriesE)
  have "batch ?c = []" "prebuf_size ?c = 0"
    using f(3,4) by (simp_all add: batch_def Channel_Flush_def FlushUnprotected_def)
  with w have B: "B = []" and cur: "\<forall>m \<in> set cur. m = []" by auto
  from w(4) assms(3) have "[] \<notin> set cur" by simp
  with cur have "cur = []" by (cases cur) auto
  with w B show "\<exists>parts. wire ?c = map (map concat) parts \<and> concat (concat parts) = ms" by auto
  show "list_all batch_ok (wire ?c)" using f(1) by (simp add: Channel_Flush_def FlushUnprotected_def channel_ok_def)
qed

lemma op_messages_nonempty: "[] \<notin> set (op_messages gsv l e mc ps)"
proof -
  have h: "enc_nv a \<noteq> []" "enc_verbose b \<noteq> []" for a b
    using nv.enc_width [of a] verbose.enc_width [of b] by auto
  have "op_message gsv l e mc p \<noteq> Some []" for mc p by (cases p) (simp_all add: h)
  then show ?thesis by (induction ps arbitrary: mc) (auto split: option.splits)
qed

text \<open>C9: Whatever a channel is asked to send is delivered to the socket, once it is flushed, completely,
  unchanged and in order: the datagrams handed to the socket are the messages of the
  requests that pass the threshold, numbered consecutively, no message is cut across
  datagrams, and every call passes at most four datagrams of at most 1472 bytes, or one
  single datagram.\<close>

theorem channel_delivers_messages_in_order:
  assumes "list_all op_small ps"
  shows "\<exists>parts. wire (run_channel gsv send (ps @ [OpFlush]) (NewDltLogChannel cid l e)) = map (map concat) parts \<and>
      concat (concat parts) = op_messages gsv l e 0 ps \<and>
      list_all (\<lambda>b. length b = 1 \<or> length b \<le> 4 \<and> list_all (\<lambda>d. length d \<le> 1472) b)
        (wire (run_channel gsv send (ps @ [OpFlush]) (NewDltLogChannel cid l e)))"
proof -
  let ?c = "NewDltLogChannel cid l e"
  have f: "channel_threshold ?c = l" "ecu ?c = e" "ch_mcnt ?c = 0" by (simp_all add: NewDltLogChannel_def)
  have r: "channel_ok (run_channel gsv send ps ?c)" "carries (run_channel gsv send ps ?c) (op_messages gsv l e 0 ps)"
    using run_channel_queue [OF new_channel_ok(1) assms new_channel_ok(2), of gsv send cid l e] by (simp_all add: f)
  have b: "batch_ok = (\<lambda>b. length b = 1 \<or> length b \<le> 4 \<and> list_all (\<lambda>d. length d \<le> 1472) b)"
    by (simp add: batch_ok_def kVectorCount_def kUdpMaxPayload_def fun_eq_iff)
  have s: "run_channel gsv send (ps @ [OpFlush]) ?c = Channel_Flush send (run_channel gsv send ps ?c)"
    by (simp add: run_channel_def)
  show ?thesis
    unfolding s using flushed_queue [OF r op_messages_nonempty, of send, unfolded b] by blast
qed

theorem channel_delivers_messages_in_order_witness:
  "\<exists>parts. wire (run_channel example_view (\<lambda>_. None) ([OpVerbose 17 example_entry] @ [OpFlush]) (NewDltLogChannel (67, 0, 0, 0) 6 (69, 67, 85, 49)))
      = map (map concat) parts \<and> concat (concat parts) = op_messages example_view 6 (69, 67, 85, 49) 0 [OpVerbose 17 example_entry] \<and>
      list_all (\<lambda>b. length b = 1 \<or> length b \<le> 4 \<and> list_all (\<lambda>d. length d \<le> 1472) b)
        (wire (run_channel example_view (\<lambda>_. None) ([OpVerbose 17 example_entry] @ [OpFlush]) (NewDltLogChannel (67, 0, 0, 0) 6 (69, 67, 85, 49))))"
  by (rule channel_delivers_messages_in_order) (simp add: example_entry_def)

end
