(* ===== verification/DiagnosticJobs.thy ===== *)
theory DiagnosticJobs
  imports DltHeaders
begin

text \<open>
  The diagnostic commands of the data router: the parser that turns a raw byte string into
  a job (\<^verbatim>\<open>datarouter/src/daemon/diagnostic_job_parser.cpp\<close>) and the jobs themselves
  (\<^verbatim>\<open>include/daemon/diagnostic_job_handler.h\<close>). Executing a job is in the theory of the
  server.

  The conversion of a byte to a log level belongs to the base library and is the
  parameter \<open>TryGetLogLevelFromU8\<close>; log levels are their numeric values.
\<close>

section \<open>Commands and jobs\<close>

type_synonym LoglevelT = u8
type_synonym level_reader = "u8 \<Rightarrow> LoglevelT option"

definition kReadLogChannelNames :: u8 where "kReadLogChannelNames = 8"
definition kSetLogLevel :: u8 where "kSetLogLevel = 0"
definition kResetToDefault :: u8 where "kResetToDefault = 1"
definition kSetMessagingFilteringState :: u8 where "kSetMessagingFilteringState = 2"
definition kSetLogChannelThreshold :: u8 where "kSetLogChannelThreshold = 3"
definition kStoreDltConfig :: u8 where "kStoreDltConfig = 4"
definition kSetTraceState :: u8 where "kSetTraceState = 5"
definition kSetDefaultLogLevel :: u8 where "kSetDefaultLogLevel = 6"
definition kSetDefaultTraceState :: u8 where "kSetDefaultTraceState = 7"
definition kSetLogChannelAssignment :: u8 where "kSetLogChannelAssignment = 9"
definition kSetDltOutputEnable :: u8 where "kSetDltOutputEnable = 10"

lemmas command_ids = kReadLogChannelNames_def kSetLogLevel_def kResetToDefault_def kSetMessagingFilteringState_def
  kSetLogChannelThreshold_def kStoreDltConfig_def kSetTraceState_def kSetDefaultLogLevel_def
  kSetDefaultTraceState_def kSetLogChannelAssignment_def kSetDltOutputEnable_def

text \<open>The reply codes, as the byte of the reply.\<close>

definition kRetOk :: byte where "kRetOk = 0"
definition kRetError :: byte where "kRetError = - 2"

definition kEnable :: u8 where "kEnable = 1"
definition kDisable :: u8 where "kDisable = 0"

datatype ThresholdT = Level LoglevelT | kUseDefault

definition kUseDefault_value :: u8 where "kUseDefault_value = 0xFF"

datatype AssignmentAction = kRemove | kAdd

datatype DiagnosticJob =
    ReadLogChannelNamesHandler
  | ResetToDefaultHandler
  | StoreDltConfigHandler
  | SetTraceStateHandler
  | SetDefaultTraceStateHandler
  | SetLogChannelThresholdHandler id4 LoglevelT
  | SetLogLevelHandler id4 id4 ThresholdT
  | SetMessagingFilteringStateHandler bool
  | SetDefaultLogLevelHandler LoglevelT
  | SetLogChannelAssignmentHandler id4 id4 id4 AssignmentAction
  | SetDltOutputEnableHandler bool

section \<open>The parser\<close>

definition kDiagnosticCommandSize :: nat where "kDiagnosticCommandSize = 1"
definition kLogLevelSize :: nat where "kLogLevelSize = 1"
definition kAppIdSize :: nat where "kAppIdSize = 4"
definition kCtxIdSize :: nat where "kCtxIdSize = 4"
definition kChannelIdSize :: nat where "kChannelIdSize = 4"
definition kTraceStateId :: nat where "kTraceStateId = 1"
definition kStateSize :: nat where "kStateSize = 1"

lemmas field_sizes = kDiagnosticCommandSize_def kLogLevelSize_def kAppIdSize_def kCtxIdSize_def kChannelIdSize_def
  kTraceStateId_def kStateSize_def

text \<open>
  The identifier is read as a C string: from the offset to the first zero byte, which the
  string's terminator provides at the latest.
\<close>

definition ExtractId :: "bytes \<Rightarrow> nat \<Rightarrow> id4" where
  "ExtractId message offset = NewDltidT (takeWhile (\<lambda>ch. ch \<noteq> 0) (drop offset message))"

definition AppendId :: "id4 \<Rightarrow> bytes \<Rightarrow> bytes" where
  "AppendId nm message =
     (let chunk = take 4 (Dltid_Data nm);
          chunk = chunk @ replicate (4 - length chunk) 0
      in message @ chunk)"

definition GetAssignmentAction :: "u8 \<Rightarrow> AssignmentAction option" where
  "GetAssignmentAction v = (if v \<le> 1 then Some (if v = 1 then kAdd else kRemove) else None)"

definition Parse :: "level_reader \<Rightarrow> bytes \<Rightarrow> DiagnosticJob option" where
  "Parse TryGetLogLevelFromU8 command =
     (if command = [] then None
      else let command_id = command ! 0 in
        if command_id = kReadLogChannelNames then Some ReadLogChannelNamesHandler
        else if command_id = kResetToDefault then Some ResetToDefaultHandler
        else if command_id = kStoreDltConfig then Some StoreDltConfigHandler
        else if command_id = kSetTraceState then Some SetTraceStateHandler
        else if command_id = kSetDefaultTraceState then Some SetDefaultTraceStateHandler
        else if command_id = kSetLogChannelThreshold then
          (if length command \<noteq> kDiagnosticCommandSize + kChannelIdSize + kLogLevelSize + kTraceStateId then None
           else case TryGetLogLevelFromU8 (command ! (kDiagnosticCommandSize + kChannelIdSize)) of
                  Some read_level \<Rightarrow> Some (SetLogChannelThresholdHandler (ExtractId command kDiagnosticCommandSize) read_level)
                | None \<Rightarrow> None)
        else if command_id = kSetLogLevel then
          (if length command \<noteq> kDiagnosticCommandSize + kAppIdSize + kCtxIdSize + kLogLevelSize then None
           else
             let threshold = command ! (kDiagnosticCommandSize + kAppIdSize + kCtxIdSize) in
             if threshold = kUseDefault_value
             then Some (SetLogLevelHandler (ExtractId command kDiagnosticCommandSize)
                    (ExtractId command (kDiagnosticCommandSize + kAppIdSize)) kUseDefault)
             else case TryGetLogLevelFromU8 threshold of
                    Some read_level \<Rightarrow> Some (SetLogLevelHandler (ExtractId command kDiagnosticCommandSize)
                      (ExtractId command (kDiagnosticCommandSize + kAppIdSize)) (Level read_level))
                  | None \<Rightarrow> None)
        else if command_id = kSetMessagingFilteringState then
          (if length command \<noteq> kDiagnosticCommandSize + kStateSize then None
           else Some (SetMessagingFilteringStateHandler (command ! kDiagnosticCommandSize \<noteq> 0)))
        else if command_id = kSetDefaultLogLevel then
          (if length command \<noteq> kDiagnosticCommandSize + kLogLevelSize then None
           else case TryGetLogLevelFromU8 (command ! kDiagnosticCommandSize) of
                  Some read_level \<Rightarrow> Some (SetDefaultLogLevelHandler read_level)
                | None \<Rightarrow> None)
        else if command_id = kSetLogChannelAssignment then
          (if length command \<noteq> kDiagnosticCommandSize + kAppIdSize + kCtxIdSize + kChannelIdSize + kLogLevelSize then None
           else case GetAssignmentAction (command ! (kDiagnosticCommandSize + kAppIdSize + kCtxIdSize + kChannelIdSize)) of
                  None \<Rightarrow> None
                | Some action \<Rightarrow> Some (SetLogChannelAssignmentHandler (ExtractId command kDiagnosticCommandSize)
                    (ExtractId command (kDiagnosticCommandSize + kAppIdSize))
                    (ExtractId command (kDiagnosticCommandSize + kAppIdSize + kCtxIdSize)) action))
        else if command_id = kSetDltOutputEnable then
          (if length command \<noteq> kDiagnosticCommandSize + kStateSize then None
           else
             let flag = command ! kDiagnosticCommandSize in
             if flag \<noteq> kEnable \<and> flag \<noteq> kDisable then None
             else Some (SetDltOutputEnableHandler (flag = kEnable)))
        else None)"

section \<open>The command language\<close>

text \<open>
  The byte string a client sends for a job, with \<open>trace_state\<close> in the field the parser
  ignores.
\<close>

fun print_job :: "u8 \<Rightarrow> DiagnosticJob \<Rightarrow> bytes" where
  "print_job trace_state ReadLogChannelNamesHandler = [8]"
| "print_job trace_state ResetToDefaultHandler = [1]"
| "print_job trace_state StoreDltConfigHandler = [4]"
| "print_job trace_state SetTraceStateHandler = [5]"
| "print_job trace_state SetDefaultTraceStateHandler = [7]"
| "print_job trace_state (SetLogChannelThresholdHandler channel l) = [3] @ id_bytes channel @ [l, trace_state]"
| "print_job trace_state (SetLogLevelHandler app ctx t) =
     [0] @ id_bytes app @ id_bytes ctx @ [case t of Level l \<Rightarrow> l | kUseDefault \<Rightarrow> 0xFF]"
| "print_job trace_state (SetMessagingFilteringStateHandler b) = [2, if b then 1 else 0]"
| "print_job trace_state (SetDefaultLogLevelHandler l) = [6, l]"
| "print_job trace_state (SetLogChannelAssignmentHandler app ctx channel action) =
     [9] @ id_bytes app @ id_bytes ctx @ id_bytes channel @ [case action of kAdd \<Rightarrow> 1 | kRemove \<Rightarrow> 0]"
| "print_job trace_state (SetDltOutputEnableHandler b) = [10, if b then 1 else 0]"

text \<open>The jobs that can be sent: identifiers without inner zeros and levels the base library knows.\<close>

fun job_ok :: "level_reader \<Rightarrow> DiagnosticJob \<Rightarrow> bool" where
  "job_ok lvl (SetLogChannelThresholdHandler channel l) = (id_plain channel \<and> lvl l = Some l)"
| "job_ok lvl (SetLogLevelHandler app ctx t) =
     (id_plain app \<and> id_plain ctx \<and> (case t of Level l \<Rightarrow> lvl l = Some l \<and> l \<noteq> 0xFF | kUseDefault \<Rightarrow> True))"
| "job_ok lvl (SetDefaultLogLevelHandler l) = (lvl l = Some l)"
| "job_ok lvl (SetLogChannelAssignmentHandler app ctx channel action) = (id_plain app \<and> id_plain ctx \<and> id_plain channel)"
| "job_ok lvl j = True"

text \<open>What the code relies on of the conversion: a level is given by its own value.\<close>

definition level_reader_ok :: "level_reader \<Rightarrow> bool" where
  "level_reader_ok lvl \<longleftrightarrow> (\<forall>v l. lvl v = Some l \<longrightarrow> l = v)"

lemma ExtractId_field:
  assumes "id_plain i" "drop off message = id_bytes i @ rest"
  shows "ExtractId message off = i"
proof -
  obtain a b c d where i: "i = (a, b, c, d)" by (cases i)
  show ?thesis using assms unfolding i ExtractId_def
    by (auto simp: NewDltidT_def Let_def char_at_def min_def nth_Cons' takeWhile_eq_all_conv split: if_splits)
qed

lemma ExtractId_plain: "id_plain (ExtractId message off)"
proof -
  define s where "s = takeWhile (\<lambda>ch. ch \<noteq> 0) (drop off message)"
  have nz: "s ! i \<noteq> 0" if "i < length s" for i
    using nth_mem [OF that] by (auto simp: s_def dest: set_takeWhileD)
  then have c: "0 < length s \<longrightarrow> s ! 0 \<noteq> 0" "1 < length s \<longrightarrow> s ! 1 \<noteq> 0" "2 < length s \<longrightarrow> s ! 2 \<noteq> 0" by blast+
  show ?thesis
    unfolding ExtractId_def s_def [symmetric] NewDltidT_def char_at_def Let_def
    using c by (cases s) (auto simp: min_def)
qed

lemma GetAssignmentAction_print: "GetAssignmentAction (case action of kAdd \<Rightarrow> 1 | kRemove \<Rightarrow> 0) = Some action"
  by (cases action) (simp_all add: GetAssignmentAction_def)

lemma id_bytes_nth [simp]: "length (id_bytes i) = 4" by (cases i) simp

lemma Parse_print:
  assumes "job_ok lvl j"
  shows "Parse lvl (print_job tr j) = Some j"
proof (cases j)
  case (SetLogChannelThresholdHandler ch l)
  have "ExtractId (3 # id_bytes ch @ [l, tr]) 1 = ch"
    using assms SetLogChannelThresholdHandler by (intro ExtractId_field) simp_all
  with assms SetLogChannelThresholdHandler show ?thesis
    by (simp add: Parse_def Let_def command_ids field_sizes nth_append)
next
  case (SetLogLevelHandler app ctx t)
  define v where "v = (case t of Level l \<Rightarrow> l | kUseDefault \<Rightarrow> 0xFF)"
  have "ExtractId (0 # id_bytes app @ id_bytes ctx @ [v]) 1 = app" "ExtractId (0 # id_bytes app @ id_bytes ctx @ [v]) 5 = ctx"
    using assms SetLogLevelHandler by (auto intro!: ExtractId_field)
  with assms SetLogLevelHandler show ?thesis
    by (cases t) (simp_all add: v_def Parse_def Let_def command_ids field_sizes nth_append kUseDefault_value_def)
next
  case (SetLogChannelAssignmentHandler app ctx ch action)
  define v :: u8 where "v = (case action of kAdd \<Rightarrow> 1 | kRemove \<Rightarrow> 0)"
  let ?c = "9 # id_bytes app @ id_bytes ctx @ id_bytes ch @ [v]"
  have "ExtractId ?c 1 = app" "ExtractId ?c 5 = ctx" "ExtractId ?c 9 = ch"
    using assms SetLogChannelAssignmentHandler by (auto intro!: ExtractId_field)
  moreover have "GetAssignmentAction v = Some action" unfolding v_def by (rule GetAssignmentAction_print)
  ultimately show ?thesis
    using SetLogChannelAssignmentHandler
    by (simp add: v_def [symmetric] Parse_def Let_def command_ids field_sizes nth_append)
qed (use assms in \<open>simp_all add: Parse_def Let_def command_ids field_sizes kEnable_def kDisable_def\<close>)

lemma Parse_job_ok:
  assumes "level_reader_ok lvl" "Parse lvl command = Some j"
  shows "job_ok lvl j"
proof -
  have lvl: "lvl l = Some l \<and> l = v" if "lvl v = Some l" for v l
    using assms(1) that by (auto simp: level_reader_ok_def)
  show ?thesis
    using assms(2)
    by (auto simp: Parse_def Let_def ExtractId_plain kUseDefault_value_def dest: lvl split: if_splits option.splits)
qed

text \<open>The command parser is the inverse of the command language: every job is recovered from the
  command a client prints for it, and whatever the parser accepts is a well-formed job
  that would have been recovered from its printed form.\<close>

theorem commands_parse_back:
  assumes "level_reader_ok lvl"
  shows "(job_ok lvl j \<longrightarrow> Parse lvl (print_job tr j) = Some j) \<and>
    (Parse lvl command = Some j \<longrightarrow> job_ok lvl j \<and> Parse lvl (print_job tr j) = Some j)"
  using Parse_print Parse_job_ok [OF assms] by blast

definition example_levels :: level_reader where
  "example_levels v = (if v \<le> 6 then Some v else None)"

theorem commands_parse_back_witness:
  "Parse example_levels (print_job 0 (SetLogLevelHandler (65, 66, 0, 0) (67, 0, 0, 0) (Level 4))) =
      Some (SetLogLevelHandler (65, 66, 0, 0) (67, 0, 0, 0) (Level 4)) \<and>
   job_ok example_levels (SetDefaultLogLevelHandler 5)"
proof
  have ok: "level_reader_ok example_levels" by (simp add: level_reader_ok_def example_levels_def)
  note c = commands_parse_back [OF ok]
  show "Parse example_levels (print_job 0 (SetLogLevelHandler (65, 66, 0, 0) (67, 0, 0, 0) (Level 4))) =
      Some (SetLogLevelHandler (65, 66, 0, 0) (67, 0, 0, 0) (Level 4))"
    using c [of "SetLogLevelHandler (65, 66, 0, 0) (67, 0, 0, 0) (Level 4)" 0] by (simp add: example_levels_def del: print_job.simps)
  show "job_ok example_levels (SetDefaultLogLevelHandler 5)"
    using c [of "SetDefaultLogLevelHandler 5" 0 "[6, 5]"]
    by (simp add: Parse_def command_ids field_sizes example_levels_def)
qed

end
