(* ===== verification/DltLogServer.thy ===== *)
theory DltLogServer
  imports Complex_Main DltChannel DiagnosticJobs "HOL-Library.AList"
begin

text \<open>
  The log server of the data router (\<^verbatim>\<open>datarouter/include/daemon/dlt_log_server.h\<close>,
  \<^verbatim>\<open>src/daemon/dlt_log_server.cpp\<close>): which messages go to which channels, the diagnostic
  commands that change that, and the configuration that is kept across restarts.

  Hash maps are association lists: their order is the iteration order of the map, which
  the properties leave open. A bit set of channels is a 32-bit word. The callbacks that
  read and write the persistent configuration act on a store of any type; the log levels
  of the base library are part of the environment. Every channel has a socket of its own,
  found by the name of the channel. Locking is implicit: an operation that runs under the
  mutex is one step.
\<close>

section \<open>State\<close>

record ChannelDescription =
  cd_ecu :: id4
  cd_address :: string
  cd_port :: u16
  cd_dst_address :: string
  cd_dst_port :: u16
  cd_channel_threshold :: LoglevelT
  cd_multicast_interface :: string

record StaticConfig =
  sc_coredump_channel :: id4
  sc_default_channel :: id4
  sc_channels :: "(id4 \<times> ChannelDescription) list"
  sc_filtering_enabled :: bool
  sc_default_threshold :: LoglevelT
  sc_channel_assignments :: "(id4 \<times> (id4 \<times> id4 list) list) list"
  sc_message_thresholds :: "(id4 \<times> (id4 \<times> LoglevelT) list) list"
  sc_overall_mbps :: real
  sc_applications_kbps :: "(id4 \<times> real) list"
  sc_quota_enforcement_enabled :: bool

record PersistentConfig =
  pc_channels :: "(bytes \<times> LoglevelT) list"
  pc_filtering_enabled :: bool
  pc_default_threshold :: LoglevelT
  pc_channel_assignments :: "(id4 \<times> (id4 \<times> id4 list) list) list"
  pc_message_thresholds :: "(id4 \<times> (id4 \<times> LoglevelT) list) list"

text \<open>What the server is given: the callbacks, the base library's levels and its identifiers' text.\<close>

record 'p ServerEnv =
  reader_callback :: "'p \<Rightarrow> PersistentConfig"
  writer_callback :: "PersistentConfig \<Rightarrow> 'p \<Rightarrow> 'p"
  env_levels :: level_reader
  kOff :: LoglevelT
  kError :: LoglevelT
  kInfo :: LoglevelT
  env_view :: "id4 \<Rightarrow> bytes"
  env_send :: "id4 \<Rightarrow> socket"

type_synonym key = "id4 \<times> id4"
type_synonym channelmask = u32

record 'p DltLogServer =
  filtering_enabled :: bool
  dlt_output_enabled :: bool
  default_threshold :: LoglevelT
  message_thresholds :: "(key \<times> LoglevelT) list"
  channel_assignments :: "(key \<times> channelmask) list"
  throughput_overall :: real
  throughput_apps :: "(id4 \<times> real) list"
  static_config :: StaticConfig
  channels :: "DltLogChannel list"
  endpoints :: "(string \<times> u16 \<times> string \<times> u16 \<times> string) list"
  default_channel :: nat
  coredump_channel :: "nat option"
  channel_nums :: "(id4 \<times> nat) list"
  enabled_callback :: bool
  enabled_calls :: "bool list"
  persistent :: 'p

section \<open>Maps\<close>

definition emplace :: "'k \<Rightarrow> 'v \<Rightarrow> ('k \<times> 'v) list \<Rightarrow> ('k \<times> 'v) list" where
  "emplace k v m = (if map_of m k = None then m @ [(k, v)] else m)"

text \<open>\<^verbatim>\<open>m[k]\<close> on a map that inserts a default for a missing key: the value and the map after it.\<close>

definition subscript :: "'v \<Rightarrow> 'k \<Rightarrow> ('k \<times> 'v) list \<Rightarrow> 'v \<times> ('k \<times> 'v) list" where
  "subscript d k m = (case map_of m k of Some v \<Rightarrow> (v, m) | None \<Rightarrow> (d, m @ [(k, d)]))"

definition nested_update :: "'a \<Rightarrow> 'b \<Rightarrow> 'v \<Rightarrow> ('a \<times> ('b \<times> 'v) list) list \<Rightarrow> ('a \<times> ('b \<times> 'v) list) list" where
  "nested_update a b v m = (let (inner, m) = subscript [] a m in AList.update a (AList.update b v inner) m)"

section \<open>Routing\<close>

definition FindInKeyMap :: "(key \<times> 'v) list \<Rightarrow> id4 \<Rightarrow> id4 \<Rightarrow> 'v option" where
  "FindInKeyMap m app ctx =
     (case map_of m (app, ctx) of
        Some v \<Rightarrow> Some v
      | None \<Rightarrow> (case map_of m ((0, 0, 0, 0), ctx) of
                   Some v \<Rightarrow> Some v
                 | None \<Rightarrow> map_of m (app, (0, 0, 0, 0))))"

definition IsAcceptedByFiltering :: "'p DltLogServer \<Rightarrow> id4 \<Rightarrow> id4 \<Rightarrow> LoglevelT \<Rightarrow> bool" where
  "IsAcceptedByFiltering s app ctx level =
     (if \<not> filtering_enabled s then True
      else let threshold = (case FindInKeyMap (message_thresholds s) app ctx of
                              Some t \<Rightarrow> t | None \<Rightarrow> default_threshold s)
           in level \<le> threshold)"

definition AssignedToChannels :: "'p DltLogServer \<Rightarrow> id4 \<Rightarrow> id4 \<Rightarrow> channelmask" where
  "AssignedToChannels s app ctx =
     (case FindInKeyMap (channel_assignments s) app ctx of Some cmask \<Rightarrow> cmask | None \<Rightarrow> 0)"

definition FilterAndCall ::
  "id4 \<Rightarrow> id4 \<Rightarrow> LoglevelT \<Rightarrow> (DltLogChannel \<Rightarrow> DltLogChannel) \<Rightarrow> 'p DltLogServer \<Rightarrow> 'p DltLogServer" where
  "FilterAndCall app ctx level f s =
     (if \<not> IsAcceptedByFiltering s app ctx level then s
      else
        let assigned = AssignedToChannels s app ctx in
        if assigned = 0
        then s\<lparr>channels := (channels s)[default_channel s := f (channels s ! default_channel s)]\<rparr>
        else s\<lparr>channels := map (\<lambda>(i, c). if bit assigned i then f c else c) (enumerate 0 (channels s))\<rparr>)"

definition Server_SendNonVerbose ::
  "'p ServerEnv \<Rightarrow> NvMsgDescriptor \<Rightarrow> u32 \<Rightarrow> bytes \<Rightarrow> 'p DltLogServer \<Rightarrow> 'p DltLogServer" where
  "Server_SendNonVerbose E desc t data' s =
     (let sender = (\<lambda>c. Channel_SendNonVerbose (env_send E (channel_name c)) desc t data' c);
          app = NewDltidT (env_view E (nv_app desc));
          ctx = NewDltidT (env_view E (nv_ctx desc))
      in FilterAndCall app ctx (nv_log_level desc) sender s)"

definition Server_SendVerbose :: "'p ServerEnv \<Rightarrow> u32 \<Rightarrow> LogEntry \<Rightarrow> 'p DltLogServer \<Rightarrow> 'p DltLogServer" where
  "Server_SendVerbose E t entry s =
     (let sender = (\<lambda>c. Channel_SendVerbose (env_view E) (env_send E (channel_name c)) t entry c)
      in FilterAndCall (NewDltidT (env_view E (app_id entry))) (NewDltidT (env_view E (ctx_id entry)))
           (log_level entry) sender s)"

definition Server_SendFtVerbose ::
  "'p ServerEnv \<Rightarrow> bytes \<Rightarrow> LoglevelT \<Rightarrow> id4 \<Rightarrow> id4 \<Rightarrow> u8 \<Rightarrow> u32 \<Rightarrow> 'p DltLogServer \<Rightarrow> 'p DltLogServer" where
  "Server_SendFtVerbose E data' level app ctx nor t s =
     (let sender = (\<lambda>c. Channel_SendFtVerbose (env_send E (channel_name c)) data' level app ctx nor t c)
      in case coredump_channel s of
           Some ch \<Rightarrow> s\<lparr>channels := (channels s)[ch := sender (channels s ! ch)]\<rparr>
         | None \<Rightarrow> FilterAndCall app ctx level sender s)"

definition Server_Flush :: "'p ServerEnv \<Rightarrow> 'p DltLogServer \<Rightarrow> 'p DltLogServer" where
  "Server_Flush E s = s\<lparr>channels := map (\<lambda>c. Channel_Flush (env_send E (channel_name c)) c) (channels s)\<rparr>"

definition ShowChannelStatistics :: "'p DltLogServer \<Rightarrow> 'p DltLogServer" where
  "ShowChannelStatistics s = s\<lparr>channels := map ShowStats (channels s)\<rparr>"

definition GetQuota :: "'p DltLogServer \<Rightarrow> bytes \<Rightarrow> real" where
  "GetQuota s name' = (case map_of (throughput_apps s) (NewDltidT name') of None \<Rightarrow> 1 | Some quota \<Rightarrow> quota)"

definition SetDltOutputEnabled :: "bool \<Rightarrow> 'p DltLogServer \<Rightarrow> 'p DltLogServer" where
  "SetDltOutputEnabled enabled s = s\<lparr>dlt_output_enabled := enabled\<rparr>"

section \<open>Initialisation\<close>

definition InitLogChannelsDefault :: "'p ServerEnv \<Rightarrow> bool \<Rightarrow> 'p DltLogServer \<Rightarrow> 'p DltLogServer" where
  "InitLogChannelsDefault E reloading s =
     (let s = s\<lparr>filtering_enabled := False, default_threshold := kError E, default_channel := 0, coredump_channel := None\<rparr>
      in if reloading
         then s\<lparr>channels := (channels s)[0 := (channels s ! 0)\<lparr>channel_threshold := kOff E\<rparr>]\<rparr>
         else s\<lparr>channels := channels s @ [NewDltLogChannel (NewDltidT [84, 69, 83, 84]) (kInfo E) (NewDltidT [72, 79, 83, 84])],
                endpoints := endpoints s @ [(''0.0.0.0'', 3491, ''239.255.42.99'', 3490, [])]\<rparr>)"

definition persisted_threshold :: "'p ServerEnv \<Rightarrow> PersistentConfig \<Rightarrow> id4 \<Rightarrow> LoglevelT" where
  "persisted_threshold E config nm =
     (case map_of (pc_channels config) (Dltid_Data nm) of Some t \<Rightarrow> t | None \<Rightarrow> kOff E)"

definition reload_channel :: "'p ServerEnv \<Rightarrow> PersistentConfig \<Rightarrow> StaticConfig \<Rightarrow> DltLogChannel \<Rightarrow> DltLogChannel" where
  "reload_channel E config sc channel =
     (let nm = channel_name channel;
          threshold = (if pc_channels config \<noteq> [] then persisted_threshold E config nm
                       else case map_of (sc_channels sc) nm of
                              Some d \<Rightarrow> cd_channel_threshold d | None \<Rightarrow> kOff E)
      in channel\<lparr>channel_threshold := threshold\<rparr>)"

definition create_channel ::
  "'p ServerEnv \<Rightarrow> PersistentConfig \<Rightarrow> nat \<times> id4 \<times> ChannelDescription \<Rightarrow> 'p DltLogServer \<Rightarrow> 'p DltLogServer" where
  "create_channel E config entry s =
     (let (i, nm, channel) = entry;
          s = (if sc_default_channel (static_config s) = nm then s\<lparr>default_channel := i\<rparr> else s);
          s = (if sc_coredump_channel (static_config s) = nm then s\<lparr>coredump_channel := Some i\<rparr> else s);
          threshold = (if pc_channels config \<noteq> [] then persisted_threshold E config nm else cd_channel_threshold channel);
          dst_address = (if cd_dst_address channel = [] then ''239.255.42.99'' else cd_dst_address channel);
          dst_port = (if cd_dst_port channel \<noteq> 0 then cd_dst_port channel else 3490)
      in s\<lparr>channels := channels s @ [NewDltLogChannel nm threshold (cd_ecu channel)],
           endpoints := endpoints s @ [(cd_address channel, cd_port channel, dst_address, dst_port, cd_multicast_interface channel)],
           channel_nums := AList.update nm i (channel_nums s)\<rparr>)"

text \<open>The mask of a list of channel names; looking a name up inserts it when it is unknown.\<close>

fun channel_set :: "id4 list \<Rightarrow> channelmask \<Rightarrow> (id4 \<times> nat) list \<Rightarrow> channelmask \<times> (id4 \<times> nat) list" where
  "channel_set [] cmask nums = (cmask, nums)"
| "channel_set (channel # chs) cmask nums =
     (let (channel_num, nums) = subscript 0 channel nums
      in channel_set chs (cmask OR push_bit channel_num 1) nums)"

definition assign_context :: "id4 \<Rightarrow> id4 \<times> id4 list \<Rightarrow> 'p DltLogServer \<Rightarrow> 'p DltLogServer" where
  "assign_context app entry s =
     (let (ctx, chs) = entry; (cmask, nums) = channel_set chs 0 (channel_nums s)
      in s\<lparr>channel_nums := nums, channel_assignments := emplace (app, ctx) cmask (channel_assignments s)\<rparr>)"

definition init_assignments :: "(id4 \<times> (id4 \<times> id4 list) list) list \<Rightarrow> 'p DltLogServer \<Rightarrow> 'p DltLogServer" where
  "init_assignments assignments s =
     fold (\<lambda>(app, contexts). fold (assign_context app) contexts) assignments (s\<lparr>channel_assignments := []\<rparr>)"

definition init_thresholds :: "(id4 \<times> (id4 \<times> LoglevelT) list) list \<Rightarrow> 'p DltLogServer \<Rightarrow> 'p DltLogServer" where
  "init_thresholds thresholds s =
     s\<lparr>message_thresholds :=
       fold (\<lambda>(app, contexts). fold (\<lambda>(ctx, t). emplace (app, ctx) t) contexts) thresholds []\<rparr>"

definition init_throughput :: "'p DltLogServer \<Rightarrow> 'p DltLogServer" where
  "init_throughput s =
     (let sc = static_config s
      in s\<lparr>throughput_overall := sc_overall_mbps sc,
           throughput_apps := fold (\<lambda>(app, kbps). emplace app kbps) (sc_applications_kbps sc) []\<rparr>)"

text \<open>What follows the channels, at the start and when reloading.\<close>

definition finish_init :: "PersistentConfig \<Rightarrow> StaticConfig \<Rightarrow> 'p DltLogServer \<Rightarrow> 'p DltLogServer" where
  "finish_init config sc s =
     (let has_persistent_config = (pc_channels config \<noteq> []);
          s = init_assignments (if has_persistent_config then pc_channel_assignments config else sc_channel_assignments sc) s;
          s = s\<lparr>filtering_enabled := (if has_persistent_config then pc_filtering_enabled config else sc_filtering_enabled sc),
                default_threshold := (if has_persistent_config then pc_default_threshold config else sc_default_threshold sc)\<rparr>;
          s = init_thresholds (if has_persistent_config then pc_message_thresholds config else sc_message_thresholds sc) s
      in init_throughput s)"

definition InitLogChannels :: "'p ServerEnv \<Rightarrow> bool \<Rightarrow> 'p DltLogServer \<Rightarrow> 'p DltLogServer" where
  "InitLogChannels E reloading s =
     (let sc = static_config s in
      if sc_channels sc = [] then InitLogChannelsDefault E reloading s
      else if length (sc_channels sc) \<ge> 32 then InitLogChannelsDefault E reloading s
      else
        let s = s\<lparr>coredump_channel := None\<rparr>;
            config = reader_callback E (persistent s);
            s = (if reloading then s\<lparr>channels := map (reload_channel E config sc) (channels s)\<rparr>
                 else fold (create_channel E config) (enumerate 0 (sc_channels sc)) s)
        in finish_init config sc s)"

definition NewDltLogServer :: "'p ServerEnv \<Rightarrow> StaticConfig \<Rightarrow> bool \<Rightarrow> 'p \<Rightarrow> 'p DltLogServer" where
  "NewDltLogServer E sc enabled p =
     InitLogChannels E False
       \<lparr>filtering_enabled = False, dlt_output_enabled = enabled, default_threshold = 0, message_thresholds = [],
        channel_assignments = [], throughput_overall = 0, throughput_apps = [], static_config = sc, channels = [],
        endpoints = [], default_channel = 0, coredump_channel = None, channel_nums = [], enabled_callback = False,
        enabled_calls = [], persistent = p\<rparr>"

definition SetEnabledCallback :: "bool \<Rightarrow> 'p DltLogServer \<Rightarrow> 'p DltLogServer" where
  "SetEnabledCallback callback s = s\<lparr>enabled_callback := callback\<rparr>"

section \<open>Persistence\<close>

definition empty_config :: "'p ServerEnv \<Rightarrow> PersistentConfig" where
  "empty_config E = \<lparr>pc_channels = [], pc_filtering_enabled = False, pc_default_threshold = kOff E,
     pc_channel_assignments = [], pc_message_thresholds = []\<rparr>"

definition mask_names :: "channelmask \<Rightarrow> DltLogChannel list \<Rightarrow> id4 list" where
  "mask_names cmask chs = map (\<lambda>(i, c). channel_name c) (filter (\<lambda>(i, c). bit cmask i) (enumerate 0 chs))"

definition saved_config :: "'p ServerEnv \<Rightarrow> 'p DltLogServer \<Rightarrow> PersistentConfig" where
  "saved_config E s =
     \<lparr>pc_channels = fold (\<lambda>c. AList.update (Dltid_Data (channel_name c)) (channel_threshold c)) (channels s) [],
      pc_filtering_enabled = filtering_enabled s,
      pc_default_threshold = default_threshold s,
      pc_channel_assignments =
        fold (\<lambda>((app, ctx), cmask). nested_update app ctx (mask_names cmask (channels s))) (channel_assignments s) [],
      pc_message_thresholds =
        fold (\<lambda>((app, ctx), t). nested_update app ctx t) (message_thresholds s) []\<rparr>"

definition SaveDatabase :: "'p ServerEnv \<Rightarrow> 'p DltLogServer \<Rightarrow> 'p DltLogServer" where
  "SaveDatabase E s = s\<lparr>persistent := writer_callback E (saved_config E s) (persistent s)\<rparr>"

definition ClearDatabase :: "'p ServerEnv \<Rightarrow> 'p DltLogServer \<Rightarrow> 'p DltLogServer" where
  "ClearDatabase E s = s\<lparr>persistent := writer_callback E (empty_config E) (persistent s)\<rparr>"

section \<open>Diagnostic commands\<close>

definition ReadLogChannelNames :: "'p DltLogServer \<Rightarrow> bytes" where
  "ReadLogChannelNames s = fold (\<lambda>c. AppendId (channel_name c)) (channels s) [kRetOk]"

definition ResetToDefault :: "'p ServerEnv \<Rightarrow> 'p DltLogServer \<Rightarrow> bytes \<times> 'p DltLogServer" where
  "ResetToDefault E s = ([kRetOk], InitLogChannels E True (ClearDatabase E s))"

definition StoreDltConfig :: "'p ServerEnv \<Rightarrow> 'p DltLogServer \<Rightarrow> bytes \<times> 'p DltLogServer" where
  "StoreDltConfig E s = ([kRetOk], SaveDatabase E s)"

definition SetLogChannelThreshold :: "id4 \<Rightarrow> LoglevelT \<Rightarrow> 'p DltLogServer \<Rightarrow> bytes \<times> 'p DltLogServer" where
  "SetLogChannelThreshold channel threshold s =
     (case map_of (channel_nums s) channel of
        None \<Rightarrow> ([kRetError], s)
      | Some i \<Rightarrow> ([kRetOk], s\<lparr>channels := (channels s)[i := (channels s ! i)\<lparr>channel_threshold := threshold\<rparr>]\<rparr>))"

definition SetLogLevel :: "id4 \<Rightarrow> id4 \<Rightarrow> ThresholdT \<Rightarrow> 'p DltLogServer \<Rightarrow> bytes \<times> 'p DltLogServer" where
  "SetLogLevel app ctx threshold s =
     (let s = s\<lparr>message_thresholds := AList.delete (app, ctx) (message_thresholds s)\<rparr>
      in ([kRetOk], case threshold of
            Level l \<Rightarrow> s\<lparr>message_thresholds := emplace (app, ctx) l (message_thresholds s)\<rparr>
          | kUseDefault \<Rightarrow> s))"

definition SetMessagingFilteringState :: "bool \<Rightarrow> 'p DltLogServer \<Rightarrow> bytes \<times> 'p DltLogServer" where
  "SetMessagingFilteringState enabled s = ([kRetOk], s\<lparr>filtering_enabled := enabled\<rparr>)"

definition SetDefaultLogLevel :: "LoglevelT \<Rightarrow> 'p DltLogServer \<Rightarrow> bytes \<times> 'p DltLogServer" where
  "SetDefaultLogLevel level s = ([kRetOk], s\<lparr>default_threshold := level\<rparr>)"

definition SetLogChannelAssignment ::
  "id4 \<Rightarrow> id4 \<Rightarrow> id4 \<Rightarrow> AssignmentAction \<Rightarrow> 'p DltLogServer \<Rightarrow> bytes \<times> 'p DltLogServer" where
  "SetLogChannelAssignment app ctx channel assignment_flag s =
     (case map_of (channel_nums s) channel of
        None \<Rightarrow> ([kRetError], s)
      | Some i \<Rightarrow>
          let cmask = push_bit i 1 in
          ([kRetOk],
           case map_of (channel_assignments s) (app, ctx) of
             None \<Rightarrow>
               (if assignment_flag = kAdd
                then s\<lparr>channel_assignments := emplace (app, ctx) cmask (channel_assignments s)\<rparr> else s)
           | Some old \<Rightarrow>
               (if assignment_flag = kAdd
                then s\<lparr>channel_assignments := AList.update (app, ctx) (old OR cmask) (channel_assignments s)\<rparr>
                else
                  let new = old AND NOT cmask in
                  if new = 0 then s\<lparr>channel_assignments := AList.delete (app, ctx) (channel_assignments s)\<rparr>
                  else s\<lparr>channel_assignments := AList.update (app, ctx) new (channel_assignments s)\<rparr>)))"

definition SetOutputEnabled :: "bool \<Rightarrow> 'p DltLogServer \<Rightarrow> 'p DltLogServer" where
  "SetOutputEnabled enabled s =
     (if dlt_output_enabled s = (\<not> enabled) then
        let s = s\<lparr>dlt_output_enabled := enabled\<rparr>
        in if enabled_callback s then s\<lparr>enabled_calls := enabled_calls s @ [enabled]\<rparr> else s
      else s)"

definition SetDltOutputEnable :: "bool \<Rightarrow> 'p DltLogServer \<Rightarrow> bytes \<times> 'p DltLogServer" where
  "SetDltOutputEnable enable s =
     (if enable = (kDisable \<noteq> 0) then ([kRetOk], SetOutputEnabled False s) else ([kRetOk], SetOutputEnabled True s))"

fun Execute :: "'p ServerEnv \<Rightarrow> DiagnosticJob \<Rightarrow> 'p DltLogServer \<Rightarrow> bytes \<times> 'p DltLogServer" where
  "Execute E ReadLogChannelNamesHandler srv = (ReadLogChannelNames srv, srv)"
| "Execute E ResetToDefaultHandler srv = ResetToDefault E srv"
| "Execute E StoreDltConfigHandler srv = StoreDltConfig E srv"
| "Execute E SetTraceStateHandler srv = ([kRetOk], srv)"
| "Execute E SetDefaultTraceStateHandler srv = ([kRetOk], srv)"
| "Execute E (SetLogChannelThresholdHandler channel threshold) srv = SetLogChannelThreshold channel threshold srv"
| "Execute E (SetLogLevelHandler app ctx threshold) srv = SetLogLevel app ctx threshold srv"
| "Execute E (SetMessagingFilteringStateHandler enabled) srv = SetMessagingFilteringState enabled srv"
| "Execute E (SetDefaultLogLevelHandler level) srv = SetDefaultLogLevel level srv"
| "Execute E (SetLogChannelAssignmentHandler app ctx channel flag) srv = SetLogChannelAssignment app ctx channel flag srv"
| "Execute E (SetDltOutputEnableHandler enable) srv = SetDltOutputEnable enable srv"

definition OnConfigCommand :: "'p ServerEnv \<Rightarrow> bytes \<Rightarrow> 'p DltLogServer \<Rightarrow> bytes \<times> 'p DltLogServer" where
  "OnConfigCommand E command srv =
     (case Parse (env_levels E) command of
        None \<Rightarrow> ([kRetError], srv)
      | Some cmd \<Rightarrow> Execute E cmd srv)"

section \<open>The invariant\<close>

definition configured :: "StaticConfig \<Rightarrow> bool" where
  "configured sc \<longleftrightarrow> sc_channels sc \<noteq> [] \<and> length (sc_channels sc) < 32"

text \<open>
  There is a channel and there are fewer than 32, every index into the channels is in
  range, no mask names a channel that does not exist, every name finds its channel, and
  every channel is in order.
\<close>

definition names_ok :: "'p DltLogServer \<Rightarrow> bool" where
  "names_ok s \<longleftrightarrow>
     (if configured (static_config s)
      then map channel_name (channels s) = map fst (sc_channels (static_config s)) \<and>
           list_all (\<lambda>(i, nm). map_of (channel_nums s) nm = Some i) (enumerate 0 (map fst (sc_channels (static_config s))))
      else length (channels s) = 1)"

definition server_ok :: "'p DltLogServer \<Rightarrow> bool" where
  "server_ok s \<longleftrightarrow> 0 < length (channels s) \<and> length (channels s) < 32 \<and> default_channel s < length (channels s) \<and>
     (case coredump_channel s of None \<Rightarrow> True | Some i \<Rightarrow> i < length (channels s)) \<and>
     list_all (\<lambda>(nm, i). i < length (channels s)) (channel_nums s) \<and>
     list_all (\<lambda>(k, m). take_bit (length (channels s)) m = m) (channel_assignments s) \<and>
     distinct (map fst (channel_assignments s)) \<and> distinct (map fst (message_thresholds s)) \<and>
     list_all channel_ok (channels s) \<and> names_ok s"

text \<open>Replacing channels by others of the same names.\<close>

lemma server_ok_channels:
  assumes "server_ok s" "length cs = length (channels s)"
    and "\<And>i. i < length cs \<Longrightarrow> channel_ok (cs ! i) \<and> channel_name (cs ! i) = channel_name (channels s ! i)"
  shows "server_ok (s\<lparr>channels := cs\<rparr>)"
proof -
  have "map channel_name cs = map channel_name (channels s)"
    using assms(2,3) by (intro nth_equalityI) simp_all
  moreover have "list_all channel_ok cs" using assms(3) by (simp add: list_all_length)
  ultimately show ?thesis
    using assms(1,2) by (auto simp: server_ok_def names_ok_def split: option.splits if_splits)
qed

text \<open>Association lists.\<close>

lemma map_of_emplace: "map_of (emplace k v m) = (\<lambda>x. if x = k \<and> map_of m k = None then Some v else map_of m x)"
  by (auto simp: emplace_def map_add_def fun_eq_iff split: option.splits)

lemma distinct_emplace: "distinct (map fst m) \<Longrightarrow> distinct (map fst (emplace k v m))"
  by (auto simp: emplace_def map_of_eq_None_iff)

lemma list_all_emplace: "list_all P m \<Longrightarrow> P (k, v) \<Longrightarrow> list_all P (emplace k v m)"
  by (simp add: emplace_def)

lemma list_all_update: "list_all P m \<Longrightarrow> P (k, v) \<Longrightarrow> list_all P (AList.update k v m)"
  by (induction m) auto

lemma list_all_delete: "list_all P m \<Longrightarrow> list_all P (AList.delete k m)"
  by (auto simp: AList.delete_eq list_all_iff)

lemma list_all_map_of: "list_all P m \<Longrightarrow> map_of m k = Some v \<Longrightarrow> P (k, v)"
  by (auto simp: list_all_iff dest: map_of_SomeD)

lemmas alist_simps = list_all_emplace list_all_update list_all_delete distinct_emplace AList.distinct_update
  AList.distinct_delete

text \<open>Masks as sets of indices.\<close>

lemma bit_channelmask: "bit (m :: channelmask) i \<Longrightarrow> i < 32"
  using bit_imp_le_length [of m i] by simp

lemma mask_within: "take_bit n (m :: channelmask) = m \<longleftrightarrow> (\<forall>i. bit m i \<longrightarrow> i < n)"
  using bit_channelmask [of m] by (auto simp: bit_eq_iff bit_take_bit_iff)

lemma bit_channel: "bit (push_bit i 1 :: channelmask) j \<longleftrightarrow> i = j \<and> j < 32"
  by (auto simp: bit_exp_iff)

lemma mask_nonzero: "m \<noteq> 0 \<longleftrightarrow> (\<exists>i. bit (m :: channelmask) i)"
  using bit_channelmask [of m] by (auto simp: bit_eq_iff)

text \<open>Looking up the names of an assignment.\<close>

lemma channel_set_ok:
  assumes "channel_set chs m nums = (m', nums')" "list_all (\<lambda>(nm, i). i < n) nums" "0 < n" "take_bit n m = m"
  shows "list_all (\<lambda>(nm, i). i < n) nums' \<and> take_bit n m' = m' \<and> map_of nums \<subseteq>\<^sub>m map_of nums'"
  using assms
proof (induction chs arbitrary: m nums)
  case (Cons ch chs)
  obtain i nums1 where i: "subscript 0 ch nums = (i, nums1)" by (cases "subscript 0 ch nums")
  have l: "list_all (\<lambda>(nm, i). i < n) nums1" "i < n" "map_of nums \<subseteq>\<^sub>m map_of nums1"
    using i Cons.prems(2,3)
    by (auto simp: subscript_def map_le_def split: option.splits dest: list_all_map_of)
  have m: "take_bit n (m OR push_bit i 1) = m OR push_bit i 1"
    using Cons.prems(4) l(2) unfolding mask_within bit_or_iff bit_channel by blast
  have "channel_set chs (m OR push_bit i 1) nums1 = (m', nums')" using Cons.prems(1) i by simp
  from Cons.IH [OF this l(1) Cons.prems(3) m] l(3) show ?case by (blast intro: map_le_trans)
qed simp

section \<open>Routing, proved\<close>

text \<open>
  The contract: the entry that counts for a message is the first that exists among the
  exact one, the one for the context of any application, and the one for any context of
  the application.
\<close>

definition lookup_order :: "id4 \<Rightarrow> id4 \<Rightarrow> key list" where
  "lookup_order app ctx = [(app, ctx), ((0, 0, 0, 0), ctx), (app, (0, 0, 0, 0))]"

definition first_match :: "(key \<rightharpoonup> 'v) \<Rightarrow> key list \<Rightarrow> 'v option" where
  "first_match m ks = (case filter (\<lambda>k. m k \<noteq> None) ks of [] \<Rightarrow> None | k # _ \<Rightarrow> m k)"

definition destination :: "'p DltLogServer \<Rightarrow> id4 \<Rightarrow> id4 \<Rightarrow> LoglevelT \<Rightarrow> nat \<Rightarrow> bool" where
  "destination s app ctx level i \<longleftrightarrow>
     (filtering_enabled s \<longrightarrow>
        level \<le> (case first_match (map_of (message_thresholds s)) (lookup_order app ctx) of
                  None \<Rightarrow> default_threshold s | Some t \<Rightarrow> t)) \<and>
     (case first_match (map_of (channel_assignments s)) (lookup_order app ctx) of
        None \<Rightarrow> i = default_channel s
      | Some m \<Rightarrow> if m = 0 then i = default_channel s else bit m i)"

lemma FindInKeyMap_first: "FindInKeyMap m app ctx = first_match (map_of m) (lookup_order app ctx)"
  by (auto simp: FindInKeyMap_def first_match_def lookup_order_def split: option.splits)

lemma FilterAndCall_channels:
  assumes "server_ok s"
  shows "\<exists>cs. FilterAndCall app ctx level f s = s\<lparr>channels := cs\<rparr> \<and> length cs = length (channels s) \<and>
    (\<forall>i < length (channels s). cs ! i = (if destination s app ctx level i then f (channels s ! i) else channels s ! i))"
proof -
  have d: "default_channel s < length (channels s)" using assms by (simp add: server_ok_def)
  have len: "length (channels s) < 32" using assms by (simp add: server_ok_def)
  show ?thesis
  proof (cases "IsAcceptedByFiltering s app ctx level")
    case False
    then have "\<not> destination s app ctx level i" for i
      by (auto simp: IsAcceptedByFiltering_def destination_def FindInKeyMap_first Let_def split: if_splits)
    with False show ?thesis by (intro exI [of _ "channels s"]) (simp add: FilterAndCall_def)
  next
    case True
    have acc: "filtering_enabled s \<longrightarrow>
        level \<le> (case first_match (map_of (message_thresholds s)) (lookup_order app ctx) of
                  None \<Rightarrow> default_threshold s | Some t \<Rightarrow> t)"
      using True by (auto simp: IsAcceptedByFiltering_def FindInKeyMap_first Let_def split: option.splits)
    have dest: "destination s app ctx level i \<longleftrightarrow>
        (if AssignedToChannels s app ctx = 0 then i = default_channel s else bit (AssignedToChannels s app ctx) i)" for i
      using acc by (auto simp: destination_def AssignedToChannels_def FindInKeyMap_first split: option.splits)
    show ?thesis
    proof (cases "AssignedToChannels s app ctx = 0")
      case z: True
      with True d show ?thesis
        by (intro exI [of _ "(channels s)[default_channel s := f (channels s ! default_channel s)]"])
          (simp add: FilterAndCall_def dest nth_list_update)
    next
      case nz: False
      let ?cs = "map (\<lambda>(i, c). if bit (AssignedToChannels s app ctx) i then f c else c) (enumerate 0 (channels s))"
      from True nz show ?thesis
        by (intro exI [of _ ?cs]) (simp add: FilterAndCall_def dest nth_enumerate_eq)
    qed
  qed
qed

text \<open>What a message does to the channels of a server.\<close>

definition routed :: "'p DltLogServer \<Rightarrow> (nat \<Rightarrow> bool) \<Rightarrow> (DltLogChannel \<Rightarrow> bytes option) \<Rightarrow> 'p DltLogServer \<Rightarrow> bool" where
  "routed s dest msg s' \<longleftrightarrow> server_ok s' \<and> s'\<lparr>channels := channels s\<rparr> = s \<and> length (channels s') = length (channels s) \<and>
     (\<forall>i < length (channels s). if dest i then took (channels s ! i) (msg (channels s ! i)) (channels s' ! i)
        else channels s' ! i = channels s ! i)"

lemma routedI:
  assumes ok: "server_ok s" and s': "s' = s\<lparr>channels := cs\<rparr>" and len: "length cs = length (channels s)"
    and cs: "\<And>i. i < length (channels s) \<Longrightarrow> cs ! i = (if dest i then f (channels s ! i) else channels s ! i)"
    and took: "\<And>c. channel_ok c \<Longrightarrow> took c (msg c) (f c)"
  shows "routed s dest msg s'"
proof -
  have ch: "channel_ok (channels s ! i)" if "i < length (channels s)" for i
    using ok that by (simp add: server_ok_def list_all_length)
  have "channel_ok (cs ! i) \<and> channel_name (cs ! i) = channel_name (channels s ! i)" if "i < length cs" for i
    using cs [of i] took [OF ch, of i] ch [of i] that len by (simp add: took_def same_setup_def)
  then have "server_ok s'" unfolding s' by (rule server_ok_channels [OF ok len])
  then show ?thesis
    using cs took [OF ch] len by (simp add: routed_def s')
qed

lemma FilterAndCall_routed:
  assumes "server_ok s" "\<And>c. channel_ok c \<Longrightarrow> took c (msg c) (f c)"
  shows "routed s (destination s app ctx level) msg (FilterAndCall app ctx level f s)"
proof -
  obtain cs where "FilterAndCall app ctx level f s = s\<lparr>channels := cs\<rparr>" "length cs = length (channels s)"
    "\<forall>i < length (channels s). cs ! i = (if destination s app ctx level i then f (channels s ! i) else channels s ! i)"
    using FilterAndCall_channels [OF assms(1)] by blast
  with assms show ?thesis by (intro routedI [where cs = cs and f = f]) simp_all
qed

section \<open>Initialisation, proved\<close>

text \<open>Reading the assignments only adds to the table of names and fills the assignments.\<close>

definition tables_ok :: "nat \<Rightarrow> 'p DltLogServer \<Rightarrow> bool" where
  "tables_ok n s \<longleftrightarrow> list_all (\<lambda>(nm, i). i < n) (channel_nums s) \<and>
     list_all (\<lambda>(k, m). take_bit n m = m) (channel_assignments s) \<and> distinct (map fst (channel_assignments s))"

definition tables_grow :: "'p DltLogServer \<Rightarrow> 'p DltLogServer \<Rightarrow> bool" where
  "tables_grow s s' \<longleftrightarrow> s'\<lparr>channel_nums := channel_nums s, channel_assignments := channel_assignments s\<rparr> = s \<and>
     map_of (channel_nums s) \<subseteq>\<^sub>m map_of (channel_nums s')"

lemma tables_grow_simps: "tables_grow s s" "tables_grow s s' \<Longrightarrow> tables_grow s' s'' \<Longrightarrow> tables_grow s s''"
proof -
  show "tables_grow s s" by (simp add: tables_grow_def)
next
  assume "tables_grow s s'" "tables_grow s' s''"
  then show "tables_grow s s''" by (cases s, cases s', cases s'') (auto simp: tables_grow_def intro: map_le_trans)
qed

lemma tables_fold:
  assumes "\<And>x s. tables_ok n s \<Longrightarrow> tables_ok n (f x s) \<and> tables_grow s (f x s)" "tables_ok n s"
  shows "tables_ok n (fold f xs s) \<and> tables_grow s (fold f xs s)"
  using assms(2)
proof (induction xs arbitrary: s)
  case (Cons x xs)
  from assms(1) [OF Cons.prems] have "tables_ok n (f x s)" "tables_grow s (f x s)" by (auto simp: assms(1))
  with Cons.IH [OF this(1)] show ?case by (auto intro: tables_grow_simps(2))
qed (simp add: tables_grow_simps)

lemma assign_context_tables:
  assumes "0 < n" "tables_ok n s"
  shows "tables_ok n (assign_context app e s) \<and> tables_grow s (assign_context app e s)"
proof -
  obtain ctx chs where e: "e = (ctx, chs)" by (cases e)
  obtain m nums where c: "channel_set chs 0 (channel_nums s) = (m, nums)" by (cases "channel_set chs 0 (channel_nums s)")
  from channel_set_ok [OF c, of n] assms show ?thesis
    by (simp add: tables_ok_def tables_grow_def assign_context_def e c alist_simps)
qed

lemma init_assignments_tables:
  assumes "0 < n" "list_all (\<lambda>(nm, i). i < n) (channel_nums s)"
  shows "tables_ok n (init_assignments m s)" "tables_grow (s\<lparr>channel_assignments := []\<rparr>) (init_assignments m s)"
proof -
  have "tables_ok n (fold (\<lambda>(app, contexts). fold (assign_context app) contexts) m (s\<lparr>channel_assignments := []\<rparr>)) \<and>
    tables_grow (s\<lparr>channel_assignments := []\<rparr>)
      (fold (\<lambda>(app, contexts). fold (assign_context app) contexts) m (s\<lparr>channel_assignments := []\<rparr>))"
  proof (rule tables_fold)
    show "tables_ok n (s\<lparr>channel_assignments := []\<rparr>)" using assms by (simp add: tables_ok_def)
  next
    fix x :: "id4 \<times> (id4 \<times> id4 list) list" and s' :: "'a DltLogServer"
    assume "tables_ok n s'"
    then show "tables_ok n ((\<lambda>(app, contexts). fold (assign_context app) contexts) x s') \<and>
        tables_grow s' ((\<lambda>(app, contexts). fold (assign_context app) contexts) x s')"
      using tables_fold [OF assign_context_tables [OF assms(1)]] by (cases x) simp
  qed
  then show "tables_ok n (init_assignments m s)" "tables_grow (s\<lparr>channel_assignments := []\<rparr>) (init_assignments m s)"
    by (simp_all add: init_assignments_def)
qed

lemma tables_grow_fields:
  assumes "tables_grow s s'"
  shows "channels s' = channels s" "default_channel s' = default_channel s" "coredump_channel s' = coredump_channel s"
    "static_config s' = static_config s" "dlt_output_enabled s' = dlt_output_enabled s"
    "enabled_callback s' = enabled_callback s" "enabled_calls s' = enabled_calls s" "persistent s' = persistent s"
    "endpoints s' = endpoints s" "map_of (channel_nums s) \<subseteq>\<^sub>m map_of (channel_nums s')"
  using assms by (cases s; cases s'; simp add: tables_grow_def)+

lemma distinct_thresholds:
  "distinct (map fst m) \<Longrightarrow>
   distinct (map fst (fold (\<lambda>(app, contexts). fold (\<lambda>(ctx, t). emplace (app, ctx) t) contexts) thresholds m))"
proof (induction thresholds arbitrary: m)
  case (Cons x xs)
  obtain app contexts where x: "x = (app, contexts)" by (cases x)
  have "distinct (map fst (fold (\<lambda>(ctx, t). emplace (app, ctx) t) contexts m))"
    using Cons.prems by (induction contexts arbitrary: m) (auto simp: distinct_emplace)
  with Cons.IH show ?case by (simp add: x)
qed simp

lemma InitLogChannels_configured:
  "configured (static_config s) \<Longrightarrow> InitLogChannels E reloading s =
     (let s = s\<lparr>coredump_channel := None\<rparr>; config = reader_callback E (persistent s)
      in finish_init config (static_config s)
        (if reloading then s\<lparr>channels := map (reload_channel E config (static_config s)) (channels s)\<rparr>
         else fold (create_channel E config) (enumerate 0 (sc_channels (static_config s))) s))"
  by (simp add: InitLogChannels_def configured_def Let_def)

lemma InitLogChannels_unconfigured:
  "\<not> configured (static_config s) \<Longrightarrow> InitLogChannels E reloading s = InitLogChannelsDefault E reloading s"
  by (auto simp: InitLogChannels_def configured_def Let_def)

lemma finish_init_fields:
  assumes "0 < n" "list_all (\<lambda>(nm, i). i < n) (channel_nums s)"
  shows "tables_ok n (finish_init config sc s)" "channels (finish_init config sc s) = channels s"
    "default_channel (finish_init config sc s) = default_channel s"
    "coredump_channel (finish_init config sc s) = coredump_channel s"
    "static_config (finish_init config sc s) = static_config s"
    "distinct (map fst (message_thresholds (finish_init config sc s)))"
    "map_of (channel_nums s) \<subseteq>\<^sub>m map_of (channel_nums (finish_init config sc s))"
proof -
  let ?m = "if pc_channels config \<noteq> [] then pc_channel_assignments config else sc_channel_assignments sc"
  note t = init_assignments_tables [OF assms, of ?m]
  note g = tables_grow_fields [OF t(2)]
  note d = finish_init_def init_throughput_def init_thresholds_def Let_def
  show "tables_ok n (finish_init config sc s)" using t(1) by (simp add: d tables_ok_def)
  show "channels (finish_init config sc s) = channels s" "default_channel (finish_init config sc s) = default_channel s"
    "coredump_channel (finish_init config sc s) = coredump_channel s"
    "static_config (finish_init config sc s) = static_config s"
    "map_of (channel_nums s) \<subseteq>\<^sub>m map_of (channel_nums (finish_init config sc s))"
    using g by (simp_all add: d)
  show "distinct (map fst (message_thresholds (finish_init config sc s)))"
    by (simp add: d distinct_thresholds)
qed

text \<open>Creating the channels.\<close>

definition created :: "'p ServerEnv \<Rightarrow> PersistentConfig \<Rightarrow> id4 \<times> ChannelDescription \<Rightarrow> DltLogChannel" where
  "created E config e = (case e of (nm, d) \<Rightarrow> NewDltLogChannel nm
     (if pc_channels config \<noteq> [] then persisted_threshold E config nm else cd_channel_threshold d) (cd_ecu d))"

lemma create_channels:
  assumes "distinct (map fst cs)" "s' = fold (create_channel E config) (enumerate k cs) s"
  shows "channels s' = channels s @ map (created E config) cs \<and> static_config s' = static_config s \<and>
    (default_channel s' = default_channel s \<or> default_channel s' < k + length cs) \<and>
    (coredump_channel s' = coredump_channel s \<or> (\<exists>i < k + length cs. coredump_channel s' = Some i)) \<and>
    (\<forall>n \<ge> k + length cs. list_all (\<lambda>(nm, i). i < n) (channel_nums s) \<longrightarrow> list_all (\<lambda>(nm, i). i < n) (channel_nums s')) \<and>
    map_of (channel_nums s') = (\<lambda>nm. case map_of (zip (map fst cs) [k..<k + length cs]) nm of
        None \<Rightarrow> map_of (channel_nums s) nm | Some i \<Rightarrow> Some i)"
  using assms
proof (induction cs arbitrary: k s)
  case (Cons e cs)
  obtain nm d where e: "e = (nm, d)" by (cases e)
  let ?s = "create_channel E config (k, e) s"
  have f: "channels ?s = channels s @ [created E config e]" "static_config ?s = static_config s"
    "default_channel ?s = default_channel s \<or> default_channel ?s = k"
    "coredump_channel ?s = coredump_channel s \<or> coredump_channel ?s = Some k"
    "channel_nums ?s = AList.update nm k (channel_nums s)"
    by (simp_all add: e create_channel_def created_def Let_def)
  have nums: "list_all (\<lambda>(nm, i). i < n) (channel_nums ?s)" if "k < n" "list_all (\<lambda>(nm, i). i < n) (channel_nums s)" for n
    unfolding f(5) by (rule list_all_update) (use that in simp_all)
  have s': "s' = fold (create_channel E config) (enumerate (Suc k) cs) ?s" using Cons.prems(2) by simp
  have dist: "distinct (map fst cs)" "nm \<notin> fst ` set cs" using Cons.prems(1) by (simp_all add: e)
  have up: "[k..<k + length (e # cs)] = k # [Suc k..<Suc k + length cs]" by (simp add: upt_conv_Cons del: upt_Suc)
  have nm: "map_of (zip (map fst cs) [Suc k..<Suc k + length cs]) nm = None"
    using dist(2) by (simp add: map_of_zip_is_None)
  have look: "map_of (channel_nums s') = (\<lambda>nm. case map_of (zip (map fst (e # cs)) [k..<k + length (e # cs)]) nm of
        None \<Rightarrow> map_of (channel_nums s) nm | Some i \<Rightarrow> Some i)"
  proof
    fix x
    have "map_of (channel_nums s') x = (case map_of (zip (map fst cs) [Suc k..<Suc k + length cs]) x of
        None \<Rightarrow> map_of (channel_nums ?s) x | Some i \<Rightarrow> Some i)"
      using Cons.IH [OF dist(1) s'] by (elim conjE) (rule fun_cong)
    then show "map_of (channel_nums s') x = (case map_of (zip (map fst (e # cs)) [k..<k + length (e # cs)]) x of
        None \<Rightarrow> map_of (channel_nums s) x | Some i \<Rightarrow> Some i)"
      using nm unfolding f(5) up by (simp add: update_conv e del: map_of_zip_is_None upt_Suc split: option.split)
  qed
  note IH = Cons.IH [OF dist(1) s']
  have "list_all (\<lambda>(nm, i). i < n) (channel_nums s')"
    if "k + length (e # cs) \<le> n" "list_all (\<lambda>(nm, i). i < n) (channel_nums s)" for n
  proof -
    have "list_all (\<lambda>(nm, i). i < n) (channel_nums ?s)" by (rule nums) (use that in simp_all)
    moreover have "Suc k + length cs \<le> n" using that(1) by simp
    ultimately show ?thesis using IH by blast
  qed
  moreover have "channels s' = channels s @ map (created E config) (e # cs)" "static_config s' = static_config s"
    using IH f(1,2) by simp_all
  moreover have "default_channel s' = default_channel s \<or> default_channel s' < k + length (e # cs)"
    using IH f(3) by (elim conjE disjE) simp_all
  moreover have "coredump_channel s' = coredump_channel s \<or> (\<exists>i < k + length (e # cs). coredump_channel s' = Some i)"
    using IH f(4) by (elim conjE disjE exE) simp_all
  ultimately show ?case using look by blast
qed simp

lemma names_enumerate:
  assumes "distinct nms"
  shows "list_all (\<lambda>(i, nm). map_of (zip nms [0..<length nms]) nm = Some i) (enumerate 0 nms)"
  using assms by (auto simp: list_all_length nth_enumerate_eq set_zip)

text \<open>The server is in order after its construction and after a reload.\<close>

lemma reload_channel_frame:
  "channel_ok (reload_channel E config sc c) = channel_ok c" "channel_name (reload_channel E config sc c) = channel_name c"
  by (simp_all add: reload_channel_def Let_def channel_ok_def)

lemma finish_init_ok:
  assumes "0 < length (channels s)" "length (channels s) < 32" "default_channel s < length (channels s)"
    "case coredump_channel s of None \<Rightarrow> True | Some i \<Rightarrow> i < length (channels s)"
    and nums: "list_all (\<lambda>(nm, i). i < length (channels s)) (channel_nums s)"
    and "list_all channel_ok (channels s)" and names: "names_ok s"
  shows "server_ok (finish_init config sc s)"
proof -
  note f = finish_init_fields [OF assms(1) nums, of config sc]
  have "names_ok (finish_init config sc s)"
  proof (cases "configured (static_config s)")
    case True
    have more_names: "map_of (channel_nums (finish_init config sc s)) nm = Some i" if "map_of (channel_nums s) nm = Some i" for nm i
      using bspec [OF f(7) [unfolded map_le_def], of nm] that by (simp add: domI)
    from True names have "list_all (\<lambda>(i, nm). map_of (channel_nums s) nm = Some i) (enumerate 0 (map fst (sc_channels (static_config s))))"
      by (simp add: names_ok_def)
    then have "list_all (\<lambda>(i, nm). map_of (channel_nums (finish_init config sc s)) nm = Some i)
        (enumerate 0 (map fst (sc_channels (static_config s))))"
      by (rule list.pred_mono_strong) (auto simp: more_names)
    with True names show ?thesis by (simp add: names_ok_def f)
  qed (use names in \<open>simp add: names_ok_def f\<close>)
  with f assms show ?thesis by (simp add: server_ok_def tables_ok_def split: option.splits)
qed

lemma NewDltLogServer_ok:
  assumes "distinct (map fst (sc_channels sc))"
  shows "server_ok (NewDltLogServer E sc enabled p)"
proof (cases "configured sc")
  case False
  then show ?thesis
    by (simp add: NewDltLogServer_def InitLogChannels_unconfigured InitLogChannelsDefault_def server_ok_def names_ok_def
        new_channel_ok)
next
  case True
  define config where "config = reader_callback E p"
  define s0 :: "'a DltLogServer" where "s0 = \<lparr>filtering_enabled = False, dlt_output_enabled = enabled, default_threshold = 0, message_thresholds = [],
        channel_assignments = [], throughput_overall = 0, throughput_apps = [], static_config = sc, channels = [],
        endpoints = [], default_channel = 0, coredump_channel = None, channel_nums = [], enabled_callback = False,
        enabled_calls = [], persistent = p\<rparr>"
  define s1 where "s1 = fold (create_channel E config) (enumerate 0 (sc_channels sc)) s0"
  note c = create_channels [OF assms s1_def]
  have ch: "channels s1 = map (created E config) (sc_channels sc)" "static_config s1 = sc" using c by (simp_all add: s0_def)
  have len: "length (channels s1) = length (sc_channels sc)" "0 < length (sc_channels sc)" "length (sc_channels sc) < 32"
    using True by (simp_all add: ch configured_def)
  have nm: "map channel_name (channels s1) = map fst (sc_channels sc)"
    by (simp add: ch created_def NewDltLogChannel_def split_beta)
  have nums: "map_of (channel_nums s1) = map_of (zip (map fst (sc_channels sc)) [0..<length (map fst (sc_channels sc))])"
  proof
    fix nm
    have "map_of (channel_nums s1) nm = (case map_of (zip (map fst (sc_channels sc)) [0..<0 + length (sc_channels sc)]) nm of
        None \<Rightarrow> map_of (channel_nums s0) nm | Some i \<Rightarrow> Some i)" using c by (elim conjE) (rule fun_cong)
    then show "map_of (channel_nums s1) nm = map_of (zip (map fst (sc_channels sc)) [0..<length (map fst (sc_channels sc))]) nm"
      by (cases "map_of (zip (map fst (sc_channels sc)) [0..<length (sc_channels sc)]) nm")
        (simp_all add: s0_def del: map_of_zip_is_None)
  qed
  have "names_ok s1" using True names_enumerate [OF assms] unfolding names_ok_def nm ch(2) nums by simp
  then have "server_ok (finish_init config sc s1)"
    using c len by (intro finish_init_ok) (auto simp: s0_def list_all_length ch created_def new_channel_ok split: option.splits prod.splits)
  then show ?thesis
    using True by (simp add: NewDltLogServer_def InitLogChannels_configured config_def s1_def s0_def Let_def)
qed

lemma reload_ok:
  assumes "server_ok s"
  shows "server_ok (InitLogChannels E True s)"
proof (cases "configured (static_config s)")
  case True
  let ?cs = "map (reload_channel E (reader_callback E (persistent s)) (static_config s)) (channels s)"
  have s: "server_ok (s\<lparr>coredump_channel := None\<rparr>)"
    using assms by (auto simp: server_ok_def names_ok_def split: if_splits)
  have "server_ok (s\<lparr>coredump_channel := None, channels := ?cs\<rparr>)"
    by (rule server_ok_channels [OF s]) (use assms in \<open>simp_all add: reload_channel_frame server_ok_def list_all_length\<close>)
  then have "server_ok (finish_init (reader_callback E (persistent s)) (static_config s) (s\<lparr>coredump_channel := None, channels := ?cs\<rparr>))"
    by (intro finish_init_ok) (simp_all add: server_ok_def)
  with True show ?thesis by (simp add: InitLogChannels_configured Let_def)
next
  case False
  let ?s = "s\<lparr>filtering_enabled := False, default_threshold := kError E, default_channel := 0, coredump_channel := None\<rparr>"
  have s: "server_ok ?s" using assms by (auto simp: server_ok_def names_ok_def split: if_splits)
  have "server_ok (?s\<lparr>channels := (channels s)[0 := (channels s ! 0)\<lparr>channel_threshold := kOff E\<rparr>]\<rparr>)"
    by (rule server_ok_channels [OF s])
      (use assms in \<open>auto simp: server_ok_def list_all_length nth_list_update channel_ok_def\<close>)
  with False show ?thesis by (simp add: InitLogChannels_unconfigured InitLogChannelsDefault_def Let_def)
qed

end
