(* ===== verification/ServerProperties.thy ===== *)
theory ServerProperties
  imports DltLogServer
begin

text \<open>
  The properties of the log server of the data router: an invariant of every reachable server,
  every message goes to its channels, and no command breaks the server.
\<close>

section \<open>Messages\<close>

lemma verbose_routed:
  assumes "server_ok s" "length (entry_payload e) < 2 ^ 32"
  shows "routed s (destination s (NewDltidT (env_view E (app_id e))) (NewDltidT (env_view E (ctx_id e))) (log_level e))
    (\<lambda>c. op_message (env_view E) (channel_threshold c) (ecu c) (ch_mcnt c) (OpVerbose t e))
    (Server_SendVerbose E t e s)"
  unfolding Server_SendVerbose_def Let_def
  by (rule FilterAndCall_routed [OF assms(1)]) (rule SendVerbose_took [OF _ assms(2)])

text \<open>C14: A verbose message goes to the channels its application and context are assigned to, or to the
  default channel when there is no assignment, unless the filter rejects it; there it
  joins the end of the queue when it passes the channel's threshold. All other channels
  and the whole configuration stay as they are.\<close>

theorem verbose_message_routed:
  assumes "server_ok s" "length (entry_payload e) < 2 ^ 32"
  shows "routed s (destination s (NewDltidT (env_view E (app_id e))) (NewDltidT (env_view E (ctx_id e))) (log_level e))
    (\<lambda>c. op_message (env_view E) (channel_threshold c) (ecu c) (ch_mcnt c) (OpVerbose t e))
    (Server_SendVerbose E t e s)"
  by (rule verbose_routed [OF assms])

definition example_env :: "PersistentConfig ServerEnv" where
  "example_env = \<lparr>reader_callback = (\<lambda>p. p), writer_callback = (\<lambda>c p. c), env_levels = example_levels, kOff = 0,
     kError = 2, kInfo = 4, env_view = example_view, env_send = (\<lambda>_ _. None)\<rparr>"

definition example_static :: StaticConfig where
  "example_static =
     (let d = \<lparr>cd_ecu = (69, 67, 85, 49), cd_address = [], cd_port = 3490, cd_dst_address = [], cd_dst_port = 0,
               cd_channel_threshold = 4, cd_multicast_interface = []\<rparr>
      in \<lparr>sc_coredump_channel = (67, 68, 0, 0), sc_default_channel = (65, 65, 0, 0),
          sc_channels = [((65, 65, 0, 0), d), ((67, 68, 0, 0), d)], sc_filtering_enabled = True, sc_default_threshold = 4,
          sc_channel_assignments = [((65, 80, 80, 0), [((67, 84, 88, 0), [(67, 68, 0, 0)])])],
          sc_message_thresholds = [], sc_overall_mbps = 1, sc_applications_kbps = [], sc_quota_enforcement_enabled = False\<rparr>)"

abbreviation "example_server \<equiv> NewDltLogServer example_env example_static True (empty_config example_env)"

lemma example_server_ok: "server_ok example_server"
  by (rule NewDltLogServer_ok) (simp add: example_static_def Let_def)

theorem verbose_message_routed_witness:
  "routed example_server (destination example_server (NewDltidT (example_view (app_id example_entry)))
      (NewDltidT (example_view (ctx_id example_entry))) (log_level example_entry))
    (\<lambda>c. op_message example_view (channel_threshold c) (ecu c) (ch_mcnt c) (OpVerbose 7 example_entry))
    (Server_SendVerbose example_env 7 example_entry example_server)"
  using verbose_message_routed [OF example_server_ok, of example_entry example_env 7]
  by (simp add: example_entry_def example_env_def)


lemma nonverbose_routed:
  assumes "server_ok s" "length d < 2 ^ 63"
  shows "routed s (destination s (NewDltidT (env_view E (nv_app desc))) (NewDltidT (env_view E (nv_ctx desc))) (nv_log_level desc))
    (\<lambda>c. op_message (env_view E) (channel_threshold c) (ecu c) (ch_mcnt c) (OpNonVerbose desc t d))
    (Server_SendNonVerbose E desc t d s)"
  unfolding Server_SendNonVerbose_def Let_def
  by (rule FilterAndCall_routed [OF assms(1)]) (rule SendNonVerbose_took [OF _ assms(2)])

lemma transfer_routed:
  assumes "server_ok s"
  shows "routed s (\<lambda>i. case coredump_channel s of Some ch \<Rightarrow> i = ch | None \<Rightarrow> destination s app ctx level i)
    (\<lambda>c. op_message (env_view E) (channel_threshold c) (ecu c) (ch_mcnt c) (OpFt d level app ctx nor t))
    (Server_SendFtVerbose E d level app ctx nor t s)"
proof (cases "coredump_channel s")
  case None
  then show ?thesis
    unfolding Server_SendFtVerbose_def Let_def
    using FilterAndCall_routed [OF assms SendFt_took] by simp
next
  case (Some ch)
  have "ch < length (channels s)" using assms Some by (simp add: server_ok_def)
  let ?f = "\<lambda>c. Channel_SendFtVerbose (env_send E (channel_name c)) d level app ctx nor t c"
  show ?thesis
    by (rule routedI [OF assms, where f = ?f and cs = "(channels s)[ch := ?f (channels s ! ch)]"])
      (simp_all add: Some Server_SendFtVerbose_def Let_def nth_list_update SendFt_took del: op_message.simps)
qed

text \<open>The chunks of a file transfer go to the core dump channel when there is one, whatever the
  filter says, and are routed like messages otherwise; they are never held back by a
  channel's threshold.\<close>

theorem file_transfer_routed:
  assumes "server_ok s"
  shows "routed s (\<lambda>i. case coredump_channel s of Some ch \<Rightarrow> i = ch | None \<Rightarrow> destination s app ctx level i)
    (\<lambda>c. op_message (env_view E) (channel_threshold c) (ecu c) (ch_mcnt c) (OpFt d level app ctx nor t))
    (Server_SendFtVerbose E d level app ctx nor t s)"
  by (rule transfer_routed [OF assms])

theorem file_transfer_routed_witness:
  "routed example_server (\<lambda>i. case coredump_channel example_server of Some ch \<Rightarrow> i = ch | None \<Rightarrow> destination example_server (65, 0, 0, 0) (66, 0, 0, 0) 4 i)
    (\<lambda>c. op_message (env_view example_env) (channel_threshold c) (ecu c) (ch_mcnt c) (OpFt [1, 2] 4 (65, 0, 0, 0) (66, 0, 0, 0) 1 9))
    (Server_SendFtVerbose example_env [1, 2] 4 (65, 0, 0, 0) (66, 0, 0, 0) 1 9 example_server)"
  by (rule file_transfer_routed [OF example_server_ok])

section \<open>Commands\<close>

lemma AppendId_fold: "\<exists>bs. fold (\<lambda>c. AppendId (f c)) xs r = r @ bs"
proof (induction xs arbitrary: r)
  case (Cons x xs)
  obtain bs where bs: "AppendId (f x) r = r @ bs" by (simp add: AppendId_def Let_def)
  show ?case using Cons.IH [of "r @ bs"] by (auto simp: bs)
qed simp

lemma mask_update_ok:
  assumes "take_bit n (old :: channelmask) = old" "i < n"
  shows "take_bit n (push_bit i 1 :: channelmask) = push_bit i 1" "take_bit n (old OR push_bit i 1) = old OR push_bit i 1"
    "take_bit n (old AND NOT (push_bit i 1)) = old AND NOT (push_bit i 1)"
  using assms unfolding mask_within bit_or_iff bit_and_iff bit_not_iff bit_channel by blast+

lemma server_ok_assignments:
  "server_ok s \<Longrightarrow> list_all (\<lambda>(k, m). take_bit (length (channels s)) m = m) as \<Longrightarrow> distinct (map fst as) \<Longrightarrow>
   server_ok (s\<lparr>channel_assignments := as\<rparr>)"
  by (simp add: server_ok_def names_ok_def split: option.splits if_splits)

lemma server_ok_fields:
  assumes "server_ok s"
  shows "server_ok (s\<lparr>filtering_enabled := b\<rparr>)" "server_ok (s\<lparr>default_threshold := l\<rparr>)" "server_ok (s\<lparr>persistent := p\<rparr>)"
    "server_ok (s\<lparr>dlt_output_enabled := b\<rparr>)" "server_ok (s\<lparr>enabled_calls := bs\<rparr>)" "server_ok (s\<lparr>enabled_callback := b\<rparr>)"
    "distinct (map fst m) \<Longrightarrow> server_ok (s\<lparr>message_thresholds := m\<rparr>)"
  using assms by (simp_all add: server_ok_def names_ok_def split: option.splits if_splits)

lemma SetLogChannelAssignment_ok:
  assumes ok: "server_ok s"
  shows "server_ok (snd (SetLogChannelAssignment app ctx channel flag s))"
proof (cases "map_of (channel_nums s) channel")
  case None
  then show ?thesis using ok by (simp add: SetLogChannelAssignment_def)
next
  case (Some i)
  let ?n = "length (channels s)" and ?P = "\<lambda>(k, m). take_bit (length (channels s)) m = (m :: channelmask)"
  have a: "list_all ?P (channel_assignments s)" "distinct (map fst (channel_assignments s))"
    and n: "list_all (\<lambda>(nm, i). i < ?n) (channel_nums s)"
    using ok by (simp_all add: server_ok_def)
  have i: "i < ?n" using list_all_map_of [OF n Some] by simp
  have old: "take_bit ?n old = old" if "map_of (channel_assignments s) (app, ctx) = Some old" for old
    using list_all_map_of [OF a(1) that] by simp
  show ?thesis
    using Some a mask_update_ok(1) [OF _ i, of 0] mask_update_ok(2,3) [OF old i]
    by (auto simp: SetLogChannelAssignment_def Let_def alist_simps ok intro!: server_ok_assignments split: option.split)
qed

lemma channel_ok_threshold: "channel_ok (c\<lparr>channel_threshold := l\<rparr>) = channel_ok c"
  by (simp add: channel_ok_def)

lemma SetLogChannelThreshold_ok:
  assumes "server_ok s"
  shows "server_ok (snd (SetLogChannelThreshold channel l s))"
proof (cases "map_of (channel_nums s) channel")
  case (Some i)
  let ?cs = "(channels s)[i := (channels s ! i)\<lparr>channel_threshold := l\<rparr>]"
  have i: "i < length (channels s)" and ch: "list_all channel_ok (channels s)"
    using list_all_map_of [OF _ Some, of "\<lambda>(nm, i). i < length (channels s)"] assms by (simp_all add: server_ok_def)
  have "server_ok (s\<lparr>channels := ?cs\<rparr>)"
    by (rule server_ok_channels [OF assms]) (use i ch in \<open>simp_all add: list_all_length nth_list_update channel_ok_threshold\<close>)
  with Some show ?thesis by (simp add: SetLogChannelThreshold_def)
qed (simp add: SetLogChannelThreshold_def assms)

lemma SetLogLevel_ok:
  assumes "server_ok s"
  shows "server_ok (snd (SetLogLevel app ctx t s))"
proof -
  have "distinct (map fst (AList.delete (app, ctx) (message_thresholds s)))"
    using assms by (simp add: server_ok_def AList.distinct_delete)
  then show ?thesis
    using assms by (simp add: SetLogLevel_def Let_def server_ok_fields distinct_emplace split: ThresholdT.split)
qed

lemma Execute_ok:
  assumes "server_ok s"
  shows "server_ok (snd (Execute E j s))"
  using assms
  by (cases j)
    (simp_all add: ResetToDefault_def ClearDatabase_def StoreDltConfig_def SaveDatabase_def Let_def
      SetMessagingFilteringState_def SetDefaultLogLevel_def SetDltOutputEnable_def SetOutputEnabled_def
      SetLogChannelAssignment_ok SetLogChannelThreshold_ok SetLogLevel_ok reload_ok server_ok_fields)

lemma Execute_reply:
  "\<exists>bs. fst (Execute E j s) = kRetOk # bs \<or> Execute E j s = ([kRetError], s)"
  using AppendId_fold [of channel_name "channels s" "[kRetOk]"]
  by (cases j) (auto simp: ReadLogChannelNames_def ResetToDefault_def StoreDltConfig_def SetLogLevel_def Let_def
      SetMessagingFilteringState_def SetDefaultLogLevel_def SetDltOutputEnable_def SetLogChannelThreshold_def
      SetLogChannelAssignment_def split: option.split)

text \<open>C38: Whatever bytes a diagnostic client sends, the server answers, stays in order, and is unchanged
  when the answer is an error; what is not a command at all is answered by an error.\<close>

theorem diagnostic_commands_are_safe:
  assumes "server_ok s" "OnConfigCommand E command s = (reply, s')"
  shows "server_ok s' \<and> reply \<noteq> [] \<and> (hd reply = kRetOk \<or> reply = [kRetError] \<and> s' = s) \<and>
    (Parse (env_levels E) command = None \<longrightarrow> reply = [kRetError])"
proof (cases "Parse (env_levels E) command")
  case None
  with assms show ?thesis by (auto simp: OnConfigCommand_def)
next
  case (Some j)
  with assms(2) have r: "Execute E j s = (reply, s')" by (simp add: OnConfigCommand_def)
  from Execute_ok [OF assms(1), of E j] Execute_reply [of E j s] Some show ?thesis by (auto simp: r)
qed

section \<open>Every reachable server\<close>

inductive server_reachable :: "'p ServerEnv \<Rightarrow> StaticConfig \<Rightarrow> 'p DltLogServer \<Rightarrow> bool" for E sc where
  start: "server_reachable E sc (NewDltLogServer E sc enabled p)"
| callback: "server_reachable E sc s \<Longrightarrow> server_reachable E sc (SetEnabledCallback b s)"
| command: "server_reachable E sc s \<Longrightarrow> server_reachable E sc (snd (OnConfigCommand E command s))"
| verbose: "server_reachable E sc s \<Longrightarrow> length (entry_payload e) < 2 ^ 32 \<Longrightarrow>
    server_reachable E sc (Server_SendVerbose E t e s)"
| nonverbose: "server_reachable E sc s \<Longrightarrow> length d < 2 ^ 63 \<Longrightarrow>
    server_reachable E sc (Server_SendNonVerbose E desc t d s)"
| transfer: "server_reachable E sc s \<Longrightarrow> server_reachable E sc (Server_SendFtVerbose E d level app ctx nor t s)"
| flush: "server_reachable E sc s \<Longrightarrow> server_reachable E sc (Server_Flush E s)"
| statistics: "server_reachable E sc s \<Longrightarrow> server_reachable E sc (ShowChannelStatistics s)"
| switched: "server_reachable E sc s \<Longrightarrow> server_reachable E sc (SetDltOutputEnabled b s)"

lemma channels_mapped_ok:
  assumes "server_ok s" "\<And>c. channel_ok c \<Longrightarrow> channel_ok (f c) \<and> channel_name (f c) = channel_name c"
  shows "server_ok (s\<lparr>channels := map f (channels s)\<rparr>)"
  by (rule server_ok_channels [OF assms(1)]) (use assms in \<open>simp_all add: server_ok_def list_all_length\<close>)

lemma routed_ok: "routed s dest msg s' \<Longrightarrow> server_ok s'"
  by (simp add: routed_def)

lemma took_keeps: "took c m c' \<Longrightarrow> channel_ok c' \<and> channel_name c' = channel_name c"
  by (simp add: took_def same_setup_def)

lemma server_reachable_ok:
  assumes "distinct (map fst (sc_channels sc))" "server_reachable E sc s"
  shows "server_ok s"
  using assms(2)
proof induction
  case (start enabled p)
  show ?case by (rule NewDltLogServer_ok [OF assms(1)])
next
  case (command s command)
  then show ?case by (simp add: OnConfigCommand_def Execute_ok split: option.split)
next
  case (verbose s e t)
  then show ?case by (intro routed_ok [OF verbose_routed])
next
  case (nonverbose s d desc t)
  then show ?case by (intro routed_ok [OF nonverbose_routed])
next
  case (transfer s d level app ctx nor t)
  then show ?case by (intro routed_ok [OF transfer_routed])
next
  case (flush s)
  then show ?case unfolding Server_Flush_def by (intro channels_mapped_ok took_keeps [OF Flush_took])
next
  case (statistics s)
  then show ?case unfolding ShowChannelStatistics_def by (intro channels_mapped_ok took_keeps [OF ShowStats_took])
qed (simp_all add: SetEnabledCallback_def SetDltOutputEnabled_def server_ok_fields)

text \<open>C15: From its construction on, under any sequence of messages, file transfers, flushes, diagnostic
  commands and switches of the output, the server keeps its invariant: all indices of
  channels are in range, masks and names refer to existing channels, and every channel's
  buffers are in order.\<close>

theorem server_invariant:
  assumes "distinct (map fst (sc_channels sc))" "server_reachable E sc s"
  shows "default_channel s < length (channels s) \<and> length (channels s) < 32 \<and>
    (\<forall>ch. coredump_channel s = Some ch \<longrightarrow> ch < length (channels s)) \<and>
    (\<forall>nm i. map_of (channel_nums s) nm = Some i \<longrightarrow> i < length (channels s)) \<and>
    (\<forall>k m i. map_of (channel_assignments s) k = Some m \<and> bit m i \<longrightarrow> i < length (channels s)) \<and>
    list_all channel_ok (channels s)"
proof -
  have ok: "server_ok s" by (rule server_reachable_ok [OF assms])
  then have "list_all (\<lambda>(k, m). take_bit (length (channels s)) m = m) (channel_assignments s)"
    "list_all (\<lambda>(nm, i). i < length (channels s)) (channel_nums s)" by (simp_all add: server_ok_def)
  from list_all_map_of [OF this(1)] list_all_map_of [OF this(2)] ok show ?thesis
    by (auto simp: server_ok_def mask_within)
qed

theorem server_invariant_witness:
  "default_channel example_server < length (channels example_server) \<and> length (channels example_server) < 32 \<and>
    list_all channel_ok (channels example_server)"
  using server_invariant [where sc = example_static and E = example_env and s = example_server]
  by (simp add: example_static_def Let_def server_reachable.start [of example_env example_static, unfolded example_static_def Let_def])

theorem diagnostic_commands_are_safe_witness:
  "server_ok (snd (OnConfigCommand example_env [9, 1] example_server)) \<and> fst (OnConfigCommand example_env [9, 1] example_server) \<noteq> [] \<and>
   fst (OnConfigCommand example_env [9, 1] example_server) = [kRetError]"
  using diagnostic_commands_are_safe [OF example_server_ok surjective_pairing, of example_env "[9, 1]"]
  by (simp add: Parse_def command_ids field_sizes)

text \<open>An assignment command adds exactly the named channel to, or removes exactly it from, the
  channels of its application and context, and touches no other assignment.\<close>

theorem assignment_command_effect:
  assumes "server_ok s" "map_of (channel_nums s) channel = Some i"
  shows "let as = map_of (channel_assignments s);
             as' = map_of (channel_assignments (snd (SetLogChannelAssignment app ctx channel action s)))
         in (\<forall>k. k \<noteq> (app, ctx) \<longrightarrow> as' k = as k) \<and>
            (\<forall>j. (\<exists>m. as' (app, ctx) = Some m \<and> bit m j) \<longleftrightarrow>
              (case action of kAdd \<Rightarrow> (\<exists>m. as (app, ctx) = Some m \<and> bit m j) \<or> j = i
                            | kRemove \<Rightarrow> (\<exists>m. as (app, ctx) = Some m \<and> bit m j) \<and> j \<noteq> i))"
proof -
  have "list_all (\<lambda>(nm, i). i < length (channels s)) (channel_nums s)" "length (channels s) < 32"
    using assms(1) by (simp_all add: server_ok_def)
  from list_all_map_of [OF this(1) assms(2)] this(2) have i: "i < 32" by simp
  have add: "bit (m OR push_bit i 1) j \<longleftrightarrow> bit m j \<or> j = i" and one: "bit (push_bit i 1 :: channelmask) j \<longleftrightarrow> j = i"
    and rem: "bit (m AND NOT (push_bit i 1)) j \<longleftrightarrow> bit m j \<and> j \<noteq> i" for m :: channelmask and j
    using i bit_channelmask [of m j] unfolding bit_or_iff bit_and_iff bit_not_iff bit_channel by auto
  have none: "m AND NOT (push_bit i 1) = 0 \<Longrightarrow> bit m j \<Longrightarrow> j = i" for m :: channelmask and j
    using rem [of m j] by auto
  show ?thesis
    using assms(2) none
    by (cases action; cases "map_of (channel_assignments s) (app, ctx)")
      (auto simp: SetLogChannelAssignment_def Let_def map_of_emplace update_conv delete_conv add one rem simp del: push_bit_of_1)
qed

theorem assignment_command_effect_witness:
  "map_of (channel_nums example_server) (65, 65, 0, 0) = Some 0 \<and>
   (\<exists>m. map_of (channel_assignments (snd (SetLogChannelAssignment (1, 0, 0, 0) (2, 0, 0, 0) (65, 65, 0, 0) kAdd example_server)))
      ((1, 0, 0, 0), (2, 0, 0, 0)) = Some m \<and> bit m 0)"
proof -
  have c: "map_of (channel_nums example_server) (65, 65, 0, 0) = Some 0"
    by (simp add: NewDltLogServer_def InitLogChannels_def finish_init_def init_throughput_def init_thresholds_def
        init_assignments_def assign_context_def subscript_def create_channel_def example_static_def example_env_def
        empty_config_def Let_def)
  show ?thesis using assignment_command_effect [OF example_server_ok c, of "(1, 0, 0, 0)" "(2, 0, 0, 0)" kAdd] c
    by (simp add: Let_def)
qed

end
