(* ===== verification/ServerPersistence.thy ===== *)
theory ServerPersistence
  imports ServerProperties
begin

text \<open>
  What the log server keeps across a restart, for any pair of callbacks that read and write the
  database: a server on a stored configuration behaves as the one that stored it, a reset server
  as a new one on the cleared database, and the listener is told of every change of the output.
  The callbacks of the program are put in by \<open>ConfigProperties\<close>.
\<close>

section \<open>Nested tables\<close>

definition nlook :: "('a \<times> ('b \<times> 'v) list) list \<Rightarrow> 'a \<Rightarrow> 'b \<Rightarrow> 'v option" where
  "nlook m a b = (case map_of m a of None \<Rightarrow> None | Some inner \<Rightarrow> map_of inner b)"

lemma nlook_simps: "nlook [] a b = None" "nlook ((a', inner) # m) a b = (if a = a' then map_of inner b else nlook m a b)"
  by (simp_all add: nlook_def)

lemma nested_update_eq:
  "nested_update a b v m = AList.update a (AList.update b v (case map_of m a of None \<Rightarrow> [] | Some inner \<Rightarrow> inner)) m"
proof -
  have "AList.update a x (m @ [(a, [])]) = AList.update a x m" if "map_of m a = None" for x
    using that by (induction m) (auto split: if_splits)
  then show ?thesis by (auto simp: nested_update_def subscript_def Let_def split: option.splits)
qed

lemma nlook_nested_update: "nlook (nested_update a b v m) x y = (if x = a \<and> y = b then Some v else nlook m x y)"
  by (auto simp: nlook_def nested_update_eq update_conv split: option.splits)

lemma distinct_nested_update: "distinct (map fst m) \<Longrightarrow> distinct (map fst (nested_update a b v m))"
  by (simp add: nested_update_eq AList.distinct_update)

lemma saved_table:
  assumes "distinct (map fst tab)"
  shows "nlook (fold (\<lambda>((app, ctx), v). nested_update app ctx (g v)) tab m) a b =
      (case map_of tab (a, b) of Some v \<Rightarrow> Some (g v) | None \<Rightarrow> nlook m a b)"
    and "distinct (map fst m) \<Longrightarrow> distinct (map fst (fold (\<lambda>((app, ctx), v). nested_update app ctx (g v)) tab m))"
  using assms
proof (induction tab arbitrary: m)
  case (Cons e tab)
  obtain app ctx v where e: "e = ((app, ctx), v)" by (cases e) auto
  {
    case 1
    then have d: "distinct (map fst tab)" "map_of tab (app, ctx) = None" by (auto simp: e map_of_eq_None_iff)
    show ?case using Cons.IH(1) [OF d(1), of "nested_update app ctx (g v) m"] d(2)
      by (auto simp: e nlook_nested_update split: option.splits)
  next
    case 2
    then show ?case using Cons.IH(2) [of "nested_update app ctx (g v) m"] by (simp add: e distinct_nested_update)
  }
qed simp_all

lemma emplace_inner:
  "map_of (fold (\<lambda>(ctx, v). emplace (app, ctx) (g v)) contexts tab) (a, b) =
     (case map_of tab (a, b) of Some x \<Rightarrow> Some x | None \<Rightarrow> if a = app then map_option g (map_of contexts b) else None)"
  by (induction contexts arbitrary: tab) (auto simp: map_of_emplace split: option.splits if_splits)

lemma emplace_table:
  assumes "distinct (map fst m)"
  shows "map_of (fold (\<lambda>(app, contexts). fold (\<lambda>(ctx, v). emplace (app, ctx) (g v)) contexts) m tab) (a, b) =
     (case map_of tab (a, b) of Some x \<Rightarrow> Some x | None \<Rightarrow> map_option g (nlook m a b))"
  using assms
proof (induction m arbitrary: tab)
  case (Cons e m)
  obtain app contexts where e: "e = (app, contexts)" by (cases e)
  have "nlook m app b = None" using Cons.prems by (simp add: e nlook_def map_of_eq_None_iff [THEN iffD2])
  moreover have "distinct (map fst m)" using Cons.prems by simp
  ultimately show ?case
    by (auto simp: e Cons.IH emplace_inner nlook_simps split: option.splits)
qed (simp add: nlook_simps split: option.split)

section \<open>Masks and names\<close>

text \<open>The number of a channel name, zero when it is unknown, and the mask of a list of names.\<close>

definition num_of :: "(id4 \<times> nat) list \<Rightarrow> id4 \<Rightarrow> nat" where
  "num_of nums nm = (case map_of nums nm of Some i \<Rightarrow> i | None \<Rightarrow> 0)"

definition mask_of :: "(id4 \<Rightarrow> nat) \<Rightarrow> id4 list \<Rightarrow> channelmask" where
  "mask_of f chs = fold (\<lambda>x m. m OR push_bit (f x) 1) chs 0"

lemma channel_set_mask:
  "channel_set chs m nums = (m', nums') \<Longrightarrow>
   num_of nums' = num_of nums \<and> m' = fold (\<lambda>x m. m OR push_bit (num_of nums x) 1) chs m"
proof (induction chs arbitrary: m nums)
  case (Cons ch chs)
  obtain i nums1 where i: "subscript 0 ch nums = (i, nums1)" by (cases "subscript 0 ch nums")
  then have n: "num_of nums1 = num_of nums" "i = num_of nums ch"
    by (auto simp: subscript_def num_of_def fun_eq_iff split: option.splits if_splits)
  show ?case using Cons.IH [of "m OR push_bit i 1" nums1] Cons.prems i n by simp
qed simp

lemma bit_mask_fold:
  "bit (fold (\<lambda>x m. m OR push_bit (f x) 1) chs (m :: channelmask)) j \<longleftrightarrow> bit m j \<or> j < 32 \<and> (\<exists>x \<in> set chs. f x = j)"
  by (induction chs arbitrary: m) (auto simp: bit_or_iff bit_exp_iff)

lemma bit_mask_of: "bit (mask_of f chs) j \<longleftrightarrow> j < 32 \<and> (\<exists>x \<in> set chs. f x = j)"
  unfolding mask_of_def bit_mask_fold by simp

lemma mask_names_round_trip:
  assumes "take_bit (length chs) m = m" "\<And>i. i < length chs \<Longrightarrow> f (channel_name (chs ! i)) = i"
  shows "mask_of f (mask_names m chs) = m"
proof -
  have names: "set (mask_names m chs) = (\<lambda>i. channel_name (chs ! i)) ` {i. i < length chs \<and> bit m i}"
    by (auto simp: mask_names_def in_set_enumerate_eq image_iff split: prod.splits)
  have within: "bit m j \<Longrightarrow> j < length chs" for j using assms(1) by (simp add: mask_within)
  show ?thesis
  proof (rule bit_eqI)
    fix j
    have "(\<exists>x \<in> set (mask_names m chs). f x = j) \<longleftrightarrow> (\<exists>i. i < length chs \<and> bit m i \<and> i = j)"
      unfolding names using assms(2) by auto
    then show "bit (mask_of f (mask_names m chs)) j = bit m j"
      unfolding bit_mask_of using within [of j] bit_channelmask [of m j] by auto
  qed
qed

lemma assign_contexts:
  "channel_assignments (fold (assign_context app) ctxs s) =
     fold (\<lambda>(ctx, chs). emplace (app, ctx) (mask_of (num_of (channel_nums s)) chs)) ctxs (channel_assignments s) \<and>
   num_of (channel_nums (fold (assign_context app) ctxs s)) = num_of (channel_nums s)"
proof (induction ctxs arbitrary: s)
  case (Cons e ctxs)
  obtain ctx chs where e: "e = (ctx, chs)" by (cases e)
  obtain m nums where c: "channel_set chs 0 (channel_nums s) = (m, nums)" by (cases "channel_set chs 0 (channel_nums s)")
  from channel_set_mask [OF c] Cons.IH [of "assign_context app e s"] show ?case
    by (simp add: e assign_context_def c mask_of_def)
qed simp

lemma assign_all:
  "channel_assignments (fold (\<lambda>(app, contexts). fold (assign_context app) contexts) m s) =
     fold (\<lambda>(app, contexts). fold (\<lambda>(ctx, chs). emplace (app, ctx) (mask_of (num_of (channel_nums s)) chs)) contexts) m
       (channel_assignments s) \<and>
   num_of (channel_nums (fold (\<lambda>(app, contexts). fold (assign_context app) contexts) m s)) = num_of (channel_nums s)"
proof (induction m arbitrary: s)
  case (Cons e m)
  obtain app contexts where e: "e = (app, contexts)" by (cases e)
  show ?case using Cons.IH [of "fold (assign_context app) contexts s"] assign_contexts [of app contexts s] by (simp add: e)
qed simp

lemma init_assignments_lookup:
  assumes "distinct (map fst m)"
  shows "map_of (channel_assignments (init_assignments m s)) (a, b) =
      map_option (mask_of (num_of (channel_nums s))) (nlook m a b)"
    "num_of (channel_nums (init_assignments m s)) = num_of (channel_nums s)"
  using assign_all [of m "s\<lparr>channel_assignments := []\<rparr>"]
  by (simp_all add: init_assignments_def emplace_table [OF assms])

section \<open>What never changes\<close>

definition sc_nums :: "StaticConfig \<Rightarrow> (id4 \<times> nat) list" where
  "sc_nums sc = zip (map fst (sc_channels sc)) [0..<length (sc_channels sc)]"

definition setup_ok :: "StaticConfig \<Rightarrow> 'p DltLogServer \<Rightarrow> bool" where
  "setup_ok sc s \<longleftrightarrow> static_config s = sc \<and>
     (configured sc \<longrightarrow> default_channel s = num_of (sc_nums sc) (sc_default_channel sc) \<and>
        num_of (channel_nums s) = num_of (sc_nums sc))"

lemma create_default:
  assumes "distinct (map fst cs)"
  shows "default_channel (fold (create_channel E config) (enumerate k cs) s) =
    (case map_of (zip (map fst cs) [k..<k + length cs]) (sc_default_channel (static_config s)) of
       Some i \<Rightarrow> i | None \<Rightarrow> default_channel s)"
  using assms
proof (induction cs arbitrary: k s)
  case (Cons e cs)
  obtain nm d where e: "e = (nm, d)" by (cases e)
  let ?s = "create_channel E config (k, e) s"
  have f: "static_config ?s = static_config s"
    "default_channel ?s = (if sc_default_channel (static_config s) = nm then k else default_channel s)"
    by (simp_all add: e create_channel_def Let_def)
  have up: "[k..<k + length (e # cs)] = k # [Suc k..<Suc k + length cs]" by (simp add: upt_conv_Cons del: upt_Suc)
  have nm: "map_of (zip (map fst cs) [Suc k..<Suc k + length cs]) nm = None" using Cons.prems by (simp add: e map_of_zip_is_None)
  have "default_channel (fold (create_channel E config) (enumerate (Suc k) cs) ?s) =
      (case map_of (zip (map fst cs) [Suc k..<Suc k + length cs]) (sc_default_channel (static_config s)) of
         Some i \<Rightarrow> i | None \<Rightarrow> default_channel ?s)"
    using Cons.IH [of "Suc k" ?s] Cons.prems by (simp add: f(1))
  with nm show ?case unfolding up
    by (auto simp: f(2) [unfolded e] e simp del: map_of_zip_is_None upt_Suc split: option.split)
qed simp

lemma finish_init_tables:
  assumes "distinct (map fst (if pc_channels config \<noteq> [] then pc_channel_assignments config else sc_channel_assignments sc))"
  shows "map_of (channel_assignments (finish_init config sc s)) (a, b) = map_option (mask_of (num_of (channel_nums s)))
      (nlook (if pc_channels config \<noteq> [] then pc_channel_assignments config else sc_channel_assignments sc) a b)"
  using init_assignments_lookup(1) [OF assms, of s]
  by (simp add: finish_init_def init_throughput_def init_thresholds_def Let_def)

lemma finish_init_nums: "num_of (channel_nums (finish_init config sc s)) = num_of (channel_nums s)"
  using assign_all [of _ "s\<lparr>channel_assignments := []\<rparr>"]
  by (simp add: finish_init_def init_throughput_def init_thresholds_def init_assignments_def Let_def)

lemma finish_init_setup:
  assumes "setup_ok sc s" "0 < n" "list_all (\<lambda>(nm, i). i < n) (channel_nums s)"
  shows "setup_ok sc (finish_init config sc' s)"
  using assms finish_init_fields [OF assms(2,3), of config sc'] finish_init_nums [of config sc' s] by (simp add: setup_ok_def)

lemma created_setup:
  assumes "distinct (map fst (sc_channels sc))" "configured sc" "static_config s0 = sc" "default_channel s0 = 0" "channel_nums s0 = []"
  shows "setup_ok sc (fold (create_channel E config) (enumerate 0 (sc_channels sc)) s0)"
proof -
  let ?s = "fold (create_channel E config) (enumerate 0 (sc_channels sc)) s0"
  note c = create_channels [OF assms(1) refl, of E config 0 s0]
  have "map_of (channel_nums ?s) nm = (case map_of (zip (map fst (sc_channels sc)) [0..<0 + length (sc_channels sc)]) nm of
        None \<Rightarrow> map_of (channel_nums s0) nm | Some i \<Rightarrow> Some i)" for nm using c by (elim conjE) (rule fun_cong)
  then have "num_of (channel_nums ?s) = num_of (sc_nums sc)"
    by (auto simp: num_of_def sc_nums_def fun_eq_iff assms(5) simp del: map_of_zip_is_None split: option.split)
  moreover have "default_channel ?s = num_of (sc_nums sc) (sc_default_channel sc)"
    using create_default [OF assms(1), of E config 0 s0] assms(3,4)
    by (simp add: num_of_def sc_nums_def del: map_of_zip_is_None split: option.split)
  moreover have "static_config ?s = sc" using c assms(3) by simp
  ultimately show ?thesis by (simp add: setup_ok_def)
qed

lemma setup_fields:
  "static_config s' = static_config s \<Longrightarrow> default_channel s' = default_channel s \<Longrightarrow> channel_nums s' = channel_nums s \<Longrightarrow>
   setup_ok sc s \<Longrightarrow> setup_ok sc s'"
  by (simp add: setup_ok_def)

lemma created_nums:
  assumes "distinct (map fst cs)" "channel_nums s0 = []"
  shows "list_all (\<lambda>(nm, i). i < length cs) (channel_nums (fold (create_channel E config) (enumerate 0 cs) s0))"
  using create_channels [OF assms(1) refl, of E config 0 s0] assms(2) by simp

lemma new_setup:
  assumes "distinct (map fst (sc_channels sc))"
  shows "setup_ok sc (NewDltLogServer E sc enabled p)"
proof (cases "configured sc")
  case False
  then show ?thesis
    by (simp add: NewDltLogServer_def InitLogChannels_unconfigured InitLogChannelsDefault_def setup_ok_def)
next
  case True
  then have n: "0 < length (sc_channels sc)" by (simp add: configured_def)
  show ?thesis
    by (simp add: True NewDltLogServer_def InitLogChannels_configured Let_def)
      (rule finish_init_setup [OF created_setup [OF assms True] n created_nums [OF assms]]; simp)
qed

lemma reload_setup:
  assumes "server_ok s" "setup_ok sc s"
  shows "setup_ok sc (InitLogChannels E True s)"
proof (cases "configured (static_config s)")
  case True
  let ?cs = "map (reload_channel E (reader_callback E (persistent s)) (static_config s)) (channels s)"
  have "setup_ok sc (s\<lparr>coredump_channel := None, channels := ?cs\<rparr>)" using assms(2) by (simp add: setup_ok_def)
  moreover have "0 < length (channels s)"
    "list_all (\<lambda>(nm, i). i < length (channels s)) (channel_nums (s\<lparr>coredump_channel := None, channels := ?cs\<rparr>))"
    using assms(1) by (simp_all add: server_ok_def)
  ultimately have "setup_ok sc (finish_init (reader_callback E (persistent s)) (static_config s)
      (s\<lparr>coredump_channel := None, channels := ?cs\<rparr>))" by (rule finish_init_setup)
  with True show ?thesis by (simp add: InitLogChannels_configured Let_def)
next
  case False
  with assms(2) show ?thesis
    by (simp add: InitLogChannels_unconfigured InitLogChannelsDefault_def Let_def setup_ok_def)
qed

lemma Execute_setup:
  assumes "server_ok s" "setup_ok sc s"
  shows "setup_ok sc (snd (Execute E j s))"
proof (cases j)
  case ResetToDefaultHandler
  have "server_ok (ClearDatabase E s)" "setup_ok sc (ClearDatabase E s)"
    using assms by (simp_all add: ClearDatabase_def server_ok_fields setup_ok_def)
  with ResetToDefaultHandler show ?thesis by (simp add: ResetToDefault_def reload_setup)
qed (use assms(2) in \<open>auto simp: StoreDltConfig_def SaveDatabase_def Let_def SetMessagingFilteringState_def SetDefaultLogLevel_def
      SetDltOutputEnable_def SetOutputEnabled_def SetLogChannelAssignment_def SetLogChannelThreshold_def SetLogLevel_def
      intro: setup_fields split: option.split ThresholdT.split\<close>)

lemma routed_fields:
  assumes "routed s dest msg s'"
  shows "static_config s' = static_config s" "default_channel s' = default_channel s" "channel_nums s' = channel_nums s"
  using assms by (cases s; cases s'; simp add: routed_def)+

lemma routed_setup: "routed s dest msg s' \<Longrightarrow> setup_ok sc s \<Longrightarrow> setup_ok sc s'"
  by (rule setup_fields) (rule routed_fields, assumption)+

lemma reachable_setup:
  assumes "distinct (map fst (sc_channels sc))" "server_reachable E sc s"
  shows "setup_ok sc s"
  using assms(2)
proof induction
  case (start enabled p)
  show ?case by (rule new_setup [OF assms(1)])
next
  case (command s command)
  with server_reachable_ok [OF assms(1) command.hyps] show ?case
    by (simp add: OnConfigCommand_def Execute_setup split: option.split)
next
  case (verbose s e t)
  show ?case by (rule routed_setup [OF verbose_routed [OF server_reachable_ok [OF assms(1) verbose.hyps(1)] verbose.hyps(2)] verbose.IH])
next
  case (nonverbose s d desc t)
  show ?case
    by (rule routed_setup [OF nonverbose_routed [OF server_reachable_ok [OF assms(1) nonverbose.hyps(1)] nonverbose.hyps(2)] nonverbose.IH])
next
  case (transfer s d level app ctx nor t)
  show ?case by (rule routed_setup [OF transfer_routed [OF server_reachable_ok [OF assms(1) transfer.hyps]] transfer.IH])
qed (simp_all add: SetEnabledCallback_def SetDltOutputEnabled_def Server_Flush_def ShowChannelStatistics_def setup_ok_def)

section \<open>Restart\<close>

text \<open>The part of a server that decides what is sent: the filter, the assignments and the thresholds.\<close>

definition same_behaviour :: "'p DltLogServer \<Rightarrow> 'p DltLogServer \<Rightarrow> bool" where
  "same_behaviour s s' \<longleftrightarrow> filtering_enabled s' = filtering_enabled s \<and> default_threshold s' = default_threshold s \<and>
     map_of (message_thresholds s') = map_of (message_thresholds s) \<and>
     map_of (channel_assignments s') = map_of (channel_assignments s) \<and> default_channel s' = default_channel s \<and>
     map channel_name (channels s') = map channel_name (channels s) \<and>
     map channel_threshold (channels s') = map channel_threshold (channels s)"

lemma same_behaviour_destination: "same_behaviour s s' \<Longrightarrow> destination s' = destination s"
  by (intro ext) (auto simp: same_behaviour_def destination_def split: option.splits)

text \<open>The tables after an initialisation, in terms of the configuration it reads.\<close>

lemma finish_configuration:
  fixes config :: PersistentConfig and sc :: StaticConfig
  defines "as \<equiv> if pc_channels config \<noteq> [] then pc_channel_assignments config else sc_channel_assignments sc"
    and "ts \<equiv> if pc_channels config \<noteq> [] then pc_message_thresholds config else sc_message_thresholds sc"
  assumes "distinct (map fst as)" "distinct (map fst ts)"
  shows "map_of (channel_assignments (finish_init config sc s)) (a, b) = map_option (mask_of (num_of (channel_nums s))) (nlook as a b)"
    "map_of (message_thresholds (finish_init config sc s)) (a, b) = nlook ts a b"
    "filtering_enabled (finish_init config sc s) = (if pc_channels config \<noteq> [] then pc_filtering_enabled config else sc_filtering_enabled sc)"
    "default_threshold (finish_init config sc s) = (if pc_channels config \<noteq> [] then pc_default_threshold config else sc_default_threshold sc)"
proof -
  show "map_of (channel_assignments (finish_init config sc s)) (a, b) = map_option (mask_of (num_of (channel_nums s))) (nlook as a b)"
    using finish_init_tables assms(3) unfolding as_def by blast
  show "map_of (message_thresholds (finish_init config sc s)) (a, b) = nlook ts a b"
    using emplace_table [OF assms(4), of "\<lambda>t. t" "[]" a b] unfolding ts_def
    by (simp add: finish_init_def init_throughput_def init_thresholds_def Let_def option.map_ident)
qed (simp_all add: finish_init_def init_throughput_def init_thresholds_def Let_def)

lemma updates_lookup:
  assumes "distinct (map f xs)" "x \<in> set xs"
  shows "map_of (fold (\<lambda>x. AList.update (f x) (g x)) xs m) (f x) = Some (g x)"
proof -
  have other: "map_of (fold (\<lambda>x. AList.update (f x) (g x)) xs m) k = map_of m k" if "k \<notin> f ` set xs" for xs m k
    using that by (induction xs arbitrary: m) (auto simp: update_conv)
  show ?thesis using assms
  proof (induction xs arbitrary: m)
    case (Cons y xs)
    then show ?case by (cases "x = y") (auto simp: other update_conv)
  qed simp
qed

lemma updates_nonempty: "xs \<noteq> [] \<Longrightarrow> fold (\<lambda>x. AList.update (f x) (g x)) xs m \<noteq> []"
proof (induction xs arbitrary: m)
  case (Cons x xs)
  have "AList.update (f x) (g x) m \<noteq> []" by (cases m) auto
  then show ?case using Cons.IH by (cases xs) auto
qed simp

lemma persisted_threshold_saved:
  assumes "distinct (map channel_name (channels s))" "\<forall>nm \<in> channel_name ` set (channels s). id_plain nm" "c \<in> set (channels s)"
  shows "persisted_threshold E (saved_config E s) (channel_name c) = channel_threshold c"
proof -
  have "inj_on Dltid_Data (channel_name ` set (channels s))"
    using assms(2) by (intro inj_on_inverseI [where g = id_of_bytes]) (auto simp: id_plain_data)
  then have "distinct (map (\<lambda>c. Dltid_Data (channel_name c)) (channels s))"
    using assms(1) distinct_map [of Dltid_Data "map channel_name (channels s)"] by (simp add: o_def)
  from updates_lookup [OF this assms(3), of channel_threshold "[]"] show ?thesis
    by (simp add: persisted_threshold_def saved_config_def)
qed

lemma saved_tables:
  assumes ok: "server_ok s" and nums: "\<And>i. i < length (channels s) \<Longrightarrow> f (channel_name (channels s ! i)) = i"
  shows "map_option (mask_of f) (nlook (pc_channel_assignments (saved_config E s)) a b) = map_of (channel_assignments s) (a, b)"
    "nlook (pc_message_thresholds (saved_config E s)) a b = map_of (message_thresholds s) (a, b)"
    "distinct (map fst (pc_channel_assignments (saved_config E s)))" "distinct (map fst (pc_message_thresholds (saved_config E s)))"
proof -
  have d: "distinct (map fst (channel_assignments s))" "distinct (map fst (message_thresholds s))"
    and m: "list_all (\<lambda>(k, m). take_bit (length (channels s)) m = m) (channel_assignments s)"
    using ok by (simp_all add: server_ok_def)
  have "mask_of f (mask_names m (channels s)) = m" if "map_of (channel_assignments s) (a, b) = Some m" for m
    using list_all_map_of [OF m that] nums by (intro mask_names_round_trip) simp_all
  then show "map_option (mask_of f) (nlook (pc_channel_assignments (saved_config E s)) a b) = map_of (channel_assignments s) (a, b)"
    using saved_table(1) [OF d(1), of "\<lambda>m. mask_names m (channels s)" "[]" a b]
    by (auto simp: saved_config_def nlook_simps split: option.splits)
  show "nlook (pc_message_thresholds (saved_config E s)) a b = map_of (message_thresholds s) (a, b)"
    using saved_table(1) [OF d(2), of "\<lambda>t. t" "[]" a b] by (simp add: saved_config_def nlook_simps split: option.splits)
  show "distinct (map fst (pc_channel_assignments (saved_config E s)))" "distinct (map fst (pc_message_thresholds (saved_config E s)))"
    using saved_table(2) [OF d(1), where g = "\<lambda>m. mask_names m (channels s)" and m = "[]"] saved_table(2) [OF d(2), where g = "\<lambda>t. t" and m = "[]"] by (simp_all add: saved_config_def)
qed

lemma sc_nums_nth:
  assumes "distinct (map fst (sc_channels sc))" "i < length (sc_channels sc)"
  shows "num_of (sc_nums sc) (fst (sc_channels sc ! i)) = i"
proof -
  have "map_of (sc_nums sc) (map fst (sc_channels sc) ! i) = Some i"
    using assms unfolding sc_nums_def by (subst map_of_zip_nth) simp_all
  with assms(2) show ?thesis by (simp add: num_of_def)
qed

lemma created_fields:
  "channel_name (created E config e) = fst e"
  "channel_threshold (created E config e) =
     (if pc_channels config \<noteq> [] then persisted_threshold E config (fst e) else cd_channel_threshold (snd e))"
  by (simp_all add: created_def NewDltLogChannel_def split_beta)

lemma new_configured:
  assumes "configured sc" "distinct (map fst (sc_channels sc))"
  obtains s1 where "NewDltLogServer E sc enabled p = finish_init (reader_callback E p) sc s1"
    "num_of (channel_nums s1) = num_of (sc_nums sc)"
    "channels (NewDltLogServer E sc enabled p) = map (created E (reader_callback E p)) (sc_channels sc)"
    "default_channel (NewDltLogServer E sc enabled p) = num_of (sc_nums sc) (sc_default_channel sc)"
proof -
  let ?config = "reader_callback E p"
  define s0 where "s0 = \<lparr>filtering_enabled = False, dlt_output_enabled = enabled, default_threshold = 0, message_thresholds = [],
        channel_assignments = [], throughput_overall = 0, throughput_apps = [], static_config = sc, channels = [],
        endpoints = [], default_channel = 0, coredump_channel = None, channel_nums = [], enabled_callback = False,
        enabled_calls = [], persistent = p\<rparr>"
  define s1 where "s1 = fold (create_channel E ?config) (enumerate 0 (sc_channels sc)) s0"
  have new: "NewDltLogServer E sc enabled p = finish_init ?config sc s1"
    using assms(1) by (simp add: NewDltLogServer_def InitLogChannels_configured s1_def s0_def Let_def)
  have "setup_ok sc s1" unfolding s1_def by (rule created_setup [OF assms(2,1)]) (simp_all add: s0_def)
  then have nums: "num_of (channel_nums s1) = num_of (sc_nums sc)" using assms(1) by (simp add: setup_ok_def)
  have "channels s1 = map (created E ?config) (sc_channels sc)"
    using create_channels [OF assms(2) s1_def] by (simp add: s0_def)
  moreover have "list_all (\<lambda>(nm, i). i < length (sc_channels sc)) (channel_nums s1)"
    unfolding s1_def by (rule created_nums [OF assms(2)]) (simp add: s0_def)
  moreover have "0 < length (sc_channels sc)" using assms(1) by (simp add: configured_def)
  ultimately have "channels (NewDltLogServer E sc enabled p) = map (created E ?config) (sc_channels sc)"
    using finish_init_fields(2) [of "length (sc_channels sc)" s1 ?config sc] unfolding new by simp
  moreover have "default_channel (NewDltLogServer E sc enabled p) = num_of (sc_nums sc) (sc_default_channel sc)"
    using new_setup [OF assms(2), of E enabled p] assms(1) by (simp add: setup_ok_def)
  ultimately show ?thesis using new nums by (intro that) auto
qed

lemma reachable_names:
  assumes "configured sc" "distinct (map fst (sc_channels sc))" "server_reachable E sc s"
  shows "map channel_name (channels s) = map fst (sc_channels sc)" "length (channels s) = length (sc_channels sc)"
proof -
  show "map channel_name (channels s) = map fst (sc_channels sc)"
    using server_reachable_ok [OF assms(2,3)] reachable_setup [OF assms(2,3)] assms(1)
    by (simp add: server_ok_def names_ok_def setup_ok_def)
  then show "length (channels s) = length (sc_channels sc)" using map_eq_imp_length_eq by blast
qed

text \<open>A new server that reads back what was saved behaves as the old one.\<close>

lemma stored_behaviour:
  assumes "configured sc" "distinct (map fst (sc_channels sc))" "\<forall>nm \<in> fst ` set (sc_channels sc). id_plain nm"
    and "reader_callback E (writer_callback E (saved_config E s) (persistent s)) = saved_config E s"
    and "server_reachable E sc s"
  shows "same_behaviour s (NewDltLogServer E sc enabled (persistent (snd (StoreDltConfig E s)))) \<and>
    destination (NewDltLogServer E sc enabled (persistent (snd (StoreDltConfig E s)))) = destination s"
proof -
  let ?p = "persistent (snd (StoreDltConfig E s))" and ?config = "saved_config E s"
  let ?s' = "NewDltLogServer E sc enabled (persistent (snd (StoreDltConfig E s)))"
  have ok: "server_ok s" and stp: "setup_ok sc s" using server_reachable_ok reachable_setup assms(2,5) by blast+
  note names = reachable_names [OF assms(1,2,5)]
  have read: "reader_callback E ?p = ?config"
    using assms(4) by (simp add: StoreDltConfig_def SaveDatabase_def)
  obtain s1 where new: "?s' = finish_init ?config sc s1" "num_of (channel_nums s1) = num_of (sc_nums sc)"
    "channels ?s' = map (created E ?config) (sc_channels sc)" "default_channel ?s' = num_of (sc_nums sc) (sc_default_channel sc)"
    using new_configured [OF assms(1,2), of E enabled ?p, unfolded read] by blast
  have has: "pc_channels ?config \<noteq> []"
    using ok updates_nonempty [of "channels s" "\<lambda>c. Dltid_Data (channel_name c)" channel_threshold "[]"]
    by (simp add: saved_config_def server_ok_def)
  have nth: "channel_name (channels s ! i) = fst (sc_channels sc ! i)" if "i < length (channels s)" for i
    using names that by (metis nth_map)
  have nums: "num_of (sc_nums sc) (channel_name (channels s ! i)) = i" if "i < length (channels s)" for i
    using sc_nums_nth [OF assms(2), of i] that names(2) nth by simp
  note saved = saved_tables [OF ok nums, where E = E]
  have tabs: "map_of (channel_assignments ?s') k = map_of (channel_assignments s) k"
    "map_of (message_thresholds ?s') k = map_of (message_thresholds s) k" for k
    using finish_configuration(1,2) [of ?config sc s1 "fst k" "snd k"] saved has new(2) unfolding new(1) by simp_all
  have flags: "filtering_enabled ?s' = filtering_enabled s" "default_threshold ?s' = default_threshold s"
    using finish_configuration(3,4) [of ?config sc s1] saved(3,4) has unfolding new(1) by (simp_all add: saved_config_def)
  have plain: "\<forall>nm \<in> channel_name ` set (channels s). id_plain nm"
    using assms(3) arg_cong [OF names(1), where f = set] by simp
  have "map channel_threshold (channels ?s') = map channel_threshold (channels s)"
  proof (rule nth_equalityI)
    fix i assume "i < length (map channel_threshold (channels ?s'))"
    then have i: "i < length (channels s)" "i < length (sc_channels sc)" using names(2) by (simp_all add: new(3))
    have "persisted_threshold E ?config (channel_name (channels s ! i)) = channel_threshold (channels s ! i)"
      using assms(2) plain names(1) i by (intro persisted_threshold_saved) simp_all
    with i has nth show "map channel_threshold (channels ?s') ! i = map channel_threshold (channels s) ! i"
      by (simp add: new(3) created_fields)
  qed (simp add: new(3) names(2))
  then have "same_behaviour s ?s'"
    using tabs flags new(3,4) names(1) stp assms(1) by (simp add: same_behaviour_def created_fields setup_ok_def o_def fun_eq_iff)
  with same_behaviour_destination show ?thesis by blast
qed

section \<open>Reset\<close>

lemma create_coredump:
  assumes "distinct (map fst cs)"
  shows "coredump_channel (fold (create_channel E config) (enumerate k cs) s) =
    (case map_of (zip (map fst cs) [k..<k + length cs]) (sc_coredump_channel (static_config s)) of
       Some i \<Rightarrow> Some i | None \<Rightarrow> coredump_channel s)"
  using assms
proof (induction cs arbitrary: k s)
  case (Cons e cs)
  obtain nm d where e: "e = (nm, d)" by (cases e)
  let ?s = "create_channel E config (k, e) s"
  have f: "static_config ?s = static_config s"
    "coredump_channel ?s = (if sc_coredump_channel (static_config s) = nm then Some k else coredump_channel s)"
    by (simp_all add: e create_channel_def Let_def)
  have up: "[k..<k + length (e # cs)] = k # [Suc k..<Suc k + length cs]" by (simp add: upt_conv_Cons del: upt_Suc)
  have nm: "map_of (zip (map fst cs) [Suc k..<Suc k + length cs]) nm = None" using Cons.prems by (simp add: e map_of_zip_is_None)
  have "coredump_channel (fold (create_channel E config) (enumerate (Suc k) cs) ?s) =
      (case map_of (zip (map fst cs) [Suc k..<Suc k + length cs]) (sc_coredump_channel (static_config s)) of
         Some i \<Rightarrow> Some i | None \<Rightarrow> coredump_channel ?s)"
    using Cons.IH [of "Suc k" ?s] Cons.prems by (simp add: f(1))
  with nm show ?case unfolding up
    by (auto simp: f(2) [unfolded e] e simp del: map_of_zip_is_None upt_Suc split: option.split)
qed simp

lemma new_coredump:
  assumes "configured sc" "distinct (map fst (sc_channels sc))"
  shows "coredump_channel (NewDltLogServer E sc enabled p) = map_of (sc_nums sc) (sc_coredump_channel sc)"
proof -
  define s0 where "s0 = \<lparr>filtering_enabled = False, dlt_output_enabled = enabled, default_threshold = 0, message_thresholds = [],
        channel_assignments = [], throughput_overall = 0, throughput_apps = [], static_config = sc, channels = [],
        endpoints = [], default_channel = 0, coredump_channel = None, channel_nums = [], enabled_callback = False,
        enabled_calls = [], persistent = p\<rparr>"
  define s1 where "s1 = fold (create_channel E (reader_callback E p)) (enumerate 0 (sc_channels sc)) s0"
  have new: "NewDltLogServer E sc enabled p = finish_init (reader_callback E p) sc s1"
    using assms(1) by (simp add: NewDltLogServer_def InitLogChannels_configured s1_def s0_def Let_def)
  have "list_all (\<lambda>(nm, i). i < length (sc_channels sc)) (channel_nums s1)"
    unfolding s1_def by (rule created_nums [OF assms(2)]) (simp add: s0_def)
  moreover have "0 < length (sc_channels sc)" using assms(1) by (simp add: configured_def)
  ultimately have "coredump_channel (NewDltLogServer E sc enabled p) = coredump_channel s1"
    unfolding new by (intro finish_init_fields(4))
  also have "\<dots> = map_of (sc_nums sc) (sc_coredump_channel sc)"
    unfolding s1_def create_coredump [OF assms(2)] by (simp add: s0_def sc_nums_def del: map_of_zip_is_None split: option.split)
  finally show ?thesis .
qed

text \<open>What is read back of the cleared database decides; it has no channels when the store works.\<close>

definition cleared :: "'p ServerEnv \<Rightarrow> 'p DltLogServer \<Rightarrow> PersistentConfig" where
  "cleared E s = reader_callback E (writer_callback E (empty_config E) (persistent s))"

lemma reset_configured:
  assumes "configured sc" "server_ok s" "setup_ok sc s"
  obtains s1 where "snd (ResetToDefault E s) = finish_init (cleared E s) sc s1"
    "num_of (channel_nums s1) = num_of (sc_nums sc)"
    "channels (snd (ResetToDefault E s)) = map (reload_channel E (cleared E s) sc) (channels s)"
    "default_channel (snd (ResetToDefault E s)) = num_of (sc_nums sc) (sc_default_channel sc)"
    "coredump_channel (snd (ResetToDefault E s)) = None"
    "persistent (snd (ResetToDefault E s)) = writer_callback E (empty_config E) (persistent s)"
proof -
  let ?p = "writer_callback E (empty_config E) (persistent s)" and ?s' = "snd (ResetToDefault E s)"
  let ?cs = "map (reload_channel E (cleared E s) sc) (channels s)"
  have sc: "static_config s = sc" using assms(3) by (simp add: setup_ok_def)
  define s1 where "s1 = s\<lparr>persistent := ?p, coredump_channel := None, channels := ?cs\<rparr>"
  have s': "?s' = finish_init (cleared E s) sc s1"
    using assms(1) by (simp add: ResetToDefault_def ClearDatabase_def InitLogChannels_configured Let_def sc cleared_def s1_def)
  have bounds: "0 < length (channels s1)" "list_all (\<lambda>(nm, i). i < length (channels s1)) (channel_nums s1)"
    using assms(2) by (simp_all add: s1_def server_ok_def)
  note f = finish_init_fields [OF bounds, of "cleared E s" sc]
  have "persistent ?s' = ?p"
    using tables_grow_fields(8) [OF init_assignments_tables(2) [OF bounds]]
    by (simp add: s' finish_init_def init_throughput_def init_thresholds_def Let_def s1_def)
  moreover have "num_of (channel_nums s1) = num_of (sc_nums sc)" "default_channel s1 = num_of (sc_nums sc) (sc_default_channel sc)"
    using assms(1,3) by (simp_all add: s1_def setup_ok_def)
  moreover have "channels s1 = ?cs" "coredump_channel s1 = None" by (simp_all add: s1_def)
  ultimately show ?thesis using f s' by (intro that [of s1]) simp_all
qed

lemma reloaded_thresholds:
  assumes "distinct (map fst (sc_channels sc))" "map channel_name cs = map fst (sc_channels sc)" "pc_channels config = []"
  shows "map channel_threshold (map (reload_channel E config sc) cs) = map channel_threshold (map (created E config) (sc_channels sc))"
    "map channel_name (map (reload_channel E config sc) cs) = map channel_name (map (created E config) (sc_channels sc))"
proof -
  have len: "length cs = length (sc_channels sc)" using map_eq_imp_length_eq [OF assms(2)] .
  show "map channel_name (map (reload_channel E config sc) cs) = map channel_name (map (created E config) (sc_channels sc))"
    using assms(2) by (simp add: o_def reload_channel_frame created_fields)
  show "map channel_threshold (map (reload_channel E config sc) cs) = map channel_threshold (map (created E config) (sc_channels sc))"
  proof (rule nth_equalityI)
    fix i assume "i < length (map channel_threshold (map (reload_channel E config sc) cs))"
    then have i: "i < length cs" "i < length (sc_channels sc)" using len by simp_all
    have nm: "channel_name (cs ! i) = fst (sc_channels sc ! i)"
      using arg_cong [OF assms(2), where f = "\<lambda>xs. xs ! i"] i by simp
    have "map_of (sc_channels sc) (fst (sc_channels sc ! i)) = Some (snd (sc_channels sc ! i))"
      using i assms(1) by (intro map_of_is_SomeI) simp_all
    with i nm show "map channel_threshold (map (reload_channel E config sc) cs) ! i = map channel_threshold (map (created E config) (sc_channels sc)) ! i"
      by (simp add: reload_channel_def Let_def assms(3) created_fields)
  qed (simp add: len)
qed

text \<open>A reset gives back the static configuration, if the store reads back no channels then. The core
  dump channel is the exception.\<close>

lemma reset_behaviour:
  assumes "configured sc" "distinct (map fst (sc_channels sc))" "pc_channels (cleared E s) = []"
    and "distinct (map fst (sc_channel_assignments sc))" "distinct (map fst (sc_message_thresholds sc))"
    and "server_reachable E sc s"
  shows "let s' = snd (ResetToDefault E s); fresh = NewDltLogServer E sc enabled (persistent s')
    in same_behaviour fresh s' \<and> coredump_channel s' = None \<and>
       coredump_channel fresh = map_of (sc_nums sc) (sc_coredump_channel sc)"
proof -
  let ?s' = "snd (ResetToDefault E s)" and ?p = "writer_callback E (empty_config E) (persistent s)" and ?c = "cleared E s"
  let ?fresh = "NewDltLogServer E sc enabled (writer_callback E (empty_config E) (persistent s))"
  have "server_ok s" "setup_ok sc s" using server_reachable_ok reachable_setup assms(2,6) by blast+
  with assms(1) obtain s1 where old: "?s' = finish_init ?c sc s1"
    "num_of (channel_nums s1) = num_of (sc_nums sc)" "channels ?s' = map (reload_channel E ?c sc) (channels s)"
    "default_channel ?s' = num_of (sc_nums sc) (sc_default_channel sc)" "coredump_channel ?s' = None" "persistent ?s' = ?p"
    by (rule reset_configured)
  have read: "reader_callback E ?p = ?c" by (simp add: cleared_def)
  obtain s2 where new: "?fresh = finish_init ?c sc s2" "num_of (channel_nums s2) = num_of (sc_nums sc)"
    "channels ?fresh = map (created E ?c) (sc_channels sc)"
    "default_channel ?fresh = num_of (sc_nums sc) (sc_default_channel sc)"
    using new_configured [OF assms(1,2), of E enabled ?p, unfolded read] by blast
  note e = assms(3)
  have tabs: "map_of (channel_assignments ?s') k = map_of (channel_assignments ?fresh) k"
    "map_of (message_thresholds ?s') k = map_of (message_thresholds ?fresh) k" for k
    using finish_configuration(1,2) [of ?c sc s1 "fst k" "snd k"]
      finish_configuration(1,2) [of ?c sc s2 "fst k" "snd k"] assms(4,5)
    unfolding old(1) new(1) by (simp_all add: e old(2) new(2))
  have flags: "filtering_enabled ?s' = filtering_enabled ?fresh" "default_threshold ?s' = default_threshold ?fresh"
    unfolding old(1) new(1)
    using finish_configuration(3,4) [of ?c sc s1] finish_configuration(3,4) [of ?c sc s2] assms(4,5) by (simp_all add: e)
  have "same_behaviour ?fresh ?s'"
    unfolding same_behaviour_def using tabs flags old(3,4) new(3,4)
      reloaded_thresholds [OF assms(2) reachable_names(1) [OF assms(1,2,6)] e, of E] by auto
  then show ?thesis using new_coredump [OF assms(1,2)] old(5,6) by (simp add: Let_def)
qed

section \<open>The output switch\<close>

lemma reload_output:
  assumes "server_ok s"
  shows "dlt_output_enabled (InitLogChannels E True s) = dlt_output_enabled s"
    "enabled_calls (InitLogChannels E True s) = enabled_calls s" "enabled_callback (InitLogChannels E True s) = enabled_callback s"
proof -
  have b: "0 < length (channels s)" "list_all (\<lambda>(nm, i). i < length (channels s)) (channel_nums s)"
    using assms by (simp_all add: server_ok_def)
  have "dlt_output_enabled (InitLogChannels E True s) = dlt_output_enabled s \<and>
    enabled_calls (InitLogChannels E True s) = enabled_calls s \<and> enabled_callback (InitLogChannels E True s) = enabled_callback s"
  proof (cases "configured (static_config s)")
    case True
    let ?s = "s\<lparr>coredump_channel := None,
        channels := map (reload_channel E (reader_callback E (persistent s)) (static_config s)) (channels s)\<rparr>"
    show ?thesis
      using tables_grow_fields(5-7) [OF init_assignments_tables(2) [of "length (channels s)" ?s]] True b
      by (simp add: InitLogChannels_configured finish_init_def init_throughput_def init_thresholds_def Let_def)
  qed (simp add: InitLogChannels_unconfigured InitLogChannelsDefault_def Let_def)
  then show "dlt_output_enabled (InitLogChannels E True s) = dlt_output_enabled s"
    "enabled_calls (InitLogChannels E True s) = enabled_calls s" "enabled_callback (InitLogChannels E True s) = enabled_callback s"
    by simp_all
qed

text \<open>A command tells the listener of a change of the output, and only of a change.\<close>

lemma command_output:
  assumes "server_ok s"
  shows "enabled_callback (snd (OnConfigCommand E command s)) = enabled_callback s \<and>
    (let s' = snd (OnConfigCommand E command s)
     in if dlt_output_enabled s' = dlt_output_enabled s then enabled_calls s' = enabled_calls s
        else enabled_calls s' = (if enabled_callback s then enabled_calls s @ [dlt_output_enabled s'] else enabled_calls s))"
proof (cases "Parse (env_levels E) command")
  case (Some j)
  have clear: "server_ok (ClearDatabase E s)" using assms by (simp add: ClearDatabase_def server_ok_fields)
  show ?thesis
    using Some reload_output [OF clear, of E]
    by (cases j)
      (auto simp: OnConfigCommand_def ResetToDefault_def ClearDatabase_def StoreDltConfig_def SaveDatabase_def SetLogLevel_def
        Let_def SetMessagingFilteringState_def SetDefaultLogLevel_def SetDltOutputEnable_def SetOutputEnabled_def
        SetLogChannelThreshold_def SetLogChannelAssignment_def kDisable_def split: option.split ThresholdT.split)
qed (simp add: OnConfigCommand_def)

definition run_commands :: "'p ServerEnv \<Rightarrow> bytes list \<Rightarrow> 'p DltLogServer \<Rightarrow> 'p DltLogServer" where
  "run_commands E cmds s = fold (\<lambda>command s. snd (OnConfigCommand E command s)) cmds s"

text \<open>Under any sequence of diagnostic commands the registered listener is called exactly when the
  output is switched: its calls alternate, beginning with the opposite of the initial
  state, and the last one is the state of the output.\<close>

theorem listener_follows_output:
  assumes "server_ok s" "enabled_callback s"
  shows "\<exists>calls. enabled_calls (run_commands E cmds s) = enabled_calls s @ calls \<and>
    distinct_adj (dlt_output_enabled s # calls) \<and>
    dlt_output_enabled (run_commands E cmds s) = last (dlt_output_enabled s # calls)"
  using assms
proof (induction cmds arbitrary: s)
  case (Cons command cmds)
  let ?s = "snd (OnConfigCommand E command s)"
  have "server_ok ?s" using Cons.prems(1) by (simp add: OnConfigCommand_def Execute_ok split: option.split)
  moreover note c = command_output [OF Cons.prems(1), of E command]
  ultimately obtain calls where calls: "enabled_calls (run_commands E cmds ?s) = enabled_calls ?s @ calls"
    "distinct_adj (dlt_output_enabled ?s # calls)" "dlt_output_enabled (run_commands E cmds ?s) = last (dlt_output_enabled ?s # calls)"
    using Cons.IH [of ?s] Cons.prems(2) by auto
  have r: "run_commands E (command # cmds) s = run_commands E cmds ?s" by (simp add: run_commands_def)
  show ?case
  proof (cases "dlt_output_enabled ?s = dlt_output_enabled s")
    case True
    with c calls show ?thesis by (intro exI [of _ calls]) (simp add: r Let_def)
  next
    case False
    with c calls Cons.prems(2) show ?thesis
      by (intro exI [of _ "dlt_output_enabled ?s # calls"]) (simp add: r Let_def)
  qed
qed (simp add: run_commands_def)

theorem listener_follows_output_witness:
  "\<exists>calls. enabled_calls (run_commands example_env [[10, 0], [10, 0], [10, 1]] (SetEnabledCallback True example_server)) =
      enabled_calls (SetEnabledCallback True example_server) @ calls \<and>
    distinct_adj (dlt_output_enabled (SetEnabledCallback True example_server) # calls) \<and>
    dlt_output_enabled (run_commands example_env [[10, 0], [10, 0], [10, 1]] (SetEnabledCallback True example_server)) =
      last (dlt_output_enabled (SetEnabledCallback True example_server) # calls)"
  by (rule listener_follows_output) (simp_all add: SetEnabledCallback_def server_ok_fields example_server_ok)

end
