(* ===== verification/ConfigFile.thy ===== *)
theory ConfigFile
  imports DltLogServer "HOL-Library.Monad_Syntax"
begin

text \<open>
  Configuration files of the data router (\<^verbatim>\<open>src/daemon/socketserver_config.cpp\<close>,
  \<^verbatim>\<open>src/daemon/persistentlogging_config.cpp\<close>, \<^verbatim>\<open>src/daemon/utility.cpp\<close>): the static
  configuration, the persistent one in both directions, and the filters of persistent logging.

  A parsed document is a tree. The JSON library's accessors demand a value of the right
  kind and a member that exists; anything else is undefined behaviour, which is the result
  \<open>None\<close> of the definitions here. The library's parser and writer, and the dictionary that
  keeps the persistent configuration, are parameters.
\<close>

section \<open>Documents\<close>

datatype Json = JNull | JBool bool | JInt int | JDouble real | JString bytes | JArray "Json list" | JObject "(bytes \<times> Json) list"

fun GetString :: "Json \<Rightarrow> bytes option" where
  "GetString (JString str) = Some (takeWhile (\<lambda>b. b \<noteq> 0) str)"
| "GetString _ = None"

fun GetBool :: "Json \<Rightarrow> bool option" where
  "GetBool (JBool b) = Some b"
| "GetBool _ = None"

fun GetUint :: "Json \<Rightarrow> int option" where
  "GetUint (JInt i) = (if 0 \<le> i \<and> i < 2 ^ 32 then Some i else None)"
| "GetUint _ = None"

fun GetInt :: "Json \<Rightarrow> int option" where
  "GetInt (JInt i) = (if - (2 ^ 31) \<le> i \<and> i < 2 ^ 31 then Some i else None)"
| "GetInt _ = None"

fun GetDouble :: "Json \<Rightarrow> real option" where
  "GetDouble (JInt i) = Some (of_int i)"
| "GetDouble (JDouble d) = Some d"
| "GetDouble _ = None"

fun Members :: "Json \<Rightarrow> (bytes \<times> Json) list option" where
  "Members (JObject ms) = Some (map (\<lambda>(k, v). (takeWhile (\<lambda>b. b \<noteq> 0) k, v)) ms)"
| "Members _ = None"

fun Elements :: "Json \<Rightarrow> Json list option" where
  "Elements (JArray vs) = Some vs"
| "Elements _ = None"

fun HasMember :: "Json \<Rightarrow> bytes \<Rightarrow> bool option" where
  "HasMember (JObject ms) k = Some (map_of ms k \<noteq> None)"
| "HasMember _ k = None"

fun Member :: "Json \<Rightarrow> bytes \<Rightarrow> Json option" where
  "Member (JObject ms) k = map_of ms k"
| "Member _ k = None"

fun is_array :: "Json \<Rightarrow> bool" where
  "is_array (JArray _) = True"
| "is_array _ = False"

fun is_string :: "Json \<Rightarrow> bool" where
  "is_string (JString _) = True"
| "is_string _ = False"

text \<open>The text of a literal; a loop whose body may be undefined; the value of an optional member.\<close>

definition lit :: "string \<Rightarrow> bytes" where "lit s = map of_char s"

fun foldM :: "('a \<Rightarrow> 's \<Rightarrow> 's option) \<Rightarrow> 'a list \<Rightarrow> 's \<Rightarrow> 's option" where
  "foldM f [] s = Some s"
| "foldM f (x # xs) s = do { s \<leftarrow> f x s; foldM f xs s }"

definition optional :: "Json \<Rightarrow> string \<Rightarrow> (Json \<Rightarrow> 'v option) \<Rightarrow> 'v \<Rightarrow> 'v option" where
  "optional d k get otherwise =
     do { has \<leftarrow> HasMember d (lit k); if has then do { v \<leftarrow> Member d (lit k); get v } else Some otherwise }"

section \<open>Log levels\<close>

record LogLevels =
  lv_kOff :: LoglevelT
  lv_kFatal :: LoglevelT
  lv_kError :: LoglevelT
  lv_kWarn :: LoglevelT
  lv_kInfo :: LoglevelT
  lv_kDebug :: LoglevelT
  lv_kVerbose :: LoglevelT

definition kLoglevelMap :: "LogLevels \<Rightarrow> (bytes \<times> LoglevelT) list" where
  "kLoglevelMap L = [(lit ''kOff'', lv_kOff L), (lit ''kFatal'', lv_kFatal L), (lit ''kError'', lv_kError L), (lit ''kWarn'', lv_kWarn L),
     (lit ''kInfo'', lv_kInfo L), (lit ''kDebug'', lv_kDebug L), (lit ''kVerbose'', lv_kVerbose L)]"

definition ToLogLevel :: "LogLevels \<Rightarrow> bytes \<Rightarrow> LoglevelT" where
  "ToLogLevel L level = (case map_of (kLoglevelMap L) level of Some l \<Rightarrow> l | None \<Rightarrow> lv_kOff L)"

definition LevelToString :: "LogLevels \<Rightarrow> LoglevelT \<Rightarrow> bytes" where
  "LevelToString L level =
     (if level = lv_kOff L then lit ''kOff''
      else if level = lv_kFatal L then lit ''kFatal''
      else if level = lv_kError L then lit ''kError''
      else if level = lv_kWarn L then lit ''kWarn''
      else if level = lv_kInfo L then lit ''kInfo''
      else if level = lv_kVerbose L then lit ''kVerbose''
      else if level = lv_kDebug L then lit ''kDebug''
      else lit ''undefined'')"

definition get_level :: "LogLevels \<Rightarrow> Json \<Rightarrow> LoglevelT option" where
  "get_level L v = map_option (ToLogLevel L) (GetString v)"

definition get_id :: "Json \<Rightarrow> id4 option" where
  "get_id v = map_option NewDltidT (GetString v)"

section \<open>Tables\<close>

text \<open>\<^verbatim>\<open>m[app][ctx].push_back(v)\<close>\<close>

definition push_assigned :: "'a \<Rightarrow> 'b \<Rightarrow> 'v \<Rightarrow> ('a \<times> ('b \<times> 'v list) list) list \<Rightarrow> ('a \<times> ('b \<times> 'v list) list) list" where
  "push_assigned app ctx v m =
     (let (contexts, m) = subscript [] app m; (assigned, contexts) = subscript [] ctx contexts
      in AList.update app (AList.update ctx (assigned @ [v]) contexts) m)"

type_synonym assignment_table = "(id4 \<times> (id4 \<times> id4 list) list) list"
type_synonym threshold_table = "(id4 \<times> (id4 \<times> LoglevelT) list) list"

definition read_context_assignments :: "id4 \<Rightarrow> bytes \<times> Json \<Rightarrow> assignment_table \<Rightarrow> assignment_table option" where
  "read_context_assignments app itr2 m =
     (let ctx = NewDltidT (fst itr2) in
      do { assigned \<leftarrow> Elements (snd itr2);
           foldM (\<lambda>itr3 m. do { ch \<leftarrow> get_id itr3; Some (push_assigned app ctx ch m) }) assigned m })"

definition read_app_assignments :: "bytes \<times> Json \<Rightarrow> assignment_table \<Rightarrow> assignment_table option" where
  "read_app_assignments itr1 m =
     (let app = NewDltidT (fst itr1) in do { contexts \<leftarrow> Members (snd itr1); foldM (read_context_assignments app) contexts m })"

definition read_assignments :: "Json \<Rightarrow> assignment_table option" where
  "read_assignments assignments = do { apps \<leftarrow> Members assignments; foldM read_app_assignments apps [] }"

definition read_context_threshold :: "LogLevels \<Rightarrow> id4 \<Rightarrow> bytes \<times> Json \<Rightarrow> threshold_table \<Rightarrow> threshold_table option" where
  "read_context_threshold L app itr2 m =
     (let ctx = NewDltidT (fst itr2) in do { t \<leftarrow> get_level L (snd itr2); Some (nested_update app ctx t m) })"

definition read_app_thresholds :: "LogLevels \<Rightarrow> bytes \<times> Json \<Rightarrow> threshold_table \<Rightarrow> threshold_table option" where
  "read_app_thresholds L itr1 m =
     (let app = NewDltidT (fst itr1) in do { contexts \<leftarrow> Members (snd itr1); foldM (read_context_threshold L app) contexts m })"

definition read_thresholds :: "LogLevels \<Rightarrow> Json \<Rightarrow> threshold_table option" where
  "read_thresholds L thresholds = do { apps \<leftarrow> Members thresholds; foldM (read_app_thresholds L) apps [] }"

section \<open>The static configuration\<close>

datatype LoggingErrorCode = kNoFileFound | kParseError | kNoChannelsFound

definition as_u16 :: "int \<Rightarrow> u16" where "as_u16 i = word_of_int i"

definition get_text :: "Json \<Rightarrow> string option" where
  "get_text v = map_option (map (\<lambda>b. char_of (unat b))) (GetString v)"

definition read_channel :: "LogLevels \<Rightarrow> Json \<Rightarrow> ChannelDescription option" where
  "read_channel L v =
     do { threshold \<leftarrow> Member v (lit ''channelThreshold'') \<bind> get_level L;
          ecu_id \<leftarrow> Member v (lit ''ecu'') \<bind> get_id;
          addr \<leftarrow> optional v ''address'' get_text [];
          port \<leftarrow> Member v (lit ''port'') \<bind> GetUint;
          dst_address \<leftarrow> optional v ''dstAddress'' get_text ''239.255.42.99'';
          dst_port \<leftarrow> optional v ''dstPort'' GetInt 3490;
          multicast_interface \<leftarrow> optional v ''multicastInterface'' get_text [];
          Some \<lparr>cd_ecu = ecu_id, cd_address = addr, cd_port = as_u16 port, cd_dst_address = dst_address, cd_dst_port = as_u16 dst_port,
            cd_channel_threshold = threshold, cd_multicast_interface = multicast_interface\<rparr> }"

definition read_default_threshold :: "LogLevels \<Rightarrow> Json \<Rightarrow> LoglevelT option" where
  "read_default_threshold L d =
     do { has \<leftarrow> HasMember d (lit ''defaultThreshold'');
          if has then Member d (lit ''defaultThreshold'') \<bind> get_level L
          else do { has \<leftarrow> HasMember d (lit ''defaultThresold'');
                    if has then Member d (lit ''defaultThresold'') \<bind> get_level L else Some (lv_kVerbose L) } }"

text \<open>The quotas; without them their fields keep the zeroes they were created with.\<close>

definition read_quotas :: "Json \<Rightarrow> (bool \<times> real \<times> (id4 \<times> real) list) option" where
  "read_quotas d =
     do { has \<leftarrow> HasMember d (lit ''quotas'');
          if has then do {
            quotas \<leftarrow> Member d (lit ''quotas'');
            enforced \<leftarrow> optional quotas ''quotaEnforcementEnabled'' GetBool False;
            throughput \<leftarrow> Member quotas (lit ''throughput'');
            overall \<leftarrow> Member throughput (lit ''overallMbps'') \<bind> GetDouble;
            apps \<leftarrow> Member throughput (lit ''applicationsKbps'') \<bind> Members;
            kbps \<leftarrow> foldM (\<lambda>(app, v) m. do { kbps \<leftarrow> GetDouble v; Some (emplace (NewDltidT app) kbps m) }) apps [];
            Some (enforced, overall, kbps) }
          else Some (False, 0, []) }"

text \<open>The text of the file is given if it could be opened.\<close>

definition ReadStaticDlt ::
  "LogLevels \<Rightarrow> ('t \<Rightarrow> Json option) \<Rightarrow> 't option \<Rightarrow> (LoggingErrorCode + StaticConfig) option" where
  "ReadStaticDlt L parse text =
     (case text of
        None \<Rightarrow> Some (Inl kNoFileFound)
      | Some t \<Rightarrow>
          (case parse t of
             None \<Rightarrow> Some (Inl kParseError)
           | Some d \<Rightarrow>
               if is_array d then Some (Inl kParseError)
               else do {
                 has \<leftarrow> HasMember d (lit ''channels'');
                 if \<not> has then Some (Inl kNoChannelsFound)
                 else do {
                   chs \<leftarrow> Member d (lit ''channels'') \<bind> Members;
                   if chs = [] then Some (Inl kNoChannelsFound)
                   else do {
                     coredump \<leftarrow> optional d ''coredumpChannel'' get_id (0, 0, 0, 0);
                     default_ch \<leftarrow> Member d (lit ''defaultChannel'') \<bind> get_id;
                     descriptions \<leftarrow> foldM (\<lambda>(nm, v) m. do { c \<leftarrow> read_channel L v; Some (emplace (NewDltidT nm) c m) }) chs [];
                     assignments \<leftarrow> Member d (lit ''channelAssignments'') \<bind> read_assignments;
                     filtering \<leftarrow> optional d ''filteringEnabled'' GetBool True;
                     threshold \<leftarrow> read_default_threshold L d;
                     thresholds \<leftarrow> Member d (lit ''messageThresholds'') \<bind> read_thresholds L;
                     (enforced, overall, kbps) \<leftarrow> read_quotas d;
                     Some (Inr \<lparr>sc_coredump_channel = coredump, sc_default_channel = default_ch, sc_channels = descriptions,
                       sc_filtering_enabled = filtering, sc_default_threshold = threshold, sc_channel_assignments = assignments,
                       sc_message_thresholds = thresholds, sc_overall_mbps = overall, sc_applications_kbps = kbps,
                       sc_quota_enforcement_enabled = enforced\<rparr>) } } }))"

section \<open>The persistent configuration\<close>

text \<open>The dictionary of a persistent store, for texts of any type, and the JSON library on them.\<close>

record ('p, 't) IPersistentDictionary =
  pd_GetString :: "string \<Rightarrow> 't \<Rightarrow> 'p \<Rightarrow> 't"
  pd_GetBool :: "string \<Rightarrow> bool \<Rightarrow> 'p \<Rightarrow> bool"
  pd_SetString :: "string \<Rightarrow> 't \<Rightarrow> 'p \<Rightarrow> 'p"
  pd_SetBool :: "string \<Rightarrow> bool \<Rightarrow> 'p \<Rightarrow> 'p"

record 't JsonLibrary =
  js_parse :: "'t \<Rightarrow> Json option"
  js_write :: "Json \<Rightarrow> 't"
  js_braces :: 't

definition StubPersistentDictionary :: "('p, 't) IPersistentDictionary" where
  "StubPersistentDictionary = \<lparr>pd_GetString = (\<lambda>key default_value p. default_value), pd_GetBool = (\<lambda>key default_value p. default_value),
     pd_SetString = (\<lambda>key v p. p), pd_SetBool = (\<lambda>key v p. p)\<rparr>"

definition kConfigDatabaseKey :: string where "kConfigDatabaseKey = ''dltConfig''"
definition kConfigOutputEnabledKey :: string where "kConfigOutputEnabledKey = ''dltOutputEnabled''"

definition NewPersistentConfig :: "LogLevels \<Rightarrow> PersistentConfig" where
  "NewPersistentConfig L = \<lparr>pc_channels = [], pc_filtering_enabled = False, pc_default_threshold = lv_kOff L,
     pc_channel_assignments = [], pc_message_thresholds = []\<rparr>"

definition ReadDlt :: "LogLevels \<Rightarrow> 't JsonLibrary \<Rightarrow> ('p, 't) IPersistentDictionary \<Rightarrow> 'p \<Rightarrow> PersistentConfig option" where
  "ReadDlt L J D pd =
     (case js_parse J (pd_GetString D kConfigDatabaseKey (js_braces J) pd) of
        None \<Rightarrow> Some (NewPersistentConfig L)
      | Some d \<Rightarrow>
          do {
            has \<leftarrow> HasMember d (lit ''channels'');
            if \<not> has then Some (NewPersistentConfig L)
            else do {
              chs \<leftarrow> Member d (lit ''channels'') \<bind> Members;
              if chs = [] then Some (NewPersistentConfig L)
              else do {
                descriptions \<leftarrow> foldM (\<lambda>(nm, v) m. do { t \<leftarrow> Member v (lit ''channelThreshold'') \<bind> get_level L; Some (emplace nm t m) }) chs [];
                assignments \<leftarrow> Member d (lit ''channelAssignments'') \<bind> read_assignments;
                filtering \<leftarrow> optional d ''filteringEnabled'' GetBool True;
                threshold \<leftarrow> Member d (lit ''defaultThresold'') \<bind> get_level L;
                thresholds \<leftarrow> Member d (lit ''messageThresholds'') \<bind> read_thresholds L;
                Some \<lparr>pc_channels = descriptions, pc_filtering_enabled = filtering, pc_default_threshold = threshold,
                  pc_channel_assignments = assignments, pc_message_thresholds = thresholds\<rparr> } } })"

text \<open>Text that is passed as a C string ends at its first zero byte.\<close>

definition c_str :: "bytes \<Rightarrow> bytes" where "c_str s = takeWhile (\<lambda>b. b \<noteq> 0) s"

definition level_value :: "LogLevels \<Rightarrow> LoglevelT \<Rightarrow> Json" where
  "level_value L t = JString (c_str (LevelToString L t))"

definition config_document :: "LogLevels \<Rightarrow> PersistentConfig \<Rightarrow> Json" where
  "config_document L config = JObject
     [(lit ''channels'', JObject (map (\<lambda>(nm, t). (c_str nm, JObject [(lit ''channelThreshold'', level_value L t)])) (pc_channels config))),
      (lit ''channelAssignments'', JObject (map (\<lambda>(app, contexts). (c_str (Dltid_Data app),
         JObject (map (\<lambda>(ctx, assigned). (c_str (Dltid_Data ctx), JArray (map (\<lambda>ch. JString (c_str (Dltid_Data ch))) assigned))) contexts)))
         (pc_channel_assignments config))),
      (lit ''filteringEnabled'', JBool (pc_filtering_enabled config)),
      (lit ''defaultThresold'', level_value L (pc_default_threshold config)),
      (lit ''messageThresholds'', JObject (map (\<lambda>(app, contexts). (c_str (Dltid_Data app),
         JObject (map (\<lambda>(ctx, t). (c_str (Dltid_Data ctx), level_value L t)) contexts))) (pc_message_thresholds config)))]"

definition WriteDlt ::
  "LogLevels \<Rightarrow> 't JsonLibrary \<Rightarrow> ('p, 't) IPersistentDictionary \<Rightarrow> PersistentConfig \<Rightarrow> 'p \<Rightarrow> 'p" where
  "WriteDlt L J D config pd = pd_SetString D kConfigDatabaseKey (js_write J (config_document L config)) pd"

definition ReadDltEnabled :: "('p, 't) IPersistentDictionary \<Rightarrow> 'p \<Rightarrow> bool" where
  "ReadDltEnabled D pd = pd_GetBool D kConfigOutputEnabledKey True pd"

definition WriteDltEnabled :: "('p, 't) IPersistentDictionary \<Rightarrow> bool \<Rightarrow> 'p \<Rightarrow> 'p" where
  "WriteDltEnabled D enabled pd = pd_SetBool D kConfigOutputEnabledKey enabled pd"

section \<open>The filters of persistent logging\<close>

datatype ReadResult = kOk | kErrorOpen | kErrorParse | kErrorContent

record Plogfilterdesc =
  pf_appid :: id4
  pf_ctxid :: id4
  pf_log_level :: u8

record PersistentLoggingConfig =
  plc_read_result :: ReadResult
  plc_verbose_filters :: "Plogfilterdesc list"
  plc_non_verbose_filters :: "bytes list"

text \<open>The loops over the filters; the result says whether reading goes on.\<close>

fun read_verbose_filters ::
  "(bytes \<Rightarrow> id4) \<Rightarrow> LogLevels \<Rightarrow> Json list \<Rightarrow> PersistentLoggingConfig \<Rightarrow> (bool \<times> PersistentLoggingConfig) option" where
  "read_verbose_filters ident L [] config = Some (True, config)"
| "read_verbose_filters ident L (itr # itrs) config =
     do { has_app \<leftarrow> HasMember itr (lit ''appId'');
          has_ctx \<leftarrow> HasMember itr (lit ''ctxId'');
          has_level \<leftarrow> HasMember itr (lit ''logLevel'');
          if \<not> (has_app \<and> has_ctx \<and> has_level) then Some (False, config\<lparr>plc_read_result := kErrorContent\<rparr>)
          else do {
            appid_value \<leftarrow> Member itr (lit ''appId'');
            ctxid_value \<leftarrow> Member itr (lit ''ctxId'');
            loglevel_value \<leftarrow> Member itr (lit ''logLevel'');
            if \<not> (is_string appid_value \<and> is_string ctxid_value \<and> is_string loglevel_value)
            then Some (False, config\<lparr>plc_read_result := kErrorContent\<rparr>)
            else do {
              appid \<leftarrow> GetString appid_value;
              ctxid \<leftarrow> GetString ctxid_value;
              level \<leftarrow> get_level L loglevel_value;
              read_verbose_filters ident L itrs (config\<lparr>plc_verbose_filters := plc_verbose_filters config @
                [\<lparr>pf_appid = ident appid, pf_ctxid = ident ctxid, pf_log_level = level\<rparr>]\<rparr>) } } }"

fun read_non_verbose_filters :: "Json list \<Rightarrow> PersistentLoggingConfig \<Rightarrow> (bool \<times> PersistentLoggingConfig) option" where
  "read_non_verbose_filters [] config = Some (True, config)"
| "read_non_verbose_filters (itr # itrs) config =
     (if \<not> is_string itr then Some (False, config\<lparr>plc_read_result := kErrorContent\<rparr>)
      else do { nm \<leftarrow> GetString itr;
                read_non_verbose_filters itrs (config\<lparr>plc_non_verbose_filters := plc_non_verbose_filters config @ [nm]\<rparr>) })"

definition ReadPersistentLoggingConfig ::
  "(bytes \<Rightarrow> id4) \<Rightarrow> LogLevels \<Rightarrow> ('t \<Rightarrow> Json option) \<Rightarrow> 't option \<Rightarrow> PersistentLoggingConfig option" where
  "ReadPersistentLoggingConfig ident L parse text =
     (let config = \<lparr>plc_read_result = kErrorOpen, plc_verbose_filters = [], plc_non_verbose_filters = []\<rparr> in
      case text of
        None \<Rightarrow> Some (config\<lparr>plc_read_result := kErrorOpen\<rparr>)
      | Some t \<Rightarrow>
          (case parse t of
             None \<Rightarrow> Some (config\<lparr>plc_read_result := kErrorParse\<rparr>)
           | Some d \<Rightarrow> do {
               has_verbose \<leftarrow> HasMember d (lit ''verbose_filters'');
               has_nonverbose \<leftarrow> HasMember d (lit ''nonverbose_filters'');
               if \<not> (has_verbose \<and> has_nonverbose) then Some (config\<lparr>plc_read_result := kErrorContent\<rparr>)
               else do {
                 verbose_filters \<leftarrow> Member d (lit ''verbose_filters'');
                 nonverbose_filters \<leftarrow> Member d (lit ''nonverbose_filters'');
                 if \<not> (is_array verbose_filters \<and> is_array nonverbose_filters) then Some (config\<lparr>plc_read_result := kErrorContent\<rparr>)
                 else do {
                   vs \<leftarrow> Elements verbose_filters;
                   ns \<leftarrow> Elements nonverbose_filters;
                   (go_on, config) \<leftarrow> read_verbose_filters ident L vs config;
                   if \<not> go_on then Some config
                   else do {
                     (go_on, config) \<leftarrow> read_non_verbose_filters ns config;
                     Some (if go_on then config\<lparr>plc_read_result := kOk\<rparr> else config) } } } }))"

end
