(* ===== verification/ConfigProperties.thy ===== *)
theory ConfigProperties
  imports ServerPersistence ConfigFile
begin

text \<open>
  What the configuration files give and keep: every static configuration that is read is
  well formed, a persistent configuration that is written is read back, and with this store
  the log server keeps its configuration across a restart.
\<close>

declare id_plain.simps [simp del]

section \<open>Loops\<close>

lemma foldM_map: "foldM f (map g xs) s = foldM (\<lambda>x. f (g x)) xs s"
  by (induction xs arbitrary: s) (auto intro: Option.bind_cong)

lemma foldM_total: "(\<And>x s. x \<in> set xs \<Longrightarrow> f x s = Some (h x s)) \<Longrightarrow> foldM f xs s = Some (fold h xs s)"
  by (induction xs arbitrary: s) simp_all

lemma foldM_invariant:
  assumes "foldM f xs s = Some s'" "P s" "\<And>x t t'. x \<in> set xs \<Longrightarrow> P t \<Longrightarrow> f x t = Some t' \<Longrightarrow> P t'"
  shows "P s'"
  using assms
proof (induction xs arbitrary: s)
  case (Cons x xs)
  from Cons.prems(1) obtain t where t: "f x s = Some t" "foldM f xs t = Some s'" by (auto simp: bind_eq_Some_conv)
  show ?case by (rule Cons.IH [OF t(2)]) (use Cons.prems t(1) in auto)
qed simp

lemma fold_emplace: "distinct (map fst (m @ xs)) \<Longrightarrow> fold (\<lambda>(k, v). emplace k v) xs m = m @ xs"
proof (induction xs arbitrary: m)
  case (Cons x xs)
  obtain k v where x: "x = (k, v)" by fastforce
  have "map_of m k = None" using Cons.prems x by (auto simp: map_of_eq_None_iff)
  then have "fold (\<lambda>(k, v). emplace k v) (x # xs) m = fold (\<lambda>(k, v). emplace k v) xs (m @ [(k, v)])"
    by (simp add: x emplace_def)
  also have "\<dots> = m @ x # xs" using Cons.IH [of "m @ [(k, v)]"] Cons.prems x by simp
  finally show ?case .
qed simp

lemma update_new: "k \<notin> fst ` set m \<Longrightarrow> AList.update k v m = m @ [(k, v)]"
  by (induction m) auto

lemma update_last_key: "k \<notin> fst ` set m \<Longrightarrow> AList.update k v (m @ [(k, w)]) = m @ [(k, v)]"
  by (induction m) auto

lemma fold_nested_inner:
  assumes "app \<notin> fst ` set m" "distinct (map fst (seen @ ctxs))"
  shows "fold (\<lambda>(ctx, v). nested_update app ctx v) ctxs (m @ [(app, seen)]) = m @ [(app, seen @ ctxs)]"
  using assms(2)
proof (induction ctxs arbitrary: seen)
  case (Cons x ctxs)
  obtain ctx v where x: "x = (ctx, v)" by fastforce
  have "map_of m app = None" using assms(1) by (simp add: map_of_eq_None_iff)
  then have "nested_update app ctx v (m @ [(app, seen)]) = m @ [(app, seen @ [(ctx, v)])]"
    using Cons.prems x assms(1) by (simp add: nested_update_eq map_add_def update_last_key update_new)
  then show ?case using Cons.IH [of "seen @ [(ctx, v)]"] Cons.prems x by simp
qed simp

lemma fold_nested_app:
  assumes "app \<notin> fst ` set m" "distinct (map fst ctxs)" "ctxs \<noteq> []"
  shows "fold (\<lambda>(ctx, v). nested_update app ctx v) ctxs m = m @ [(app, ctxs)]"
proof -
  obtain ctx v rest where c: "ctxs = (ctx, v) # rest" using assms(3) by (cases ctxs) auto
  have "map_of m app = None" using assms(1) by (simp add: map_of_eq_None_iff)
  then have "nested_update app ctx v m = m @ [(app, [(ctx, v)])]"
    using assms(1) by (simp add: nested_update_eq update_new)
  then show ?thesis using fold_nested_inner [OF assms(1), of "[(ctx, v)]" rest] assms(2) c by simp
qed

text \<open>A nested table that is entered one value after the other is the table again.\<close>

definition nested_ok :: "('a \<times> ('b \<times> 'v) list) list \<Rightarrow> bool" where
  "nested_ok m \<longleftrightarrow> distinct (map fst m) \<and> (\<forall>e \<in> set m. distinct (map fst (snd e)) \<and> snd e \<noteq> [])"

lemma fold_nested:
  "nested_ok m \<Longrightarrow> fold (\<lambda>(app, ctxs). fold (\<lambda>(ctx, v). nested_update app ctx v) ctxs) m [] = m"
proof -
  have "fold (\<lambda>(app, ctxs). fold (\<lambda>(ctx, v). nested_update app ctx v) ctxs) m acc = acc @ m" if "nested_ok (acc @ m)" for acc
    using that
  proof (induction m arbitrary: acc)
    case (Cons x m)
    obtain app ctxs where x: "x = (app, ctxs)" by fastforce
    have "fold (\<lambda>(ctx, v). nested_update app ctx v) ctxs acc = acc @ [(app, ctxs)]"
      using Cons.prems by (intro fold_nested_app) (auto simp: nested_ok_def x)
    then show ?case using Cons.IH [of "acc @ [x]"] Cons.prems x by simp
  qed simp
  from this [of "[]"] show "nested_ok m \<Longrightarrow> ?thesis" by simp
qed

lemma push_assigned_eq:
  "push_assigned app ctx v m = nested_update app ctx ((case nlook m app ctx of None \<Rightarrow> [] | Some old \<Rightarrow> old) @ [v]) m"
proof -
  have u: "AList.update a x (t @ [(a, y)]) = AList.update a x t" if "map_of t a = None" for a x y t
    using that by (induction t) (auto split: if_splits)
  show ?thesis
    by (auto simp: push_assigned_def nested_update_eq subscript_def nlook_def Let_def u split: option.splits)
qed

lemma nested_update_twice: "nested_update a b w (nested_update a b v m) = nested_update a b w m"
  by (simp add: nested_update_eq update_conv)

lemma fold_push_assigned:
  "chs \<noteq> [] \<Longrightarrow> fold (push_assigned app ctx) chs m = nested_update app ctx ((case nlook m app ctx of None \<Rightarrow> [] | Some old \<Rightarrow> old) @ chs) m"
proof (induction chs arbitrary: m)
  case (Cons ch chs)
  show ?case
  proof (cases "chs = []")
    case False
    with Cons.IH show ?thesis
      by (simp add: push_assigned_eq nlook_nested_update nested_update_twice)
  qed (simp add: push_assigned_eq)
qed simp

section \<open>Texts and levels\<close>

definition levels_ok :: "LogLevels \<Rightarrow> bool" where
  "levels_ok L \<longleftrightarrow> distinct (map snd (kLoglevelMap L))"

definition is_level :: "LogLevels \<Rightarrow> LoglevelT \<Rightarrow> bool" where
  "is_level L l \<longleftrightarrow> l \<in> snd ` set (kLoglevelMap L)"

lemma of_char_byte: "of_char c = (of_char d :: byte) \<longleftrightarrow> c = d"
proof
  assume "of_char c = (of_char d :: byte)"
  then have "unat (of_char c :: byte) = unat (of_char d :: byte)" by simp
  moreover have "unat (of_char x :: byte) = of_char x" for x
  proof -
    have "(of_char x :: byte) = word_of_nat (of_char x)" by (simp add: of_nat_of_char)
    then show ?thesis using unat_word_of_nat [where 'a = 8 and n = "of_char x"] nat_of_char_less_256 by simp
  qed
  ultimately show "c = d" by (simp add: of_char_eq_iff)
qed simp

lemma lit_eq [simp]: "lit s = lit t \<longleftrightarrow> s = t"
  by (simp add: lit_def inj_map_eq_map inj_def of_char_byte)

lemma lit_no_zero: "CHR 0x00 \<notin> set s \<Longrightarrow> c_str (lit s) = lit s"
proof -
  have "(of_char (CHR 0x00) :: byte) = 0" by simp
  then have "(of_char c = (0 :: byte)) \<longleftrightarrow> c = CHR 0x00" for c using of_char_byte [of c "CHR 0x00"] by simp
  then show "CHR 0x00 \<notin> set s \<Longrightarrow> ?thesis" by (auto simp: c_str_def lit_def takeWhile_eq_all_conv)
qed

lemma c_str_twice [simp]: "takeWhile (\<lambda>b. b \<noteq> 0) (c_str s) = c_str s"
  by (simp add: c_str_def takeWhile_eq_all_conv)

lemma ToLogLevel_is_level: "is_level L (ToLogLevel L s)"
  by (auto simp: ToLogLevel_def is_level_def kLoglevelMap_def split: if_splits)

lemma level_read_back: "levels_ok L \<Longrightarrow> is_level L l \<Longrightarrow> get_level L (level_value L l) = Some l"
  by (auto simp: get_level_def level_value_def levels_ok_def is_level_def kLoglevelMap_def LevelToString_def ToLogLevel_def lit_no_zero
      simp flip: c_str_def)

lemma id_read_back: "id_plain i \<Longrightarrow> NewDltidT (c_str (Dltid_Data i)) = i"
  by (cases i) (auto simp: id_plain.simps c_str_def Dltid_Data_def NewDltidT_def char_at_def Let_def)

section \<open>Reading back what was written\<close>

text \<open>What the libraries promise: text written from a document without numbers parses as that
  document, and the dictionary gives back what was set.\<close>

fun textual :: "Json \<Rightarrow> bool" where
  "textual (JBool b) = True"
| "textual (JString s) = (0 \<notin> set s)"
| "textual (JArray vs) = (\<forall>v \<in> set vs. textual v)"
| "textual (JObject ms) = (\<forall>(k, v) \<in> set ms. 0 \<notin> set k \<and> textual v)"
| "textual _ = False"

definition json_ok :: "'t JsonLibrary \<Rightarrow> bool" where
  "json_ok J \<longleftrightarrow> (\<forall>d. textual d \<longrightarrow> js_parse J (js_write J d) = Some d) \<and> js_parse J (js_braces J) = Some (JObject [])"

definition dictionary_ok :: "('p, 't) IPersistentDictionary \<Rightarrow> bool" where
  "dictionary_ok D \<longleftrightarrow> (\<forall>k v d pd. pd_GetString D k d (pd_SetString D k v pd) = v)"

text \<open>The configurations that can be stored.\<close>

definition table_all :: "('v \<Rightarrow> bool) \<Rightarrow> (id4 \<times> (id4 \<times> 'v) list) list \<Rightarrow> bool" where
  "table_all Q m \<longleftrightarrow> nested_ok m \<and> (\<forall>e \<in> set m. id_plain (fst e) \<and> (\<forall>c \<in> set (snd e). id_plain (fst c) \<and> Q (snd c)))"

definition assignments_storable :: "assignment_table \<Rightarrow> bool" where
  "assignments_storable = table_all (\<lambda>chs. chs \<noteq> [] \<and> list_all id_plain chs)"

definition thresholds_storable :: "LogLevels \<Rightarrow> threshold_table \<Rightarrow> bool" where
  "thresholds_storable L = table_all (is_level L)"

definition storable :: "LogLevels \<Rightarrow> PersistentConfig \<Rightarrow> bool" where
  "storable L config \<longleftrightarrow> pc_channels config \<noteq> [] \<and> distinct (map fst (pc_channels config)) \<and>
     (\<forall>e \<in> set (pc_channels config). 0 \<notin> set (fst e) \<and> is_level L (snd e)) \<and> is_level L (pc_default_threshold config) \<and>
     assignments_storable (pc_channel_assignments config) \<and> thresholds_storable L (pc_message_thresholds config)"

lemma c_str_plain: "0 \<notin> set s \<Longrightarrow> c_str s = s"
  by (auto simp: c_str_def takeWhile_eq_all_conv)

lemma c_str_no_zero: "0 \<notin> set (c_str s)"
  unfolding c_str_def using set_takeWhileD by fast

lemma textual_document: "textual (config_document L config)"
  by (auto simp: config_document_def level_value_def c_str_no_zero lit_def of_char_byte [of _ "CHR 0x00", simplified])

text \<open>The documents of the tables, level by level.\<close>

abbreviation id_key :: "id4 \<Rightarrow> bytes" where "id_key i \<equiv> c_str (Dltid_Data i)"

abbreviation assigned_value :: "id4 list \<Rightarrow> Json" where
  "assigned_value chs \<equiv> JArray (map (\<lambda>ch. JString (id_key ch)) chs)"

lemma context_assignments_read_back:
  assumes "id_plain ctx" "list_all id_plain chs"
  shows "read_context_assignments app (id_key ctx, assigned_value chs) m = Some (fold (push_assigned app ctx) chs m)"
proof -
  have "foldM (\<lambda>itr3 m. get_id itr3 \<bind> (\<lambda>ch. Some (push_assigned app ctx ch m))) (map (\<lambda>ch. JString (id_key ch)) chs) m =
      Some (fold (push_assigned app ctx) chs m)"
    unfolding foldM_map using assms(2) by (intro foldM_total) (simp add: get_id_def id_read_back list_all_iff)
  then show ?thesis using assms(1) by (simp add: read_context_assignments_def id_read_back)
qed

lemma fold_contexts_assigned:
  assumes "distinct (map fst ctxs)" "\<forall>c \<in> set ctxs. snd c \<noteq> []" "\<forall>c \<in> set ctxs. nlook m app (fst c) = None"
  shows "fold (\<lambda>(ctx, chs). fold (push_assigned app ctx) chs) ctxs m = fold (\<lambda>(ctx, chs). nested_update app ctx chs) ctxs m"
  using assms
proof (induction ctxs arbitrary: m)
  case (Cons x ctxs)
  obtain ctx chs where x: "x = (ctx, chs)" by fastforce
  have "fold (push_assigned app ctx) chs m = nested_update app ctx chs m"
    using Cons.prems(2,3) x by (simp add: fold_push_assigned)
  moreover have "\<forall>c \<in> set ctxs. nlook (nested_update app ctx chs m) app (fst c) = None"
    using Cons.prems(1,3) x by (auto simp: nlook_nested_update image_iff)
  ultimately show ?case using Cons.IH [of "nested_update app ctx chs m"] Cons.prems(1,2) x by simp
qed simp

lemma app_assignments_read_back:
  assumes "id_plain app" "distinct (map fst ctxs)" "app \<notin> fst ` set m" "ctxs \<noteq> []"
    and "\<forall>c \<in> set ctxs. id_plain (fst c) \<and> snd c \<noteq> [] \<and> list_all id_plain (snd c)"
  shows "read_app_assignments (id_key app, JObject (map (\<lambda>(ctx, chs). (id_key ctx, assigned_value chs)) ctxs)) m = Some (m @ [(app, ctxs)])"
proof -
  have "foldM (read_context_assignments app) (map ((\<lambda>(k, v). (takeWhile (\<lambda>b. b \<noteq> 0) k, v)) \<circ> (\<lambda>(ctx, chs). (id_key ctx, assigned_value chs))) ctxs) m =
      Some (fold (\<lambda>(ctx, chs). fold (push_assigned app ctx) chs) ctxs m)"
    unfolding foldM_map using assms(5) by (intro foldM_total) (auto simp: context_assignments_read_back)
  moreover have "fold (\<lambda>(ctx, chs). fold (push_assigned app ctx) chs) ctxs m = m @ [(app, ctxs)]"
  proof -
    have "nlook m app c = None" for c using assms(3) by (simp add: nlook_def map_of_eq_None_iff [THEN iffD2])
    then show ?thesis using fold_contexts_assigned [of ctxs m app] fold_nested_app [OF assms(3,2,4)] assms(2,5) by auto
  qed
  ultimately show ?thesis using assms(1) by (simp add: read_app_assignments_def id_read_back)
qed

text \<open>Entering the applications one after the other.\<close>

lemma foldM_apps:
  assumes "distinct (map fst (acc @ m))" "\<And>app ctxs t. (app, ctxs) \<in> set m \<Longrightarrow> app \<notin> fst ` set t \<Longrightarrow> f (app, ctxs) t = Some (t @ [(app, ctxs)])"
  shows "foldM f m acc = Some (acc @ m)"
  using assms
proof (induction m arbitrary: acc)
  case (Cons x m)
  obtain app ctxs where x: "x = (app, ctxs)" by fastforce
  have "f x acc = Some (acc @ [x])" using Cons.prems x by auto
  then show ?case using Cons.IH [of "acc @ [x]"] Cons.prems by simp
qed simp

lemma storable_app:
  "assignments_storable m \<Longrightarrow> (app, ctxs) \<in> set m \<Longrightarrow> id_plain app \<and> distinct (map fst ctxs) \<and> ctxs \<noteq> [] \<and>
    (\<forall>c \<in> set ctxs. id_plain (fst c) \<and> snd c \<noteq> [] \<and> list_all id_plain (snd c))"
  by (fastforce simp: assignments_storable_def table_all_def nested_ok_def simp del: split_paired_All split_paired_Ex)

lemma storable_app_thresholds:
  "thresholds_storable L m \<Longrightarrow> (app, ctxs) \<in> set m \<Longrightarrow> id_plain app \<and> distinct (map fst ctxs) \<and> ctxs \<noteq> [] \<and>
    (\<forall>c \<in> set ctxs. id_plain (fst c) \<and> is_level L (snd c))"
  by (fastforce simp: thresholds_storable_def table_all_def nested_ok_def simp del: split_paired_All split_paired_Ex)

lemma assignments_read_back:
  assumes "assignments_storable m"
  shows "read_assignments (JObject (map (\<lambda>(app, ctxs). (id_key app, JObject (map (\<lambda>(ctx, chs). (id_key ctx, assigned_value chs)) ctxs))) m)) = Some m"
proof -
  have "foldM (\<lambda>x. read_app_assignments (((\<lambda>(k, v). (takeWhile (\<lambda>b. b \<noteq> 0) k, v)) \<circ>
      (\<lambda>(app, ctxs). (id_key app, JObject (map (\<lambda>(ctx, chs). (id_key ctx, assigned_value chs)) ctxs)))) x)) m [] = Some ([] @ m)"
    using assms storable_app [OF assms]
    by (intro foldM_apps) (simp_all add: app_assignments_read_back assignments_storable_def table_all_def nested_ok_def)
  then show ?thesis by (simp add: read_assignments_def foldM_map)
qed

lemma app_thresholds_read_back:
  assumes "levels_ok L" "id_plain app" "distinct (map fst ctxs)" "app \<notin> fst ` set m" "ctxs \<noteq> []"
    and "\<forall>c \<in> set ctxs. id_plain (fst c) \<and> is_level L (snd c)"
  shows "read_app_thresholds L (id_key app, JObject (map (\<lambda>(ctx, t). (id_key ctx, level_value L t)) ctxs)) m = Some (m @ [(app, ctxs)])"
proof -
  have "foldM (read_context_threshold L app) (map ((\<lambda>(k, v). (takeWhile (\<lambda>b. b \<noteq> 0) k, v)) \<circ> (\<lambda>(ctx, t). (id_key ctx, level_value L t))) ctxs) m =
      Some (fold (\<lambda>(ctx, t). nested_update app ctx t) ctxs m)"
    unfolding foldM_map using assms(1,6)
    by (intro foldM_total) (auto simp: read_context_threshold_def id_read_back level_read_back split_beta)
  then show ?thesis
    using assms(2) fold_nested_app [OF assms(4,3,5)] by (simp add: read_app_thresholds_def id_read_back)
qed

lemma thresholds_read_back:
  assumes "levels_ok L" "thresholds_storable L m"
  shows "read_thresholds L (JObject (map (\<lambda>(app, ctxs). (id_key app, JObject (map (\<lambda>(ctx, t). (id_key ctx, level_value L t)) ctxs))) m)) = Some m"
proof -
  have "foldM (\<lambda>x. read_app_thresholds L (((\<lambda>(k, v). (takeWhile (\<lambda>b. b \<noteq> 0) k, v)) \<circ>
      (\<lambda>(app, ctxs). (id_key app, JObject (map (\<lambda>(ctx, t). (id_key ctx, level_value L t)) ctxs)))) x)) m [] = Some ([] @ m)"
    using assms storable_app_thresholds [OF assms(2)]
    by (intro foldM_apps) (simp_all add: app_thresholds_read_back thresholds_storable_def table_all_def nested_ok_def)
  then show ?thesis by (simp add: read_thresholds_def foldM_map)
qed

lemma ReadDlt_WriteDlt:
  assumes "levels_ok L" "json_ok J" "dictionary_ok D" "storable L config"
  shows "ReadDlt L J D (WriteDlt L J D config pd) = Some config"
proof -
  let ?chs = "map (\<lambda>(nm, t). (c_str nm, JObject [(lit ''channelThreshold'', level_value L t)])) (pc_channels config)"
  have "foldM (\<lambda>(nm, v) m. Member v (lit ''channelThreshold'') \<bind> get_level L \<bind> (\<lambda>t. Some (emplace nm t m)))
      (map (\<lambda>(k, v). (takeWhile (\<lambda>b. b \<noteq> 0) k, v)) ?chs) [] = Some (fold (\<lambda>(nm, t). emplace nm t) (pc_channels config) [])"
    unfolding foldM_map using assms(1,4)
    by (intro foldM_total) (auto simp: storable_def c_str_plain c_str_plain [unfolded c_str_def] level_read_back split_beta)
  also have "fold (\<lambda>(nm, t). emplace nm t) (pc_channels config) [] = pc_channels config"
    using fold_emplace [of "[]" "pc_channels config"] assms(4) by (simp add: storable_def)
  finally have chs: "foldM (\<lambda>(nm, v) m. Member v (lit ''channelThreshold'') \<bind> get_level L \<bind> (\<lambda>t. Some (emplace nm t m)))
      (map (\<lambda>(k, v). (takeWhile (\<lambda>b. b \<noteq> 0) k, v)) ?chs) [] = Some (pc_channels config)" .
  have "js_parse J (pd_GetString D kConfigDatabaseKey (js_braces J) (WriteDlt L J D config pd)) = Some (config_document L config)"
    using assms(2,3) textual_document by (simp add: WriteDlt_def json_ok_def dictionary_ok_def)
  moreover have "level_value L (pc_default_threshold config) = v \<Longrightarrow> get_level L v = Some (pc_default_threshold config)" for v
    using assms(1,4) level_read_back by (auto simp: storable_def)
  ultimately show ?thesis
    using assms(4) chs
    by (simp add: ReadDlt_def config_document_def storable_def optional_def assignments_read_back thresholds_read_back [OF assms(1)])
qed

text \<open>C22: A persistent configuration that is written is read back unchanged: its channels with
  their thresholds, its assignments, its message thresholds, the default threshold and the
  filter switch. It must have a channel, no context may be assigned to no channel at all,
  names and identifiers hold no zero byte in front of a character, and the levels are levels.\<close>

theorem persistent_config_read_back:
  assumes "levels_ok L" "json_ok J" "dictionary_ok D" "storable L config"
  shows "ReadDlt L J D (WriteDlt L J D config pd) = Some config"
  by (rule ReadDlt_WriteDlt [OF assms])

section \<open>Configurations that are read are well formed\<close>

lemma set_update_subset: "set (AList.update k v m) \<subseteq> insert (k, v) (set m)"
  by (induction m) auto

lemma update_nonempty: "AList.update k v m \<noteq> []"
  by (cases m) auto

lemma table_all_update:
  assumes "table_all Q m" "id_plain a" "id_plain b" "Q v"
  shows "table_all Q (nested_update a b v m)"
proof -
  define inner where "inner = (case map_of m a of None \<Rightarrow> [] | Some inner \<Rightarrow> inner)"
  let ?new = "AList.update b v inner"
  have "distinct (map fst inner) \<and> (\<forall>c \<in> set inner. id_plain (fst c) \<and> Q (snd c))"
    unfolding inner_def
    using assms(1) by (cases "map_of m a") (auto simp: table_all_def nested_ok_def simp del: split_paired_All dest!: map_of_SomeD bspec)
  moreover have "c = (b, v) \<or> c \<in> set inner" if "c \<in> set ?new" for c
    using that set_update_subset [of b v inner] by blast
  ultimately have new: "distinct (map fst ?new)" "\<forall>c \<in> set ?new. id_plain (fst c) \<and> Q (snd c)" "?new \<noteq> []"
    using assms(3,4) by (simp_all add: AList.distinct_update update_nonempty) fastforce
  have "e = (a, ?new) \<or> e \<in> set m" if "e \<in> set (nested_update a b v m)" for e
    using that set_update_subset [of a ?new m] by (auto simp: nested_update_eq inner_def)
  then show ?thesis
    using assms(1,2) new distinct_nested_update [of m a b v] by (fastforce simp: table_all_def nested_ok_def simp del: split_paired_All)
qed

lemma table_all_lookup:
  assumes "table_all Q m" "nlook m a b = Some v"
  shows "id_plain a \<and> id_plain b \<and> Q v"
proof -
  obtain inner where "(a, inner) \<in> set m" "(b, v) \<in> set inner"
    using assms(2) by (auto simp: nlook_def split: option.splits dest: map_of_SomeD)
  with assms(1) show ?thesis unfolding table_all_def by fastforce
qed

lemma id_plain_new: "0 \<notin> set s \<Longrightarrow> id_plain (NewDltidT s)"
  by (auto simp: id_plain.simps NewDltidT_def char_at_def Let_def min_def in_set_conv_nth)

lemma GetString_no_zero: "GetString v = Some s \<Longrightarrow> 0 \<notin> set s"
  by (cases v) (auto dest: set_takeWhileD)

lemma Members_no_zero: "Members v = Some ms \<Longrightarrow> (k, x) \<in> set ms \<Longrightarrow> 0 \<notin> set k"
  by (cases v) (auto dest: set_takeWhileD)

lemma get_id_plain: "get_id v = Some i \<Longrightarrow> id_plain i"
  by (auto simp: get_id_def dest: GetString_no_zero intro: id_plain_new)

lemma get_level_is_level: "get_level L v = Some l \<Longrightarrow> is_level L l"
  by (auto simp: get_level_def ToLogLevel_is_level)

lemma push_assigned_storable:
  "assignments_storable m \<Longrightarrow> id_plain a \<Longrightarrow> id_plain c \<Longrightarrow> id_plain ch \<Longrightarrow> assignments_storable (push_assigned a c ch m)"
  unfolding push_assigned_eq assignments_storable_def
  by (rule table_all_update) (auto dest: table_all_lookup split: option.splits)

lemma read_context_assignments_storable:
  assumes "read_context_assignments a itr m = Some m'" "assignments_storable m" "id_plain a" "0 \<notin> set (fst itr)"
  shows "assignments_storable m'"
proof -
  from assms(1) obtain vs where
    "foldM (\<lambda>itr3 m. get_id itr3 \<bind> (\<lambda>ch. Some (push_assigned a (NewDltidT (fst itr)) ch m))) vs m = Some m'"
    by (auto simp: read_context_assignments_def Let_def bind_eq_Some_conv)
  then show ?thesis
    by (rule foldM_invariant)
      (use assms in \<open>auto simp: bind_eq_Some_conv id_plain_new intro!: push_assigned_storable dest: get_id_plain\<close>)
qed

lemma read_app_assignments_storable:
  assumes "read_app_assignments itr m = Some m'" "assignments_storable m" "0 \<notin> set (fst itr)"
  shows "assignments_storable m'"
proof -
  from assms(1) obtain ctxs where ctxs: "Members (snd itr) = Some ctxs"
    "foldM (read_context_assignments (NewDltidT (fst itr))) ctxs m = Some m'"
    by (auto simp: read_app_assignments_def Let_def bind_eq_Some_conv)
  from ctxs(2) assms(2) show ?thesis
    by (rule foldM_invariant)
      (use assms(3) Members_no_zero [OF ctxs(1)] in \<open>auto simp: id_plain_new elim!: read_context_assignments_storable\<close>)
qed

lemma read_assignments_storable: "read_assignments v = Some m \<Longrightarrow> assignments_storable m"
proof -
  assume "read_assignments v = Some m"
  then obtain apps where apps: "Members v = Some apps" "foldM read_app_assignments apps [] = Some m"
    by (auto simp: read_assignments_def bind_eq_Some_conv)
  have "assignments_storable []" by (simp add: assignments_storable_def table_all_def nested_ok_def)
  with apps(2) show ?thesis
    by (rule foldM_invariant) (use Members_no_zero [OF apps(1)] in \<open>auto elim!: read_app_assignments_storable\<close>)
qed

lemma read_app_thresholds_storable:
  assumes "read_app_thresholds L itr m = Some m'" "thresholds_storable L m" "0 \<notin> set (fst itr)"
  shows "thresholds_storable L m'"
proof -
  from assms(1) obtain ctxs where ctxs: "Members (snd itr) = Some ctxs"
    "foldM (read_context_threshold L (NewDltidT (fst itr))) ctxs m = Some m'"
    by (auto simp: read_app_thresholds_def Let_def bind_eq_Some_conv)
  from ctxs(2) assms(2) show ?thesis
    by (rule foldM_invariant)
      (use assms(3) Members_no_zero [OF ctxs(1)] in \<open>auto simp: read_context_threshold_def thresholds_storable_def bind_eq_Some_conv
        id_plain_new intro!: table_all_update dest: get_level_is_level\<close>)
qed

lemma read_thresholds_storable: "read_thresholds L v = Some m \<Longrightarrow> thresholds_storable L m"
proof -
  assume "read_thresholds L v = Some m"
  then obtain apps where apps: "Members v = Some apps" "foldM (read_app_thresholds L) apps [] = Some m"
    by (auto simp: read_thresholds_def bind_eq_Some_conv)
  have "thresholds_storable L []" by (simp add: thresholds_storable_def table_all_def nested_ok_def)
  with apps(2) show ?thesis
    by (rule foldM_invariant) (use Members_no_zero [OF apps(1)] in \<open>auto elim!: read_app_thresholds_storable\<close>)
qed

lemma foldM_emplace:
  assumes "foldM (\<lambda>(k, v) m. do { x \<leftarrow> g v; Some (emplace (h k) x m) }) ms [] = Some m"
    and "\<And>k v x. (k, v) \<in> set ms \<Longrightarrow> g v = Some x \<Longrightarrow> Q (h k) x"
  shows "distinct (map fst m) \<and> (\<forall>e \<in> set m. Q (fst e) (snd e)) \<and> (ms \<noteq> [] \<longrightarrow> m \<noteq> [])"
proof -
  have "distinct (map fst m) \<and> list_all (\<lambda>e. Q (fst e) (snd e)) m"
    by (rule foldM_invariant [OF assms(1), where P = "\<lambda>m. distinct (map fst m) \<and> list_all (\<lambda>e. Q (fst e) (snd e)) m"])
      (use assms(2) in \<open>auto simp: bind_eq_Some_conv emplace_def map_of_eq_None_iff split: if_splits\<close>)
  then have "distinct (map fst m) \<and> (\<forall>e \<in> set m. Q (fst e) (snd e))" unfolding list_all_iff .
  moreover have "m \<noteq> []" if ne: "ms \<noteq> []"
  proof -
    obtain k v rest where "ms = (k, v) # rest" using ne by (cases ms) auto
    with assms(1) obtain x where "foldM (\<lambda>(k, v) m. do { x \<leftarrow> g v; Some (emplace (h k) x m) }) rest (emplace (h k) x []) = Some m"
      by (auto simp: bind_eq_Some_conv)
    then show ?thesis
      by (rule foldM_invariant) (auto simp: emplace_def bind_eq_Some_conv split: if_splits)
  qed
  ultimately show ?thesis by blast
qed

text \<open>The static configurations the server is started with.\<close>

definition static_ok :: "LogLevels \<Rightarrow> StaticConfig \<Rightarrow> bool" where
  "static_ok L sc \<longleftrightarrow> sc_channels sc \<noteq> [] \<and> distinct (map fst (sc_channels sc)) \<and>
     (\<forall>e \<in> set (sc_channels sc). id_plain (fst e) \<and> is_level L (cd_channel_threshold (snd e))) \<and> is_level L (sc_default_threshold sc) \<and>
     assignments_storable (sc_channel_assignments sc) \<and> thresholds_storable L (sc_message_thresholds sc) \<and>
     distinct (map fst (sc_applications_kbps sc))"

lemma ReadStaticDlt_ok:
  assumes "ReadStaticDlt L parse text = Some (Inr sc)"
  shows "static_ok L sc"
proof -
  from assms obtain d chs descriptions threshold enforced overall kbps where
    r: "Member d (lit ''channels'') \<bind> Members = Some chs" "chs \<noteq> []"
      "foldM (\<lambda>(nm, v) m. do { c \<leftarrow> read_channel L v; Some (emplace (NewDltidT nm) c m) }) chs [] = Some (sc_channels sc)"
      "Member d (lit ''channelAssignments'') \<bind> read_assignments = Some (sc_channel_assignments sc)"
      "read_default_threshold L d = Some (sc_default_threshold sc)"
      "Member d (lit ''messageThresholds'') \<bind> read_thresholds L = Some (sc_message_thresholds sc)"
      "read_quotas d = Some (enforced, overall, sc_applications_kbps sc)"
    by (auto simp: ReadStaticDlt_def bind_eq_Some_conv split: option.splits if_splits) blast
  have lv: "is_level L (cd_channel_threshold c)" if "read_channel L v = Some c" for v c
    using that by (auto simp: read_channel_def bind_eq_Some_conv dest: get_level_is_level)
  obtain v where "Members v = Some chs" using r(1) by (auto simp: bind_eq_Some_conv)
  from Members_no_zero [OF this] foldM_emplace [OF r(3), where Q = "\<lambda>i c. id_plain i \<and> is_level L (cd_channel_threshold c)"] r(2)
  have "distinct (map fst (sc_channels sc))" "sc_channels sc \<noteq> []"
    "\<forall>e \<in> set (sc_channels sc). id_plain (fst e) \<and> is_level L (cd_channel_threshold (snd e))"
    by (auto simp: id_plain_new lv)
  moreover have "assignments_storable (sc_channel_assignments sc)" "thresholds_storable L (sc_message_thresholds sc)"
    using r(4,6) by (auto simp: bind_eq_Some_conv dest: read_assignments_storable read_thresholds_storable)
  moreover have "is_level L (sc_default_threshold sc)"
    using r(5) by (auto simp: read_default_threshold_def bind_eq_Some_conv is_level_def kLoglevelMap_def split: if_splits dest!: get_level_is_level)
  moreover have "distinct (map fst (sc_applications_kbps sc))"
    using r(7) by (auto simp: read_quotas_def bind_eq_Some_conv split: if_splits dest: foldM_emplace [where Q = "\<lambda>_ _. True"])
  ultimately show ?thesis by (simp add: static_ok_def)
qed

text \<open>C23: Every static configuration that is read from a file is well formed: it has a channel,
  each channel, application and context occurs once, every identifier is plain text, every
  threshold is one of the log levels, and no context is assigned to an empty list of channels.\<close>

theorem static_config_well_formed:
  assumes "ReadStaticDlt L parse text = Some (Inr sc)"
  shows "static_ok L sc"
  by (rule ReadStaticDlt_ok [OF assms])

section \<open>The server keeps to what can be stored\<close>

text \<open>What a server may hold so that storing it loses nothing.\<close>

definition keeps :: "LogLevels \<Rightarrow> 'p DltLogServer \<Rightarrow> bool" where
  "keeps L s \<longleftrightarrow> is_level L (default_threshold s) \<and> list_all (\<lambda>c. is_level L (channel_threshold c)) (channels s) \<and>
     (\<forall>a b m. map_of (channel_assignments s) (a, b) = Some m \<longrightarrow> id_plain a \<and> id_plain b \<and> m \<noteq> 0) \<and>
     (\<forall>a b t. map_of (message_thresholds s) (a, b) = Some t \<longrightarrow> id_plain a \<and> id_plain b \<and> is_level L t)"

text \<open>The environment of the data router: levels are levels, and the store gives well-formed configurations.\<close>

definition config_clean :: "LogLevels \<Rightarrow> PersistentConfig \<Rightarrow> bool" where
  "config_clean L config \<longleftrightarrow> (pc_channels config \<noteq> [] \<longrightarrow> is_level L (pc_default_threshold config) \<and>
     (\<forall>e \<in> set (pc_channels config). is_level L (snd e)) \<and>
     assignments_storable (pc_channel_assignments config) \<and> thresholds_storable L (pc_message_thresholds config))"

definition env_clean :: "LogLevels \<Rightarrow> 'p ServerEnv \<Rightarrow> bool" where
  "env_clean L E \<longleftrightarrow> kOff E = lv_kOff L \<and> level_reader_ok (env_levels E) \<and>
     (\<forall>v l. env_levels E v = Some l \<longrightarrow> is_level L l) \<and> (\<forall>p. config_clean L (reader_callback E p))"

lemma kOff_is_level: "is_level L (lv_kOff L)"
  by (simp add: is_level_def kLoglevelMap_def)

lemma ReadDlt_clean: "ReadDlt L J D pd = Some config \<Longrightarrow> config_clean L config"
proof -
  assume r: "ReadDlt L J D pd = Some config"
  show ?thesis
  proof (cases "config = NewPersistentConfig L")
    case False
    with r obtain d chs where
      "foldM (\<lambda>(nm, v) m. do { t \<leftarrow> Member v (lit ''channelThreshold'') \<bind> get_level L; Some (emplace nm t m) }) chs [] = Some (pc_channels config)"
      "Member d (lit ''channelAssignments'') \<bind> read_assignments = Some (pc_channel_assignments config)"
      "Member d (lit ''defaultThresold'') \<bind> get_level L = Some (pc_default_threshold config)"
      "Member d (lit ''messageThresholds'') \<bind> read_thresholds L = Some (pc_message_thresholds config)"
      by (auto simp: ReadDlt_def bind_eq_Some_conv split: option.splits if_splits) blast
    then show ?thesis
      using foldM_emplace [where h = "\<lambda>k. k" and Q = "\<lambda>_ t. is_level L t" and g = "\<lambda>v. Member v (lit ''channelThreshold'') \<bind> get_level L" and ms = chs and m = "pc_channels config"]
      by (auto simp: config_clean_def bind_eq_Some_conv dest: read_assignments_storable read_thresholds_storable get_level_is_level)
  qed (simp add: config_clean_def NewPersistentConfig_def)
qed

lemma mask_of_nonzero:
  assumes "chs \<noteq> []" "\<And>x. f x < 32"
  shows "mask_of f chs \<noteq> 0"
proof -
  obtain x where "x \<in> set chs" using assms(1) by (cases chs) auto
  then have "bit (mask_of f chs) (f x)" using assms(2) by (auto simp: bit_mask_of)
  then show ?thesis by auto
qed

lemma finish_init_keeps:
  assumes "config_clean L config" "static_ok L sc" "\<And>x. num_of (channel_nums s) x < 32"
    and "list_all (\<lambda>c. is_level L (channel_threshold c)) (channels (finish_init config sc s))"
  shows "keeps L (finish_init config sc s)"
proof -
  let ?as = "if pc_channels config \<noteq> [] then pc_channel_assignments config else sc_channel_assignments sc"
  let ?ts = "if pc_channels config \<noteq> [] then pc_message_thresholds config else sc_message_thresholds sc"
  have as: "assignments_storable ?as" and ts: "thresholds_storable L ?ts"
    using assms(1,2) by (auto simp: config_clean_def static_ok_def)
  then have d: "distinct (map fst ?as)" "distinct (map fst ?ts)"
    by (auto simp: assignments_storable_def thresholds_storable_def table_all_def nested_ok_def)
  note f = finish_configuration [OF d, of s]
  have "is_level L (default_threshold (finish_init config sc s))"
    unfolding f(4) using assms(1,2) by (auto simp: config_clean_def static_ok_def)
  with assms(4) show ?thesis
    using table_all_lookup [OF as [unfolded assignments_storable_def]] table_all_lookup [OF ts [unfolded thresholds_storable_def]]
      mask_of_nonzero [where f = "num_of (channel_nums s)", OF _ assms(3)]
    unfolding keeps_def f(1,2) by blast
qed

lemma persisted_is_level:
  "env_clean L E \<Longrightarrow> config_clean L config \<Longrightarrow> pc_channels config \<noteq> [] \<Longrightarrow> is_level L (persisted_threshold E config nm)"
  by (auto simp: persisted_threshold_def env_clean_def config_clean_def kOff_is_level dest!: map_of_SomeD bspec split: option.split)

lemma sc_nums_bound: "configured sc \<Longrightarrow> num_of (sc_nums sc) x < 32"
  by (auto simp: configured_def num_of_def sc_nums_def dest!: map_of_SomeD set_zip_rightD split: option.split)

lemma new_keeps:
  assumes "configured sc" "static_ok L sc" "env_clean L E"
  shows "keeps L (NewDltLogServer E sc enabled p)"
proof -
  let ?config = "reader_callback E p"
  have c: "config_clean L ?config" using assms(3) by (simp add: env_clean_def)
  have "distinct (map fst (sc_channels sc))" using assms(2) by (simp add: static_ok_def)
  from new_configured [OF assms(1) this, of E enabled p] obtain s1 where
    s1: "NewDltLogServer E sc enabled p = finish_init ?config sc s1" "num_of (channel_nums s1) = num_of (sc_nums sc)"
      "channels (NewDltLogServer E sc enabled p) = map (created E ?config) (sc_channels sc)" by blast
  have "list_all (\<lambda>c. is_level L (channel_threshold c)) (channels (finish_init ?config sc s1))"
    using assms(2) persisted_is_level [OF assms(3) c] unfolding s1(1) [symmetric] s1(3)
    by (simp add: list_all_iff created_fields static_ok_def)
  then show ?thesis
    unfolding s1(1) using c assms(1,2) by (intro finish_init_keeps) (simp_all add: s1(2) sc_nums_bound)
qed

lemma reload_keeps:
  assumes "configured sc" "static_ok L sc" "env_clean L E" "server_ok s" "setup_ok sc s"
  shows "keeps L (InitLogChannels E True s)"
proof -
  let ?config = "reader_callback E (persistent s)"
  let ?s1 = "s\<lparr>coredump_channel := None, channels := map (reload_channel E ?config sc) (channels s)\<rparr>"
  have c: "config_clean L ?config" using assms(3) by (simp add: env_clean_def)
  have sc: "static_config s = sc" using assms(5) by (simp add: setup_ok_def)
  have r: "InitLogChannels E True s = finish_init ?config sc ?s1"
    using assms(1) sc by (simp add: InitLogChannels_configured Let_def)
  have "is_level L (channel_threshold (reload_channel E ?config sc ch))" for ch
    using persisted_is_level [OF assms(3) c] assms(2,3) kOff_is_level [of L]
    by (auto simp: reload_channel_def Let_def static_ok_def env_clean_def dest!: map_of_SomeD bspec split: option.split)
  moreover have "channels (finish_init ?config sc ?s1) = channels ?s1"
    using finish_init_fields(2) [of "length (channels s)" ?s1 ?config sc] assms(4) by (simp add: server_ok_def)
  ultimately have "list_all (\<lambda>c. is_level L (channel_threshold c)) (channels (finish_init ?config sc ?s1))"
    by (simp add: list_all_iff)
  then show ?thesis
    unfolding r using c assms(1,2,5) by (intro finish_init_keeps) (simp_all add: setup_ok_def sc_nums_bound)
qed

lemma keeps_fields:
  "keeps L s \<Longrightarrow> default_threshold s' = default_threshold s \<Longrightarrow> map channel_threshold (channels s') = map channel_threshold (channels s) \<Longrightarrow>
   channel_assignments s' = channel_assignments s \<Longrightarrow> message_thresholds s' = message_thresholds s \<Longrightarrow> keeps L s'"
  unfolding keeps_def list_all_iff by (metis (no_types, lifting) image_iff list.set_map)

lemma shift_nonzero: "i < 32 \<Longrightarrow> (push_bit i 1 :: channelmask) \<noteq> 0"
proof -
  assume i: "i < 32"
  then have "bit (push_bit i 1 :: channelmask) i" by (simp add: bit_exp_iff)
  with i show ?thesis by auto
qed

lemma SetLogLevel_keeps:
  assumes "keeps L s" "id_plain app" "id_plain ctx" "\<And>l. t = Level l \<Longrightarrow> is_level L l"
  shows "keeps L (snd (SetLogLevel app ctx t s))"
  using assms
  by (auto simp: keeps_def SetLogLevel_def Let_def map_of_emplace AList.delete_conv' simp del: split_paired_All
      split: ThresholdT.split option.splits if_splits)

lemma SetLogChannelAssignment_keeps:
  assumes "keeps L s" "server_ok s" "id_plain app" "id_plain ctx"
  shows "keeps L (snd (SetLogChannelAssignment app ctx ch flag s))"
proof (cases "map_of (channel_nums s) ch")
  case (Some i)
  then have "i < 32" using assms(2) by (auto simp: server_ok_def list_all_iff dest!: map_of_SomeD bspec)
  then have m: "(push_bit i 1 :: channelmask) \<noteq> 0" "old OR push_bit i 1 \<noteq> (0 :: channelmask)" for old
    using shift_nonzero by (auto simp: or_eq_0_iff)
  show ?thesis
    using assms m Some
    by (auto simp: keeps_def SetLogChannelAssignment_def Let_def map_of_emplace AList.delete_conv' update_conv simp del: split_paired_All
        split: option.splits if_splits)
qed (use assms(1) in \<open>simp add: SetLogChannelAssignment_def\<close>)

lemma SetLogChannelThreshold_keeps:
  assumes "keeps L s" "is_level L l"
  shows "keeps L (snd (SetLogChannelThreshold ch l s))"
  using assms by (auto simp: keeps_def SetLogChannelThreshold_def list_all_iff simp del: split_paired_All split: option.split
      dest!: set_update_subset_insert [THEN subsetD])

lemma Execute_keeps:
  assumes "configured sc" "static_ok L sc" "env_clean L E" "server_ok s" "setup_ok sc s" "keeps L s" "job_ok (env_levels E) j"
  shows "keeps L (snd (Execute E j s))"
proof -
  have lv: "is_level L l" if "env_levels E v = Some l" for v l using assms(3) that by (auto simp: env_clean_def)
  show ?thesis
  proof (cases j)
    case ResetToDefaultHandler
    have "server_ok (ClearDatabase E s)" "setup_ok sc (ClearDatabase E s)"
      using assms(4,5) by (simp_all add: ClearDatabase_def server_ok_fields setup_ok_def)
    with ResetToDefaultHandler show ?thesis using reload_keeps [OF assms(1-3)] by (simp add: ResetToDefault_def)
  next
    case (SetLogLevelHandler app ctx t)
    with assms(6,7) lv show ?thesis by (auto intro!: SetLogLevel_keeps)
  next
    case (SetLogChannelAssignmentHandler app ctx ch flag)
    with assms(4,6,7) show ?thesis by (auto intro!: SetLogChannelAssignment_keeps)
  next
    case (SetLogChannelThresholdHandler ch l)
    with assms(6,7) lv show ?thesis by (auto intro!: SetLogChannelThreshold_keeps)
  next
    case (SetDefaultLogLevelHandler l)
    with assms(6,7) lv show ?thesis by (auto simp: SetDefaultLogLevel_def keeps_def simp del: split_paired_All)
  qed (use assms(6) in \<open>auto simp: StoreDltConfig_def SaveDatabase_def SetMessagingFilteringState_def SetDltOutputEnable_def
        SetOutputEnabled_def Let_def intro: keeps_fields\<close>)
qed

lemma routed_keeps:
  assumes "routed s dest msg s'" "keeps L s"
  shows "keeps L s'"
proof (rule keeps_fields [OF assms(2)])
  show "map channel_threshold (channels s') = map channel_threshold (channels s)"
    using assms(1) by (intro nth_equalityI) (auto simp: routed_def took_def same_setup_def split: if_splits)
qed (use assms(1) in \<open>cases s; cases s'; simp add: routed_def\<close>)+

lemma reachable_keeps:
  assumes "configured sc" "static_ok L sc" "env_clean L E" "server_reachable E sc s"
  shows "keeps L s"
proof -
  have d: "distinct (map fst (sc_channels sc))" using assms(2) by (simp add: static_ok_def)
  note ok = server_reachable_ok [OF d]
  have same: "\<forall>c \<in> set (channels s). channel_threshold (f c) = channel_threshold c"
    if "server_ok s" "\<And>c. channel_ok c \<Longrightarrow> took c (msg c) (f c)" for f msg and s :: "'a DltLogServer"
    using that by (auto simp: server_ok_def took_def same_setup_def list_all_iff)
  from assms(4) show ?thesis
  proof induction
    case (start enabled p)
    show ?case by (rule new_keeps [OF assms(1-3)])
  next
    case (command s command)
    show ?case
    proof (cases "Parse (env_levels E) command")
      case (Some j)
      then have "job_ok (env_levels E) j" using Parse_job_ok assms(3) by (auto simp: env_clean_def)
      with Some show ?thesis
        using Execute_keeps [OF assms(1-3) ok [OF command.hyps] reachable_setup [OF d command.hyps] command.IH]
        by (simp add: OnConfigCommand_def)
    qed (use command.IH in \<open>simp add: OnConfigCommand_def\<close>)
  next
    case (verbose s e t)
    show ?case by (rule routed_keeps [OF verbose_routed [OF ok [OF verbose.hyps(1)] verbose.hyps(2)] verbose.IH])
  next
    case (nonverbose s dat desc t)
    show ?case by (rule routed_keeps [OF nonverbose_routed [OF ok [OF nonverbose.hyps(1)] nonverbose.hyps(2)] nonverbose.IH])
  next
    case (transfer s dat level app ctx nor t)
    show ?case by (rule routed_keeps [OF transfer_routed [OF ok [OF transfer.hyps]] transfer.IH])
  next
    case (flush s)
    show ?case unfolding Server_Flush_def
      by (rule keeps_fields [OF flush.IH]) (simp_all add: same [where f = "\<lambda>c. Channel_Flush (env_send E (channel_name c)) c", OF ok [OF flush.hyps] Flush_took])
  next
    case (statistics s)
    show ?case unfolding ShowChannelStatistics_def
      by (rule keeps_fields [OF statistics.IH]) (simp_all add: same [OF ok [OF statistics.hyps] ShowStats_took])
  qed (auto simp: SetEnabledCallback_def SetDltOutputEnabled_def intro: keeps_fields)
qed

section \<open>Storing a server\<close>

lemma Dltid_Data_no_zero: "id_plain i \<Longrightarrow> 0 \<notin> set (Dltid_Data i)"
  by (cases i) (auto simp: id_plain.simps Dltid_Data_def Let_def)

lemma fold_update_entries:
  assumes "distinct (map fst m)"
  shows "distinct (map fst (fold (\<lambda>x. AList.update (f x) (g x)) xs m))"
    "set (fold (\<lambda>x. AList.update (f x) (g x)) xs m) \<subseteq> set m \<union> (\<lambda>x. (f x, g x)) ` set xs"
proof -
  show "distinct (map fst (fold (\<lambda>x. AList.update (f x) (g x)) xs m))"
    using assms by (induction xs arbitrary: m) (simp_all add: AList.distinct_update)
  show "set (fold (\<lambda>x. AList.update (f x) (g x)) xs m) \<subseteq> set m \<union> (\<lambda>x. (f x, g x)) ` set xs"
  proof (induction xs arbitrary: m)
    case (Cons x xs)
    from Cons [of "AList.update (f x) (g x) m"] set_update_subset [of "f x" "g x" m] show ?case by auto
  qed simp
qed

lemma saved_table_all:
  assumes "distinct (map fst tab)" "table_all Q m"
    and "\<And>a b v. map_of tab (a, b) = Some v \<Longrightarrow> id_plain a \<and> id_plain b \<and> Q (g v)"
  shows "table_all Q (fold (\<lambda>((app, ctx), v). nested_update app ctx (g v)) tab m)"
  using assms
proof (induction tab arbitrary: m)
  case (Cons e tab)
  obtain a b v where e: "e = ((a, b), v)" by (cases e) auto
  have "id_plain a \<and> id_plain b \<and> Q (g v)" using Cons.prems(3) [of a b v] by (simp add: e)
  then have "table_all Q (nested_update a b (g v) m)" using Cons.prems(2) by (simp add: table_all_update)
  moreover have "id_plain a' \<and> id_plain b' \<and> Q (g v')" if "map_of tab (a', b') = Some v'" for a' b' v'
    using Cons.prems(1,3) that e by (metis (no_types, lifting) distinct.simps(2) list.simps(9) map_of_Cons_code(2) fst_conv map_of_eq_None_iff option.distinct(1) list.set_map)
  ultimately show ?case using Cons.IH [of "nested_update a b (g v) m"] Cons.prems(1) by (simp add: e)
qed simp

lemma table_all_Nil [simp]: "table_all Q []"
  by (simp add: table_all_def nested_ok_def)

lemma mask_names_nonempty:
  assumes "take_bit (length chs) m = m" "m \<noteq> 0"
  shows "mask_names m chs \<noteq> []"
proof -
  obtain i where i: "bit m i" using assms(2) by (auto simp: bit_eq_iff)
  then have "i < length chs" using assms(1) by (metis bit_take_bit_iff)
  with i have "(i, chs ! i) \<in> set (filter (\<lambda>(i, c). bit m i) (enumerate 0 chs))"
    by (simp add: in_set_enumerate_eq)
  then show ?thesis by (auto simp: mask_names_def filter_empty_conv)
qed

lemma saved_storable:
  assumes "server_ok s" "keeps L s" "\<forall>nm \<in> channel_name ` set (channels s). id_plain nm"
  shows "storable L (saved_config E s)"
proof -
  let ?c = "saved_config E s"
  have d: "distinct (map fst (channel_assignments s))" "distinct (map fst (message_thresholds s))"
    and m: "list_all (\<lambda>(k, m). take_bit (length (channels s)) m = m) (channel_assignments s)" and ne: "channels s \<noteq> []"
    using assms(1) by (auto simp: server_ok_def)
  define f where "f = (\<lambda>c :: DltLogChannel. Dltid_Data (channel_name c))"
  have pcs: "pc_channels ?c = fold (\<lambda>c. AList.update (f c) (channel_threshold c)) (channels s) []"
    by (simp add: saved_config_def f_def)
  note entries = fold_update_entries [where m = "[]" and xs = "channels s" and f = f and g = channel_threshold, simplified]
  have chs: "pc_channels ?c \<noteq> []" "distinct (map fst (pc_channels ?c))"
    unfolding pcs using updates_nonempty [OF ne] entries(1) by simp_all
  have lv: "\<forall>e \<in> set (pc_channels ?c). 0 \<notin> set (fst e) \<and> is_level L (snd e)"
  proof
    fix e assume "e \<in> set (pc_channels ?c)"
    then obtain c where "c \<in> set (channels s)" "e = (f c, channel_threshold c)" using entries(2) unfolding pcs by blast
    then show "0 \<notin> set (fst e) \<and> is_level L (snd e)"
      using assms(2,3) Dltid_Data_no_zero [of "channel_name c"] by (simp add: f_def keeps_def list_all_iff)
  qed
  have "table_all (\<lambda>chs. chs \<noteq> [] \<and> list_all id_plain chs) (pc_channel_assignments ?c)"
  proof -
    have "list_all id_plain (mask_names x (channels s))" for x
      using assms(3) by (auto simp: mask_names_def list_all_iff in_set_enumerate_eq)
    moreover have "mask_names x (channels s) \<noteq> []" if "map_of (channel_assignments s) (a, b) = Some x" for a b x
    proof (rule mask_names_nonempty)
      show "take_bit (length (channels s)) x = x" using list_all_map_of [OF m that] by simp
      show "x \<noteq> 0" using that assms(2) unfolding keeps_def by blast
    qed
    moreover have "id_plain a \<and> id_plain b" if "map_of (channel_assignments s) (a, b) = Some x" for a b x
      using that assms(2) unfolding keeps_def by blast
    ultimately show ?thesis
      unfolding saved_config_def PersistentConfig.simps by (intro saved_table_all [OF d(1) table_all_Nil]) blast
  qed
  moreover have "table_all (is_level L) (pc_message_thresholds ?c)"
    unfolding saved_config_def PersistentConfig.simps
    by (rule saved_table_all [OF d(2) table_all_Nil]) (use assms(2) in \<open>unfold keeps_def, blast\<close>)
  ultimately show ?thesis
    using chs lv assms(2) by (simp add: storable_def assignments_storable_def thresholds_storable_def keeps_def saved_config_def)
qed

text \<open>
  The callbacks the data router gives the server (\<^verbatim>\<open>InitializePersistentStorage\<close> in
  \<^verbatim>\<open>src/daemon/socketserver.cpp\<close>). Reading a document that lacks what \<^verbatim>\<open>ReadDlt\<close> demands is
  undefined; here it gives the empty configuration.
\<close>

definition load_dlt :: "LogLevels \<Rightarrow> 't JsonLibrary \<Rightarrow> ('p, 't) IPersistentDictionary \<Rightarrow> 'p \<Rightarrow> PersistentConfig" where
  "load_dlt L J D pd = (case ReadDlt L J D pd of Some config \<Rightarrow> config | None \<Rightarrow> NewPersistentConfig L)"

definition InitializePersistentStorage ::
  "LogLevels \<Rightarrow> 't JsonLibrary \<Rightarrow> ('p, 't) IPersistentDictionary \<Rightarrow> 'p ServerEnv \<Rightarrow> 'p \<Rightarrow> 'p ServerEnv \<times> bool" where
  "InitializePersistentStorage L J D E pd =
     (E\<lparr>reader_callback := load_dlt L J D, writer_callback := WriteDlt L J D\<rparr>, ReadDltEnabled D pd)"

definition base_levels_ok :: "LogLevels \<Rightarrow> 'p ServerEnv \<Rightarrow> bool" where
  "base_levels_ok L E \<longleftrightarrow> levels_ok L \<and> kOff E = lv_kOff L \<and> level_reader_ok (env_levels E) \<and>
     (\<forall>v l. env_levels E v = Some l \<longrightarrow> is_level L l)"

text \<open>C5: The configuration survives a restart of the whole data router: with a server that is started
  from a configuration file and keeps its persistent configuration as JSON in the
  dictionary, after any commands and messages, what \<^verbatim>\<open>StoreDltConfig\<close> writes is what a new
  server reads, and that server accepts, routes and limits messages exactly as the old one
  did. Nothing is assumed of the commands: what they can set is always something that can be
  stored.\<close>

theorem configuration_file_to_restart:
  assumes "json_ok J" "dictionary_ok D" "base_levels_ok L E0" "E = fst (InitializePersistentStorage L J D E0 pd0)"
    and "ReadStaticDlt L parse text = Some (Inr sc)" "length (sc_channels sc) < 32" "server_reachable E sc s"
  shows "ReadDlt L J D (persistent (snd (StoreDltConfig E s))) = Some (saved_config E s) \<and>
    same_behaviour s (NewDltLogServer E sc enabled (persistent (snd (StoreDltConfig E s)))) \<and>
    destination (NewDltLogServer E sc enabled (persistent (snd (StoreDltConfig E s)))) = destination s"
proof -
  have sc: "static_ok L sc" using assms(5) by (rule ReadStaticDlt_ok)
  then have c: "configured sc" "distinct (map fst (sc_channels sc))" "\<forall>nm \<in> fst ` set (sc_channels sc). id_plain nm"
    using assms(6) by (auto simp: static_ok_def configured_def)
  have lv: "levels_ok L" using assms(3) by (simp add: base_levels_ok_def)
  have env: "reader_callback E = load_dlt L J D" "writer_callback E = WriteDlt L J D" "kOff E = kOff E0" "env_levels E = env_levels E0"
    using assms(4) by (simp_all add: InitializePersistentStorage_def)
  have "config_clean L (load_dlt L J D p)" for p
    using ReadDlt_clean [of L J D p] by (auto simp: load_dlt_def config_clean_def NewPersistentConfig_def split: option.split)
  then have "env_clean L E" using assms(3) env by (simp add: env_clean_def base_levels_ok_def)
  then have "keeps L s" by (rule reachable_keeps [OF c(1) sc _ assms(7)])
  moreover have "\<forall>nm \<in> channel_name ` set (channels s). id_plain nm"
    using c(3) arg_cong [OF reachable_names(1) [OF c(1,2) assms(7)], where f = set] by simp
  ultimately have "storable L (saved_config E s)" using server_reachable_ok [OF c(2) assms(7)] by (intro saved_storable)
  note rb = ReadDlt_WriteDlt [OF lv assms(1,2) this]
  then have "reader_callback E (writer_callback E (saved_config E s) (persistent s)) = saved_config E s"
    by (simp add: env load_dlt_def)
  from stored_behaviour [OF c this assms(7)] rb show ?thesis
    by (simp add: StoreDltConfig_def SaveDatabase_def env)
qed

text \<open>A database that was cleared reads back as a configuration without channels.\<close>

lemma cleared_no_channels:
  assumes "json_ok J" "dictionary_ok D" "E = fst (InitializePersistentStorage L J D E0 pd0)"
  shows "pc_channels (cleared E s) = []"
proof -
  have "js_parse J (pd_GetString D kConfigDatabaseKey (js_braces J) (WriteDlt L J D (empty_config E) (persistent s))) =
      Some (config_document L (empty_config E))"
    using assms(1,2) textual_document by (simp add: WriteDlt_def json_ok_def dictionary_ok_def)
  then have "ReadDlt L J D (WriteDlt L J D (empty_config E) (persistent s)) = Some (NewPersistentConfig L)"
    by (simp add: ReadDlt_def config_document_def empty_config_def)
  then show ?thesis using assms(3) by (simp add: cleared_def InitializePersistentStorage_def load_dlt_def NewPersistentConfig_def)
qed

text \<open>C39: A reset gives back the static configuration. With a data router that is started from a
  configuration file and keeps its persistent configuration as JSON in the dictionary, after any
  commands and messages, a server that was reset accepts, routes and limits messages as one that
  is newly started on the database the reset left. The core dump channel is the exception: a new
  server has it when the static configuration names it, after a reset there is none, and file
  transfers are routed like messages.\<close>

theorem reset_restores_static_configuration:
  assumes "json_ok J" "dictionary_ok D" "base_levels_ok L E0" "E = fst (InitializePersistentStorage L J D E0 pd0)"
    and "ReadStaticDlt L parse text = Some (Inr sc)" "length (sc_channels sc) < 32" "server_reachable E sc s"
  shows "let s' = snd (ResetToDefault E s); fresh = NewDltLogServer E sc enabled (persistent s')
    in same_behaviour fresh s' \<and> destination s' = destination fresh \<and> coredump_channel s' = None \<and>
       coredump_channel fresh = map_of (sc_nums sc) (sc_coredump_channel sc)"
proof -
  have sc: "static_ok L sc" using assms(5) by (rule ReadStaticDlt_ok)
  then have c: "configured sc" "distinct (map fst (sc_channels sc))"
    "distinct (map fst (sc_channel_assignments sc))" "distinct (map fst (sc_message_thresholds sc))"
    using assms(6) by (auto simp: static_ok_def configured_def assignments_storable_def thresholds_storable_def table_all_def nested_ok_def)
  note r = reset_behaviour [OF c(1,2) cleared_no_channels [OF assms(1,2,4)] c(3,4) assms(7), of enabled]
  then show ?thesis
    using same_behaviour_destination [of "NewDltLogServer E sc enabled (persistent (snd (ResetToDefault E s)))" "snd (ResetToDefault E s)"]
    by (simp add: Let_def)
qed

section \<open>A concrete data router\<close>

definition example_log_levels :: LogLevels where
  "example_log_levels = \<lparr>lv_kOff = 0, lv_kFatal = 1, lv_kError = 2, lv_kWarn = 3, lv_kInfo = 4, lv_kDebug = 5, lv_kVerbose = 6\<rparr>"

definition example_json :: "Json JsonLibrary" where
  "example_json = \<lparr>js_parse = Some, js_write = (\<lambda>d. d), js_braces = JObject []\<rparr>"

type_synonym example_store = "(string \<Rightarrow> Json option) \<times> (string \<Rightarrow> bool option)"

definition example_dictionary :: "(example_store, Json) IPersistentDictionary" where
  "example_dictionary = \<lparr>pd_GetString = (\<lambda>k d p. case fst p k of Some v \<Rightarrow> v | None \<Rightarrow> d),
     pd_GetBool = (\<lambda>k d p. case snd p k of Some v \<Rightarrow> v | None \<Rightarrow> d),
     pd_SetString = (\<lambda>k v p. ((fst p)(k \<mapsto> v), snd p)), pd_SetBool = (\<lambda>k v p. (fst p, (snd p)(k \<mapsto> v)))\<rparr>"

definition example_config_file :: Json where
  "example_config_file = JObject
     [(lit ''channels'', JObject
        [(lit ''AA'', JObject [(lit ''channelThreshold'', JString (lit ''kInfo'')), (lit ''ecu'', JString (lit ''ECU1'')), (lit ''port'', JInt 3491)]),
         (lit ''BB'', JObject [(lit ''channelThreshold'', JString (lit ''kWarn'')), (lit ''ecu'', JString (lit ''ECU1'')), (lit ''port'', JInt 3492)])]),
      (lit ''defaultChannel'', JString (lit ''AA'')),
      (lit ''channelAssignments'', JObject [(lit ''APP'', JObject [(lit ''CTX'', JArray [JString (lit ''BB'')])])]),
      (lit ''defaultThreshold'', JString (lit ''kInfo'')),
      (lit ''messageThresholds'', JObject [])]"

definition example_static_config :: StaticConfig where
  "example_static_config =
     (let d = \<lparr>cd_ecu = (69, 67, 85, 49), cd_address = [], cd_port = 3491, cd_dst_address = ''239.255.42.99'', cd_dst_port = 3490,
               cd_channel_threshold = 4, cd_multicast_interface = []\<rparr>
      in \<lparr>sc_coredump_channel = (0, 0, 0, 0), sc_default_channel = (65, 65, 0, 0),
          sc_channels = [((65, 65, 0, 0), d), ((66, 66, 0, 0), d\<lparr>cd_port := 3492, cd_channel_threshold := 3\<rparr>)],
          sc_filtering_enabled = True, sc_default_threshold = 4,
          sc_channel_assignments = [((65, 80, 80, 0), [((67, 84, 88, 0), [(66, 66, 0, 0)])])],
          sc_message_thresholds = [], sc_overall_mbps = 0, sc_applications_kbps = [], sc_quota_enforcement_enabled = False\<rparr>)"

lemmas config_reading = ReadStaticDlt_def example_config_file_def optional_def read_channel_def get_level_def get_id_def get_text_def
  read_default_threshold_def read_quotas_def read_assignments_def read_app_assignments_def read_context_assignments_def read_thresholds_def

lemma example_file_read: "ReadStaticDlt example_log_levels Some (Some example_config_file) = Some (Inr example_static_config)"
  by (simp add: config_reading lit_def ToLogLevel_def kLoglevelMap_def example_log_levels_def example_static_config_def Let_def
      NewDltidT_def char_at_def emplace_def push_assigned_def subscript_def as_u16_def)

definition example_router_env :: "example_store ServerEnv" where
  "example_router_env = \<lparr>reader_callback = (\<lambda>p. NewPersistentConfig example_log_levels), writer_callback = (\<lambda>c p. p), env_levels = example_levels,
     kOff = 0, kError = 2, kInfo = 4, env_view = example_view, env_send = (\<lambda>_ _. None)\<rparr>"

lemma example_libraries:
  "json_ok example_json" "dictionary_ok example_dictionary" "base_levels_ok example_log_levels example_router_env"
proof -
  have "v \<in> {0, 1, 2, 3, 4, 5, 6}" if "v \<le> 6" for v :: u8
  proof -
    have "unat v \<le> 6" using that by (simp add: word_le_nat_alt)
    then have "unat v \<in> {0, 1, 2, 3, 4, 5, 6}" by auto
    then show ?thesis by (auto simp: unat_eq_iff_word)
  qed
  then show "base_levels_ok example_log_levels example_router_env"
    by (auto simp: base_levels_ok_def levels_ok_def kLoglevelMap_def example_log_levels_def example_router_env_def level_reader_ok_def
        example_levels_def is_level_def)
qed (simp_all add: json_ok_def example_json_def dictionary_ok_def example_dictionary_def)

theorem static_config_well_formed_witness: "static_ok example_log_levels example_static_config"
  by (rule static_config_well_formed [OF example_file_read])

definition example_stored :: PersistentConfig where
  "example_stored = \<lparr>pc_channels = [(lit ''AA'', 4), (lit ''BB'', 3)], pc_filtering_enabled = True, pc_default_threshold = 5,
     pc_channel_assignments = [((65, 80, 80, 0), [((67, 84, 88, 0), [(66, 66, 0, 0)])])],
     pc_message_thresholds = [((65, 80, 80, 0), [((0, 0, 0, 0), 6)])]\<rparr>"

theorem persistent_config_read_back_witness:
  "ReadDlt example_log_levels example_json example_dictionary
     (WriteDlt example_log_levels example_json example_dictionary example_stored (\<lambda>_. None, \<lambda>_. None)) = Some example_stored"
proof (rule persistent_config_read_back)
  show "storable example_log_levels example_stored"
    by (simp add: storable_def example_stored_def lit_def is_level_def kLoglevelMap_def example_log_levels_def assignments_storable_def
        thresholds_storable_def table_all_def nested_ok_def id_plain.simps)
qed (use example_libraries in \<open>simp_all add: base_levels_ok_def\<close>)

abbreviation "example_storage \<equiv>
  fst (InitializePersistentStorage example_log_levels example_json example_dictionary example_router_env (\<lambda>_. None, \<lambda>_. None))"

abbreviation "example_router_server \<equiv> NewDltLogServer example_storage example_static_config True (\<lambda>_. None, \<lambda>_. None)"

theorem configuration_file_to_restart_witness:
  "same_behaviour example_router_server
     (NewDltLogServer example_storage example_static_config False (persistent (snd (StoreDltConfig example_storage example_router_server))))"
  using configuration_file_to_restart [OF example_libraries refl example_file_read _ server_reachable.start, where enabled = False]
  by (simp add: example_static_config_def Let_def)

theorem reset_restores_static_configuration_witness:
  "same_behaviour (NewDltLogServer example_storage example_static_config False (persistent (snd (ResetToDefault example_storage example_router_server))))
     (snd (ResetToDefault example_storage example_router_server)) \<and>
   coredump_channel (snd (ResetToDefault example_storage example_router_server)) = None"
  using reset_restores_static_configuration [OF example_libraries refl example_file_read _ server_reachable.start, where enabled = False]
  by (simp add: example_static_config_def Let_def)

text \<open>With the dictionary of builds without persistency nothing is kept: every read gives the default.\<close>

lemma stub_dictionary_forgets:
  assumes "json_ok J"
  shows "ReadDlt L J StubPersistentDictionary (WriteDlt L J StubPersistentDictionary config pd) = Some (NewPersistentConfig L) \<and>
    ReadDltEnabled StubPersistentDictionary (WriteDltEnabled StubPersistentDictionary b pd)"
  using assms by (simp add: ReadDlt_def StubPersistentDictionary_def json_ok_def ReadDltEnabled_def)

text \<open>The filters of persistent logging: a result without error has every filter of the file.\<close>

lemma read_verbose_filters_all:
  "read_verbose_filters ident L vs config = Some (True, config') \<Longrightarrow>
    length (plc_verbose_filters config') = length (plc_verbose_filters config) + length vs \<and>
    plc_non_verbose_filters config' = plc_non_verbose_filters config"
proof (induction vs arbitrary: config)
  case (Cons v vs)
  from Cons.prems obtain f where "read_verbose_filters ident L vs (config\<lparr>plc_verbose_filters := plc_verbose_filters config @ [f]\<rparr>) = Some (True, config')"
    by (auto simp: bind_eq_Some_conv split: if_splits)
  from Cons.IH [OF this] show ?case by simp
qed simp

lemma read_non_verbose_filters_all:
  "read_non_verbose_filters vs config = Some (True, config') \<Longrightarrow>
    length (plc_non_verbose_filters config') = length (plc_non_verbose_filters config) + length vs \<and>
    plc_verbose_filters config' = plc_verbose_filters config"
proof (induction vs arbitrary: config)
  case (Cons v vs)
  from Cons.prems obtain f where "read_non_verbose_filters vs (config\<lparr>plc_non_verbose_filters := plc_non_verbose_filters config @ [f]\<rparr>) = Some (True, config')"
    by (auto simp: bind_eq_Some_conv split: if_splits)
  from Cons.IH [OF this] show ?case by simp
qed simp

end
