(* ===== verification/LogParser.thy ===== *)
theory LogParser
  imports SharedMemory DltHeaders
begin

text \<open>
  The parser of the data router (\<^verbatim>\<open>datarouter/src/logparser/logparser.cpp\<close>): it learns the
  types a logging process registers and dispatches its records to the handlers of the
  type and to the handlers of every type.

  Handlers and the configuration of non-verbose messages belong to the surroundings: a
  handler is named by a value of type \<open>'h\<close> or \<open>'g\<close>, the calls made to handlers are
  recorded in order, and the configuration is a function from type names to descriptors.
  The map from type names to handlers is a list of pairs in the order in which the
  multimap yields them. A pointer with a size is the list of bytes it spans.
\<close>

section \<open>State\<close>

record 'd TypeInfo =
  nv_msg_desc :: "'d option"
  info_id :: u32
  info_params :: bytes
  info_type_name :: bytes
  info_ecu_id :: id4
  info_app_id :: id4

record ('d, 'h) IndexParser =
  ip_info :: "'d TypeInfo"
  ip_handlers :: "'h list"

datatype ('d, 'h, 'g) HandlerCall =
    TypeHandle 'h TimePoint bytes
  | AnyHandle 'g "'d TypeInfo" TimePoint bytes

record ('d, 'h, 'g) LogParser =
  handle_request_map :: "(bytes \<times> 'h) list"
  index_parser_map :: "(u32 \<times> ('d, 'h) IndexParser) list"
  global_handlers :: "'g list"
  GetDltMsgDesc :: "bytes \<Rightarrow> 'd option"
  calls :: "('d, 'h, 'g) HandlerCall list"

definition NewLogParser :: "(bytes \<Rightarrow> 'd option) \<Rightarrow> 'g list \<Rightarrow> (bytes \<times> 'h) list \<Rightarrow> ('d, 'h, 'g) LogParser" where
  "NewLogParser nv_config handlers requests =
     \<lparr>handle_request_map = requests, index_parser_map = [], global_handlers = handlers, GetDltMsgDesc = nv_config, calls = []\<rparr>"

section \<open>Operations\<close>

text \<open>A length and that many bytes; a length beyond the end gives the empty string.\<close>

definition LoggerUnpackString :: "bytes \<Rightarrow> bytes" where
  "LoggerUnpackString params =
     (let sz = from_le32 (take 4 params); params = drop 4 params
      in if unat sz \<le> length params then take (unat sz) params else [])"

definition AddHandler :: "'h \<Rightarrow> ('d, 'h) IndexParser \<Rightarrow> ('d, 'h) IndexParser" where
  "AddHandler handler ip = ip\<lparr>ip_handlers := ip_handlers ip @ [handler]\<rparr>"

definition AddIncomingType_params :: "u32 \<Rightarrow> bytes \<Rightarrow> ('d, 'h, 'g) LogParser \<Rightarrow> ('d, 'h, 'g) LogParser" where
  "AddIncomingType_params map_index params p =
     (if length params \<le> 12 + 4 \<or> params ! 0 \<noteq> 0 \<or> params ! 1 \<noteq> 0 \<or> params ! 2 \<noteq> 0 \<or> params ! 3 \<noteq> 0 then p
      else
        let ecu_id = NewDltidT (subspan 4 4 params);
            app_id = NewDltidT (subspan 8 4 params);
            type_name = LoggerUnpackString (drop 12 params);
            index_parser = \<lparr>ip_info = \<lparr>nv_msg_desc = GetDltMsgDesc p type_name, info_id = map_index, info_params = params,
                info_type_name = type_name, info_ecu_id = ecu_id, info_app_id = app_id\<rparr>, ip_handlers = []\<rparr>;
            index_parser = fold AddHandler (map snd (filter (\<lambda>(nm, h). nm = type_name) (handle_request_map p))) index_parser
        in if map_of (index_parser_map p) map_index = None
           then p\<lparr>index_parser_map := index_parser_map p @ [(map_index, index_parser)]\<rparr>
           else p)"

definition AddIncomingType :: "TypeRegistration \<Rightarrow> ('d, 'h, 'g) LogParser \<Rightarrow> ('d, 'h, 'g) LogParser" where
  "AddIncomingType type_registration p =
     AddIncomingType_params (ucast (type_id type_registration)) (registration_data type_registration) p"

definition IndexParser_Parse :: "TimePoint \<Rightarrow> bytes \<Rightarrow> ('d, 'h) IndexParser \<Rightarrow> ('d, 'h, 'g) HandlerCall list" where
  "IndexParser_Parse timestamp data' ip = map (\<lambda>handler. TypeHandle handler timestamp data') (ip_handlers ip)"

definition dispatch :: "('d, 'h) IndexParser \<Rightarrow> TimePoint \<Rightarrow> bytes \<Rightarrow> ('d, 'h, 'g) LogParser \<Rightarrow> ('d, 'h, 'g) LogParser" where
  "dispatch ip timestamp data' p =
     p\<lparr>calls := calls p @ IndexParser_Parse timestamp data' ip @
         map (\<lambda>handler. AnyHandle handler (ip_info ip) timestamp data') (global_handlers p)\<rparr>"

definition LogParser_Parse :: "TimePoint \<Rightarrow> bytes \<Rightarrow> ('d, 'h, 'g) LogParser \<Rightarrow> ('d, 'h, 'g) LogParser" where
  "LogParser_Parse timestamp data' p =
     (if length data' < 4 then p
      else
        let index = from_le32 (take 4 data'); data' = drop 4 data'
        in case map_of (index_parser_map p) index of
             None \<Rightarrow> p
           | Some index_parser \<Rightarrow> dispatch index_parser timestamp data' p)"

definition ParseSharedMemoryRecord :: "SharedMemoryRecord \<Rightarrow> ('d, 'h, 'g) LogParser \<Rightarrow> ('d, 'h, 'g) LogParser" where
  "ParseSharedMemoryRecord record' p =
     (case map_of (index_parser_map p) (ucast (type_identifier (smr_header record'))) of
        None \<Rightarrow> p
      | Some index_parser \<Rightarrow>
          let payload_length = GetDataSizeAsLength (smr_payload record') in
          if payload_length > 0xFFFFFFFF then p
          else dispatch index_parser (time_stamp (smr_header record')) (smr_payload record') p)"

section \<open>What the parser does with the events of the reader\<close>

fun parse_event :: "ReadEvent \<Rightarrow> ('d, 'h, 'g) LogParser \<Rightarrow> ('d, 'h, 'g) LogParser" where
  "parse_event (TypeRegistered registration) p = AddIncomingType registration p"
| "parse_event (NewRecord record') p = ParseSharedMemoryRecord record' p"

definition feed :: "ReadEvent list \<Rightarrow> ('d, 'h, 'g) LogParser \<Rightarrow> ('d, 'h, 'g) LogParser" where
  "feed evs p = fold parse_event evs p"

lemma feed_simps [simp]:
  "feed [] p = p" "feed (e # es) p = feed es (parse_event e p)" "feed (es @ fs) p = feed fs (feed es p)"
  by (simp_all add: feed_def)

text \<open>The registration record of a type.\<close>

definition registration_params :: "id4 \<Rightarrow> id4 \<Rightarrow> bytes \<Rightarrow> bytes" where
  "registration_params ecu app nm = [0, 0, 0, 0] @ id_bytes ecu @ id_bytes app @ le32 (word_of_nat (length nm)) @ nm"

definition registered_parser :: "('d, 'h, 'g) LogParser \<Rightarrow> u32 \<Rightarrow> id4 \<Rightarrow> id4 \<Rightarrow> bytes \<Rightarrow> ('d, 'h) IndexParser" where
  "registered_parser p i ecu app nm =
     \<lparr>ip_info = \<lparr>nv_msg_desc = GetDltMsgDesc p nm, info_id = i, info_params = registration_params ecu app nm,
        info_type_name = nm, info_ecu_id = ecu, info_app_id = app\<rparr>,
      ip_handlers = map snd (filter (\<lambda>(n, h). n = nm) (handle_request_map p))\<rparr>"

lemma AddHandler_fold: "fold AddHandler hs ip = ip\<lparr>ip_handlers := ip_handlers ip @ hs\<rparr>"
  by (induction hs arbitrary: ip) (simp_all add: AddHandler_def)

lemma NewDltidT_id_bytes: "NewDltidT (id_bytes i) = i"
  by (cases i) (simp add: NewDltidT_def char_at_def)

lemma AddIncomingType_registration:
  assumes "nm \<noteq> []" "length nm < 2 ^ 32" "map_of (index_parser_map p) i = None"
  shows "AddIncomingType_params i (registration_params ecu app nm) p =
    p\<lparr>index_parser_map := index_parser_map p @ [(i, registered_parser p i ecu app nm)]\<rparr>"
proof -
  let ?r = "registration_params ecu app nm"
  have len: "length ?r = 16 + length nm" by (simp add: registration_params_def)
  have parts: "subspan 4 4 ?r = id_bytes ecu" "subspan 8 4 ?r = id_bytes app"
    "drop 12 ?r = le32 (word_of_nat (length nm)) @ nm"
    by (simp_all add: registration_params_def subspan_def)
  have zeros: "?r ! 0 = 0" "?r ! 1 = 0" "?r ! 2 = 0" "?r ! 3 = 0" by (simp_all add: registration_params_def)
  have "unat (word_of_nat (length nm) :: u32) = length nm" using assms(2) by (simp add: unat_word_of_nat)
  then have "LoggerUnpackString (drop 12 ?r) = nm" unfolding parts by (simp add: LoggerUnpackString_def Let_def)
  with assms(1,3) len zeros parts(1,2) show ?thesis
    by (simp add: AddIncomingType_params_def Let_def AddHandler_fold registered_parser_def NewDltidT_id_bytes)
qed

text \<open>What is registered stays registered, and the handlers never change.\<close>

lemma parse_event_frame:
  "global_handlers (parse_event e p) = global_handlers p" "handle_request_map (parse_event e p) = handle_request_map p"
  "map_of (index_parser_map p) i = Some ip \<Longrightarrow> map_of (index_parser_map (parse_event e p)) i = Some ip"
  by (cases e; simp add: AddIncomingType_def AddIncomingType_params_def ParseSharedMemoryRecord_def dispatch_def Let_def
      split: option.split)+

lemma feed_frame:
  "global_handlers (feed es p) = global_handlers p"
  "map_of (index_parser_map p) i = Some ip \<Longrightarrow> map_of (index_parser_map (feed es p)) i = Some ip"
  by (induction es arbitrary: p) (simp_all add: parse_event_frame)

lemma record_size_ok: "length q < 2 ^ 32 \<Longrightarrow> \<not> GetDataSizeAsLength q > 0xFFFFFFFF"
  by (simp add: GetDataSizeAsLength_def word_less_nat_alt unat_word_of_nat)

text \<open>The parser knows a type from its registration on, for good: a later record of that type, with
  any other events in between, is handed once to every handler bound to the type's name,
  in their order, and then with the registered description to every general handler. A
  record of a type that was never registered is handed to nobody.\<close>

theorem registered_type_dispatched:
  assumes "nm \<noteq> []" "length nm < 2 ^ 32" "map_of (index_parser_map p) (ucast i) = None" "length q < 2 ^ 32"
  shows "let reg = TypeRegistered \<lparr>type_id = i, registration_data = registration_params ecu app nm\<rparr>;
             rec = NewRecord \<lparr>smr_header = \<lparr>time_stamp = ts, type_identifier = i\<rparr>, smr_payload = q\<rparr>;
             p1 = feed (reg # es) p
         in calls (feed [rec] p1) = calls p1 @
              map (\<lambda>h. TypeHandle h ts q) (map snd (filter (\<lambda>(n, h). n = nm) (handle_request_map p))) @
              map (\<lambda>g. AnyHandle g (ip_info (registered_parser p (ucast i) ecu app nm)) ts q) (global_handlers p) \<and>
            feed [rec] p = p"
proof -
  let ?reg = "TypeRegistered \<lparr>type_id = i, registration_data = registration_params ecu app nm\<rparr>"
  let ?ip = "registered_parser p (ucast i) ecu app nm"
  have "map_of (index_parser_map (parse_event ?reg p)) (ucast i) = Some ?ip"
    using assms(3) by (simp add: AddIncomingType_def AddIncomingType_registration [OF assms(1-3)] map_add_def)
  then have "map_of (index_parser_map (feed (?reg # es) p)) (ucast i) = Some ?ip"
    using feed_frame(2) by simp
  moreover have "global_handlers (feed (?reg # es) p) = global_handlers p" by (rule feed_frame(1))
  ultimately show ?thesis
    using assms(3) record_size_ok [OF assms(4)]
    by (simp add: Let_def ParseSharedMemoryRecord_def dispatch_def IndexParser_Parse_def registered_parser_def del: feed_simps(2) add: feed_simps(2) [of _ "[]"])
qed

theorem registered_type_dispatched_witness:
  "let p = NewLogParser (\<lambda>_. None :: nat option) [''any''] [([84], ''handler'')];
       reg = TypeRegistered \<lparr>type_id = 3, registration_data = registration_params (69, 0, 0, 0) (65, 0, 0, 0) [84]\<rparr>;
       rec = NewRecord \<lparr>smr_header = \<lparr>time_stamp = 9, type_identifier = 3\<rparr>, smr_payload = [1, 2]\<rparr>
   in calls (feed [rec] (feed [reg] p)) =
        [TypeHandle ''handler'' 9 [1, 2],
         AnyHandle ''any'' (ip_info (registered_parser p 3 (69, 0, 0, 0) (65, 0, 0, 0) [84])) 9 [1, 2]] \<and> feed [rec] p = p"
proof -
  let ?p = "NewLogParser (\<lambda>_. None :: nat option) [''any''] [([84], ''handler'')]"
  have u: "(ucast (3 :: TypeIdentifier) :: u32) = 3" by simp
  have "calls (feed [TypeRegistered \<lparr>type_id = 3, registration_data = registration_params (69, 0, 0, 0) (65, 0, 0, 0) [84]\<rparr>] ?p) = []"
    using AddIncomingType_registration [of "[84]" ?p 3] by (simp add: AddIncomingType_def NewLogParser_def)
  with registered_type_dispatched [where nm = "[84]" and p = ?p and i = 3 and q = "[1, 2]" and ecu = "(69, 0, 0, 0)" and app = "(65, 0, 0, 0)" and es = "[]" and ts = 9] show ?thesis
    by (simp add: Let_def u NewLogParser_def del: feed_simps)
qed

end
