(* ===== verification/Tracing.thy ===== *)
theory Tracing
  imports LogParser
begin

text \<open>
  The tracing interface of a logging process
  (\<^verbatim>\<open>mw/log/legacy_non_verbose_api/tracing.h\<close> and \<^verbatim>\<open>.cpp\<close>): the logger with its shared
  memory writer, one entry per C++ type that registers the type and writes its values,
  and the functions that trace at a level.

  A C++ type is what the code uses of it: its name, its description and its serialiser.
  These come from the reflection library and are parameters, as are the configuration of
  the process and that of non-verbose messages. The machine (interference of other
  threads, padding bytes, image of an optional) is that of \<open>SharedMemory\<close>.
\<close>

section \<open>Parameters\<close>

record Machine =
  m_env :: "nat \<Rightarrow> AlternatingControlBlock \<Rightarrow> AlternatingControlBlock"
  m_pad :: bytes
  m_img :: "TypeIdentifier \<Rightarrow> bytes"

record 't TypeTraits =
  struct_name :: bytes
  type_info_size :: u64
  type_info_copy :: "bytes \<Rightarrow> bytes"
  serialize_size :: "'t \<Rightarrow> u64"
  serialize :: "'t \<Rightarrow> bytes \<Rightarrow> bytes"

record NvMsgDescriptor =
  GetCtxId :: id4
  GetLogLevel :: u8

record Configuration =
  GetEcuId :: bytes
  GetAppId :: bytes
  GetContextLogLevel :: "(id4 \<times> u8) list"

type_synonym NvConfig = "bytes \<Rightarrow> NvMsgDescriptor option"

section \<open>Levels\<close>

definition kOff :: u8 where "kOff = 0"
definition kFatal :: u8 where "kFatal = 1"
definition kError :: u8 where "kError = 2"
definition kWarn :: u8 where "kWarn = 3"
definition kInfo :: u8 where "kInfo = 4"
definition kDebug :: u8 where "kDebug = 5"
definition kVerbose :: u8 where "kVerbose = 6"

lemmas level_defs = kOff_def kFatal_def kError_def kWarn_def kInfo_def kDebug_def kVerbose_def

section \<open>Logger\<close>

record Logger =
  lg_config :: Configuration
  nvconfig :: NvConfig
  shared_memory_writer :: "SharedMemoryWriter option"
  discard_operation_fallback_shm_data :: SharedData
  discard_operation_fallback_shm_writer :: SharedMemoryWriter
  app_prefix :: bytes

text \<open>
  The prefix of a type description: twelve zero bytes, the characters of the ECU
  identifier from the fifth on, those of the application identifier right behind them.
  Copying past the end of the array is undefined behaviour, which is the value \<open>None\<close>.
\<close>

definition kMaxLength :: nat where "kMaxLength = 4"

definition app_prefix_of :: "Configuration \<Rightarrow> bytes option" where
  "app_prefix_of config =
     (let prefix = replicate (3 * kMaxLength) 0; iter = kMaxLength in
      if length prefix < iter + length (GetEcuId config) then None
      else
        let prefix = put_at iter (GetEcuId config) prefix; iter = iter + length (GetEcuId config) in
        if length prefix < iter + length (GetAppId config) then None
        else Some (put_at iter (GetAppId config) prefix))"

definition default_SharedData :: SharedData where
  "default_SharedData = fresh_shared_data [] []"

text \<open>
  The constructor; the default configuration and the result of reading the configuration
  of non-verbose messages come from the base library. The writer is moved in; \<open>sd\<close> is its
  shared structure.
\<close>

definition NewLogger ::
  "Configuration \<Rightarrow> NvConfig option \<Rightarrow> SharedData \<Rightarrow>
   Configuration option \<Rightarrow> NvConfig option \<Rightarrow> SharedMemoryWriter option \<Rightarrow> Logger option" where
  "NewLogger default_config created_nvconfig sd config nv_config writer =
     (let config' = (case config of Some c \<Rightarrow> c | None \<Rightarrow> default_config);
          nv = (case nv_config of Some n \<Rightarrow> n | None \<Rightarrow> (case created_nvconfig of Some n \<Rightarrow> n | None \<Rightarrow> (\<lambda>_. None)));
          fallback = InitializeSharedData default_SharedData
      in case app_prefix_of config' of
           None \<Rightarrow> None
         | Some prefix \<Rightarrow> Some \<lparr>lg_config = config', nvconfig = nv,
             shared_memory_writer = map_option (\<lambda>w. fst (MoveSharedMemoryWriter sd w)) writer,
             discard_operation_fallback_shm_data = fallback,
             discard_operation_fallback_shm_writer = NewSharedMemoryWriter fallback True, app_prefix = prefix\<rparr>)"

text \<open>The singleton: an injected instance first, otherwise the one that the first call constructs.\<close>

record LoggerStatics =
  injected_instance :: "Logger option"
  logger_instance :: "Logger option"

definition InjectTestInstance :: "Logger option \<Rightarrow> LoggerStatics \<Rightarrow> LoggerStatics" where
  "InjectTestInstance logger_ptr s = s\<lparr>injected_instance := logger_ptr\<rparr>"

definition Logger_Instance ::
  "Configuration \<Rightarrow> NvConfig option \<Rightarrow> SharedData \<Rightarrow> Configuration option \<Rightarrow> NvConfig option \<Rightarrow> SharedMemoryWriter option \<Rightarrow>
   LoggerStatics \<Rightarrow> Logger option \<times> LoggerStatics" where
  "Logger_Instance default_config created_nvconfig sd config nv_config writer s =
     (case injected_instance s of
        Some l \<Rightarrow> (Some l, s)
      | None \<Rightarrow>
          (case logger_instance s of
             Some l \<Rightarrow> (Some l, s)
           | None \<Rightarrow>
               let l = NewLogger default_config created_nvconfig sd config nv_config writer
               in (l, s\<lparr>logger_instance := l\<rparr>)))"

text \<open>
  A call on the writer that \<^verbatim>\<open>GetSharedMemoryWriter\<close> returns: the writer of the shared
  memory, or the fallback, whose buffers are empty.
\<close>

definition GetSharedMemoryWriter ::
  "(SharedMemoryWriter \<Rightarrow> SharedData \<Rightarrow> SharedMemoryWriter \<times> SharedData) \<Rightarrow> Logger \<times> SharedData \<Rightarrow> Logger \<times> SharedData" where
  "GetSharedMemoryWriter call st =
     (let (lg, sd) = st in
      case shared_memory_writer lg of
        Some w \<Rightarrow> let (w, sd) = call w sd in (lg\<lparr>shared_memory_writer := Some w\<rparr>, sd)
      | None \<Rightarrow>
          let (w, fsd) = call (discard_operation_fallback_shm_writer lg) (discard_operation_fallback_shm_data lg)
          in (lg\<lparr>discard_operation_fallback_shm_writer := w, discard_operation_fallback_shm_data := fsd\<rparr>, sd))"

definition GetLevelForContext :: "Logger \<Rightarrow> bytes \<Rightarrow> u8 option" where
  "GetLevelForContext lg name =
     (case nvconfig lg name of
        None \<Rightarrow> None
      | Some msg_desc \<Rightarrow> map_of (GetContextLogLevel (lg_config lg)) (GetCtxId msg_desc))"

definition GetTypeLevel :: "'t TypeTraits \<Rightarrow> Logger \<Rightarrow> u8" where
  "GetTypeLevel T lg =
     (case nvconfig lg (struct_name T) of
        None \<Rightarrow> kInfo
      | Some msg_desc \<Rightarrow> if GetLogLevel msg_desc \<le> kVerbose then GetLogLevel msg_desc else kInfo)"

definition GetTypeThreshold :: "'t TypeTraits \<Rightarrow> Logger \<Rightarrow> u8" where
  "GetTypeThreshold T lg = (case GetLevelForContext lg (struct_name T) of Some l \<Rightarrow> l | None \<Rightarrow> kVerbose)"

text \<open>The description of a type behind the prefix.\<close>

definition TypeinfoWithPrefix :: "'t TypeTraits \<Rightarrow> bytes \<Rightarrow> TypeInfoSource" where
  "TypeinfoWithPrefix T prefix =
     \<lparr>ti_size = (if type_info_size T > - 1 - word_of_nat (length prefix) then word_of_nat (length prefix) + GetMaxPayloadSize
                else word_of_nat (length prefix) + type_info_size T),
      ti_Copy = (\<lambda>data'.
        let data' = put_at 0 prefix data' in
        if length prefix \<le> length data' then put_at (length prefix) (type_info_copy T (drop (length prefix) data')) data'
        else data')\<rparr>"

definition RegisterType ::
  "Machine \<Rightarrow> 't TypeTraits \<Rightarrow> TimePoint \<Rightarrow> Logger \<times> SharedData \<Rightarrow> TypeIdentifier option \<times> Logger \<times> SharedData" where
  "RegisterType M T now st =
     (let (lg, sd) = st in
      case shared_memory_writer lg of
        None \<Rightarrow> (None, lg, sd)
      | Some w \<Rightarrow>
          let (type_id', w, sd) = TryRegisterType (m_env M) (m_pad M) (m_img M) now (TypeinfoWithPrefix T (app_prefix lg)) w sd
          in (type_id', lg\<lparr>shared_memory_writer := Some w\<rparr>, sd))"

section \<open>The entry of a type\<close>

record TypedEntry =
  shared_memory_id :: TypeIdentifier
  default_enabled :: bool
  level_enabled :: u8
  dropped_logs_due_to_failed_registration :: u64

definition GetInitialTypeId ::
  "Machine \<Rightarrow> 't TypeTraits \<Rightarrow> TimePoint \<Rightarrow> Logger \<times> SharedData \<Rightarrow> TypeIdentifier \<times> Logger \<times> SharedData" where
  "GetInitialTypeId M T now st =
     (let (registered_id, st) = RegisterType M T now st
      in (case registered_id of Some i \<Rightarrow> i | None \<Rightarrow> GetRegisterTypeToken, st))"

definition GetThresholdForInit :: "'t TypeTraits \<Rightarrow> Logger \<Rightarrow> u8" where
  "GetThresholdForInit T lg = GetTypeThreshold T lg"

definition GetDefaultEnabledForInit :: "'t TypeTraits \<Rightarrow> Logger \<Rightarrow> bool" where
  "GetDefaultEnabledForInit T lg = (let threshold = GetTypeThreshold T lg; level = GetTypeLevel T lg in threshold \<ge> level)"

definition NewTypedEntry ::
  "Machine \<Rightarrow> 't TypeTraits \<Rightarrow> TimePoint \<Rightarrow> Logger \<times> SharedData \<Rightarrow> TypedEntry \<times> Logger \<times> SharedData" where
  "NewTypedEntry M T now st =
     (let (initial_id, lg, sd) = GetInitialTypeId M T now st
      in (\<lparr>shared_memory_id = initial_id, default_enabled = GetDefaultEnabledForInit T lg,
           level_enabled = GetThresholdForInit T lg, dropped_logs_due_to_failed_registration = 0\<rparr>, lg, sd))"

text \<open>The exchange succeeds when no other thread has registered the type in the meantime.\<close>

definition UpdateSharedMemoryId :: "TypeIdentifier \<Rightarrow> TypedEntry \<Rightarrow> TypeIdentifier \<times> TypedEntry" where
  "UpdateSharedMemoryId registered_id e =
     (if shared_memory_id e = GetRegisterTypeToken then (registered_id, e\<lparr>shared_memory_id := registered_id\<rparr>)
      else (shared_memory_id e, e))"

definition RegisterTypeGetId ::
  "Machine \<Rightarrow> 't TypeTraits \<Rightarrow> TimePoint \<Rightarrow> TypedEntry \<times> Logger \<times> SharedData \<Rightarrow>
   TypeIdentifier option \<times> TypedEntry \<times> Logger \<times> SharedData" where
  "RegisterTypeGetId M T now st =
     (let (e, st) = st; (registered_id, st) = RegisterType M T now st in
      case registered_id of
        None \<Rightarrow> (None, e, st)
      | Some i \<Rightarrow> let (i, e) = UpdateSharedMemoryId i e in (Some i, e, st))"

definition TrySerializeIntoSharedMemory ::
  "Machine \<Rightarrow> 't TypeTraits \<Rightarrow> TimePoint \<Rightarrow>
   (TypeIdentifier \<Rightarrow> SharedMemoryWriter \<Rightarrow> SharedData \<Rightarrow> SharedMemoryWriter \<times> SharedData) \<Rightarrow>
   TypedEntry \<times> Logger \<times> SharedData \<Rightarrow> TypedEntry \<times> Logger \<times> SharedData" where
  "TrySerializeIntoSharedMemory M T now write st =
     (let (e, _) = st;
          (ready, e, st) =
            (if GetRegisterTypeToken = shared_memory_id e then
               (let (registered, e, st) = RegisterTypeGetId M T now st in
                if registered = None
                then (False, e\<lparr>dropped_logs_due_to_failed_registration := dropped_logs_due_to_failed_registration e + 1\<rparr>,
                      GetSharedMemoryWriter (\<lambda>w sd. (w, IncrementTypeRegistrationFailures sd)) st)
                else (True, e, st))
             else (True, st))
      in if ready then (e, GetSharedMemoryWriter (write (shared_memory_id e)) st) else (e, st))"


text \<open>
  The operations that write: a value, a value at a given time, a serialised value. The
  clock gives the time of a registration and that of the record.
\<close>

definition write_value :: "Machine \<Rightarrow> 't TypeTraits \<Rightarrow> TimePoint \<Rightarrow> 't \<Rightarrow> TypeIdentifier \<Rightarrow> SharedMemoryWriter \<Rightarrow> SharedData \<Rightarrow> SharedMemoryWriter \<times> SharedData" where
  "write_value M T timestamp t i w sd =
     (w, snd (AllocAndWrite (m_env M) (m_pad M) timestamp i (serialize_size T t) (\<lambda>s data_span. (s, serialize T t data_span)) () sd))"

definition TryWriteIntoSharedMemory ::
  "Machine \<Rightarrow> 't TypeTraits \<Rightarrow> TimePoint \<Rightarrow> TimePoint \<Rightarrow> 't \<Rightarrow> TypedEntry \<times> Logger \<times> SharedData \<Rightarrow> TypedEntry \<times> Logger \<times> SharedData" where
  "TryWriteIntoSharedMemory M T now now' t st = TrySerializeIntoSharedMemory M T now (write_value M T now' t) st"

definition LogAtTime ::
  "Machine \<Rightarrow> 't TypeTraits \<Rightarrow> TimePoint \<Rightarrow> TimePoint \<Rightarrow> 't \<Rightarrow> TypedEntry \<times> Logger \<times> SharedData \<Rightarrow> TypedEntry \<times> Logger \<times> SharedData" where
  "LogAtTime M T now timestamp t st = TrySerializeIntoSharedMemory M T now (write_value M T timestamp t) st"

definition LogSerialized ::
  "Machine \<Rightarrow> 't TypeTraits \<Rightarrow> TimePoint \<Rightarrow> TimePoint \<Rightarrow> bytes \<Rightarrow> u16 \<Rightarrow> TypedEntry \<times> Logger \<times> SharedData \<Rightarrow> TypedEntry \<times> Logger \<times> SharedData" where
  "LogSerialized M T now now' data' sz st =
     TrySerializeIntoSharedMemory M T now
       (\<lambda>i w sd. (w, snd (AllocAndWrite (m_env M) (m_pad M) now' i (ucast sz)
          (\<lambda>s data_span. (s, put_at 0 (take (unat sz) data') data_span)) () sd))) st"

definition EnabledAt :: "u8 \<Rightarrow> TypedEntry \<Rightarrow> bool" where
  "EnabledAt level e \<longleftrightarrow> level_enabled e \<ge> level"

section \<open>A process that traces\<close>

text \<open>
  The entries of the types are created on first use. \<open>traits\<close> gives for each type what the
  reflection library knows of it; the clock is read at most three times in a call.
\<close>

record 'k Process =
  pr_logger :: Logger
  pr_entries :: "'k \<Rightarrow> TypedEntry option"
  pr_data :: SharedData

definition GetLogEntry :: "Machine \<Rightarrow> ('k \<Rightarrow> 't TypeTraits) \<Rightarrow> TimePoint \<Rightarrow> 'k \<Rightarrow> 'k Process \<Rightarrow> TypedEntry \<times> 'k Process" where
  "GetLogEntry M traits now k pr =
     (case pr_entries pr k of
        Some e \<Rightarrow> (e, pr)
      | None \<Rightarrow>
          let (e, lg, sd) = NewTypedEntry M (traits k) now (pr_logger pr, pr_data pr)
          in (e, \<lparr>pr_logger = lg, pr_entries = (pr_entries pr)(k \<mapsto> e), pr_data = sd\<rparr>))"

definition trace_if ::
  "(TypedEntry \<Rightarrow> bool) \<Rightarrow> Machine \<Rightarrow> ('k \<Rightarrow> 't TypeTraits) \<Rightarrow> (nat \<Rightarrow> TimePoint) \<Rightarrow> 'k \<Rightarrow> 't \<Rightarrow> 'k Process \<Rightarrow> 'k Process" where
  "trace_if enabled M traits clock k arg pr =
     (let (e, pr) = GetLogEntry M traits (clock 0) k pr in
      if enabled e then
        (let (e, lg, sd) = TryWriteIntoSharedMemory M (traits k) (clock 1) (clock 2) arg (e, pr_logger pr, pr_data pr)
         in \<lparr>pr_logger = lg, pr_entries = (pr_entries pr)(k \<mapsto> e), pr_data = sd\<rparr>)
      else pr)"

definition TraceLevel ::
  "u8 \<Rightarrow> Machine \<Rightarrow> ('k \<Rightarrow> 't TypeTraits) \<Rightarrow> (nat \<Rightarrow> TimePoint) \<Rightarrow> 'k \<Rightarrow> 't \<Rightarrow> 'k Process \<Rightarrow> 'k Process" where
  "TraceLevel level = trace_if (EnabledAt level)"

definition LogInternalLogger ::
  "Machine \<Rightarrow> ('k \<Rightarrow> 't TypeTraits) \<Rightarrow> (nat \<Rightarrow> TimePoint) \<Rightarrow> 'k \<Rightarrow> 't \<Rightarrow> 'k Process \<Rightarrow> 'k Process" where
  "LogInternalLogger = trace_if default_enabled"

definition TRACE ::
  "Machine \<Rightarrow> ('k \<Rightarrow> 't TypeTraits) \<Rightarrow> (nat \<Rightarrow> TimePoint) \<Rightarrow> 'k \<Rightarrow> 't \<Rightarrow> 'k Process \<Rightarrow> 'k Process" where
  "TRACE = LogInternalLogger"

definition TraceVerbose ::
  "Machine \<Rightarrow> ('k \<Rightarrow> 't TypeTraits) \<Rightarrow> (nat \<Rightarrow> TimePoint) \<Rightarrow> 'k \<Rightarrow> 't \<Rightarrow> 'k Process \<Rightarrow> 'k Process" where
  "TraceVerbose = TraceLevel kVerbose"

definition TraceDebug ::
  "Machine \<Rightarrow> ('k \<Rightarrow> 't TypeTraits) \<Rightarrow> (nat \<Rightarrow> TimePoint) \<Rightarrow> 'k \<Rightarrow> 't \<Rightarrow> 'k Process \<Rightarrow> 'k Process" where
  "TraceDebug = TraceLevel kDebug"

definition TraceInfo ::
  "Machine \<Rightarrow> ('k \<Rightarrow> 't TypeTraits) \<Rightarrow> (nat \<Rightarrow> TimePoint) \<Rightarrow> 'k \<Rightarrow> 't \<Rightarrow> 'k Process \<Rightarrow> 'k Process" where
  "TraceInfo = TraceLevel kInfo"

definition TraceWarn ::
  "Machine \<Rightarrow> ('k \<Rightarrow> 't TypeTraits) \<Rightarrow> (nat \<Rightarrow> TimePoint) \<Rightarrow> 'k \<Rightarrow> 't \<Rightarrow> 'k Process \<Rightarrow> 'k Process" where
  "TraceWarn = TraceLevel kWarn"

definition TraceWarning ::
  "Machine \<Rightarrow> ('k \<Rightarrow> 't TypeTraits) \<Rightarrow> (nat \<Rightarrow> TimePoint) \<Rightarrow> 'k \<Rightarrow> 't \<Rightarrow> 'k Process \<Rightarrow> 'k Process" where
  "TraceWarning = TraceLevel kWarn"

definition TraceError ::
  "Machine \<Rightarrow> ('k \<Rightarrow> 't TypeTraits) \<Rightarrow> (nat \<Rightarrow> TimePoint) \<Rightarrow> 'k \<Rightarrow> 't \<Rightarrow> 'k Process \<Rightarrow> 'k Process" where
  "TraceError = TraceLevel kError"

definition TraceFatal ::
  "Machine \<Rightarrow> ('k \<Rightarrow> 't TypeTraits) \<Rightarrow> (nat \<Rightarrow> TimePoint) \<Rightarrow> 'k \<Rightarrow> 't \<Rightarrow> 'k Process \<Rightarrow> 'k Process" where
  "TraceFatal = TraceLevel kFatal"

section \<open>What the operations leave in the buffer\<close>

definition op_kept :: "log_op \<Rightarrow> SharedData \<Rightarrow> bool" where
  "op_kept op sd \<longleftrightarrow> op_size op \<le> 65500 \<and> op_size op + 24 \<le> active_room (control_block sd)"

lemma register_callback_gen:
  assumes "value_first img" "length old = 2 + length d" "unat (ti_size info) = length d"
    and "\<And>old. length old = length d \<Longrightarrow> ti_Copy info old = d"
  shows "register_callback img info (res, w) old =
    ((Some (next_type_identifier w), w\<lparr>next_type_identifier := next_type_identifier w + 1\<rparr>),
     le16 (next_type_identifier w) @ d)"
  using assms by (simp add: register_callback_def Let_def value_first_def put_at_def)

lemma TryRegisterType_op:
  assumes idle: "active_idle (control_block sd)" and "length pad = 6" "value_first img" "length d < 2 ^ 63"
    and info: "unat (ti_size info) = length d" "\<And>old. length old = length d \<Longrightarrow> ti_Copy info old = d"
  shows "TryRegisterType (\<lambda>_ x. x) pad img ts info w sd =
    (if op_kept (Register ts d) sd then Some (next_type_identifier w) else None, run_op pad img (Register ts d) (w, sd))"
proof -
  let ?op = "Register ts d" and ?i = "next_type_identifier w"
  let ?c = "\<lparr>ti_size = word_of_nat (length d), ti_Copy = \<lambda>_. d\<rparr>"
  have ok: "op_ok ?op" using assms(4) by simp
  have size_eq: "ti_size info = word_of_nat (length d)" by (simp flip: info(1))
  have cb: "register_callback img info (None, w) old = ((Some ?i, w\<lparr>next_type_identifier := ?i + 1\<rparr>), op_payload ?i ?op)"
    "register_callback img ?c (None, w) old = ((Some ?i, w\<lparr>next_type_identifier := ?i + 1\<rparr>), op_payload ?i ?op)"
    if "length old = length (op_payload ?i ?op)" for old
    using register_callback_gen [OF assms(3), of old d info] register_callback_gen [OF assms(3), of old d ?c] info that size_eq by simp_all
  show ?thesis
  proof (cases "65500 < op_size ?op")
    case True
    then have "GetMaxPayloadSize < word_of_nat (op_size ?op)" using op_size_word(2) [OF ok] by (simp add: not_le)
    with True show ?thesis by (simp add: TryRegisterType_def AllocAndWrite_def op_kept_def size_eq)
  next
    case False
    have n: "unat (word_of_nat (op_size ?op) :: u64) = length (op_payload ?i ?op)" "word_of_nat (op_size ?op) \<le> GetMaxPayloadSize"
      using op_size_word [OF ok] False by simp_all
    note eq = AllocAndWrite_eq [where write_callback = "register_callback img info" and s = "(None, w)", OF idle assms(2) n cb(1), of ts GetRegisterTypeToken]
      AllocAndWrite_eq [where write_callback = "register_callback img ?c" and s = "(None, w)", OF idle assms(2) n cb(2), of ts GetRegisterTypeToken]
    let ?e = "header_image pad (op_header ?op) @ op_payload ?i ?op"
    have len: "length ?e = op_size ?op + 16" using assms(2) by simp
    have "alt_append (control_block sd) ?e = None \<longleftrightarrow> active_room (control_block sd) < op_size ?op + 24"
    proof
      assume "active_room (control_block sd) < op_size ?op + 24"
      then show "alt_append (control_block sd) ?e = None"
        using len False by (intro alt.append_refused [OF idle]) (simp_all add: span_ok_def)
    next
      assume "alt_append (control_block sd) ?e = None"
      then show "active_room (control_block sd) < op_size ?op + 24"
        using alt.append_ok [OF idle, of ?e] len False by (cases "length ?e + 8 \<le> active_room (control_block sd)") auto
    qed
    with eq False show ?thesis
      by (cases "alt_append (control_block sd) ?e") (simp_all add: TryRegisterType_def Let_def size_eq op_kept_def not_less)
  qed
qed

lemma write_value_op:
  assumes "active_idle (control_block sd)" "length pad = 6" "length p < 2 ^ 63" "m_env M = (\<lambda>_ x. x)" "m_pad M = pad"
    and "unat (serialize_size T t) = length p" "\<And>old. length old = length p \<Longrightarrow> serialize T t old = p"
  shows "write_value M T ts t i w sd = run_op pad img (Trace ts i p) (w, sd)"
proof -
  have size_eq: "serialize_size T t = word_of_nat (length p)" by (simp flip: assms(6))
  show ?thesis
  proof (cases "serialize_size T t \<le> GetMaxPayloadSize")
    case True
    note eq = AllocAndWrite_eq [OF assms(1,2,6) True, where s = "()" and s' = "()"]
    show ?thesis using eq [of "\<lambda>s old. (s, serialize T t old)" ts i] eq [of "\<lambda>s _. (s, p)" ts i] assms(4,5,7)
      by (simp add: write_value_def size_eq [symmetric])
  next
    case False
    then show ?thesis by (simp add: write_value_def assms(4,5) AllocAndWrite_def size_eq [symmetric])
  qed
qed

text \<open>What the reflection library promises of a type.\<close>

definition traits_ok :: "('t \<Rightarrow> bytes) \<Rightarrow> bytes \<Rightarrow> 't TypeTraits \<Rightarrow> bool" where
  "traits_ok payload_of info T \<longleftrightarrow>
     unat (type_info_size T) = length info \<and> length info < 2 ^ 62 \<and> (\<forall>old. length old = length info \<longrightarrow> type_info_copy T old = info) \<and>
     (\<forall>t. unat (serialize_size T t) = length (payload_of t) \<and> length (payload_of t) < 2 ^ 32 \<and>
        (\<forall>old. length old = length (payload_of t) \<longrightarrow> serialize T t old = payload_of t))"

lemma TypeinfoWithPrefix_ok:
  assumes "traits_ok payload_of info T" "length prefix = 12"
  shows "unat (ti_size (TypeinfoWithPrefix T prefix)) = length (prefix @ info)"
    and "length old = length (prefix @ info) \<Longrightarrow> ti_Copy (TypeinfoWithPrefix T prefix) old = prefix @ info"
proof -
  have info: "unat (type_info_size T) = length info" "length info < 2 ^ 62" "\<And>old. length old = length info \<Longrightarrow> type_info_copy T old = info"
    using assms(1) by (simp_all add: traits_ok_def)
  have "\<not> type_info_size T > - 1 - 12"
    using info(1,2) by (simp add: word_less_nat_alt)
  moreover have "unat (12 + type_info_size T) = 12 + length info"
    using info(1,2) unat_add_bound [of 12 "type_info_size T"] by simp
  ultimately show "unat (ti_size (TypeinfoWithPrefix T prefix)) = length (prefix @ info)"
    using assms(2) by (simp add: TypeinfoWithPrefix_def)
  show "ti_Copy (TypeinfoWithPrefix T prefix) old = prefix @ info" if "length old = length (prefix @ info)"
    using that assms(2) info(3) by (simp add: TypeinfoWithPrefix_def Let_def put_at_def)
qed

text \<open>The calls of a process that no other thread disturbs, as operations on the shared memory.\<close>

definition quiet :: "bytes \<Rightarrow> (TypeIdentifier \<Rightarrow> bytes) \<Rightarrow> Machine \<Rightarrow> bool" where
  "quiet pad img M \<longleftrightarrow> M = \<lparr>m_env = \<lambda>_ x. x, m_pad = pad, m_img = img\<rparr> \<and> length pad = 6 \<and> value_first img"

section \<open>The prefix\<close>

lemma short_list:
  assumes "length xs \<le> 4"
  obtains "xs = []" | a where "xs = [a]" | a b where "xs = [a, b]" | a b c where "xs = [a, b, c]" | a b c d where "xs = [a, b, c, d]"
  using assms by (cases xs; cases "tl xs"; cases "tl (tl xs)"; cases "tl (tl (tl xs))") auto

lemma prefix_cases:
  assumes "0 \<notin> set (GetEcuId config)" "0 \<notin> set (GetAppId config)"
    and "length (GetEcuId config) \<le> 4" "length (GetAppId config) \<le> 4" "GetAppId config \<noteq> []"
  shows "case app_prefix_of config of None \<Rightarrow> False
    | Some prefix \<Rightarrow> length prefix = 12 \<and> take 4 prefix = [0, 0, 0, 0] \<and>
        (NewDltidT (subspan 4 4 prefix) = NewDltidT (GetEcuId config) \<longleftrightarrow> length (GetEcuId config) = 4) \<and>
        (NewDltidT (subspan 8 4 prefix) = NewDltidT (GetAppId config) \<longleftrightarrow> length (GetEcuId config) = 4)"
proof -
  have z: "replicate 12 (0 :: byte) = [0, 0, 0, 0, 0, 0, 0, 0, 0, 0, 0, 0]" by (simp add: numeral_eq_Suc)
  show ?thesis
    by (rule short_list [OF assms(3)]; rule short_list [OF assms(4)]; insert assms(1,2,5))
      (auto simp: app_prefix_of_def kMaxLength_def Let_def z put_at_def subspan_def NewDltidT_def char_at_def)
qed

lemma description_behind_prefix:
  assumes "length d = length prefix + length info" "type_info_copy T (drop (length prefix) d) = info"
  shows "ti_Copy (TypeinfoWithPrefix T prefix) d = prefix @ info"
  using assms by (simp add: TypeinfoWithPrefix_def put_at_def)

lemma parser_reads_prefix:
  assumes "length prefix = 12" "take 4 prefix = [0, 0, 0, 0]" "nm \<noteq> []" "length nm < 2 ^ 32" "map_of (index_parser_map p) i = None"
  shows "\<exists>ip. map_of (index_parser_map (AddIncomingType_params i (prefix @ le32 (word_of_nat (length nm)) @ nm) p)) i = Some ip \<and>
    info_type_name (ip_info ip) = nm \<and> info_ecu_id (ip_info ip) = NewDltidT (subspan 4 4 prefix) \<and>
    info_app_id (ip_info ip) = NewDltidT (subspan 8 4 prefix)"
proof -
  let ?params = "prefix @ le32 (word_of_nat (length nm)) @ nm"
  have split: "prefix = [0, 0, 0, 0] @ drop 4 prefix" using append_take_drop_id [of 4 prefix] assms(2) by simp
  have z: "?params ! 0 = 0" "?params ! 1 = 0" "?params ! 2 = 0" "?params ! 3 = 0"
    by (subst split, simp)+
  have l: "\<not> length ?params \<le> 12 + 4" using assms(1,3) by simp
  have "unat (word_of_nat (length nm) :: u32) = length nm" using assms(4) by (intro unat_word_of_nat) simp
  then have n: "LoggerUnpackString (drop 12 ?params) = nm" using assms(1) by (simp add: LoggerUnpackString_def Let_def)
  have s: "subspan 4 4 ?params = subspan 4 4 prefix" "subspan 8 4 ?params = subspan 8 4 prefix"
    using assms(1) by (simp_all add: subspan_def)
  show ?thesis
    unfolding AddIncomingType_params_def z n s AddHandler_fold Let_def using l assms(5) by (simp add: map_add_def)
qed

text \<open>C33: The identifiers in front of a registered type, and what the data router reads of them. For
  identifiers of at most four characters the prefix that the logger builds never overruns its
  array. The parser that gets the registration record learns the name of the type in any case,
  and the ECU and application identifiers of the configuration if the ECU identifier has all four
  characters. A shorter one is followed directly by the application identifier, and the parser
  reads both wrongly.\<close>

theorem registration_prefix_read_back:
  fixes T :: "'t TypeTraits" and p :: "('d, 'h, 'g) LogParser"
  assumes "0 \<notin> set (GetEcuId config)" "0 \<notin> set (GetAppId config)"
    and "length (GetEcuId config) \<le> 4" "length (GetAppId config) \<le> 4" "GetAppId config \<noteq> []"
    and "\<And>d. type_info_copy T d = le32 (word_of_nat (length nm)) @ nm" "nm \<noteq> []" "length nm < 2 ^ 32"
    and "length d = 16 + length nm" "map_of (index_parser_map p) (ucast i) = None"
  shows "case NewLogger default_config created sd (Some config) nv writer of None \<Rightarrow> False
    | Some lg \<Rightarrow>
        let registration = \<lparr>type_id = i, registration_data = ti_Copy (TypeinfoWithPrefix T (app_prefix lg)) d\<rparr>
        in \<exists>ip. map_of (index_parser_map (AddIncomingType registration p)) (ucast i) = Some ip \<and> info_type_name (ip_info ip) = nm \<and>
          (if length (GetEcuId config) = 4
           then info_ecu_id (ip_info ip) = NewDltidT (GetEcuId config) \<and> info_app_id (ip_info ip) = NewDltidT (GetAppId config)
           else info_ecu_id (ip_info ip) \<noteq> NewDltidT (GetEcuId config) \<and> info_app_id (ip_info ip) \<noteq> NewDltidT (GetAppId config))"
proof -
  obtain prefix where p: "app_prefix_of config = Some prefix" "length prefix = 12" "take 4 prefix = [0, 0, 0, 0]"
    "NewDltidT (subspan 4 4 prefix) = NewDltidT (GetEcuId config) \<longleftrightarrow> length (GetEcuId config) = 4"
    "NewDltidT (subspan 8 4 prefix) = NewDltidT (GetAppId config) \<longleftrightarrow> length (GetEcuId config) = 4"
    using prefix_cases [OF assms(1-5)] by (auto split: option.splits)
  have "ti_Copy (TypeinfoWithPrefix T prefix) d = prefix @ le32 (word_of_nat (length nm)) @ nm"
    using assms(6,9) p(2) by (intro description_behind_prefix) simp_all
  then show ?thesis
    using parser_reads_prefix [OF p(2,3) assms(7,8,10)] p(1,4,5) by (auto simp: NewLogger_def AddIncomingType_def Let_def)
qed

definition named_type :: "bytes \<Rightarrow> unit TypeTraits" where
  "named_type nm = \<lparr>struct_name = nm, type_info_size = word_of_nat (4 + length nm), type_info_copy = \<lambda>_. le32 (word_of_nat (length nm)) @ nm,
     serialize_size = \<lambda>_. 0, serialize = \<lambda>_ d. d\<rparr>"

theorem registration_prefix_read_back_witness:
  "case NewLogger \<lparr>GetEcuId = [], GetAppId = [], GetContextLogLevel = []\<rparr> None default_SharedData
      (Some \<lparr>GetEcuId = [69, 67, 85], GetAppId = [65, 80, 80], GetContextLogLevel = []\<rparr>) None None of None \<Rightarrow> False
    | Some lg \<Rightarrow>
        \<exists>ip. map_of (index_parser_map (AddIncomingType \<lparr>type_id = 3, registration_data = ti_Copy (TypeinfoWithPrefix (named_type [84]) (app_prefix lg)) (replicate 17 0)\<rparr>
            (NewLogParser (\<lambda>_. None) [''any''] [([84], ''handler'')] :: (nat, string, string) LogParser))) 3 = Some ip \<and>
          info_type_name (ip_info ip) = [84] \<and> info_ecu_id (ip_info ip) \<noteq> NewDltidT [69, 67, 85]"
proof -
  let ?c = "\<lparr>GetEcuId = [69, 67, 85], GetAppId = [65, 80, 80], GetContextLogLevel = []\<rparr> :: Configuration"
  let ?p = "NewLogParser (\<lambda>_. None) [''any''] [([84], ''handler'')] :: (nat, string, string) LogParser"
  have "map_of (index_parser_map ?p) (ucast (3 :: TypeIdentifier)) = None" by (simp add: NewLogParser_def)
  from registration_prefix_read_back [of ?c "named_type [84]" "[84]" "replicate 17 0" ?p 3
      "\<lparr>GetEcuId = [], GetAppId = [], GetContextLogLevel = []\<rparr>" None default_SharedData None None, OF _ _ _ _ _ _ _ _ _ this]
  show ?thesis by (auto simp: named_type_def Let_def split: option.splits)
qed

end
