(* ===== verification/SourceSession.thy ===== *)
theory SourceSession
  imports Complex_Main LogParser "HOL-Library.Signed_Division"
begin

text \<open>
  A session of the data router with one logging process
  (\<^verbatim>\<open>datarouter/datarouter/data_router.cpp\<close>, class \<^verbatim>\<open>DataRouter::SourceSession\<close>): it asks
  the process for its filled buffer, reads it from shared memory, hands the records to the
  parser and enforces the quota of the process.

  Clock readings and the outcome of the request to the process are arguments, collected in
  \<open>TickEnv\<close>; points in time are nanoseconds. The rate is computed in the source with
  numbers of type \<^verbatim>\<open>double\<close>: the value of that expression is the parameter \<open>rate_k_bps\<close>.
  Each part of the state is behind a lock of its own; a tick runs on one thread and is
  one step here. The text of the statistics is not modelled.
\<close>

section \<open>State\<close>

record LocalSubscriberData =
  time_between_to_calls :: int
  time_to_process_records :: int
  last_call_timestamp :: int
  detach_on_closed_processed :: bool
  enabled_logging_at_server :: bool

record CommandData =
  command_detach_on_closed :: bool
  acquire_requested :: bool
  ticks_without_write :: u8
  block_expected_to_be_next :: "u32 option"
  data_acquired :: "ReadAcquireResult option"

record StatsData =
  message_count :: u64
  message_count_dropped :: u64
  size_dropped :: u64
  message_count_dropped_invalid_size :: u64
  max_bytes_in_buffer :: u64
  total_size :: u64
  quota_k_bps :: real
  quota_enforcement_enabled :: bool
  quota_overlimit_detected :: bool
  time_spent_reading :: int
  transport_delay :: int
  stats_start :: int
  source_name :: string
  count_acquire_requests :: u64

record ('d, 'h, 'g) SourceSession =
  local_subscriber_data :: LocalSubscriberData
  command_data :: CommandData
  stats_data :: StatsData
  reader :: SharedMemoryReader
  parser :: "('d, 'h, 'g) LogParser"

record TickEnv =
  now_start :: int
  now_call :: int
  now_record :: "nat \<Rightarrow> int"
  now_processed :: int
  now_stats :: int
  now_quota :: int
  acquire_request :: bool
  rate_k_bps :: "u64 \<Rightarrow> int \<Rightarrow> real"

definition kTicksWithoutAcquireWhileNoWrites :: u8 where "kTicksWithoutAcquireWhileNoWrites = 10"

text \<open>The largest number of type \<^verbatim>\<open>double\<close>.\<close>

definition max_double :: real where "max_double = (2 - 1 / 2 ^ 52) * 2 ^ 1023"

definition NewSourceSession ::
  "int \<Rightarrow> int \<Rightarrow> SharedMemoryReader \<Rightarrow> string \<Rightarrow> bool \<Rightarrow> real \<Rightarrow> bool \<Rightarrow> ('d, 'h, 'g) LogParser \<Rightarrow> ('d, 'h, 'g) SourceSession" where
  "NewSourceSession now_subscriber now_stats_data reader' nm is_dlt_enabled quota enforcement parser' =
     \<lparr>local_subscriber_data = \<lparr>time_between_to_calls = 0, time_to_process_records = 0,
        last_call_timestamp = now_subscriber, detach_on_closed_processed = False, enabled_logging_at_server = is_dlt_enabled\<rparr>,
      command_data = \<lparr>command_detach_on_closed = False, acquire_requested = False, ticks_without_write = 0,
        block_expected_to_be_next = None, data_acquired = None\<rparr>,
      stats_data = \<lparr>message_count = 0, message_count_dropped = 0, size_dropped = 0, message_count_dropped_invalid_size = 0,
        max_bytes_in_buffer = 0, total_size = 0,
        quota_k_bps = (if nm = ''DR'' then max_double else quota), quota_enforcement_enabled = enforcement,
        quota_overlimit_detected = False, time_spent_reading = 0, transport_delay = 0, stats_start = now_stats_data,
        source_name = nm, count_acquire_requests = 0\<rparr>,
      reader = reader', parser = parser'\<rparr>"

section \<open>Updates of the parts\<close>

definition upd_local :: "(LocalSubscriberData \<Rightarrow> LocalSubscriberData) \<Rightarrow> ('d, 'h, 'g) SourceSession \<Rightarrow> ('d, 'h, 'g) SourceSession" where
  "upd_local f s = s\<lparr>local_subscriber_data := f (local_subscriber_data s)\<rparr>"

definition upd_cmd :: "(CommandData \<Rightarrow> CommandData) \<Rightarrow> ('d, 'h, 'g) SourceSession \<Rightarrow> ('d, 'h, 'g) SourceSession" where
  "upd_cmd f s = s\<lparr>command_data := f (command_data s)\<rparr>"

definition upd_stats :: "(StatsData \<Rightarrow> StatsData) \<Rightarrow> ('d, 'h, 'g) SourceSession \<Rightarrow> ('d, 'h, 'g) SourceSession" where
  "upd_stats f s = s\<lparr>stats_data := f (stats_data s)\<rparr>"

lemmas upd_defs = upd_local_def upd_cmd_def upd_stats_def

section \<open>Operations\<close>

definition SetLoggingClientEnabled :: "bool \<Rightarrow> ('d, 'h, 'g) SourceSession \<Rightarrow> ('d, 'h, 'g) SourceSession" where
  "SetLoggingClientEnabled enable s = upd_local (\<lambda>l. l\<lparr>enabled_logging_at_server := enable\<rparr>) s"

definition IsSourceClosed :: "('d, 'h, 'g) SourceSession \<Rightarrow> bool" where
  "IsSourceClosed s = detach_on_closed_processed (local_subscriber_data s)"

definition OnAcquireResponse :: "ReadAcquireResult \<Rightarrow> ('d, 'h, 'g) SourceSession \<Rightarrow> ('d, 'h, 'g) SourceSession" where
  "OnAcquireResponse acq s =
     upd_cmd (\<lambda>cmd. cmd\<lparr>data_acquired := Some acq, block_expected_to_be_next := Some (GetExpectedNextAcquiredBlockId acq)\<rparr>) s"

definition OnClosedByPeer :: "('d, 'h, 'g) SourceSession \<Rightarrow> ('d, 'h, 'g) SourceSession" where
  "OnClosedByPeer s = upd_cmd (\<lambda>cmd. cmd\<lparr>command_detach_on_closed := True\<rparr>) s"

text \<open>The result and whether a fast reschedule is wished for.\<close>

definition TryFinalizeAcquisition ::
  "SharedData \<Rightarrow> ('d, 'h, 'g) SourceSession \<Rightarrow> bool \<times> bool \<times> ('d, 'h, 'g) SourceSession" where
  "TryFinalizeAcquisition sd s =
     (case data_acquired (command_data s) of
        Some acquired \<Rightarrow>
          if SharedMemoryReader_IsBlockReleasedByWriters sd (acquired_buffer acquired) then
            let (_, r) = NotifyAcquisitionSetReader acquired (reader s) sd
            in (True, False, upd_cmd (\<lambda>cmd. cmd\<lparr>data_acquired := None\<rparr>) (s\<lparr>reader := r\<rparr>))
          else (False, True, s)
      | None \<Rightarrow> (False, False, s))"

text \<open>The request to the process; the session counts the ones that succeed.\<close>

definition RequestAcquire :: "TickEnv \<Rightarrow> ('d, 'h, 'g) SourceSession \<Rightarrow> bool \<times> ('d, 'h, 'g) SourceSession" where
  "RequestAcquire env s =
     (if acquire_request env
      then (True, upd_stats (\<lambda>st. st\<lparr>count_acquire_requests := count_acquire_requests st + 1\<rparr>) s)
      else (False, s))"

text \<open>What the callbacks of a read do with an event: count of messages, delay and parser.\<close>

fun handle_event ::
  "TickEnv \<Rightarrow> bool \<Rightarrow> ReadEvent \<Rightarrow> u64 \<times> int \<times> ('d, 'h, 'g) LogParser \<Rightarrow> u64 \<times> int \<times> ('d, 'h, 'g) LogParser" where
  "handle_event env quota_limit_exceeded (TypeRegistered registration) (n, delay, p) = (n, delay, AddIncomingType registration p)"
| "handle_event env quota_limit_exceeded (NewRecord rec) (n, delay, p) =
     (if quota_limit_exceeded then (n, delay, p)
      else
        let record_received_timestamp = now_record env (unat n);
            p = ParseSharedMemoryRecord rec p
        in (n + 1, max delay ((record_received_timestamp - sint (time_stamp (smr_header rec))) sdiv 1000), p))"

definition ProcessDetachedLogs ::
  "SharedData \<Rightarrow> u64 \<Rightarrow> ('d, 'h, 'g) SourceSession \<Rightarrow> u64 \<times> ('d, 'h, 'g) SourceSession" where
  "ProcessDetachedLogs sd number_of_bytes_in_buffer s =
     (let (result, evs, r) = ReadDetached (reader s) sd;
          s = s\<lparr>reader := r, parser := feed evs (parser s)\<rparr>
      in (case result of Some n \<Rightarrow> n | None \<Rightarrow> number_of_bytes_in_buffer, s))"

text \<open>Whether to ask for the next buffer; the result says whether the request was made.\<close>

definition ask_for_buffer ::
  "TickEnv \<Rightarrow> SharedData \<Rightarrow> ('d, 'h, 'g) SourceSession \<Rightarrow> bool \<times> ('d, 'h, 'g) SourceSession" where
  "ask_for_buffer env sd s =
     (case block_expected_to_be_next (command_data s) of
        Some block \<Rightarrow>
          let peek_bytes = PeekNumberOfBytesAcquiredInBuffer block sd in
          if (peek_bytes \<noteq> None \<and> the peek_bytes > 0) \<or>
             ticks_without_write (command_data s) > kTicksWithoutAcquireWhileNoWrites
          then let (ok, s) = RequestAcquire env s in (True, upd_cmd (\<lambda>cmd. cmd\<lparr>acquire_requested := ok\<rparr>) s)
          else (False, upd_cmd (\<lambda>cmd. cmd\<lparr>ticks_without_write := ticks_without_write cmd + 1\<rparr>) s)
      | None \<Rightarrow> let (ok, s) = RequestAcquire env s in (True, upd_cmd (\<lambda>cmd. cmd\<lparr>acquire_requested := ok\<rparr>) s))"

text \<open>The first half of \<open>ProcessAndRouteLogMessages\<close>: read, hand over, and drain a process that has gone.\<close>

definition read_and_route ::
  "TickEnv \<Rightarrow> SharedData \<Rightarrow> ('d, 'h, 'g) SourceSession \<Rightarrow> u64 \<times> int \<times> u64 \<times> ('d, 'h, 'g) SourceSession" where
  "read_and_route env sd s =
     (let s = upd_local (\<lambda>l. l\<lparr>time_between_to_calls := (now_call env - last_call_timestamp l) sdiv 1000,
                              last_call_timestamp := now_call env\<rparr>) s;
          quota_limit_exceeded = quota_overlimit_detected (stats_data s);
          (result, evs, r) = SharedMemoryReader_Read (reader s) sd;
          (message_count_local, delay, p) = fold (handle_event env quota_limit_exceeded) evs (0, 0, parser s);
          s = s\<lparr>reader := r, parser := p\<rparr>;
          number_of_bytes_in_buffer = (case result of Some n \<Rightarrow> n | None \<Rightarrow> 0);
          detach_needed = command_detach_on_closed (command_data s);
          (number_of_bytes_in_buffer, s) =
            (if detach_needed
             then ProcessDetachedLogs sd number_of_bytes_in_buffer (upd_local (\<lambda>l. l\<lparr>detach_on_closed_processed := True\<rparr>) s)
             else (number_of_bytes_in_buffer, s))
      in (message_count_local, delay, number_of_bytes_in_buffer, s))"

text \<open>The second half: the end of an acquisition, or the next request.\<close>

definition schedule_acquire ::
  "TickEnv \<Rightarrow> SharedData \<Rightarrow> bool \<Rightarrow> bool \<Rightarrow> ('d, 'h, 'g) SourceSession \<Rightarrow> bool \<times> ('d, 'h, 'g) SourceSession" where
  "schedule_acquire env sd acquire_finalized_in_this_tick detach_needed s =
     (let enabled_logging = enabled_logging_at_server (local_subscriber_data s) in
      if acquire_finalized_in_this_tick
      then (False, upd_cmd (\<lambda>cmd. cmd\<lparr>acquire_requested := False, ticks_without_write := 0\<rparr>) s)
      else if \<not> acquire_requested (command_data s) \<and> enabled_logging \<and> \<not> detach_needed then ask_for_buffer env sd s
      else (False, s))"

definition ProcessAndRouteLogMessages ::
  "TickEnv \<Rightarrow> SharedData \<Rightarrow> bool \<Rightarrow> ('d, 'h, 'g) SourceSession \<Rightarrow> u64 \<times> int \<times> u64 \<times> bool \<times> ('d, 'h, 'g) SourceSession" where
  "ProcessAndRouteLogMessages env sd acquire_finalized_in_this_tick s =
     (let detach_needed = command_detach_on_closed (command_data s);
          (message_count_local, delay, number_of_bytes_in_buffer, s) = read_and_route env sd s;
          (requested, s) = schedule_acquire env sd acquire_finalized_in_this_tick detach_needed s;
          s = upd_local (\<lambda>l. l\<lparr>time_to_process_records := (now_processed env - now_call env) sdiv 1000\<rparr>) s
      in (message_count_local, delay, number_of_bytes_in_buffer, requested, s))"

definition CheckAndSetQuotaEnforcement :: "TickEnv \<Rightarrow> StatsData \<Rightarrow> StatsData" where
  "CheckAndSetQuotaEnforcement env stats =
     (if \<not> quota_overlimit_detected stats \<and> quota_enforcement_enabled stats then
        let tstat_in_msec = (now_quota env - stats_start stats) sdiv 1000000 in
        if tstat_in_msec = 0 then stats
        else if rate_k_bps env (total_size stats) tstat_in_msec > quota_k_bps stats
        then stats\<lparr>quota_overlimit_detected := True\<rparr>
        else stats
      else stats)"

definition UpdateAndLogStats ::
  "TickEnv \<Rightarrow> SharedData \<Rightarrow> u64 \<Rightarrow> u64 \<Rightarrow> int \<Rightarrow> ('d, 'h, 'g) SourceSession \<Rightarrow> ('d, 'h, 'g) SourceSession" where
  "UpdateAndLogStats env sd message_count_local number_of_bytes_in_buffer transport_delay_local s =
     upd_stats (\<lambda>stats.
       let message_count_dropped_new = GetNumberOfDropsWithBufferFull sd;
           size_dropped_new = GetSizeOfDropsWithBufferFull sd;
           stats = (if message_count_dropped_new \<noteq> message_count_dropped stats
                    then stats\<lparr>message_count_dropped := message_count_dropped_new, size_dropped := size_dropped_new\<rparr>
                    else stats);
           invalid_new = GetNumberOfDropsWithInvalidSize sd;
           stats = (if invalid_new \<noteq> message_count_dropped_invalid_size stats
                    then stats\<lparr>message_count_dropped_invalid_size := invalid_new\<rparr> else stats);
           stats = stats\<lparr>message_count := message_count stats + message_count_local,
             total_size := total_size stats + number_of_bytes_in_buffer,
             max_bytes_in_buffer := max (max_bytes_in_buffer stats) number_of_bytes_in_buffer,
             transport_delay := max (transport_delay stats) transport_delay_local,
             time_spent_reading := time_spent_reading stats + (now_stats env - now_start env) sdiv 1000\<rparr>
       in CheckAndSetQuotaEnforcement env stats) s"

text \<open>
  A tick. The result is what the source returns and, beside it, whether the process was
  asked for its buffer.
\<close>

definition Tick ::
  "TickEnv \<Rightarrow> SharedData \<Rightarrow> ('d, 'h, 'g) SourceSession \<Rightarrow> bool \<times> bool \<times> ('d, 'h, 'g) SourceSession" where
  "Tick env sd s =
     (if detach_on_closed_processed (local_subscriber_data s) then (False, False, s)
      else
        let (acquire_finalized, needs_fast_reschedule, s) = TryFinalizeAcquisition sd s;
            (message_count_local, delay, number_of_bytes_in_buffer, requested, s) =
              ProcessAndRouteLogMessages env sd acquire_finalized s
        in (False, requested, UpdateAndLogStats env sd message_count_local number_of_bytes_in_buffer delay s))"

definition Session_ShowStats :: "int \<Rightarrow> ('d, 'h, 'g) SourceSession \<Rightarrow> ('d, 'h, 'g) SourceSession" where
  "Session_ShowStats current_time s =
     upd_stats (\<lambda>stats.
       let stats = stats\<lparr>stats_start := current_time, message_count := 0, total_size := 0, time_spent_reading := 0, transport_delay := 0\<rparr>
       in if quota_overlimit_detected stats then stats\<lparr>quota_overlimit_detected := False\<rparr> else stats) s"

section \<open>What a tick reads\<close>

text \<open>The events the callbacks act on: under an exceeded quota only registrations.\<close>

definition admitted :: "bool \<Rightarrow> ReadEvent list \<Rightarrow> ReadEvent list" where
  "admitted quota_limit_exceeded evs =
     (if quota_limit_exceeded then filter (\<lambda>e. case e of TypeRegistered _ \<Rightarrow> True | NewRecord _ \<Rightarrow> False) evs else evs)"

lemma handle_events: "snd (snd (fold (handle_event env q) evs (n, delay, p))) = feed (admitted q evs) p"
  by (induction evs arbitrary: n delay p) (auto simp: admitted_def Let_def feed_def split: ReadEvent.split elim: handle_event.elims)

text \<open>
  The reads of a tick: whether the acquisition was finished, the events of the read, those
  of the read after the process has gone, and the reader.
\<close>

definition tick_reads :: "SharedData \<Rightarrow> ('d, 'h, 'g) SourceSession \<Rightarrow> bool \<times> ReadEvent list \<times> ReadEvent list \<times> SharedMemoryReader" where
  "tick_reads sd s =
     (let (finalized, _, s1) = TryFinalizeAcquisition sd s;
          (_, evs, r) = SharedMemoryReader_Read (reader s1) sd
      in if command_detach_on_closed (command_data s)
         then let (_, rest, r) = ReadDetached r sd in (finalized, evs, rest, r)
         else (finalized, evs, [], r))"

end
