(* ===== verification/SessionProperties.thy ===== *)
theory SessionProperties
  imports SourceSession
begin

text \<open>
  What the ticks of a session do: which events reach the parser, when the process is asked
  for its buffer, and what the quota and the end of the process change.
\<close>

section \<open>A tick, field by field\<close>

lemma stats_simps [simp]:
  "quota_enforcement_enabled (CheckAndSetQuotaEnforcement env st) = quota_enforcement_enabled st"
  "quota_overlimit_detected st \<Longrightarrow> CheckAndSetQuotaEnforcement env st = st"
  "\<not> quota_enforcement_enabled st \<Longrightarrow> CheckAndSetQuotaEnforcement env st = st"
  by (simp_all add: CheckAndSetQuotaEnforcement_def Let_def)

lemma UpdateAndLogStats_simps [simp]:
  "local_subscriber_data (UpdateAndLogStats env sd n m d s) = local_subscriber_data s"
  "command_data (UpdateAndLogStats env sd n m d s) = command_data s"
  "reader (UpdateAndLogStats env sd n m d s) = reader s"
  "parser (UpdateAndLogStats env sd n m d s) = parser s"
  "quota_enforcement_enabled (stats_data (UpdateAndLogStats env sd n m d s)) = quota_enforcement_enabled (stats_data s)"
  by (simp_all add: UpdateAndLogStats_def upd_stats_def Let_def)

lemma UpdateAndLogStats_flag:
  "quota_overlimit_detected (stats_data s) \<Longrightarrow> quota_overlimit_detected (stats_data (UpdateAndLogStats env sd n m d s))"
  "\<not> quota_enforcement_enabled (stats_data s) \<Longrightarrow>
   quota_overlimit_detected (stats_data (UpdateAndLogStats env sd n m d s)) = quota_overlimit_detected (stats_data s)"
  by (simp_all add: UpdateAndLogStats_def upd_stats_def Let_def)

text \<open>The condition to ask, and when it is not met the tick is counted.\<close>

definition must_ask :: "SharedData \<Rightarrow> CommandData \<Rightarrow> bool" where
  "must_ask sd cmd \<longleftrightarrow> (case block_expected_to_be_next cmd of None \<Rightarrow> True
     | Some block \<Rightarrow> acquired_index (blk_of (control_block sd) (SelectLinearControlBlockId block)) > 0 \<or>
         ticks_without_write cmd > kTicksWithoutAcquireWhileNoWrites)"

lemma ask_for_buffer_dest:
  assumes "ask_for_buffer env sd s = (requested, s')"
  shows "local_subscriber_data s' = local_subscriber_data s \<and> reader s' = reader s \<and> parser s' = parser s \<and>
    data_acquired (command_data s') = data_acquired (command_data s) \<and>
    block_expected_to_be_next (command_data s') = block_expected_to_be_next (command_data s) \<and>
    command_detach_on_closed (command_data s') = command_detach_on_closed (command_data s) \<and>
    quota_enforcement_enabled (stats_data s') = quota_enforcement_enabled (stats_data s) \<and>
    quota_overlimit_detected (stats_data s') = quota_overlimit_detected (stats_data s) \<and>
    (\<not> acquire_requested (command_data s) \<longrightarrow> acquire_requested (command_data s') = (requested \<and> acquire_request env)) \<and>
    requested = must_ask sd (command_data s) \<and>
    ticks_without_write (command_data s') = ticks_without_write (command_data s) + (if requested then 0 else 1)"
  using assms by (auto simp: must_ask_def PeekNumberOfBytesAcquiredInBuffer_def ask_for_buffer_def Let_def upd_cmd_def RequestAcquire_def upd_stats_def split: option.splits if_splits prod.splits)

text \<open>The part of a tick before the request: reads, parser and the flag of the end.\<close>

lemma TryFinalizeAcquisition_simps:
  "local_subscriber_data (snd (snd (TryFinalizeAcquisition sd s))) = local_subscriber_data s"
  "parser (snd (snd (TryFinalizeAcquisition sd s))) = parser s"
  "stats_data (snd (snd (TryFinalizeAcquisition sd s))) = stats_data s"
  "command_data (snd (snd (TryFinalizeAcquisition sd s))) =
     (if fst (TryFinalizeAcquisition sd s) then (command_data s)\<lparr>data_acquired := None\<rparr> else command_data s)"
  by (auto simp: TryFinalizeAcquisition_def upd_cmd_def Let_def split: option.split prod.split)

lemma schedule_acquire_dest:
  assumes "schedule_acquire env sd fin detach s = (requested, s')"
  shows "local_subscriber_data s' = local_subscriber_data s \<and> reader s' = reader s \<and> parser s' = parser s \<and>
    data_acquired (command_data s') = data_acquired (command_data s) \<and>
    block_expected_to_be_next (command_data s') = block_expected_to_be_next (command_data s) \<and>
    command_detach_on_closed (command_data s') = command_detach_on_closed (command_data s) \<and>
    quota_enforcement_enabled (stats_data s') = quota_enforcement_enabled (stats_data s) \<and>
    quota_overlimit_detected (stats_data s') = quota_overlimit_detected (stats_data s) \<and>
    acquire_requested (command_data s') = (\<not> fin \<and> (acquire_requested (command_data s) \<or> requested \<and> acquire_request env)) \<and>
    (requested \<longrightarrow> \<not> fin \<and> \<not> acquire_requested (command_data s) \<and>
      enabled_logging_at_server (local_subscriber_data s) \<and> \<not> detach)"
  using assms by (auto simp: schedule_acquire_def Let_def upd_cmd_def dest!: ask_for_buffer_dest split: if_splits)

lemma schedule_acquire_asks:
  assumes "schedule_acquire env sd False False s = (requested, s')"
    and "\<not> acquire_requested (command_data s)" "enabled_logging_at_server (local_subscriber_data s)"
  shows "requested = must_ask sd (command_data s) \<and>
    ticks_without_write (command_data s') = ticks_without_write (command_data s) + (if requested then 0 else 1)"
  using assms by (auto simp: schedule_acquire_def Let_def dest!: ask_for_buffer_dest)

lemma read_and_route_eq:
  assumes "SharedMemoryReader_Read (reader s) sd = (m, evs, r)" "ReadDetached r sd = (m', rest, r')"
    and "detach = command_detach_on_closed (command_data s)"
  shows "\<exists>n delay k l. read_and_route env sd s = (n, delay, k, s\<lparr>local_subscriber_data := l,
      reader := (if detach then r' else r),
      parser := feed (if detach then rest else []) (feed (admitted (quota_overlimit_detected (stats_data s)) evs) (parser s))\<rparr>) \<and>
    enabled_logging_at_server l = enabled_logging_at_server (local_subscriber_data s) \<and>
    detach_on_closed_processed l = (detach \<or> detach_on_closed_processed (local_subscriber_data s))"
proof -
  obtain n delay p where fo: "fold (handle_event env (quota_overlimit_detected (stats_data s))) evs (0, 0, parser s) = (n, delay, p)"
    by (cases "fold (handle_event env (quota_overlimit_detected (stats_data s))) evs (0, 0, parser s)")
  have "p = feed (admitted (quota_overlimit_detected (stats_data s)) evs) (parser s)"
    using handle_events [of env "quota_overlimit_detected (stats_data s)" evs 0 0 "parser s"] fo by simp
  then show ?thesis
    using assms fo by (simp add: read_and_route_def ProcessDetachedLogs_def upd_local_def Let_def)
      (intro conjI impI; rule exI, rule conjI, rule refl, simp)
qed

lemma Tick_live:
  assumes "\<not> detach_on_closed_processed (local_subscriber_data s)"
    and "tick_reads sd s = (finalized, evs, rest, r)" and "Tick env sd s = (res, requested, s')"
  shows "parser s' = feed rest (feed (admitted (quota_overlimit_detected (stats_data s)) evs) (parser s))"
    and "reader s' = r"
    and "detach_on_closed_processed (local_subscriber_data s') = command_detach_on_closed (command_data s)"
    and "enabled_logging_at_server (local_subscriber_data s') = enabled_logging_at_server (local_subscriber_data s)"
    and "command_detach_on_closed (command_data s') = command_detach_on_closed (command_data s)"
    and "data_acquired (command_data s') = (if finalized then None else data_acquired (command_data s))"
    and "block_expected_to_be_next (command_data s') = block_expected_to_be_next (command_data s)"
    and "acquire_requested (command_data s') =
      (\<not> finalized \<and> (acquire_requested (command_data s) \<or> requested \<and> acquire_request env))"
    and "requested \<Longrightarrow> \<not> finalized \<and> \<not> acquire_requested (command_data s) \<and>
      enabled_logging_at_server (local_subscriber_data s) \<and> \<not> command_detach_on_closed (command_data s)"
    and "quota_enforcement_enabled (stats_data s') = quota_enforcement_enabled (stats_data s)"
    and "quota_overlimit_detected (stats_data s) \<or> \<not> quota_enforcement_enabled (stats_data s) \<Longrightarrow>
      quota_overlimit_detected (stats_data s') = quota_overlimit_detected (stats_data s)"
    and "\<not> finalized \<and> \<not> acquire_requested (command_data s) \<and> enabled_logging_at_server (local_subscriber_data s) \<and>
        \<not> command_detach_on_closed (command_data s) \<Longrightarrow>
      requested = must_ask sd (command_data s) \<and>
      ticks_without_write (command_data s') = ticks_without_write (command_data s) + (if requested then 0 else 1)"
    and "\<not> res"
proof -
  let ?d = "command_detach_on_closed (command_data s)"
  obtain fin fast s1 where fin: "TryFinalizeAcquisition sd s = (fin, fast, s1)" by (cases "TryFinalizeAcquisition sd s")
  note s1 = TryFinalizeAcquisition_simps [of sd s, unfolded fin fst_conv snd_conv]
  obtain m e1 r1 where rd: "SharedMemoryReader_Read (reader s1) sd = (m, e1, r1)" by (cases "SharedMemoryReader_Read (reader s1) sd")
  obtain m2 e2 r2 where rd2: "ReadDetached r1 sd = (m2, e2, r2)" by (cases "ReadDetached r1 sd")
  have reads: "finalized = fin" "evs = e1" "rest = (if ?d then e2 else [])" "r = (if ?d then r2 else r1)"
    using assms(2) by (auto simp: tick_reads_def fin rd rd2 Let_def split: if_splits)
  have d: "?d = command_detach_on_closed (command_data s1)" by (simp add: s1)
  obtain n delay k l where route: "read_and_route env sd s1 = (n, delay, k, s1\<lparr>local_subscriber_data := l, reader := r,
        parser := feed rest (feed (admitted (quota_overlimit_detected (stats_data s)) e1) (parser s))\<rparr>)"
      "enabled_logging_at_server l = enabled_logging_at_server (local_subscriber_data s)" "detach_on_closed_processed l = ?d"
    using read_and_route_eq [OF rd rd2 d, of env] assms(1) unfolding reads by (auto simp: s1)
  define s2 where "s2 = s1\<lparr>local_subscriber_data := l, reader := r,
        parser := feed rest (feed (admitted (quota_overlimit_detected (stats_data s)) e1) (parser s))\<rparr>"
  obtain q s3 where q: "schedule_acquire env sd fin ?d s2 = (q, s3)" by (cases "schedule_acquire env sd fin ?d s2")
  have tick: "\<not> res" "requested = q" "s' = UpdateAndLogStats env sd n k delay
      (upd_local (\<lambda>l. l\<lparr>time_to_process_records := (now_processed env - now_call env) sdiv 1000\<rparr>) s3)"
    using assms(1,3) by (simp_all add: Tick_def fin ProcessAndRouteLogMessages_def route(1) s2_def [symmetric] q d [symmetric])
  note sched = schedule_acquire_dest [OF q]
  show "parser s' = feed rest (feed (admitted (quota_overlimit_detected (stats_data s)) evs) (parser s))"
    "reader s' = r" "detach_on_closed_processed (local_subscriber_data s') = ?d"
    "enabled_logging_at_server (local_subscriber_data s') = enabled_logging_at_server (local_subscriber_data s)"
    "command_detach_on_closed (command_data s') = ?d"
    "data_acquired (command_data s') = (if finalized then None else data_acquired (command_data s))"
    "block_expected_to_be_next (command_data s') = block_expected_to_be_next (command_data s)"
    "acquire_requested (command_data s') =
      (\<not> finalized \<and> (acquire_requested (command_data s) \<or> requested \<and> acquire_request env))"
    "requested \<Longrightarrow> \<not> finalized \<and> \<not> acquire_requested (command_data s) \<and>
      enabled_logging_at_server (local_subscriber_data s) \<and> \<not> ?d"
    "quota_enforcement_enabled (stats_data s') = quota_enforcement_enabled (stats_data s)" "\<not> res"
    using sched route(2,3) tick by (auto simp: s1 s2_def upd_local_def reads)
  show "requested = must_ask sd (command_data s) \<and>
      ticks_without_write (command_data s') = ticks_without_write (command_data s) + (if requested then 0 else 1)"
    if c: "\<not> finalized \<and> \<not> acquire_requested (command_data s) \<and> enabled_logging_at_server (local_subscriber_data s) \<and> \<not> ?d"
  proof -
    have "schedule_acquire env sd False False s2 = (q, s3)" "command_data s2 = command_data s"
      "enabled_logging_at_server (local_subscriber_data s2)"
      using q c route(2) by (simp_all add: reads s2_def s1)
    then show ?thesis using schedule_acquire_asks [of env sd s2 q s3] c by (simp add: tick upd_local_def)
  qed
  show "quota_overlimit_detected (stats_data s') = quota_overlimit_detected (stats_data s)"
    if "quota_overlimit_detected (stats_data s) \<or> \<not> quota_enforcement_enabled (stats_data s)"
    using that sched by (auto simp: tick(3) s1 s2_def upd_local_def UpdateAndLogStats_flag)
qed

section \<open>Polling\<close>

text \<open>Ticks at any clock readings and states of the buffers, with nothing arriving in between.\<close>

fun ticks :: "(nat \<Rightarrow> TickEnv \<times> SharedData) \<Rightarrow> nat \<Rightarrow> ('d, 'h, 'g) SourceSession \<Rightarrow> ('d, 'h, 'g) SourceSession" where
  "ticks world 0 s = s"
| "ticks world (Suc n) s = (let s = ticks world n s in snd (snd (Tick (fst (world n)) (snd (world n)) s)))"

definition asks :: "(nat \<Rightarrow> TickEnv \<times> SharedData) \<Rightarrow> nat \<Rightarrow> ('d, 'h, 'g) SourceSession \<Rightarrow> bool" where
  "asks world n s = fst (snd (Tick (fst (world n)) (snd (world n)) (ticks world n s)))"

definition polling :: "('d, 'h, 'g) SourceSession \<Rightarrow> bool" where
  "polling s \<longleftrightarrow> \<not> detach_on_closed_processed (local_subscriber_data s) \<and> enabled_logging_at_server (local_subscriber_data s) \<and>
     \<not> command_detach_on_closed (command_data s) \<and> \<not> acquire_requested (command_data s) \<and> data_acquired (command_data s) = None"

lemma Tick_polling:
  assumes "polling s" "Tick env sd s = (res, requested, s')"
  shows "requested = must_ask sd (command_data s)" "\<not> requested \<Longrightarrow> polling s'"
    "ticks_without_write (command_data s') = ticks_without_write (command_data s) + (if requested then 0 else 1)"
    "block_expected_to_be_next (command_data s') = block_expected_to_be_next (command_data s)"
proof -
  obtain fin evs rest r where reads: "tick_reads sd s = (fin, evs, rest, r)" by (cases "tick_reads sd s")
  have "\<not> fin" using assms(1) reads by (auto simp: polling_def tick_reads_def TryFinalizeAcquisition_def split: prod.splits if_splits)
  note nofin = this
  have "\<not> detach_on_closed_processed (local_subscriber_data s)" using assms(1) by (simp add: polling_def)
  note t = Tick_live [OF this reads assms(2)]
  have ask: "requested = must_ask sd (command_data s) \<and>
    ticks_without_write (command_data s') = ticks_without_write (command_data s) + (if requested then 0 else 1)"
    using nofin assms(1) by (intro t(12)) (simp add: polling_def)
  then show "requested = must_ask sd (command_data s)"
    "ticks_without_write (command_data s') = ticks_without_write (command_data s) + (if requested then 0 else 1)" by simp_all
  show "block_expected_to_be_next (command_data s') = block_expected_to_be_next (command_data s)" by (rule t(7))
  show "polling s'" if "\<not> requested"
    using assms(1) nofin that unfolding polling_def t(3-6,8) by simp
qed

lemma polling_ticks:
  assumes "polling s" "\<forall>k<n. \<not> asks world k s"
  shows "polling (ticks world n s) \<and>
    ticks_without_write (command_data (ticks world n s)) = ticks_without_write (command_data s) + word_of_nat n \<and>
    block_expected_to_be_next (command_data (ticks world n s)) = block_expected_to_be_next (command_data s)"
  using assms(2)
proof (induction n)
  case (Suc n)
  obtain res q s' where t: "Tick (fst (world n)) (snd (world n)) (ticks world n s) = (res, q, s')"
    by (cases "Tick (fst (world n)) (snd (world n)) (ticks world n s)")
  then have "\<not> q" using Suc.prems by (auto simp: asks_def)
  with Suc Tick_polling [OF _ t] t show ?case by (simp add: Let_def add.commute)
qed (simp add: assms(1))

text \<open>An idle session is not asked while its counter is low.\<close>

lemma idle_not_asked:
  assumes "polling s" "block_expected_to_be_next (command_data s) = Some block" "ticks_without_write (command_data s) = 0"
    and "\<forall>k<11. acquired_index (blk_of (control_block (snd (world k))) (SelectLinearControlBlockId block)) = 0"
  shows "k < 11 \<Longrightarrow> \<not> asks world k s"
proof (induction k rule: less_induct)
  case (less k)
  then have "\<forall>j<k. \<not> asks world j s" by simp
  note p = polling_ticks [OF assms(1) this]
  have "unat (word_of_nat k :: u8) = k" using less.prems by (intro unat_word_of_nat) simp
  then have "\<not> (word_of_nat k :: u8) > kTicksWithoutAcquireWhileNoWrites"
    using less.prems by (simp add: kTicksWithoutAcquireWhileNoWrites_def word_less_nat_alt)
  then have "\<not> must_ask (snd (world k)) (command_data (ticks world k s))"
    using p assms(2-4) less.prems by (simp add: must_ask_def)
  then show ?case
    using p Tick_polling(1) [of "ticks world k s" "fst (world k)" "snd (world k)"] by (auto simp: asks_def prod_eq_iff)
qed

text \<open>C29: The session keeps polling: an enabled session with no request under way asks its process
  for the buffer within twelve ticks, whatever is in the buffers, and at once when the
  expected buffer holds bytes or no buffer was acquired before. Twelve is exact: with a fresh
  counter and an empty buffer the first eleven ticks ask nothing, although the comment at the
  limit promises a request in every ten.\<close>

theorem session_keeps_polling:
  assumes "\<not> detach_on_closed_processed (local_subscriber_data s)" "enabled_logging_at_server (local_subscriber_data s)"
    and "\<not> command_detach_on_closed (command_data s)" "\<not> acquire_requested (command_data s)" "data_acquired (command_data s) = None"
  shows "(\<exists>k<12. asks world k s) \<and> (must_ask (snd (world 0)) (command_data s) \<longrightarrow> asks world 0 s) \<and>
    (\<forall>block. block_expected_to_be_next (command_data s) = Some block \<and> ticks_without_write (command_data s) = 0 \<and>
       (\<forall>k<11. acquired_index (blk_of (control_block (snd (world k))) (SelectLinearControlBlockId block)) = 0) \<longrightarrow>
       (\<forall>k<11. \<not> asks world k s))"
proof (intro conjI)
  have poll: "polling s" using assms by (simp add: polling_def)
  let ?w = "ticks_without_write (command_data s)"
  show "\<exists>k<12. asks world k s"
  proof (rule ccontr)
    assume "\<not> (\<exists>k<12. asks world k s)"
    then have quiet: "\<not> asks world k s" if "k < 12" for k using that by blast
    define n where "n = (if ?w > 10 then 0 else 11 - unat ?w)"
    have n: "n < 12" unfolding n_def by (cases "?w > 10") auto
    have "polling (ticks world n s)" "ticks_without_write (command_data (ticks world n s)) = ?w + word_of_nat n"
      using polling_ticks [OF poll, of n world] quiet n by auto
    moreover have "?w + word_of_nat n > kTicksWithoutAcquireWhileNoWrites"
    proof (cases "?w > 10")
      case False
      then have "unat ?w \<le> 10" by (simp add: word_less_nat_alt not_less)
      then have "unat ?w + n = 11" using False by (simp add: n_def)
      moreover have "?w + word_of_nat n = word_of_nat (unat ?w + n)" by simp
      ultimately have "?w + word_of_nat n = 11" by simp
      then show ?thesis by (simp add: kTicksWithoutAcquireWhileNoWrites_def)
    qed (simp add: n_def kTicksWithoutAcquireWhileNoWrites_def)
    ultimately have "asks world n s"
      using Tick_polling(1) [of "ticks world n s" "fst (world n)" "snd (world n)"]
      by (auto simp: asks_def must_ask_def prod_eq_iff split: option.splits)
    with quiet n show False by blast
  qed
  show "must_ask (snd (world 0)) (command_data s) \<longrightarrow> asks world 0 s"
    using Tick_polling(1) [OF poll, of "fst (world 0)" "snd (world 0)"] by (auto simp: asks_def prod_eq_iff)
  show "\<forall>block. block_expected_to_be_next (command_data s) = Some block \<and> ticks_without_write (command_data s) = 0 \<and>
       (\<forall>k<11. acquired_index (blk_of (control_block (snd (world k))) (SelectLinearControlBlockId block)) = 0) \<longrightarrow>
       (\<forall>k<11. \<not> asks world k s)"
    using idle_not_asked [OF poll] by blast
qed

definition example_buffer :: SharedData where
  "example_buffer = fresh_shared_data (replicate 60 0) (replicate 60 0)"

definition example_tick_env :: TickEnv where
  "example_tick_env = \<lparr>now_start = 0, now_call = 0, now_record = \<lambda>_. 0, now_processed = 0, now_stats = 0, now_quota = 0,
     acquire_request = True, rate_k_bps = \<lambda>_ _. 0\<rparr>"

definition example_session :: "(nat, string, string) SourceSession" where
  "example_session = NewSourceSession 0 0 (NewSharedMemoryReader example_buffer True) ''APP1'' True 0 False
     (NewLogParser (\<lambda>_. None) [''any''] [([84], ''handler'')])"

theorem session_keeps_polling_witness: "asks (\<lambda>_. (example_tick_env, example_buffer)) 0 example_session"
  using session_keeps_polling [of example_session "\<lambda>_. (example_tick_env, example_buffer)"]
  by (simp add: example_session_def NewSourceSession_def must_ask_def)

section \<open>Quota\<close>

lemma admitted_registrations: "admitted True es = filter (\<lambda>e. \<exists>t. e = TypeRegistered t) es"
proof -
  have "(\<lambda>e. case e of TypeRegistered _ \<Rightarrow> True | NewRecord _ \<Rightarrow> False) = (\<lambda>e. \<exists>t. e = TypeRegistered t)"
    by (auto simp: fun_eq_iff split: ReadEvent.split)
  then show ?thesis by (simp add: admitted_def)
qed

lemma registrations_call_nobody: "calls (feed (filter (\<lambda>e. \<exists>t. e = TypeRegistered t) es) p) = calls p"
  by (induction es arbitrary: p) (auto simp: AddIncomingType_def AddIncomingType_params_def Let_def)

text \<open>The quota is enforced. While the process is connected, a tick hands every event it reads
  to the parser, in order; once the session has noticed that the process logs more than
  its quota, the tick still learns the registered types but drops the records and calls
  no handler, and the next tick finds the quota exceeded too, until the statistics are
  shown. Without enforcement the quota is never found exceeded.\<close>

theorem quota_drops_records:
  assumes "\<not> detach_on_closed_processed (local_subscriber_data s)" "\<not> command_detach_on_closed (command_data s)"
  shows "case tick_reads sd s of (_, evs, _, _) \<Rightarrow> case Tick env sd s of (_, _, s') \<Rightarrow>
    parser s' = feed (if quota_overlimit_detected (stats_data s)
                      then filter (\<lambda>e. \<exists>t. e = TypeRegistered t) evs else evs) (parser s) \<and>
    (quota_overlimit_detected (stats_data s) \<longrightarrow> calls (parser s') = calls (parser s) \<and> quota_overlimit_detected (stats_data s')) \<and>
    (\<not> quota_overlimit_detected (stats_data s) \<and> \<not> quota_enforcement_enabled (stats_data s) \<longrightarrow> \<not> quota_overlimit_detected (stats_data s')) \<and>
    \<not> quota_overlimit_detected (stats_data (Session_ShowStats t s'))"
proof -
  obtain res q s' where t: "Tick env sd s = (res, q, s')" by (cases "Tick env sd s")
  obtain fin evs rest r where reads: "tick_reads sd s = (fin, evs, rest, r)" by (cases "tick_reads sd s")
  have rest: "rest = []" using reads assms(2) by (auto simp: tick_reads_def Let_def split: prod.splits)
  note t' = Tick_live [OF assms(1) reads t]
  have "\<not> quota_overlimit_detected (stats_data (Session_ShowStats t s'))"
    by (simp add: Session_ShowStats_def upd_stats_def Let_def)
  with t'(1,11) show ?thesis
    by (cases "quota_overlimit_detected (stats_data s)")
      (simp_all add: reads t rest admitted_registrations registrations_call_nobody admitted_def [of False])
qed

theorem quota_drops_records_witness:
  "case Tick example_tick_env example_buffer (upd_stats (\<lambda>st. st\<lparr>quota_overlimit_detected := True\<rparr>) example_session) of (_, _, s') \<Rightarrow>
     calls (parser s') = [] \<and> quota_overlimit_detected (stats_data s')"
  using quota_drops_records [where s = "upd_stats (\<lambda>st. st\<lparr>quota_overlimit_detected := True\<rparr>) example_session"
      and env = example_tick_env and sd = example_buffer and t = 0]
  by (auto simp: example_session_def NewSourceSession_def upd_stats_def NewLogParser_def split: prod.splits)

end
