(* ===== verification/Pipeline.thy ===== *)
theory Pipeline
  imports SessionProperties
begin

text \<open>
  A logging process and its session in the data router, together: the process logs into
  shared memory and switches the buffers on request, requests and answers travel between
  the two, the session ticks. Logging calls, switches and ticks are the steps; what the
  threads of one process do inside a block is the subject of \<open>LinearConcurrent\<close>.
\<close>

section \<open>The system\<close>

record ('d, 'h, 'g) pipeline =
  p_writer :: SharedMemoryWriter
  p_data :: SharedData
  p_session :: "('d, 'h, 'g) SourceSession"
  p_alive :: bool
  p_asked :: bool
  p_answer :: "ReadAcquireResult option"

abbreviation active_events :: "SharedData \<Rightarrow> ReadEvent list" where
  "active_events sd \<equiv> events_of (active_contents (control_block sd))"

abbreviation other_id :: "SharedData \<Rightarrow> AlternatingControlBlockSelectId" where
  "other_id sd \<equiv> GetOppositeLinearControlBlock (active_id (control_block sd))"

abbreviation other_block :: "SharedData \<Rightarrow> LinearControlBlock" where
  "other_block sd \<equiv> blk_of (control_block sd) (other_id sd)"

text \<open>The event that a logging call leaves in the buffer, if it has room for it.\<close>

definition kept_event :: "log_op \<Rightarrow> SharedMemoryWriter \<Rightarrow> SharedData \<Rightarrow> ReadEvent list" where
  "kept_event op w sd =
     (if op_size op \<le> 65500 \<and> op_size op + 24 \<le> active_room (control_block sd)
      then [op_event (next_type_identifier w) op] else [])"

text \<open>
  The steps, labelled with the events that logging calls left in the buffer. A process may
  end with its writer destroyed, once its last answer has arrived, or without; the channel
  delivers its answers before it reports the end.
\<close>

inductive pipe_step ::
  "bytes \<Rightarrow> (TypeIdentifier \<Rightarrow> bytes) \<Rightarrow> ('d, 'h, 'g) pipeline \<Rightarrow> ReadEvent list \<Rightarrow> ('d, 'h, 'g) pipeline \<Rightarrow> bool"
  for pad img where
  log_call: "p_alive st \<Longrightarrow> op_ok op \<Longrightarrow> run_op pad img op (p_writer st, p_data st) = (w, sd) \<Longrightarrow>
    pipe_step pad img st (kept_event op (p_writer st) (p_data st)) (st\<lparr>p_writer := w, p_data := sd\<rparr>)"
| serve: "p_alive st \<Longrightarrow> p_asked st \<Longrightarrow> ReadAcquire (p_writer st) (p_data st) = (result, w, sd) \<Longrightarrow>
    pipe_step pad img st [] (st\<lparr>p_writer := w, p_data := sd, p_asked := False, p_answer := Some result\<rparr>)"
| answered: "p_answer st = Some result \<Longrightarrow>
    pipe_step pad img st [] (st\<lparr>p_session := OnAcquireResponse result (p_session st), p_answer := None\<rparr>)"
| ticked: "Tick env (p_data st) (p_session st) = (res, requested, s) \<Longrightarrow>
    pipe_step pad img st [] (st\<lparr>p_session := s, p_asked := (p_asked st \<or> requested \<and> acquire_request env)\<rparr>)"
| enabled: "pipe_step pad img st [] (st\<lparr>p_session := SetLoggingClientEnabled en (p_session st)\<rparr>)"
| shown: "pipe_step pad img st [] (st\<lparr>p_session := Session_ShowStats t (p_session st)\<rparr>)"
| closed: "p_alive st \<Longrightarrow> p_answer st = None \<Longrightarrow> DestroySharedMemoryWriter (p_writer st) (p_data st) = (u, sd) \<Longrightarrow>
    pipe_step pad img st [] (st\<lparr>p_data := sd, p_alive := False\<rparr>)"
| crashed: "pipe_step pad img st [] (st\<lparr>p_alive := False\<rparr>)"
| hung_up: "\<not> p_alive st \<Longrightarrow> p_answer st = None \<Longrightarrow>
    pipe_step pad img st [] (st\<lparr>p_session := OnClosedByPeer (p_session st)\<rparr>)"

inductive pipe_run ::
  "bytes \<Rightarrow> (TypeIdentifier \<Rightarrow> bytes) \<Rightarrow> ('d, 'h, 'g) pipeline \<Rightarrow> ReadEvent list \<Rightarrow> ('d, 'h, 'g) pipeline \<Rightarrow> bool"
  for pad img st where
  run_start: "pipe_run pad img st [] st"
| run_next: "pipe_run pad img st kept st' \<Longrightarrow> pipe_step pad img st' evs st'' \<Longrightarrow> pipe_run pad img st (kept @ evs) st''"

text \<open>The start: a fresh buffer, a reader attached to it, a session without quota enforcement.\<close>

definition pipe_init :: "bytes \<Rightarrow> bytes \<Rightarrow> string \<Rightarrow> bool \<Rightarrow> real \<Rightarrow> ('d, 'h, 'g) LogParser \<Rightarrow> ('d, 'h, 'g) pipeline" where
  "pipe_init d e nm en quota p =
     (let sd = fresh_shared_data d e
      in \<lparr>p_writer = NewSharedMemoryWriter sd False, p_data = sd,
          p_session = NewSourceSession 0 0 (NewSharedMemoryReader sd True) nm en quota False p,
          p_alive = True, p_asked = False, p_answer = None\<rparr>)"

section \<open>Reading a buffer and the rest\<close>

definition attached_events :: "SharedMemoryReader \<Rightarrow> SharedData \<Rightarrow> ReadEvent list" where
  "attached_events r sd = (case linear_reader r of None \<Rightarrow> [] | Some (b, _) \<Rightarrow> events_of (block_contents (blk_of (control_block sd) b)))"

definition attached_ok :: "SharedMemoryReader \<Rightarrow> SharedData \<Rightarrow> bool" where
  "attached_ok r sd \<longleftrightarrow> (case linear_reader r of None \<Rightarrow> True
     | Some (b, lr) \<Rightarrow> lr = CreateLinearReaderFromControlBlock (blk_of (control_block sd) b) \<and> span_ok (lcb_data (blk_of (control_block sd) b)))"

lemma Read_attached_part:
  assumes "\<not> finished_reading_after_detach r" "attached_ok r sd"
    and "buffer_expected_to_read_next r = switch_count_points_active_for_writing (control_block sd)"
    and "span_ok (lcb_data (blk_of (control_block sd) (active_id (control_block sd))))"
  shows "\<exists>m. SharedMemoryReader_Read r sd =
    (m, attached_events r sd @ (if IsWriterDetached r sd then active_events sd else []),
     r\<lparr>linear_reader := None, finished_reading_after_detach := IsWriterDetached r sd\<rparr>)"
proof -
  have r: "r\<lparr>finished_reading_after_detach := False\<rparr> = r" using assms(1) by simp
  have r0: "r\<lparr>linear_reader := None\<rparr> = r" if "linear_reader r = None" using that by simp
  show ?thesis
    using assms Read_via_contents [where acb = "control_block sd"] r r0
    by (cases "linear_reader r")
      (auto simp: SharedMemoryReader_Read_def Let_def IsWriterDetached_def attached_events_def attached_ok_def active_contents_def
        AlternatingReader_CreateLinearReader_def CreateLinearReaderFromControlBlock_def)
qed

lemma read_twice:
  assumes "\<not> finished_reading_after_detach r" "attached_ok r sd" "\<not> is_writer_detached r"
    and "buffer_expected_to_read_next r = switch_count_points_active_for_writing (control_block sd)"
    and "span_ok (lcb_data (blk_of (control_block sd) (active_id (control_block sd))))"
    and "SharedMemoryReader_Read r sd = (m, evs, r1)" "ReadDetached r1 sd = (m', rest, r2)"
  shows "evs @ (if d then rest else []) =
      attached_events r sd @ (if writer_detached sd \<or> d then active_events sd else [])"
    and "r' = (if d then r2 else r1) \<Longrightarrow> linear_reader r' = None \<and> is_writer_detached r' = d \<and>
      finished_reading_after_detach r' = (writer_detached sd \<or> d) \<and>
      buffer_expected_to_read_next r' = buffer_expected_to_read_next r"
proof -
  have det: "IsWriterDetached r sd = writer_detached sd" using assms(3) by (simp add: IsWriterDetached_def)
  have r1: "evs = attached_events r sd @ (if writer_detached sd then active_events sd else [])"
    "r1 = r\<lparr>linear_reader := None, finished_reading_after_detach := writer_detached sd\<rparr>"
    using Read_attached_part [OF assms(1,2,4,5)] assms(6) unfolding det by auto
  have r2: "rest = (if writer_detached sd then [] else active_events sd) \<and>
      r2 = r1\<lparr>is_writer_detached := True, finished_reading_after_detach := True\<rparr>"
  proof (cases "writer_detached sd")
    case True
    then show ?thesis
      using assms(7) r1 by (auto simp: ReadDetached_def Reader_DetachWriter_def SharedMemoryReader_Read_def)
  next
    case False
    have "SharedMemoryReader_Read (Reader_DetachWriter r1) sd =
        (fst (SharedMemoryReader_Read (Reader_DetachWriter r1) sd), active_events sd,
         r1\<lparr>is_writer_detached := True, finished_reading_after_detach := True\<rparr>)"
      using Read_attached_part [of "Reader_DetachWriter r1" sd] False assms(4,5)
      by (auto simp: r1(2) Reader_DetachWriter_def attached_ok_def attached_events_def IsWriterDetached_def)
    with False assms(7) show ?thesis by (simp add: ReadDetached_def)
  qed
  show "evs @ (if d then rest else []) = attached_events r sd @ (if writer_detached sd \<or> d then active_events sd else [])"
    using r1 r2 by auto
  show "linear_reader r' = None \<and> is_writer_detached r' = d \<and>
      finished_reading_after_detach r' = (writer_detached sd \<or> d) \<and>
      buffer_expected_to_read_next r' = buffer_expected_to_read_next r" if "r' = (if d then r2 else r1)"
    using that r1 r2 assms(3) by auto
qed

text \<open>The reads of a tick when the session holds no acquired block, and when it holds one.\<close>

lemma tick_reads_none:
  assumes "data_acquired (command_data s) = None" "linear_reader (reader s) = None"
    and "\<not> finished_reading_after_detach (reader s)" "\<not> is_writer_detached (reader s)"
    and "buffer_expected_to_read_next (reader s) = switch_count_points_active_for_writing (control_block sd)"
    and "active_idle (control_block sd)"
    and "tick_reads sd s = (fin, evs, rest, r)"
  shows "\<not> fin" "evs @ rest = (if writer_detached sd \<or> command_detach_on_closed (command_data s) then active_events sd else [])"
    "linear_reader r = None" "is_writer_detached r = command_detach_on_closed (command_data s)"
    "finished_reading_after_detach r = (writer_detached sd \<or> command_detach_on_closed (command_data s))"
    "buffer_expected_to_read_next r = buffer_expected_to_read_next (reader s)"
proof -
  let ?d = "command_detach_on_closed (command_data s)"
  obtain m e1 r1 where rd: "SharedMemoryReader_Read (reader s) sd = (m, e1, r1)" by (cases "SharedMemoryReader_Read (reader s) sd")
  obtain m2 e2 r2 where rd2: "ReadDetached r1 sd = (m2, e2, r2)" by (cases "ReadDetached r1 sd")
  have reads: "\<not> fin" "evs = e1" "rest = (if ?d then e2 else [])" "r = (if ?d then r2 else r1)"
    using assms(1,7) by (auto simp: tick_reads_def TryFinalizeAcquisition_def rd rd2 Let_def split: if_splits)
  note twice = read_twice [OF assms(3) _ assms(4,5) active_idle_simps(2) [OF assms(6)] rd rd2]
  show "\<not> fin" "evs @ rest = (if writer_detached sd \<or> ?d then active_events sd else [])"
    "linear_reader r = None" "is_writer_detached r = ?d" "finished_reading_after_detach r = (writer_detached sd \<or> ?d)"
    "buffer_expected_to_read_next r = buffer_expected_to_read_next (reader s)"
    using reads twice(1) [where d = ?d] twice(2) [OF _ reads(4)] assms(2) by (simp_all add: attached_ok_def attached_events_def)
qed

lemma tick_reads_some:
  assumes "data_acquired (command_data s) = Some acq"
    and "acquired_buffer acq + 1 = switch_count_points_active_for_writing (control_block sd)"
    and "number_of_writers (other_block sd) = 0" "written_index (other_block sd) = acquired_index (other_block sd)"
    and "\<not> finished_reading_after_detach (reader s)" "\<not> is_writer_detached (reader s)"
    and "active_idle (control_block sd)"
    and "tick_reads sd s = (fin, evs, rest, r)"
  shows "fin" "evs @ rest = events_of (block_contents (other_block sd)) @
      (if writer_detached sd \<or> command_detach_on_closed (command_data s) then active_events sd else [])"
    "linear_reader r = None" "is_writer_detached r = command_detach_on_closed (command_data s)"
    "finished_reading_after_detach r = (writer_detached sd \<or> command_detach_on_closed (command_data s))"
    "buffer_expected_to_read_next r = switch_count_points_active_for_writing (control_block sd)"
proof -
  let ?d = "command_detach_on_closed (command_data s)"
  let ?r = "snd (NotifyAcquisitionSetReader acq (reader s) sd)"
  have sel: "SelectLinearControlBlockId (acquired_buffer acq) = other_id sd"
    using select_id_succ [of "acquired_buffer acq"] by (simp add: assms(2))
  have rel: "AlternatingReader_IsBlockReleasedByWriters (control_block sd) (acquired_buffer acq)"
    using assms(3,4) by (simp add: AlternatingReader_IsBlockReleasedByWriters_def sel Let_def)
  have r: "\<not> finished_reading_after_detach ?r" "\<not> is_writer_detached ?r"
    "buffer_expected_to_read_next ?r = switch_count_points_active_for_writing (control_block sd)"
    "linear_reader ?r = Some (other_id sd, CreateLinearReaderFromControlBlock (other_block sd))"
    using assms(2,5,6) rel
    by (simp_all add: NotifyAcquisitionSetReader_def Let_def AlternatingReader_CreateLinearReader_def sel CreateLinearReaderFromControlBlock_def)
  have ok: "attached_ok ?r sd" using assms(7) r(4) by (simp add: attached_ok_def active_idle_def)
  obtain m e1 r1 where rd: "SharedMemoryReader_Read ?r sd = (m, e1, r1)" by (cases "SharedMemoryReader_Read ?r sd")
  obtain m2 e2 r2 where rd2: "ReadDetached r1 sd = (m2, e2, r2)" by (cases "ReadDetached r1 sd")
  have reads: "fin" "evs = e1" "rest = (if ?d then e2 else [])" "r = (if ?d then r2 else r1)"
    using assms(1,8) rel rd rd2
    by (auto simp: tick_reads_def TryFinalizeAcquisition_def SharedMemoryReader_IsBlockReleasedByWriters_def upd_cmd_def Let_def split: if_splits prod.splits)
  note twice = read_twice [OF r(1) ok r(2,3) active_idle_simps(2) [OF assms(7)] rd rd2]
  show "fin" "evs @ rest = events_of (block_contents (other_block sd)) @ (if writer_detached sd \<or> ?d then active_events sd else [])"
    "linear_reader r = None" "is_writer_detached r = ?d" "finished_reading_after_detach r = (writer_detached sd \<or> ?d)"
    "buffer_expected_to_read_next r = switch_count_points_active_for_writing (control_block sd)"
    using reads twice(1) [where d = ?d] twice(2) [OF reads(4)] r by (simp_all add: attached_events_def)
qed

lemma tick_reads_finished:
  assumes "finished_reading_after_detach (reader s)" "tick_reads sd s = (fin, evs, rest, r)"
  shows "evs = [] \<and> rest = [] \<and> finished_reading_after_detach r \<and> (data_acquired (command_data s) = None \<longrightarrow> \<not> fin)"
  using assms by (auto simp: tick_reads_def TryFinalizeAcquisition_def SharedMemoryReader_Read_def ReadDetached_def
      Reader_DetachWriter_def NotifyAcquisitionSetReader_def upd_cmd_def Let_def split: if_splits option.splits prod.splits)

lemma Tick_finished:
  assumes "finished_reading_after_detach (reader s)" "Tick env sd s = (res, q, s')"
  shows "parser s' = parser s" "finished_reading_after_detach (reader s')"
    "data_acquired (command_data s) = None \<Longrightarrow> data_acquired (command_data s') = None"
proof -
  obtain fin evs rest r where reads: "tick_reads sd s = (fin, evs, rest, r)" by (cases "tick_reads sd s")
  note rd = tick_reads_finished [OF assms(1) reads]
  have "parser s' = parser s \<and> finished_reading_after_detach (reader s') \<and>
    (data_acquired (command_data s) = None \<longrightarrow> data_acquired (command_data s') = None)"
  proof (cases "detach_on_closed_processed (local_subscriber_data s)")
    case False
    then show ?thesis using rd Tick_live(1,2,6) [OF False reads assms(2)] by (simp add: admitted_def)
  qed (use assms in \<open>auto simp: Tick_def\<close>)
  then show "parser s' = parser s" "finished_reading_after_detach (reader s')"
    "data_acquired (command_data s) = None \<Longrightarrow> data_acquired (command_data s') = None" by blast+
qed

section \<open>The invariant\<close>

text \<open>The acquired block on its way to the reader, and the events kept but not yet handed over.\<close>

definition in_flight :: "('d, 'h, 'g) pipeline \<Rightarrow> ReadAcquireResult option" where
  "in_flight st = (case p_answer st of Some a \<Rightarrow> Some a | None \<Rightarrow> data_acquired (command_data (p_session st)))"

definition pending :: "('d, 'h, 'g) pipeline \<Rightarrow> ReadEvent list" where
  "pending st =
     (if finished_reading_after_detach (reader (p_session st)) then []
      else (if in_flight st = None then [] else events_of (block_contents (other_block (p_data st)))) @ active_events (p_data st))"

definition gone :: "('d, 'h, 'g) pipeline \<Rightarrow> bool" where
  "gone st \<longleftrightarrow> writer_detached (p_data st) \<or> command_detach_on_closed (command_data (p_session st))"

text \<open>The buffers: the other block is released, and an acquired block is the one before the active one.\<close>

definition buffers_ok :: "('d, 'h, 'g) pipeline \<Rightarrow> bool" where
  "buffers_ok st \<longleftrightarrow> active_idle (control_block (p_data st)) \<and> number_of_writers (other_block (p_data st)) = 0 \<and>
     (case in_flight st of
        None \<Rightarrow> buffer_expected_to_read_next (reader (p_session st)) = switch_count_points_active_for_writing (control_block (p_data st))
      | Some acq \<Rightarrow> buffer_expected_to_read_next (reader (p_session st)) = acquired_buffer acq \<and>
          acquired_buffer acq + 1 = switch_count_points_active_for_writing (control_block (p_data st)) \<and>
          written_index (other_block (p_data st)) = acquired_index (other_block (p_data st)))"

text \<open>The protocol: at most one request, answer or acquired block at a time.\<close>

definition protocol_ok :: "('d, 'h, 'g) pipeline \<Rightarrow> bool" where
  "protocol_ok st \<longleftrightarrow>
     (let cmd = command_data (p_session st) in
      (p_asked st \<longrightarrow> acquire_requested cmd \<and> in_flight st = None) \<and>
      (in_flight st \<noteq> None \<longrightarrow> acquire_requested cmd) \<and>
      (p_answer st \<noteq> None \<longrightarrow> data_acquired cmd = None) \<and>
      (p_answer st = None \<longrightarrow> block_expected_to_be_next cmd \<in> {None, Some (switch_count_points_active_for_writing (control_block (p_data st)))}) \<and>
      \<not> moved_from (p_writer st) \<and> linear_reader (reader (p_session st)) = None \<and> \<not> is_writer_detached (reader (p_session st)) \<and>
      \<not> detach_on_closed_processed (local_subscriber_data (p_session st)) \<and>
      (gone st \<longrightarrow> \<not> p_alive st \<and> p_answer st = None))"

definition live_ok :: "('d, 'h, 'g) pipeline \<Rightarrow> bool" where
  "live_ok st \<longleftrightarrow> \<not> finished_reading_after_detach (reader (p_session st)) \<and> buffers_ok st \<and> protocol_ok st"

definition done_ok :: "('d, 'h, 'g) pipeline \<Rightarrow> bool" where
  "done_ok st \<longleftrightarrow> finished_reading_after_detach (reader (p_session st)) \<and> \<not> p_alive st \<and> p_answer st = None \<and>
     data_acquired (command_data (p_session st)) = None"

definition pipe_ok :: "('d, 'h, 'g) LogParser \<Rightarrow> ReadEvent list \<Rightarrow> ('d, 'h, 'g) pipeline \<Rightarrow> bool" where
  "pipe_ok p kept st \<longleftrightarrow> (live_ok st \<or> done_ok st) \<and>
     \<not> quota_enforcement_enabled (stats_data (p_session st)) \<and> \<not> quota_overlimit_detected (stats_data (p_session st)) \<and>
     (\<exists>handled. kept = handled @ pending st \<and> parser (p_session st) = feed handled p)"

lemmas live_defs = live_ok_def buffers_ok_def protocol_ok_def in_flight_def gone_def Let_def

lemma pipe_okI:
  assumes "pipe_ok p kept st" "live_ok st \<Longrightarrow> live_ok st'" "done_ok st \<Longrightarrow> done_ok st'"
    and "stats_data (p_session st') = stats_data (p_session st)" "parser (p_session st') = parser (p_session st)"
    and "live_ok st \<or> done_ok st \<Longrightarrow> pending st' = pending st @ evs"
  shows "pipe_ok p (kept @ evs) st'"
  using assms by (auto simp: pipe_ok_def)

section \<open>The steps keep it\<close>

lemma pipe_log:
  assumes "pipe_ok p kept st" "length pad = 6" "value_first img" "p_alive st" "op_ok op"
    and "run_op pad img op (p_writer st, p_data st) = (w, sd)"
  shows "pipe_ok p (kept @ kept_event op (p_writer st) (p_data st)) (st\<lparr>p_writer := w, p_data := sd\<rparr>)"
proof -
  let ?st = "st\<lparr>p_writer := w, p_data := sd\<rparr>"
  have live: "live_ok st" using assms(1,4) by (auto simp: pipe_ok_def done_ok_def)
  then have idle: "active_idle (control_block (p_data st))" by (simp add: live_ok_def buffers_ok_def)
  note cases = run_op_cases [OF idle assms(2,3,5), of "p_writer st", unfolded assms(6)]
  have "active_idle (control_block sd) \<and> writer_detached sd = writer_detached (p_data st) \<and> moved_from w = moved_from (p_writer st) \<and>
      switch_count_points_active_for_writing (control_block sd) = switch_count_points_active_for_writing (control_block (p_data st)) \<and>
      other_block sd = other_block (p_data st) \<and>
      active_events sd = active_events (p_data st) @ kept_event op (p_writer st) (p_data st)"
  proof (cases "65500 < op_size op \<or> active_room (control_block (p_data st)) < op_size op + 24")
    case True
    then show ?thesis using cases(1,2) idle by (cases "65500 < op_size op") (auto simp: kept_event_def)
  next
    case False
    then have *: "op_size op \<le> 65500" "op_size op + 24 \<le> active_room (control_block (p_data st))" by auto
    show ?thesis using cases(3) [OF *] * by (auto simp: kept_event_def)
  qed
  then have "live_ok ?st" "pending ?st = pending st @ kept_event op (p_writer st) (p_data st)"
    using live by (auto simp: live_defs pending_def split: option.splits)
  with assms(1) live show ?thesis by (auto simp: pipe_ok_def)
qed

lemma pipe_serve:
  assumes "pipe_ok p kept st" "p_alive st" "p_asked st" "ReadAcquire (p_writer st) (p_data st) = (result, w, sd)"
  shows "pipe_ok p kept (st\<lparr>p_writer := w, p_data := sd, p_asked := False, p_answer := Some result\<rparr>)"
proof -
  let ?st = "st\<lparr>p_writer := w, p_data := sd, p_asked := False, p_answer := Some result\<rparr>"
  let ?acb = "control_block (p_data st)"
  have live: "live_ok st" using assms(1,2) by (auto simp: pipe_ok_def done_ok_def)
  then have idle: "active_idle ?acb" and writers: "number_of_writers (other_block (p_data st)) = 0"
    and none: "in_flight st = None" "p_answer st = None" "data_acquired (command_data (p_session st)) = None"
    using assms(3) by (auto simp: live_defs split: option.splits)
  have sd: "control_block sd = snd (snd (Switch (alternating_reader (p_writer st)) ?acb))" "writer_detached sd = writer_detached (p_data st)"
    "acquired_buffer result = switch_count_points_active_for_writing ?acb" "moved_from w = moved_from (p_writer st)"
    using assms(4) by (auto simp: ReadAcquire_def Switch_eq)
  note sw = switched_idle [OF idle writers sd(1)]
  have count: "switch_count_points_active_for_writing (control_block sd) = acquired_buffer result + 1"
    and old: "blk_of (control_block sd) (active_id ?acb) = blk_of ?acb (active_id ?acb)"
    by (simp_all add: sd Switch_eq)
  have rel: "number_of_writers (blk_of ?acb (active_id ?acb)) = 0"
    "written_index (blk_of ?acb (active_id ?acb)) = acquired_index (blk_of ?acb (active_id ?acb))"
    using idle by (auto simp: active_idle_def holds_log_def)
  have "live_ok ?st"
    using live assms(2,3) none sw(1,4) count old rel sd(2-4) by (auto simp: live_defs)
  moreover have "pending ?st = pending st"
    using live none sw(2,4) old by (simp add: pending_def in_flight_def live_ok_def active_contents_def)
  ultimately show ?thesis using assms(1) live by (auto simp: pipe_ok_def)
qed

lemma pipe_answered:
  assumes "pipe_ok p kept st" "p_answer st = Some result"
  shows "pipe_ok p kept (st\<lparr>p_session := OnAcquireResponse result (p_session st), p_answer := None\<rparr>)"
  using assms
  by (intro pipe_okI [where evs = "[]", simplified, OF assms(1)])
    (auto simp: live_defs done_ok_def pending_def OnAcquireResponse_def upd_cmd_def GetExpectedNextAcquiredBlockId_def)

lemma pipe_closed:
  assumes "pipe_ok p kept st" "p_alive st" "p_answer st = None" "DestroySharedMemoryWriter (p_writer st) (p_data st) = (u, sd)"
  shows "pipe_ok p kept (st\<lparr>p_data := sd, p_alive := False\<rparr>)"
proof -
  have "live_ok st \<or> done_ok st" using assms(1) by (simp add: pipe_ok_def)
  then have "sd = (p_data st)\<lparr>writer_detached := True\<rparr>"
    using assms(2,4) by (auto simp: live_defs done_ok_def DestroySharedMemoryWriter_def Writer_DetachWriter_def)
  then show ?thesis
    using assms by (intro pipe_okI [where evs = "[]", simplified, OF assms(1)])
      (auto simp: live_defs done_ok_def pending_def split: option.splits)
qed

text \<open>Steps that leave buffers, protocol and parser alone.\<close>

lemma pipe_ok_cong:
  assumes ok: "pipe_ok p kept st"
    and same: "p_data st' = p_data st" "p_writer st' = p_writer st" "p_asked st' = p_asked st" "p_answer st' = p_answer st"
    and sess: "reader (p_session st') = reader (p_session st)" "parser (p_session st') = parser (p_session st)"
      "data_acquired (command_data (p_session st')) = data_acquired (command_data (p_session st))"
      "acquire_requested (command_data (p_session st')) = acquire_requested (command_data (p_session st))"
      "block_expected_to_be_next (command_data (p_session st')) = block_expected_to_be_next (command_data (p_session st))"
      "detach_on_closed_processed (local_subscriber_data (p_session st')) = detach_on_closed_processed (local_subscriber_data (p_session st))"
    and quota: "\<not> quota_enforcement_enabled (stats_data (p_session st'))" "\<not> quota_overlimit_detected (stats_data (p_session st'))"
    and alive: "p_alive st' \<longrightarrow> p_alive st" and gone: "gone st' \<longrightarrow> gone st \<or> \<not> p_alive st \<and> p_answer st = None"
  shows "pipe_ok p kept st'"
proof -
  have fl: "in_flight st' = in_flight st" using same sess by (simp add: in_flight_def split: option.split)
  have "buffers_ok st' = buffers_ok st" using same sess fl by (simp add: buffers_ok_def split: option.split)
  moreover have "protocol_ok st \<Longrightarrow> protocol_ok st'"
    using same sess fl alive gone by (auto simp: protocol_ok_def Let_def)
  moreover have "done_ok st \<Longrightarrow> done_ok st'" using same sess alive by (simp add: done_ok_def)
  moreover have "pending st' = pending st" using same sess fl by (simp add: pending_def)
  ultimately show ?thesis using ok quota sess by (auto simp: pipe_ok_def live_ok_def)
qed

lemma pipe_quiet:
  assumes "pipe_ok p kept st"
  shows "pipe_ok p kept (st\<lparr>p_session := SetLoggingClientEnabled en (p_session st)\<rparr>)"
    and "pipe_ok p kept (st\<lparr>p_session := Session_ShowStats t (p_session st)\<rparr>)"
    and "pipe_ok p kept (st\<lparr>p_alive := False\<rparr>)"
    and "\<not> p_alive st \<Longrightarrow> p_answer st = None \<Longrightarrow> pipe_ok p kept (st\<lparr>p_session := OnClosedByPeer (p_session st)\<rparr>)"
  using assms
  by (rule pipe_ok_cong; use assms in \<open>simp add: pipe_ok_def gone_def SetLoggingClientEnabled_def Session_ShowStats_def OnClosedByPeer_def upd_defs Let_def\<close>)+

text \<open>A tick hands over the acquired block, and everything that is left once the process has gone.\<close>

lemma tick_live:
  assumes live: "live_ok st" and quota: "\<not> quota_overlimit_detected (stats_data (p_session st))"
    and tick: "Tick env (p_data st) (p_session st) = (res, requested, s)"
    and st': "st' = st\<lparr>p_session := s, p_asked := (p_asked st \<or> requested \<and> acquire_request env)\<rparr>"
  shows "if gone st then done_ok st' else live_ok st'"
    and "\<exists>evs. parser s = feed evs (parser (p_session st)) \<and> pending st = evs @ pending st' \<and>
      (p_answer st = None \<and> data_acquired (command_data (p_session st)) \<noteq> None \<longrightarrow>
        evs = events_of (block_contents (other_block (p_data st))) @ (if gone st then active_events (p_data st) else [])) \<and>
      (gone st \<longrightarrow> evs = pending st)"
proof -
  let ?s = "p_session st" and ?sd = "p_data st"
  obtain fin evs rest r where reads: "tick_reads ?sd ?s = (fin, evs, rest, r)" by (cases "tick_reads ?sd ?s")
  have "\<not> detach_on_closed_processed (local_subscriber_data ?s)" using live by (simp add: live_defs)
  note t = Tick_live [OF this reads tick]
  have p: "parser s = feed (evs @ rest) (parser ?s)" using t(1) quota by (simp add: admitted_def)
  have "\<not> finished_reading_after_detach (reader ?s)" "\<not> is_writer_detached (reader ?s)" "linear_reader (reader ?s) = None"
    "active_idle (control_block ?sd)" "number_of_writers (other_block ?sd) = 0"
    using live by (auto simp: live_defs)
  note facts = this
  have "(if gone st then done_ok st' else live_ok st') \<and> pending st = (evs @ rest) @ pending st' \<and>
    (p_answer st = None \<and> data_acquired (command_data ?s) \<noteq> None \<longrightarrow>
      evs @ rest = events_of (block_contents (other_block ?sd)) @ (if gone st then active_events ?sd else [])) \<and>
    (gone st \<longrightarrow> evs @ rest = pending st)"
  proof (cases "data_acquired (command_data ?s)")
    case None
    show ?thesis
    proof (cases "p_answer st")
      case answer: None
      then have exp: "buffer_expected_to_read_next (reader ?s) = switch_count_points_active_for_writing (control_block ?sd)"
        using live None by (simp add: live_defs)
      note rd = tick_reads_none [OF None facts(3,1,2) exp facts(4) reads]
      show ?thesis
        using live None answer rd facts t(2-9) exp
        by (auto simp: st' live_defs done_ok_def pending_def)
    next
      case (Some acq)
      then have open': "\<not> writer_detached ?sd" "\<not> command_detach_on_closed (command_data ?s)"
        using live by (auto simp: live_defs)
      have "tick_reads ?sd ?s = (False, [], [], reader ?s)"
        using None open' facts by (simp add: tick_reads_def TryFinalizeAcquisition_def SharedMemoryReader_Read_def Let_def IsWriterDetached_def)
      with reads have rd: "\<not> fin" "evs = []" "rest = []" "r = reader ?s" by auto
      show ?thesis
        using live None Some rd facts t(2-9) open' by (auto simp: st' live_defs done_ok_def pending_def)
    qed
  next
    case (Some acq)
    then have answer: "p_answer st = None" using live by (auto simp: live_defs)
    have acq: "acquired_buffer acq + 1 = switch_count_points_active_for_writing (control_block ?sd)"
      "written_index (other_block ?sd) = acquired_index (other_block ?sd)"
      using live Some answer by (auto simp: live_defs)
    note rd = tick_reads_some [OF Some acq(1) facts(5) acq(2) facts(1,2,4) reads]
    show ?thesis
      using live Some answer rd facts t(2-9) acq by (auto simp: st' live_defs done_ok_def pending_def)
  qed
  with p show "if gone st then done_ok st' else live_ok st'"
    "\<exists>evs. parser s = feed evs (parser ?s) \<and> pending st = evs @ pending st' \<and>
      (p_answer st = None \<and> data_acquired (command_data (p_session st)) \<noteq> None \<longrightarrow>
        evs = events_of (block_contents (other_block (p_data st))) @ (if gone st then active_events (p_data st) else [])) \<and>
      (gone st \<longrightarrow> evs = pending st)"
    by blast+
qed

lemma pipe_ticked:
  assumes ok: "pipe_ok p kept st" and tick: "Tick env (p_data st) (p_session st) = (res, requested, s)"
    and st': "st' = st\<lparr>p_session := s, p_asked := (p_asked st \<or> requested \<and> acquire_request env)\<rparr>"
  shows "pipe_ok p kept st'" and "gone st \<Longrightarrow> parser s = feed kept p"
proof -
  let ?s = "p_session st" and ?sd = "p_data st"
  obtain fin evs rest r where reads: "tick_reads ?sd ?s = (fin, evs, rest, r)" by (cases "tick_reads ?sd ?s")
  have quota: "\<not> quota_enforcement_enabled (stats_data ?s)" "\<not> quota_overlimit_detected (stats_data ?s)"
    using ok by (simp_all add: pipe_ok_def)
  obtain handled where h: "kept = handled @ pending st" "parser ?s = feed handled p" using ok by (auto simp: pipe_ok_def)
  have "\<not> quota_enforcement_enabled (stats_data s) \<and> \<not> quota_overlimit_detected (stats_data s)"
    using Tick_live(10,11) [OF _ reads tick] quota tick by (cases "detach_on_closed_processed (local_subscriber_data ?s)") (auto simp: Tick_def)
  note q = this
  have "pipe_ok p kept st' \<and> (gone st \<longrightarrow> parser s = feed kept p)"
  proof (cases "live_ok st")
    case True
    note t = tick_live [OF this quota(2) tick st']
    obtain evs where evs: "parser s = feed evs (parser ?s)" "pending st = evs @ pending st'" "gone st \<longrightarrow> evs = pending st"
      using t(2) by blast
    have "kept = (handled @ evs) @ pending st'" "parser s = feed (handled @ evs) p" using h evs by simp_all
    moreover have "gone st \<longrightarrow> parser s = feed kept p" using h evs by simp
    ultimately show ?thesis
      using t(1) q unfolding pipe_ok_def by (auto simp: st' split: if_splits)
  next
    case False
    then have fin: "done_ok st" using ok by (simp add: pipe_ok_def)
    then have p: "pending st = []" by (simp add: pending_def done_ok_def)
    have s: "finished_reading_after_detach (reader s)" "data_acquired (command_data s) = None" "parser s = parser ?s"
      using Tick_finished [OF _ tick] fin by (simp_all add: done_ok_def)
    then have "done_ok st'" "pending st' = []" using fin by (simp_all add: done_ok_def pending_def st')
    with s p q h show ?thesis unfolding pipe_ok_def by (simp add: st')
  qed
  then show "pipe_ok p kept st'" "gone st \<Longrightarrow> parser s = feed kept p" by blast+
qed

lemma pipe_ok_step:
  assumes "pipe_step pad img st evs st'" "pipe_ok p kept st" "length pad = 6" "value_first img"
  shows "pipe_ok p (kept @ evs) st'"
  using assms
proof (induction rule: pipe_step.induct)
  case (log_call st op w sd)
  then show ?case by (intro pipe_log)
next
  case (ticked env st res requested s)
  then show ?case using pipe_ticked(1) [of p kept st env res requested s] by simp
qed (simp_all add: pipe_serve pipe_answered pipe_closed pipe_quiet)

lemma pipe_ok_init:
  assumes "length d = n" "length e = n" "n < 2 ^ 63"
  shows "pipe_ok p [] (pipe_init d e nm en quota p)"
proof -
  let ?sd = "fresh_shared_data d e"
  have idle: "active_idle (control_block ?sd)" using fresh_shared_data_idle [OF assms] by simp
  have writers: "number_of_writers (blk_of (control_block ?sd) b) = 0" for b
    by (cases b) (simp_all add: fresh_shared_data_def fresh_queue_def InitializeAlternatingControlBlock_def SelectLinearControlBlockReference_def)
  have "holds_log (blk_of (control_block ?sd) (active_id (control_block ?sd))) []"
    using assms by (simp add: fresh_shared_data_def fresh_queue_def InitializeAlternatingControlBlock_def
        SelectLinearControlBlockId_def SelectLinearControlBlockReference_def holds_log_def span_ok_def)
  then have "active_contents (control_block ?sd) = []" by (simp add: active_contents_def holds_log_contents)
  then show ?thesis
    using idle writers by (simp add: pipe_ok_def live_defs pending_def pipe_init_def NewSourceSession_def NewSharedMemoryReader_def
      NewSharedMemoryWriter_def fresh_shared_data_def)
qed

lemma pipe_ok_run:
  assumes "pipe_run pad img st kept st'" "pipe_ok p [] st" "length pad = 6" "value_first img"
  shows "pipe_ok p kept st'"
  using assms by (induction rule: pipe_run.induct) (auto intro: pipe_ok_step)

section \<open>From the logging call to the handlers\<close>

text \<open>A process that has logged one record of two bytes.\<close>

definition example_pipe :: "(nat, string, string) pipeline" where
  "example_pipe = pipe_init (replicate 60 0) (replicate 60 0) ''APP1'' True 0 (parser example_session)"

definition example_trace :: log_op where "example_trace = Trace 6 0 [1, 2]"

definition example_record :: ReadEvent where
  "example_record = NewRecord \<lparr>smr_header = \<lparr>time_stamp = 6, type_identifier = 0\<rparr>, smr_payload = [1, 2]\<rparr>"

lemma example_logged:
  obtains w sd where
    "pipe_run [0, 0, 0, 0, 0, 0] example_image example_pipe [example_record] (example_pipe\<lparr>p_writer := w, p_data := sd\<rparr>)"
    "\<not> moved_from w"
proof -
  let ?w = "p_writer example_pipe" and ?sd = "p_data example_pipe"
  obtain w sd where run: "run_op [0, 0, 0, 0, 0, 0] example_image example_trace (?w, ?sd) = (w, sd)"
    by (cases "run_op [0, 0, 0, 0, 0, 0] example_image example_trace (?w, ?sd)")
  have sd: "?sd = fresh_shared_data (replicate 60 0) (replicate 60 0)" by (simp add: example_pipe_def pipe_init_def Let_def)
  have "kept_event example_trace ?w ?sd = [example_record]"
    by (simp add: kept_event_def example_trace_def example_record_def sd example_idle)
  then have step: "pipe_step [0, 0, 0, 0, 0, 0] example_image example_pipe [example_record] (example_pipe\<lparr>p_writer := w, p_data := sd\<rparr>)"
    using log_call [OF _ _ run] by (simp add: example_trace_def example_pipe_def pipe_init_def GetRegisterTypeToken_def Let_def)
  note idle = example_idle(1) [folded sd]
  have ok: "op_ok example_trace" by (simp add: example_trace_def GetRegisterTypeToken_def)
  have "\<not> moved_from w"
    using run_op_writer [OF idle _ example_value_first ok, of "[0, 0, 0, 0, 0, 0]" ?w] run
    by (simp add: example_pipe_def pipe_init_def Let_def NewSharedMemoryWriter_def)
  then show thesis using that run_next [OF run_start step] by simp
qed

text \<open>C1: Exactly once, in order. Whatever the process logs and whenever it ends, whatever the ticks,
  requests and answers in between: the parser has been given a prefix of the events that
  the logging calls left in the buffers, each once and in order; and as soon as the
  session knows that the process has gone, one tick gives it everything that was left.\<close>

theorem pipeline_delivers_exactly_once:
  assumes "length d = n" "length e = n" "n < 2 ^ 63" "length pad = 6" "value_first img"
    and "pipe_run pad img (pipe_init d e nm en quota p) kept st"
  shows "(\<exists>handled rest. kept = handled @ rest \<and> parser (p_session st) = feed handled p) \<and>
    (writer_detached (p_data st) \<or> command_detach_on_closed (command_data (p_session st)) \<longrightarrow>
      parser (snd (snd (Tick env (p_data st) (p_session st)))) = feed kept p)"
proof -
  have ok: "pipe_ok p kept st" using pipe_ok_run [OF assms(6) pipe_ok_init [OF assms(1-3)] assms(4,5)] .
  obtain res q s where t: "Tick env (p_data st) (p_session st) = (res, q, s)" by (cases "Tick env (p_data st) (p_session st)")
  from ok pipe_ticked(2) [OF ok t refl] show ?thesis by (auto simp: pipe_ok_def gone_def t)
qed

theorem pipeline_delivers_exactly_once_witness:
  "\<exists>st. pipe_run [0, 0, 0, 0, 0, 0] example_image example_pipe [example_record] st \<and> writer_detached (p_data st) \<and>
     parser (snd (snd (Tick example_tick_env (p_data st) (p_session st)))) = feed [example_record] (parser example_session)"
proof -
  obtain w sd where run: "pipe_run [0, 0, 0, 0, 0, 0] example_image example_pipe [example_record] (example_pipe\<lparr>p_writer := w, p_data := sd\<rparr>)"
    "\<not> moved_from w" using example_logged by metis
  let ?st = "example_pipe\<lparr>p_writer := w, p_data := Writer_DetachWriter sd, p_alive := False\<rparr>"
  have "pipe_step [0, 0, 0, 0, 0, 0] example_image (example_pipe\<lparr>p_writer := w, p_data := sd\<rparr>) [] ?st"
    using run(2) closed [of "example_pipe\<lparr>p_writer := w, p_data := sd\<rparr>" "unmap_callback_set w" "Writer_DetachWriter sd"]
    by (simp add: example_pipe_def pipe_init_def Let_def DestroySharedMemoryWriter_def)
  from run_next [OF run(1) this] have run': "pipe_run [0, 0, 0, 0, 0, 0] example_image example_pipe [example_record] ?st" by simp
  with pipeline_delivers_exactly_once [OF _ _ _ _ example_value_first run' [unfolded example_pipe_def], of 60 example_tick_env]
  show ?thesis by (intro exI [of _ ?st]) (simp add: example_pipe_def Writer_DetachWriter_def)
qed

text \<open>C13: The round trip of a request. In any reachable state with a running process, an enabled
  session and no request under way, if the buffer holds something or was never asked
  for, then the next tick asks; when the process answers and the session ticks again, the
  handlers have been given everything logged so far.\<close>

theorem pipeline_round_delivers:
  assumes "length d = n" "length e = n" "n < 2 ^ 63" "length pad = 6" "value_first img"
    and "pipe_run pad img (pipe_init d e nm en quota p) kept st" "p_alive st"
    and "enabled_logging_at_server (local_subscriber_data (p_session st))" "\<not> acquire_requested (command_data (p_session st))"
    and "must_ask (p_data st) (command_data (p_session st))" "acquire_request env"
  shows "case Tick env (p_data st) (p_session st) of (_, asked, s1) \<Rightarrow>
    case ReadAcquire (p_writer st) (p_data st) of (result, w, sd) \<Rightarrow>
    case Tick env' sd (OnAcquireResponse result s1) of (_, _, s2) \<Rightarrow>
      asked \<and> parser s2 = feed kept p"
proof -
  have ok: "pipe_ok p kept st" using pipe_ok_run [OF assms(6) pipe_ok_init [OF assms(1-3)] assms(4,5)] .
  obtain r1 asked s1 where t1: "Tick env (p_data st) (p_session st) = (r1, asked, s1)" by (cases "Tick env (p_data st) (p_session st)")
  obtain result w sd where acq: "ReadAcquire (p_writer st) (p_data st) = (result, w, sd)" by (cases "ReadAcquire (p_writer st) (p_data st)")
  obtain r2 q2 s2 where t2: "Tick env' sd (OnAcquireResponse result s1) = (r2, q2, s2)" by (cases "Tick env' sd (OnAcquireResponse result s1)")
  have live: "live_ok st" using ok assms(7) by (auto simp: pipe_ok_def done_ok_def)
  have "polling (p_session st)" using live assms(7-9) by (auto simp: polling_def live_defs split: option.splits)
  then have asked: asked using Tick_polling(1) [OF _ t1] assms(10) by simp
  define st1 where "st1 = st\<lparr>p_session := s1, p_asked := True\<rparr>"
  have ok1: "pipe_ok p kept st1" using pipe_ticked(1) [OF ok t1, of st1] asked assms(11) by (simp add: st1_def)
  define st2 where "st2 = st1\<lparr>p_writer := w, p_data := sd, p_asked := False, p_answer := Some result\<rparr>"
  have ok2: "pipe_ok p kept st2" using pipe_serve [OF ok1] assms(7) acq by (simp add: st1_def st2_def)
  define st3 where "st3 = st2\<lparr>p_session := OnAcquireResponse result s1, p_answer := None\<rparr>"
  have ok3: "pipe_ok p kept st3" using pipe_answered [OF ok2, of result] by (simp add: st1_def st2_def st3_def)
  have live3: "live_ok st3" using ok3 assms(7) by (auto simp: pipe_ok_def done_ok_def st1_def st2_def st3_def)
  have st3: "p_session st3 = OnAcquireResponse result s1" "p_data st3 = sd" "p_answer st3 = None" "p_alive st3"
    "data_acquired (command_data (p_session st3)) \<noteq> None"
    using assms(7) by (simp_all add: st1_def st2_def st3_def OnAcquireResponse_def upd_cmd_def)
  obtain evs where evs: "parser s2 = feed evs (parser (p_session st3))" "evs = events_of (block_contents (other_block sd))"
    using tick_live(2) [OF live3 _ _ refl, of env' r2 q2 s2] ok3 t2 st3 live3 by (auto simp: pipe_ok_def live_defs)
  have "control_block sd = snd (snd (Switch (alternating_reader (p_writer st)) (control_block (p_data st))))"
    using acq by (auto simp: ReadAcquire_def Switch_eq)
  note sw = switched_idle [OF _ _ this]
  have "active_events sd = []" using sw(2) live by (auto simp: live_defs)
  then have "pending st3 = evs" using evs(2) st3 live3 by (auto simp: pending_def in_flight_def live_ok_def)
  then have "parser s2 = feed kept p" using ok3 evs(1) by (auto simp: pipe_ok_def)
  with asked t1 acq t2 show ?thesis by simp
qed

theorem pipeline_round_delivers_witness:
  "\<exists>st. pipe_run [0, 0, 0, 0, 0, 0] example_image example_pipe [example_record] st \<and>
    (case Tick example_tick_env (p_data st) (p_session st) of (_, asked, s1) \<Rightarrow>
     case ReadAcquire (p_writer st) (p_data st) of (result, w, sd) \<Rightarrow>
     case Tick example_tick_env sd (OnAcquireResponse result s1) of (_, _, s2) \<Rightarrow>
       asked \<and> parser s2 = feed [example_record] (parser example_session))"
proof -
  obtain w sd where run: "pipe_run [0, 0, 0, 0, 0, 0] example_image example_pipe [example_record] (example_pipe\<lparr>p_writer := w, p_data := sd\<rparr>)"
    using example_logged by metis
  let ?st = "example_pipe\<lparr>p_writer := w, p_data := sd\<rparr>"
  have "p_alive ?st" "enabled_logging_at_server (local_subscriber_data (p_session ?st))"
    "\<not> acquire_requested (command_data (p_session ?st))" "must_ask (p_data ?st) (command_data (p_session ?st))"
    by (simp_all add: example_pipe_def pipe_init_def Let_def NewSourceSession_def must_ask_def)
  from pipeline_round_delivers [OF _ _ _ _ example_value_first run [unfolded example_pipe_def], folded example_pipe_def, OF _ _ _ _ this,
      of 60 example_tick_env example_tick_env]
  show ?thesis using run by (intro exI [of _ ?st] conjI) (simp_all add: example_tick_env_def)
qed

text \<open>C28: A race at the end of a process. If its writer is destroyed while the answer to a request is
  still on its way, the session takes the block before the active one for the last: the
  tick hands that one over and stops reading, so that the events of the active block
  never reach the handlers, even after the answer has arrived.\<close>

theorem early_destruction_loses_active_block:
  assumes "length d = n" "length e = n" "n < 2 ^ 63" "length pad = 6" "value_first img"
    and "pipe_run pad img (pipe_init d e nm en quota p) kept st" "p_alive st" "p_answer st = Some result"
  shows "case DestroySharedMemoryWriter (p_writer st) (p_data st) of (_, sd) \<Rightarrow>
    case Tick env sd (p_session st) of (_, _, s1) \<Rightarrow>
    case Tick env' sd (OnAcquireResponse result s1) of (_, _, s2) \<Rightarrow>
      \<exists>handled. kept = handled @ active_events (p_data st) \<and> parser s1 = feed handled p \<and> parser s2 = feed handled p"
proof -
  have ok: "pipe_ok p kept st" using pipe_ok_run [OF assms(6) pipe_ok_init [OF assms(1-3)] assms(4,5)] .
  let ?s = "p_session st" and ?sd = "(p_data st)\<lparr>writer_detached := True\<rparr>"
  have live: "live_ok st" using ok assms(7) by (auto simp: pipe_ok_def done_ok_def)
  note facts = live [unfolded live_defs]
  have destroy: "snd (DestroySharedMemoryWriter (p_writer st) (p_data st)) = ?sd"
    using facts by (simp add: DestroySharedMemoryWriter_def Writer_DetachWriter_def)
  have sel: "SelectLinearControlBlockId (acquired_buffer result) = other_id (p_data st)"
    using facts assms(8) select_id_succ [of "acquired_buffer result"] by simp
  obtain fin evs rest r where reads: "tick_reads ?sd ?s = (fin, evs, rest, r)" by (cases "tick_reads ?sd ?s")
  have span: "span_ok (lcb_data (other_block (p_data st)))" using facts by (simp add: active_idle_def)
  have rd: "evs = events_of (block_contents (other_block (p_data st)))" "rest = []" "finished_reading_after_detach r"
    using reads facts assms(7,8) sel Read_via_contents [OF span]
    by (auto simp: tick_reads_def TryFinalizeAcquisition_def SharedMemoryReader_Read_def IsWriterDetached_def
        AlternatingReader_CreateLinearReader_def Let_def)
  obtain r1 q1 s1 where t1: "Tick env ?sd ?s = (r1, q1, s1)" by (cases "Tick env ?sd ?s")
  obtain r2 q2 s2 where t2: "Tick env' ?sd (OnAcquireResponse result s1) = (r2, q2, s2)" by (cases "Tick env' ?sd (OnAcquireResponse result s1)")
  have "\<not> detach_on_closed_processed (local_subscriber_data ?s)" using facts by simp
  note t = Tick_live [OF this reads t1]
  obtain handled where h: "kept = handled @ evs @ active_events (p_data st)" "parser ?s = feed handled p"
    using ok live rd(1) assms(8) by (auto simp: pipe_ok_def pending_def in_flight_def live_ok_def)
  have s1: "parser s1 = feed (handled @ evs) p" "finished_reading_after_detach (reader s1)"
    using t(1,2) rd h ok by (simp_all add: pipe_ok_def admitted_def)
  have "parser s2 = parser s1"
    using Tick_finished(1) [OF _ t2] s1(2) by (simp add: OnAcquireResponse_def upd_cmd_def)
  with destroy t1 t2 s1 h show ?thesis by (auto simp: split_beta)
qed

theorem early_destruction_loses_active_block_witness:
  "\<exists>st result. pipe_run [0, 0, 0, 0, 0, 0] example_image example_pipe [example_record] st \<and> p_alive st \<and> p_answer st = Some result \<and>
    (case DestroySharedMemoryWriter (p_writer st) (p_data st) of (_, sd) \<Rightarrow>
     case Tick example_tick_env sd (p_session st) of (_, _, s1) \<Rightarrow>
     case Tick example_tick_env sd (OnAcquireResponse result s1) of (_, _, s2) \<Rightarrow>
       \<exists>handled. [example_record] = handled @ active_events (p_data st) \<and> parser s1 = feed handled (parser example_session) \<and>
         parser s2 = feed handled (parser example_session))"
proof -
  obtain w sd where run: "pipe_run [0, 0, 0, 0, 0, 0] example_image example_pipe [example_record] (example_pipe\<lparr>p_writer := w, p_data := sd\<rparr>)"
    using example_logged by metis
  let ?st = "example_pipe\<lparr>p_writer := w, p_data := sd\<rparr>"
  obtain r q s where t: "Tick example_tick_env sd (p_session ?st) = (r, q, s)" by (cases "Tick example_tick_env sd (p_session ?st)")
  have "polling (p_session ?st)" "must_ask sd (command_data (p_session ?st))"
    by (simp_all add: example_pipe_def pipe_init_def Let_def NewSourceSession_def must_ask_def polling_def)
  then have q using Tick_polling(1) [OF _ t] by simp
  with run_next [OF run ticked [of example_tick_env ?st]] t
  have run1: "pipe_run [0, 0, 0, 0, 0, 0] example_image example_pipe [example_record] (?st\<lparr>p_session := s, p_asked := True\<rparr>)"
    by (simp add: example_tick_env_def)
  obtain result w' sd' where acq: "ReadAcquire w sd = (result, w', sd')" by (cases "ReadAcquire w sd")
  let ?st' = "?st\<lparr>p_session := s, p_writer := w', p_data := sd', p_asked := False, p_answer := Some result\<rparr>"
  have alive: "p_alive ?st" by (simp add: example_pipe_def pipe_init_def Let_def)
  have run2: "pipe_run [0, 0, 0, 0, 0, 0] example_image example_pipe [example_record] ?st'"
    using run_next [OF run1 serve [of "?st\<lparr>p_session := s, p_asked := True\<rparr>" result w' sd']] acq alive by simp
  from early_destruction_loses_active_block [OF _ _ _ _ example_value_first run2 [unfolded example_pipe_def], folded example_pipe_def,
      of 60 result example_tick_env example_tick_env]
  show ?thesis using run2 alive by (intro exI [of _ ?st'] exI [of _ result]) simp
qed

end
