(* ===== verification/TracedPipeline.thy ===== *)
theory TracedPipeline
  imports Tracing Pipeline
begin

text \<open>
  From a traced value to the handlers of its type: the tracing interface of a process
  (\<open>Tracing\<close>) on top of the system of a process and its session (\<open>Pipeline\<close>).
\<close>

section \<open>The system\<close>

text \<open>The process inside the system: its logger has been given the writer of the shared memory.\<close>

definition proc_of :: "Logger \<Rightarrow> ('k \<Rightarrow> TypedEntry option) \<Rightarrow> ('d, 'h, 'g) pipeline \<Rightarrow> 'k Process" where
  "proc_of lg ents st = \<lparr>pr_logger = lg\<lparr>shared_memory_writer := Some (p_writer st)\<rparr>, pr_entries = ents, pr_data = p_data st\<rparr>"

definition put_proc :: "'k Process \<Rightarrow> ('d, 'h, 'g) pipeline \<Rightarrow> ('d, 'h, 'g) pipeline" where
  "put_proc pr st = st\<lparr>p_writer := the (shared_memory_writer (pr_logger pr)), p_data := pr_data pr\<rparr>"

definition new_events :: "SharedData \<Rightarrow> SharedData \<Rightarrow> ReadEvent list" where
  "new_events sd sd' = drop (length (active_events sd)) (active_events sd')"

fun is_record :: "ReadEvent \<Rightarrow> bool" where
  "is_record (NewRecord r) = True"
| "is_record (TypeRegistered r) = False"

text \<open>
  The steps: a traced value, labelled with the events that it leaves in the buffer and, if
  one of them is a record, with the type, time and value; or any step of the system that
  leaves no event.
\<close>

inductive traced_step ::
  "Machine \<Rightarrow> ('k \<Rightarrow> 't TypeTraits) \<Rightarrow> Logger \<Rightarrow> ('k \<Rightarrow> TypedEntry option) \<times> ('d, 'h, 'g) pipeline \<Rightarrow>
   ReadEvent list \<times> ('k \<times> TimePoint \<times> 't) list \<Rightarrow> ('k \<Rightarrow> TypedEntry option) \<times> ('d, 'h, 'g) pipeline \<Rightarrow> bool"
  for M traits lg where
  trace_call: "p_alive st \<Longrightarrow> pr = trace_if en M traits clock k t (proc_of lg ents st) \<Longrightarrow>
    evs = new_events (p_data st) (pr_data pr) \<Longrightarrow> recs = (if list_ex is_record evs then [(k, clock 2, t)] else []) \<Longrightarrow>
    traced_step M traits lg (ents, st) (evs, recs) (pr_entries pr, put_proc pr st)"
| system: "pipe_step (m_pad M) (m_img M) st [] st' \<Longrightarrow> traced_step M traits lg (ents, st) ([], []) (ents, st')"

inductive traced_run ::
  "Machine \<Rightarrow> ('k \<Rightarrow> 't TypeTraits) \<Rightarrow> Logger \<Rightarrow> ('k \<Rightarrow> TypedEntry option) \<times> ('d, 'h, 'g) pipeline \<Rightarrow>
   ReadEvent list \<times> ('k \<times> TimePoint \<times> 't) list \<Rightarrow> ('k \<Rightarrow> TypedEntry option) \<times> ('d, 'h, 'g) pipeline \<Rightarrow> bool"
  for M traits lg s where
  traced_start: "traced_run M traits lg s ([], []) s"
| traced_next: "traced_run M traits lg s (kept, recs) s' \<Longrightarrow> traced_step M traits lg s' (evs, rs) s'' \<Longrightarrow>
    traced_run M traits lg s (kept @ evs, recs @ rs) s''"

section \<open>What the parser makes of it\<close>

text \<open>The identifiers of the types that are registered.\<close>

definition known :: "('k \<Rightarrow> TypedEntry option) \<Rightarrow> 'k \<Rightarrow> TypeIdentifier option" where
  "known ents k = (case ents k of None \<Rightarrow> None
     | Some e \<Rightarrow> if shared_memory_id e = GetRegisterTypeToken then None else Some (shared_memory_id e))"

text \<open>The description of a type: its name, preceded by its length, and the rest.\<close>

definition describes :: "bytes \<Rightarrow> bytes \<Rightarrow> bytes \<Rightarrow> bool" where
  "describes info nm rest \<longleftrightarrow> info = le32 (word_of_nat (length nm)) @ nm @ rest \<and> length nm < 2 ^ 32 \<and> nm @ rest \<noteq> []"

definition type_parser :: "('d, 'h, 'g) LogParser \<Rightarrow> bytes \<Rightarrow> bytes \<Rightarrow> bytes \<Rightarrow> TypeIdentifier \<Rightarrow> ('d, 'h) IndexParser" where
  "type_parser p prefix info nm i =
     \<lparr>ip_info = \<lparr>nv_msg_desc = GetDltMsgDesc p nm, info_id = ucast i, info_params = prefix @ info,
        info_type_name = nm, info_ecu_id = NewDltidT (subspan 4 4 prefix), info_app_id = NewDltidT (subspan 8 4 prefix)\<rparr>,
      ip_handlers = map snd (filter (\<lambda>(n, h). n = nm) (handle_request_map p))\<rparr>"

definition type_calls :: "('d, 'h, 'g) LogParser \<Rightarrow> bytes \<Rightarrow> bytes \<Rightarrow> bytes \<Rightarrow> TypeIdentifier \<Rightarrow> TimePoint \<Rightarrow> bytes \<Rightarrow> ('d, 'h, 'g) HandlerCall list" where
  "type_calls p prefix info nm i ts q =
     map (\<lambda>h. TypeHandle h ts q) (map snd (filter (\<lambda>(n, h). n = nm) (handle_request_map p))) @
     map (\<lambda>g. AnyHandle g (ip_info (type_parser p prefix info nm i)) ts q) (global_handlers p)"

lemma parse_registration:
  assumes "describes info nm rest" "length prefix = 12" "take 4 prefix = [0, 0, 0, 0]" "map_of (index_parser_map p) (ucast i) = None"
  shows "parse_event (TypeRegistered \<lparr>type_id = i, registration_data = prefix @ info\<rparr>) p =
    p\<lparr>index_parser_map := index_parser_map p @ [(ucast i, type_parser p prefix info nm i)]\<rparr>"
proof -
  let ?r = "prefix @ info"
  have info: "info = le32 (word_of_nat (length nm)) @ nm @ rest" "length nm < 2 ^ 32" "nm @ rest \<noteq> []"
    using assms(1) by (simp_all add: describes_def)
  have len: "\<not> length ?r \<le> 12 + 4" using assms(2) info by (cases "nm @ rest") auto
  have "?r ! j = 0" if "j < 4" for j
  proof -
    have "?r ! j = take 4 prefix ! j" using that assms(2) by (simp add: nth_append)
    also have "\<dots> = 0" using that unfolding assms(3) by (auto simp: less_Suc_eq numeral_eq_Suc)
    finally show ?thesis .
  qed
  then have zeros: "?r ! 0 = 0" "?r ! 1 = 0" "?r ! 2 = 0" "?r ! 3 = 0" by (simp_all del: nth_append)
  have parts: "subspan 4 4 ?r = subspan 4 4 prefix" "subspan 8 4 ?r = subspan 8 4 prefix" "drop 12 ?r = info"
    using assms(2) by (simp_all add: subspan_def)
  have "LoggerUnpackString info = nm" using info(2) unfolding info(1) by (simp add: LoggerUnpackString_def Let_def unat_word_of_nat)
  with len zeros assms(2,4) show ?thesis
    by (simp add: AddIncomingType_def AddIncomingType_params_def Let_def AddHandler_fold type_parser_def parts del: nth_append append_assoc)
qed

lemma parse_record:
  assumes "map_of (index_parser_map p) (ucast i) = Some (type_parser p' prefix info nm i)" "length q < 2 ^ 32"
    and "handle_request_map p' = handle_request_map p" "global_handlers p' = global_handlers p"
  shows "parse_event (NewRecord \<lparr>smr_header = \<lparr>time_stamp = ts, type_identifier = i\<rparr>, smr_payload = q\<rparr>) p =
    p\<lparr>calls := calls p @ type_calls p' prefix info nm i ts q\<rparr>"
  using assms record_size_ok [OF assms(2)]
  by (simp add: ParseSharedMemoryRecord_def dispatch_def IndexParser_Parse_def type_calls_def type_parser_def)

section \<open>The invariant\<close>

definition registrations :: "ReadEvent list \<Rightarrow> nat" where
  "registrations evs = length (filter (\<lambda>e. \<not> is_record e) evs)"

lemma registrations_simps [simp]:
  "registrations [] = 0" "registrations (xs @ ys) = registrations xs + registrations ys"
  "registrations [NewRecord r] = 0" "registrations [TypeRegistered a] = 1"
  by (simp_all add: registrations_def)

text \<open>A family of types: what is written for a value, the description and the name of a type.\<close>

record ('k, 't) Family =
  f_traits :: "'k \<Rightarrow> 't TypeTraits"
  f_payload :: "'k \<Rightarrow> 't \<Rightarrow> bytes"
  f_info :: "'k \<Rightarrow> bytes"
  f_name :: "'k \<Rightarrow> bytes"

definition family_ok :: "('k, 't) Family \<Rightarrow> bool" where
  "family_ok F \<longleftrightarrow> (\<forall>k. traits_ok (f_payload F k) (f_info F k) (f_traits F k) \<and> (\<exists>rest. describes (f_info F k) (f_name F k) rest))"

definition record_calls ::
  "('d, 'h, 'g) LogParser \<Rightarrow> ('k, 't) Family \<Rightarrow> bytes \<Rightarrow> ('k \<Rightarrow> TypedEntry option) \<Rightarrow> 'k \<times> TimePoint \<times> 't \<Rightarrow> ('d, 'h, 'g) HandlerCall list" where
  "record_calls p F prefix ents rec =
     (case rec of (k, ts, t) \<Rightarrow> type_calls p prefix (f_info F k) (f_name F k) (the (known ents k)) ts (f_payload F k t))"

definition parser_ok ::
  "('d, 'h, 'g) LogParser \<Rightarrow> ('k, 't) Family \<Rightarrow> bytes \<Rightarrow> ('k \<Rightarrow> TypedEntry option) \<Rightarrow> nat \<Rightarrow> ('k \<times> TimePoint \<times> 't) list \<Rightarrow>
   ('d, 'h, 'g) LogParser \<Rightarrow> bool" where
  "parser_ok p F prefix ents n recs q \<longleftrightarrow>
     (\<forall>i ip. map_of (index_parser_map q) i = Some ip \<longrightarrow> unat i < n) \<and>
     (\<forall>k i. known ents k = Some i \<longrightarrow> map_of (index_parser_map q) (ucast i) = Some (type_parser p prefix (f_info F k) (f_name F k) i)) \<and>
     calls q = concat (map (record_calls p F prefix ents) recs) \<and> (\<forall>rec \<in> set recs. known ents (fst rec) \<noteq> None) \<and>
     handle_request_map q = handle_request_map p \<and> global_handlers q = global_handlers p \<and> GetDltMsgDesc q = GetDltMsgDesc p"

lemma type_parser_cong:
  "handle_request_map q = handle_request_map p \<Longrightarrow> GetDltMsgDesc q = GetDltMsgDesc p \<Longrightarrow>
   type_parser q prefix info nm i = type_parser p prefix info nm i"
  by (simp add: type_parser_def)

lemma parser_ok_register:
  assumes ok: "parser_ok p F prefix ents n recs q" and F: "family_ok F" and prefix: "length prefix = 12" "take 4 prefix = [0, 0, 0, 0]"
    and n: "n < 65535" and new: "known ents k = None" "known ents' = (known ents)(k \<mapsto> word_of_nat n)"
  shows "parser_ok p F prefix ents' (Suc n) recs
    (parse_event (TypeRegistered \<lparr>type_id = word_of_nat n, registration_data = prefix @ f_info F k\<rparr>) q)"
proof -
  let ?i = "word_of_nat n :: TypeIdentifier"
  have i: "unat (ucast ?i :: u32) = n" using n by (simp add: unat_word_of_nat unsigned_ucast_eq take_bit_nat_eq_self)
  have none: "map_of (index_parser_map q) (ucast ?i) = None"
    using ok i by (cases "map_of (index_parser_map q) (ucast ?i)") (auto simp: parser_ok_def)
  obtain rest where d: "describes (f_info F k) (f_name F k) rest" using F by (auto simp: family_ok_def)
  have q: "type_parser q prefix (f_info F k) (f_name F k) ?i = type_parser p prefix (f_info F k) (f_name F k) ?i"
    using ok by (intro type_parser_cong) (simp_all add: parser_ok_def)
  let ?q = "q\<lparr>index_parser_map := index_parser_map q @ [(ucast ?i, type_parser p prefix (f_info F k) (f_name F k) ?i)]\<rparr>"
  have "fst rec \<noteq> k" if "rec \<in> set recs" for rec using ok new(1) that by (auto simp: parser_ok_def)
  then have recs: "map (record_calls p F prefix ents') recs = map (record_calls p F prefix ents) recs"
    by (intro map_cong) (auto simp: record_calls_def new(2))
  have "parser_ok p F prefix ents' (Suc n) recs ?q"
    unfolding parser_ok_def
  proof (intro conjI allI impI ballI)
    show "unat j < Suc n" if "map_of (index_parser_map ?q) j = Some ip" for j ip
      using that ok i by (auto simp: parser_ok_def map_add_def less_Suc_eq split: option.splits if_splits)
    show "map_of (index_parser_map ?q) (ucast j) = Some (type_parser p prefix (f_info F k') (f_name F k') j)"
      if "known ents' k' = Some j" for k' j
      using that ok none new by (auto simp: parser_ok_def map_add_def split: if_splits)
    show "known ents' (fst rec) \<noteq> None" if "rec \<in> set recs" for rec
      using that ok new by (auto simp: parser_ok_def)
  qed (use ok in \<open>simp_all add: parser_ok_def recs\<close>)
  then show ?thesis using parse_registration [OF d prefix none] q by simp
qed

lemma parser_ok_record:
  assumes ok: "parser_ok p F prefix ents n recs q" and F: "family_ok F" and k: "known ents k = Some i"
  shows "parser_ok p F prefix ents n (recs @ [(k, ts, t)])
    (parse_event (NewRecord \<lparr>smr_header = \<lparr>time_stamp = ts, type_identifier = i\<rparr>, smr_payload = f_payload F k t\<rparr>) q)"
proof -
  have "length (f_payload F k t) < 2 ^ 32" using F by (simp add: family_ok_def traits_ok_def)
  then have "parse_event (NewRecord \<lparr>smr_header = \<lparr>time_stamp = ts, type_identifier = i\<rparr>, smr_payload = f_payload F k t\<rparr>) q =
      q\<lparr>calls := calls q @ type_calls p prefix (f_info F k) (f_name F k) i ts (f_payload F k t)\<rparr>"
    using ok k by (intro parse_record) (simp_all add: parser_ok_def)
  with ok k show ?thesis by (auto simp: parser_ok_def record_calls_def)
qed

section \<open>The operations keep it\<close>

lemma run_op_effect:
  assumes "active_idle (control_block sd)" "length pad = 6" "value_first img" "op_ok op" "run_op pad img op (w, sd) = (w', sd')"
  shows "active_events sd' = active_events sd @ kept_event op w sd"
    "next_type_identifier w' = (if kept_event op w sd = [] then next_type_identifier w else op_next (next_type_identifier w) op)"
    "kept_event op w sd = (if op_kept op sd then [op_event (next_type_identifier w) op] else [])"
proof -
  show *: "kept_event op w sd = (if op_kept op sd then [op_event (next_type_identifier w) op] else [])"
    by (simp add: kept_event_def op_kept_def)
  note cases = run_op_cases [OF assms(1-4), of w, unfolded assms(5)]
  consider "65500 < op_size op" | "op_size op \<le> 65500" "active_room (control_block sd) < op_size op + 24"
    | "op_size op \<le> 65500" "op_size op + 24 \<le> active_room (control_block sd)" by linarith
  then have "active_events sd' = active_events sd @ kept_event op w sd \<and>
    next_type_identifier w' = (if kept_event op w sd = [] then next_type_identifier w else op_next (next_type_identifier w) op)"
    using cases unfolding * by cases (auto simp: op_kept_def)
  then show "active_events sd' = active_events sd @ kept_event op w sd"
    "next_type_identifier w' = (if kept_event op w sd = [] then next_type_identifier w else op_next (next_type_identifier w) op)"
    by blast+
qed

definition traced_ok ::
  "('d, 'h, 'g) LogParser \<Rightarrow> ('k, 't) Family \<Rightarrow> bytes \<Rightarrow> ReadEvent list \<Rightarrow> ('k \<times> TimePoint \<times> 't) list \<Rightarrow>
   ('k \<Rightarrow> TypedEntry option) \<Rightarrow> ('d, 'h, 'g) pipeline \<Rightarrow> bool" where
  "traced_ok p F prefix kept recs ents st \<longleftrightarrow> pipe_ok p kept st \<and>
     next_type_identifier (p_writer st) = word_of_nat (registrations kept) \<and>
     parser_ok p F prefix ents (registrations kept) recs (feed kept p)"

lemma alive_idle: "pipe_ok p kept st \<Longrightarrow> p_alive st \<Longrightarrow> active_idle (control_block (p_data st))"
  by (auto simp: pipe_ok_def done_ok_def live_ok_def buffers_ok_def)

lemma parser_ok_known:
  "known ents' = known ents \<Longrightarrow> parser_ok p F prefix ents' n recs q = parser_ok p F prefix ents n recs q"
  by (simp add: parser_ok_def record_calls_def cong: map_cong)

lemma traced_ok_register:
  assumes ok: "traced_ok p F prefix kept recs ents st" and F: "family_ok F" and prefix: "length prefix = 12" "take 4 prefix = [0, 0, 0, 0]"
    and M: "length pad = 6" "value_first img" and alive: "p_alive st"
    and run: "run_op pad img (Register ts (prefix @ f_info F k)) (p_writer st, p_data st) = (w, sd)"
    and new: "known ents k = None"
    and kept': "op_kept (Register ts (prefix @ f_info F k)) (p_data st) \<Longrightarrow> registrations kept < 65535"
    and ents': "known ents' = (if op_kept (Register ts (prefix @ f_info F k)) (p_data st)
      then (known ents)(k \<mapsto> next_type_identifier (p_writer st)) else known ents)"
  shows "\<exists>evs. traced_ok p F prefix (kept @ evs) recs ents' (st\<lparr>p_writer := w, p_data := sd\<rparr>) \<and>
    active_events sd = active_events (p_data st) @ evs \<and> \<not> list_ex is_record evs \<and>
    registrations evs = (if op_kept (Register ts (prefix @ f_info F k)) (p_data st) then 1 else 0)"
proof -
  let ?op = "Register ts (prefix @ f_info F k)" and ?n = "registrations kept"
  let ?evs = "kept_event ?op (p_writer st) (p_data st)"
  have pipe: "pipe_ok p kept st" and next_id: "next_type_identifier (p_writer st) = word_of_nat ?n"
    and parser: "parser_ok p F prefix ents ?n recs (feed kept p)"
    using ok by (simp_all add: traced_ok_def)
  have "length (f_info F k) < 2 ^ 62" using F by (simp add: family_ok_def traits_ok_def)
  then have op: "op_ok ?op" using prefix(1) by simp
  note idle = alive_idle [OF pipe alive]
  note eff = run_op_effect [OF idle M op run]
  have "pipe_ok p (kept @ ?evs) (st\<lparr>p_writer := w, p_data := sd\<rparr>)" by (rule pipe_log [OF pipe M alive op run])
  moreover have "parser_ok p F prefix ents' (registrations (kept @ ?evs)) recs (feed (kept @ ?evs) p)"
  proof (cases "op_kept ?op (p_data st)")
    case True
    then show ?thesis
      using parser_ok_register [OF parser F prefix kept' [OF True] new] ents' next_id eff(3) by simp
  next
    case False
    then have same: "known ents' = known ents" using ents' by simp
    show ?thesis using parser False eff(3) by (simp add: parser_ok_known [OF same])
  qed
  ultimately show ?thesis using eff next_id by (intro exI [of _ ?evs]) (auto simp: traced_ok_def)
qed

lemma traced_ok_record:
  assumes ok: "traced_ok p F prefix kept recs ents st" and F: "family_ok F"
    and M: "length pad = 6" "value_first img" and alive: "p_alive st" and k: "known ents k = Some i"
    and run: "run_op pad img (Trace ts i (f_payload F k t)) (p_writer st, p_data st) = (w, sd)"
  shows "\<exists>evs. traced_ok p F prefix (kept @ evs) (recs @ (if list_ex is_record evs then [(k, ts, t)] else [])) ents
      (st\<lparr>p_writer := w, p_data := sd\<rparr>) \<and>
    active_events sd = active_events (p_data st) @ evs \<and> registrations evs = 0"
proof -
  let ?op = "Trace ts i (f_payload F k t)"
  let ?evs = "kept_event ?op (p_writer st) (p_data st)"
  have pipe: "pipe_ok p kept st" and next_id: "next_type_identifier (p_writer st) = word_of_nat (registrations kept)"
    and parser: "parser_ok p F prefix ents (registrations kept) recs (feed kept p)"
    using ok by (simp_all add: traced_ok_def)
  have "i \<noteq> GetRegisterTypeToken" using k by (auto simp: known_def split: option.splits if_splits)
  moreover have "length (f_payload F k t) < 2 ^ 32" using F by (simp add: family_ok_def traits_ok_def)
  ultimately have op: "op_ok ?op" by simp
  note idle = alive_idle [OF pipe alive]
  note eff = run_op_effect [OF idle M op run]
  have "pipe_ok p (kept @ ?evs) (st\<lparr>p_writer := w, p_data := sd\<rparr>)" by (rule pipe_log [OF pipe M alive op run])
  moreover have "parser_ok p F prefix ents (registrations (kept @ ?evs)) (recs @ (if list_ex is_record ?evs then [(k, ts, t)] else []))
      (feed (kept @ ?evs) p)"
    using parser parser_ok_record [OF parser F k, of ts t] eff(3) by simp
  ultimately show ?thesis using eff next_id by (intro exI [of _ ?evs]) (auto simp: traced_ok_def)
qed

lemma traced_ok_count:
  assumes "traced_ok p F prefix kept recs ents st"
  shows "traced_ok p F prefix kept recs ents (st\<lparr>p_data := IncrementTypeRegistrationFailures (p_data st)\<rparr>)"
proof -
  have "pipe_ok p kept st" using assms by (simp add: traced_ok_def)
  then have "pipe_ok p kept (st\<lparr>p_data := IncrementTypeRegistrationFailures (p_data st)\<rparr>)"
    by (auto simp: pipe_ok_def live_defs done_ok_def pending_def IncrementTypeRegistrationFailures_def split: option.splits)
  with assms show ?thesis by (simp add: traced_ok_def)
qed

section \<open>A traced value\<close>

lemma RegisterType_op:
  assumes "quiet pad img M" "traits_ok payload_of info T" "length (app_prefix lg) = 12" "active_idle (control_block sd)"
    and "shared_memory_writer lg = Some w"
  shows "RegisterType M T now (lg, sd) =
    (let op = Register now (app_prefix lg @ info); (w', sd') = run_op pad img op (w, sd)
     in (if op_kept op sd then Some (next_type_identifier w) else None, lg\<lparr>shared_memory_writer := Some w'\<rparr>, sd'))"
proof -
  let ?d = "app_prefix lg @ info"
  have M: "m_env M = (\<lambda>_ x. x)" "m_pad M = pad" "m_img M = img" "length pad = 6" "value_first img"
    using assms(1) by (simp_all add: quiet_def)
  have "length info < 2 ^ 62" using assms(2) by (simp add: traits_ok_def)
  then have d: "length ?d < 2 ^ 63" using assms(3) by simp
  note eq = TryRegisterType_op [OF assms(4) M(4,5) d TypeinfoWithPrefix_ok [OF assms(2,3)]]
  show ?thesis by (simp add: RegisterType_def assms(5) M eq Let_def split: prod.split)
qed

lemma not_token: "n < 65535 \<Longrightarrow> (word_of_nat n :: TypeIdentifier) \<noteq> GetRegisterTypeToken"
  by (simp add: GetRegisterTypeToken_def unat_eq_iff_word unat_word_of_nat unsigned_minus_1_eq_mask mask_eq_exp_minus_1)

lemma register_phase:
  assumes ok: "traced_ok p F prefix kept recs ents st" and F: "family_ok F" and M: "quiet pad img M"
    and prefix: "length prefix = 12" "take 4 prefix = [0, 0, 0, 0]" "app_prefix lg = prefix" and alive: "p_alive st"
    and new: "known ents k = None"
    and reg: "RegisterType M (f_traits F k) now (lg\<lparr>shared_memory_writer := Some (p_writer st)\<rparr>, p_data st) = (r, lg', sd)"
    and bound: "registrations kept < 65535"
  obtains w evs where "lg' = lg\<lparr>shared_memory_writer := Some w\<rparr>" "active_events sd = active_events (p_data st) @ evs"
    "\<not> list_ex is_record evs" "r \<noteq> Some GetRegisterTypeToken" "r = None \<longrightarrow> evs = []"
    "\<forall>ents'. known ents' = (case r of None \<Rightarrow> known ents | Some i \<Rightarrow> (known ents)(k \<mapsto> i)) \<longrightarrow>
       traced_ok p F prefix (kept @ evs) recs ents' (st\<lparr>p_writer := w, p_data := sd\<rparr>)"
proof -
  let ?lg = "lg\<lparr>shared_memory_writer := Some (p_writer st)\<rparr>"
  let ?op = "Register now (prefix @ f_info F k)"
  have pipe: "pipe_ok p kept st" and next_id: "next_type_identifier (p_writer st) = word_of_nat (registrations kept)"
    using ok by (simp_all add: traced_ok_def)
  have traits: "traits_ok (f_payload F k) (f_info F k) (f_traits F k)" using F by (simp add: family_ok_def)
  have m: "length pad = 6" "value_first img" using M by (simp_all add: quiet_def)
  obtain w sd' where run': "run_op pad img ?op (p_writer st, p_data st) = (w, sd')" by fastforce
  have r: "r = (if op_kept ?op (p_data st) then Some (next_type_identifier (p_writer st)) else None)"
    "lg' = lg\<lparr>shared_memory_writer := Some w\<rparr>" "sd' = sd"
    using RegisterType_op [OF M traits, of ?lg "p_data st" "p_writer st" now] prefix alive_idle [OF pipe alive] run' reg
    by (simp_all add: Let_def)
  note run = run' [unfolded r(3)]
  have "length (f_info F k) < 2 ^ 62" using traits by (simp add: traits_ok_def)
  then have op: "op_ok ?op" using prefix by simp
  note eff = run_op_effect [OF alive_idle [OF pipe alive] m op run]
  have token: "r \<noteq> Some GetRegisterTypeToken" using bound not_token r(1) next_id by auto
  have all: "\<exists>evs. traced_ok p F prefix (kept @ evs) recs ents' (st\<lparr>p_writer := w, p_data := sd\<rparr>) \<and>
      active_events sd = active_events (p_data st) @ evs \<and> \<not> list_ex is_record evs"
    if "known ents' = (case r of None \<Rightarrow> known ents | Some i \<Rightarrow> (known ents)(k \<mapsto> i))" for ents'
    using traced_ok_register [OF ok F prefix(1,2) m alive run new bound, of ents'] that r(1)
    by (cases "op_kept ?op (p_data st)") auto
  let ?evs = "new_events (p_data st) sd"
  have "active_events sd = active_events (p_data st) @ ?evs" "\<not> list_ex is_record ?evs" "r = None \<longrightarrow> ?evs = []"
    using eff(1,3) r(1) by (simp_all add: new_events_def)
  moreover have "traced_ok p F prefix (kept @ ?evs) recs ents' (st\<lparr>p_writer := w, p_data := sd\<rparr>)"
    if "known ents' = (case r of None \<Rightarrow> known ents | Some i \<Rightarrow> (known ents)(k \<mapsto> i))" for ents'
    using all [OF that] by (auto simp: new_events_def)
  ultimately show thesis using that r(2) token by blast
qed

text \<open>The three parts of a call: the entry is created, the type is registered again, the value is written.\<close>

lemma GetLogEntry_ok:
  assumes ok: "traced_ok p F prefix kept recs ents st" and F: "family_ok F" and M: "quiet pad img M"
    and prefix: "length prefix = 12" "take 4 prefix = [0, 0, 0, 0]" "app_prefix lg = prefix" and alive: "p_alive st"
    and get: "GetLogEntry M (f_traits F) now k (proc_of lg ents st) = (e, pr)"
    and bound: "registrations kept < 65535"
  obtains evs w sd where "traced_ok p F prefix (kept @ evs) recs (pr_entries pr) (st\<lparr>p_writer := w, p_data := sd\<rparr>)"
    "active_events sd = active_events (p_data st) @ evs" "\<not> list_ex is_record evs" "pr_entries pr k = Some e"
    "known (pr_entries pr) k = None \<longrightarrow> evs = []"
    "pr_logger pr = lg\<lparr>shared_memory_writer := Some w\<rparr>" "pr_data pr = sd"
proof (cases "ents k")
  case (Some e')
  then have "pr = proc_of lg ents st" "e' = e" using get by (simp_all add: GetLogEntry_def proc_of_def)
  with Some ok show ?thesis by (intro that [of "[]" "p_data st" "p_writer st"]) (simp_all add: proc_of_def)
next
  case None
  obtain r lg' sd where reg: "RegisterType M (f_traits F k) now (lg\<lparr>shared_memory_writer := Some (p_writer st)\<rparr>, p_data st) = (r, lg', sd)"
    by (metis prod_cases3)
  have e: "shared_memory_id e = (case r of Some i \<Rightarrow> i | None \<Rightarrow> GetRegisterTypeToken)"
    and pr: "pr = \<lparr>pr_logger = lg', pr_entries = ents(k \<mapsto> e), pr_data = sd\<rparr>"
    using get None by (auto simp: GetLogEntry_def proc_of_def NewTypedEntry_def GetInitialTypeId_def reg Let_def)
  have new: "known ents k = None" using None by (simp add: known_def)
  obtain w evs where *: "lg' = lg\<lparr>shared_memory_writer := Some w\<rparr>" "active_events sd = active_events (p_data st) @ evs"
    "\<not> list_ex is_record evs" "r \<noteq> Some GetRegisterTypeToken" "r = None \<longrightarrow> evs = []"
    "\<forall>ents'. known ents' = (case r of None \<Rightarrow> known ents | Some i \<Rightarrow> (known ents)(k \<mapsto> i)) \<longrightarrow>
       traced_ok p F prefix (kept @ evs) recs ents' (st\<lparr>p_writer := w, p_data := sd\<rparr>)"
    using register_phase [OF ok F M prefix alive new reg bound] by blast
  have "known (ents(k \<mapsto> e)) = (case r of None \<Rightarrow> known ents | Some i \<Rightarrow> (known ents)(k \<mapsto> i))"
    using e None *(4) by (auto simp: known_def fun_eq_iff split: option.split)
  with *(6) [rule_format, OF this] *(1-3,5) pr show ?thesis by (intro that) (auto simp: proc_of_def split: option.splits)
qed

lemma TryWrite_ok:
  assumes ok: "traced_ok p F prefix kept recs ents st" and F: "family_ok F" and M: "quiet pad img M"
    and prefix: "length prefix = 12" "take 4 prefix = [0, 0, 0, 0]" "app_prefix lg = prefix" and alive: "p_alive st"
    and e: "ents k = Some e" and bound: "known ents k = None \<longrightarrow> registrations kept < 65535"
    and wr: "TryWriteIntoSharedMemory M (f_traits F k) now now' t (e, lg\<lparr>shared_memory_writer := Some (p_writer st)\<rparr>, p_data st) = (e', lg', sd')"
  obtains evs w where "traced_ok p F prefix (kept @ evs) (recs @ (if list_ex is_record evs then [(k, now', t)] else [])) (ents(k \<mapsto> e'))
      (st\<lparr>p_writer := w, p_data := sd'\<rparr>)"
    "active_events sd' = active_events (p_data st) @ evs" "lg' = lg\<lparr>shared_memory_writer := Some w\<rparr>"
proof -
  have m: "length pad = 6" "value_first img" "m_env M = (\<lambda>_ x. x)" "m_pad M = pad" using M by (simp_all add: quiet_def)
  have payload: "length (f_payload F k t) < 2 ^ 63" "unat (serialize_size (f_traits F k) t) = length (f_payload F k t)"
    "\<And>old. length old = length (f_payload F k t) \<Longrightarrow> serialize (f_traits F k) t old = f_payload F k t"
    using F less_trans [of "length (f_payload F k t)" "2 ^ 32" "2 ^ 63"] by (simp_all add: family_ok_def traits_ok_def)
  have idle: "active_idle (control_block (p_data st))" using ok alive alive_idle [of p kept st] by (simp add: traced_ok_def)
  note result = that
  have written: thesis
    if ok1: "traced_ok p F prefix (kept @ evs) recs (ents(k \<mapsto> e1)) (st\<lparr>p_writer := w, p_data := sd\<rparr>)"
      and ev1: "active_events sd = active_events (p_data st) @ evs" "\<not> list_ex is_record evs"
      and known: "shared_memory_id e1 \<noteq> GetRegisterTypeToken"
      and last: "e' = e1" "(lg', sd') = GetSharedMemoryWriter (write_value M (f_traits F k) now' t (shared_memory_id e1)) (lg\<lparr>shared_memory_writer := Some w\<rparr>, sd)"
    for evs e1 w sd
  proof -
    let ?st = "st\<lparr>p_writer := w, p_data := sd\<rparr>"
    have k: "known (ents(k \<mapsto> e1)) k = Some (shared_memory_id e1)" using known by (simp add: known_def)
    have idle1: "active_idle (control_block sd)" using ok1 alive alive_idle [of p "kept @ evs" ?st] by (simp add: traced_ok_def)
    obtain w2 sd2 where run: "run_op pad img (Trace now' (shared_memory_id e1) (f_payload F k t)) (w, sd) = (w2, sd2)" by fastforce
    have "write_value M (f_traits F k) now' t (shared_memory_id e1) w sd = (w2, sd2)"
      using write_value_op [OF idle1 m(1) payload(1) m(3,4) payload(2,3)] run by simp
    then have lg': "lg' = lg\<lparr>shared_memory_writer := Some w2\<rparr>" "sd' = sd2" using last(2) by (simp_all add: GetSharedMemoryWriter_def)
    obtain evs2 where "traced_ok p F prefix ((kept @ evs) @ evs2) (recs @ (if list_ex is_record evs2 then [(k, now', t)] else [])) (ents(k \<mapsto> e1))
        (?st\<lparr>p_writer := w2, p_data := sd2\<rparr>)" "active_events sd2 = active_events sd @ evs2"
      using traced_ok_record [OF ok1 F m(1,2) _ k, of now' t w2 sd2] alive run by auto
    then show thesis using ev1 last(1) lg' by (intro result [of "evs @ evs2" w2]) simp_all
  qed
  show thesis
  proof (cases "shared_memory_id e = GetRegisterTypeToken")
    case False
    then show thesis
      using ok e wr by (intro written [of "[]" e "p_data st" "p_writer st"])
        (auto simp: TryWriteIntoSharedMemory_def TrySerializeIntoSharedMemory_def fun_upd_idem)
  next
    case True
    then have new: "known ents k = None" using e by (simp add: known_def)
    obtain r lg1 sd1 where reg: "RegisterType M (f_traits F k) now (lg\<lparr>shared_memory_writer := Some (p_writer st)\<rparr>, p_data st) = (r, lg1, sd1)"
      by (metis prod_cases3)
    obtain w1 evs1 where r: "lg1 = lg\<lparr>shared_memory_writer := Some w1\<rparr>" "active_events sd1 = active_events (p_data st) @ evs1"
      "\<not> list_ex is_record evs1" "r \<noteq> Some GetRegisterTypeToken" "r = None \<longrightarrow> evs1 = []"
      "\<forall>ents'. known ents' = (case r of None \<Rightarrow> known ents | Some i \<Rightarrow> (known ents)(k \<mapsto> i)) \<longrightarrow>
         traced_ok p F prefix (kept @ evs1) recs ents' (st\<lparr>p_writer := w1, p_data := sd1\<rparr>)"
      using register_phase [OF ok F M prefix alive new reg mp [OF bound new]] by blast
    note unfold = TryWriteIntoSharedMemory_def TrySerializeIntoSharedMemory_def RegisterTypeGetId_def UpdateSharedMemoryId_def
      GetSharedMemoryWriter_def reg Let_def
    show thesis
    proof (cases r)
      case None
      have same: "known (ents(k \<mapsto> e')) = known ents"
        using wr True None e by (auto simp: unfold known_def fun_eq_iff)
      have "traced_ok p F prefix (kept @ evs1) recs (ents(k \<mapsto> e')) (st\<lparr>p_writer := w1, p_data := IncrementTypeRegistrationFailures sd1\<rparr>)"
        using traced_ok_count [OF r(6) [rule_format, of "ents(k \<mapsto> e')"]] same None by simp
      then show thesis using wr True None r(1,2,3,5)
        by (intro that [of "[]" w1]) (auto simp: unfold IncrementTypeRegistrationFailures_def)
    next
      case (Some i)
      let ?e = "e\<lparr>shared_memory_id := i\<rparr>"
      have "known (ents(k \<mapsto> ?e)) = (case r of None \<Rightarrow> known ents | Some i \<Rightarrow> (known ents)(k \<mapsto> i))"
        using Some r(4) by (auto simp: known_def fun_eq_iff)
      from r(6) [rule_format, OF this] show thesis
        using r(1-4) Some wr True by (intro written [of evs1 ?e sd1 w1]) (auto simp: unfold)
    qed
  qed
qed

lemma trace_if_ok:
  assumes ok: "traced_ok p F prefix kept recs ents st" and F: "family_ok F" and M: "quiet pad img M"
    and prefix: "length prefix = 12" "take 4 prefix = [0, 0, 0, 0]" "app_prefix lg = prefix" and alive: "p_alive st"
    and bound: "registrations kept < 65535"
    and pr: "pr = trace_if en M (f_traits F) clock k t (proc_of lg ents st)" "evs = new_events (p_data st) (pr_data pr)"
  shows "traced_ok p F prefix (kept @ evs) (recs @ (if list_ex is_record evs then [(k, clock 2, t)] else [])) (pr_entries pr) (put_proc pr st)"
proof -
  obtain e pr1 where get: "GetLogEntry M (f_traits F) (clock 0) k (proc_of lg ents st) = (e, pr1)" by (rule prod.exhaust)
  obtain evs1 w1 sd1 where 1: "traced_ok p F prefix (kept @ evs1) recs (pr_entries pr1) (st\<lparr>p_writer := w1, p_data := sd1\<rparr>)"
    "active_events sd1 = active_events (p_data st) @ evs1" "\<not> list_ex is_record evs1" "pr_entries pr1 k = Some e"
    "known (pr_entries pr1) k = None \<longrightarrow> evs1 = []" "pr_logger pr1 = lg\<lparr>shared_memory_writer := Some w1\<rparr>" "pr_data pr1 = sd1"
    by (rule GetLogEntry_ok [OF ok F M prefix alive get bound]) (rule that; assumption)
  note pr1 = 1(6,7)
  show ?thesis
  proof (cases "en e")
    case False
    then have "pr = pr1" using pr(1) get by (simp add: trace_if_def)
    with 1(1-3) pr1 pr(2) show ?thesis by (simp add: put_proc_def new_events_def)
  next
    case True
    obtain e' lg' sd' where w: "TryWriteIntoSharedMemory M (f_traits F k) (clock 1) (clock 2) t (e, pr_logger pr1, pr_data pr1) = (e', lg', sd')"
      by (metis prod_cases3)
    have pr': "pr = \<lparr>pr_logger = lg', pr_entries = (pr_entries pr1)(k \<mapsto> e'), pr_data = sd'\<rparr>"
      using pr(1) get True w by (simp add: trace_if_def)
    let ?st = "st\<lparr>p_writer := w1, p_data := sd1\<rparr>"
    have al: "p_alive ?st" using alive by simp
    have bd: "known (pr_entries pr1) k = None \<longrightarrow> registrations (kept @ evs1) < 65535" using 1(5) bound by simp
    have wr: "TryWriteIntoSharedMemory M (f_traits F k) (clock 1) (clock 2) t
        (e, lg\<lparr>shared_memory_writer := Some (p_writer ?st)\<rparr>, p_data ?st) = (e', lg', sd')"
      using w pr1 by simp
    obtain evs2 w2 where 2: "traced_ok p F prefix ((kept @ evs1) @ evs2) (recs @ (if list_ex is_record evs2 then [(k, clock 2, t)] else []))
        ((pr_entries pr1)(k \<mapsto> e')) (?st\<lparr>p_writer := w2, p_data := sd'\<rparr>)"
      "active_events sd' = active_events (p_data ?st) @ evs2" "lg' = lg\<lparr>shared_memory_writer := Some w2\<rparr>"
      by (rule TryWrite_ok [OF 1(1) F M prefix al 1(4) bd wr]) (rule that; assumption)
    then show ?thesis using 1(2,3) pr' pr(2) by (simp add: put_proc_def new_events_def)
  qed
qed

section \<open>Runs\<close>

lemma system_keeps_identifier:
  assumes "pipe_step pad img st [] st'" "pipe_ok p kept st" "length pad = 6" "value_first img"
  shows "next_type_identifier (p_writer st') = next_type_identifier (p_writer st)"
  using assms(1)
proof (cases rule: pipe_step.cases)
  case (log_call op w sd)
  then show ?thesis using run_op_effect(2) [OF alive_idle [OF assms(2)] assms(3,4), of op "p_writer st" w sd] by simp
qed (auto simp: ReadAcquire_def split: prod.splits)

lemma traced_step_ok:
  assumes "traced_step M (f_traits F) lg (ents, st) (evs, rs) (ents', st')" "traced_ok p F prefix kept recs ents st"
    and F: "family_ok F" and M: "quiet pad img M"
    and prefix: "length prefix = 12" "take 4 prefix = [0, 0, 0, 0]" "app_prefix lg = prefix" and bound: "registrations kept < 65535"
  shows "traced_ok p F prefix (kept @ evs) (recs @ rs) ents' st'"
  using assms(1)
proof (cases rule: traced_step.cases)
  case (trace_call pr en clock k t)
  then show ?thesis using trace_if_ok [OF assms(2) F M prefix _ bound, of pr en clock k t evs] by simp
next
  case system
  have m: "m_pad M = pad" "m_img M = img" "length pad = 6" "value_first img" using M by (simp_all add: quiet_def)
  have ok: "pipe_ok p kept st" using assms(2) by (simp add: traced_ok_def)
  show ?thesis
    using system assms(2) pipe_ok_step [of pad img st "[]" st' p kept] system_keeps_identifier [OF _ ok m(3,4), of st'] ok
    by (auto simp: traced_ok_def m)
qed

lemma app_prefix_shape:
  assumes "app_prefix_of config = Some prefix"
  shows "length prefix = 12" "take 4 prefix = [0, 0, 0, 0]"
proof -
  let ?z = "replicate 12 (0 :: byte)"
  have fit: "4 + length (GetEcuId config) \<le> 12" "4 + length (GetEcuId config) + length (GetAppId config) \<le> 12"
    and p: "prefix = put_at (4 + length (GetEcuId config)) (GetAppId config) (put_at 4 (GetEcuId config) ?z)"
    using assms by (auto simp: app_prefix_of_def Let_def kMaxLength_def split: if_splits)
  show "length prefix = 12" using fit p by simp
  have "take 4 prefix = subspan 0 4 prefix" by (simp add: subspan_def)
  also have "\<dots> = [0, 0, 0, 0]" using fit by (simp add: p subspan_put_at_before) (simp add: subspan_def numeral_eq_Suc)
  finally show "take 4 prefix = [0, 0, 0, 0]" .
qed

lemma traced_run_ok:
  assumes "traced_run M (f_traits F) lg (ents0, st0) (kept, recs) (ents, st)" "traced_ok p F prefix [] [] ents0 st0"
    and F: "family_ok F" and M: "quiet pad img M"
    and prefix: "length prefix = 12" "take 4 prefix = [0, 0, 0, 0]" "app_prefix lg = prefix" and bound: "registrations kept < 65535"
  shows "traced_ok p F prefix kept recs ents st"
  using assms(1) bound
proof (induction "(kept, recs)" "(ents, st)" arbitrary: kept recs ents st rule: traced_run.induct)
  case (traced_next kept recs s' evs rs)
  obtain ents1 st1 where s': "s' = (ents1, st1)" by (cases s')
  have "traced_ok p F prefix kept recs ents1 st1" using traced_next.hyps(2) [OF s'] traced_next.prems by simp
  moreover have "registrations kept < 65535" using traced_next.prems by simp
  ultimately show ?case by (intro traced_step_ok [OF traced_next.hyps(3) [unfolded s'] _ F M prefix])
qed (use assms(2) in simp)

lemma calls_grow: "\<exists>rest. calls (feed evs p) = calls p @ rest"
proof (induction evs arbitrary: p)
  case (Cons e evs)
  have "\<exists>rest. calls (parse_event e p) = calls p @ rest"
    by (cases e) (simp_all add: AddIncomingType_def AddIncomingType_params_def ParseSharedMemoryRecord_def dispatch_def Let_def split: option.split)
  with Cons.IH [of "parse_event e p"] show ?case by auto
qed simp

text \<open>One type with one value.\<close>

definition one_type :: "bytes \<Rightarrow> bytes \<Rightarrow> (unit, unit) Family" where
  "one_type nm v =
     (let info = le32 (word_of_nat (length nm)) @ nm
      in \<lparr>f_traits = \<lambda>_. \<lparr>struct_name = nm, type_info_size = word_of_nat (length info), type_info_copy = \<lambda>_. info,
           serialize_size = \<lambda>_. word_of_nat (length v), serialize = \<lambda>_ _. v\<rparr>,
         f_payload = \<lambda>_ _. v, f_info = \<lambda>_. info, f_name = \<lambda>_. nm\<rparr>)"

definition example_config :: Configuration where
  "example_config = \<lparr>GetEcuId = [69, 67, 85, 49], GetAppId = [65, 80, 80], GetContextLogLevel = []\<rparr>"

definition example_logger :: Logger where
  "example_logger = the (NewLogger example_config None default_SharedData None None None)"

definition example_machine :: Machine where
  "example_machine = \<lparr>m_env = \<lambda>_ x. x, m_pad = [0, 0, 0, 0, 0, 0], m_img = example_image\<rparr>"

definition example_parser :: "(nat, string, string) LogParser" where
  "example_parser = NewLogParser (\<lambda>_. None) [''any''] [([84], ''handler'')]"

abbreviation example_start :: "('d, 'h, 'g) LogParser \<Rightarrow> ('d, 'h, 'g) pipeline" where
  "example_start \<equiv> pipe_init (replicate 300 0) (replicate 300 0) ''APP1'' True 0"

lemma example_quiet: "quiet [0, 0, 0, 0, 0, 0] example_image example_machine"
  by (simp add: quiet_def example_machine_def example_value_first)

lemma one_type_ok:
  assumes "nm \<noteq> []" "length nm < 2 ^ 31" "length v < 2 ^ 31"
  shows "family_ok (one_type nm v)"
proof -
  have u: "unat (word_of_nat n :: u64) = n" if "n < 2 ^ 32" for n using that by (intro unat_word_of_nat) simp
  have "unat (word_of_nat (4 + length nm) :: u64) = 4 + length nm" "unat (word_of_nat (length v) :: u64) = length v"
    using assms(2,3) by (simp_all add: u del: of_nat_add)
  then show ?thesis using assms by (simp add: family_ok_def traits_ok_def describes_def one_type_def Let_def del: of_nat_add)
qed

lemma example_logger:
  "app_prefix_of (lg_config example_logger) = Some (app_prefix example_logger)"
  "app_prefix example_logger = [0, 0, 0, 0, 69, 67, 85, 49, 65, 80, 80, 0]" "nvconfig example_logger = (\<lambda>_. None)"
  by (simp_all add: example_logger_def NewLogger_def app_prefix_of_def example_config_def Let_def kMaxLength_def put_at_def numeral_eq_Suc)

lemma one_traced:
  fixes p :: "('d, 'h, 'g) LogParser"
  assumes "nm \<noteq> []" "length nm < 100" "length v < 100"
  shows "\<exists>a r. new_events (p_data (example_start p))
    (pr_data (trace_if (EnabledAt kInfo) example_machine (f_traits (one_type nm v)) (\<lambda>_. 6) () () (proc_of example_logger (\<lambda>_. None) (example_start p)))) =
    [TypeRegistered a, NewRecord r]"
proof -
  let ?F = "one_type nm v" and ?sd = "p_data (example_start p)" and ?w = "p_writer (example_start p)"
  let ?lg = "example_logger\<lparr>shared_memory_writer := Some ?w\<rparr>" and ?pad = "[0, 0, 0, 0, 0, 0] :: bytes"
  let ?op = "Register 6 (app_prefix example_logger @ f_info ?F ())"
  have sd: "?sd = fresh_shared_data (replicate 300 0) (replicate 300 0)" "next_type_identifier ?w = 0"
    by (simp_all add: pipe_init_def Let_def NewSharedMemoryWriter_def)
  have idle: "active_idle (control_block ?sd)" "active_room (control_block ?sd) = 300"
    using fresh_shared_data_idle [of "replicate 300 0" 300 "replicate 300 0"] by (simp_all add: sd)
  have traits: "traits_ok (f_payload ?F ()) (f_info ?F ()) (f_traits ?F ())"
    using one_type_ok [of nm v] assms by (simp add: family_ok_def)
  have size_op: "op_size ?op = length nm + 18" "op_ok ?op" using assms by (simp_all add: example_logger one_type_def Let_def)
  obtain w1 acb where 1: "run_op ?pad example_image ?op (?w, ?sd) = (w1, ?sd\<lparr>control_block := acb\<rparr>)"
      "active_idle acb" "active_room acb = 300 - (length nm + 42)"
      "events_of (active_contents acb) = active_events ?sd @ [TypeRegistered \<lparr>type_id = 0, registration_data = app_prefix example_logger @ f_info ?F ()\<rparr>]"
    using run_op_cases(3) [OF idle(1) _ example_value_first size_op(2), of ?pad ?w] size_op(1) idle(2) sd(2) assms by auto
  have reg: "RegisterType example_machine (f_traits ?F ()) 6 (?lg, ?sd) = (Some 0, example_logger\<lparr>shared_memory_writer := Some w1\<rparr>, ?sd\<lparr>control_block := acb\<rparr>)"
    using RegisterType_op [OF example_quiet traits, of ?lg ?sd ?w 6] idle 1(1) size_op sd(2) assms by (simp add: op_kept_def Let_def example_logger)
  let ?sd1 = "?sd\<lparr>control_block := acb\<rparr>"
  have ok2: "op_ok (Trace 6 0 v)" "op_size (Trace 6 0 v) = length v"
    using assms by (simp_all add: GetRegisterTypeToken_def)
  have "length v + 24 \<le> 258 - length nm" using assms by simp
  then obtain acb2 where 2: "run_op ?pad example_image (Trace 6 0 v) (w1, ?sd1) = (w1, ?sd1\<lparr>control_block := acb2\<rparr>)"
      "events_of (active_contents acb2) = events_of (active_contents acb) @ [NewRecord \<lparr>smr_header = \<lparr>time_stamp = 6, type_identifier = 0\<rparr>, smr_payload = v\<rparr>]"
    using run_op_cases(3) [OF _ _ example_value_first ok2(1), of ?sd1 ?pad w1] 1(2,3) ok2(2) assms by auto
  have "unat (word_of_nat (length v) :: u64) = length v" using assms(3) by (simp add: unat_word_of_nat)
  then have wr: "write_value example_machine (f_traits ?F ()) 6 () 0 w1 ?sd1 = (w1, ?sd1\<lparr>control_block := acb2\<rparr>)"
    using write_value_op [where M = example_machine and T = "f_traits ?F ()" and p = v and sd = ?sd1 and pad = ?pad and t = "()" and img = example_image and i = 0 and w = w1 and ts = 6]
      1(2) 2(1) assms(3) by (simp add: example_machine_def one_type_def Let_def)
  show ?thesis using 1(4) 2(2)
    by (simp add: trace_if_def GetLogEntry_def proc_of_def NewTypedEntry_def GetInitialTypeId_def reg Let_def EnabledAt_def GetThresholdForInit_def
        GetTypeThreshold_def GetLevelForContext_def example_logger level_defs TryWriteIntoSharedMemory_def TrySerializeIntoSharedMemory_def
        GetRegisterTypeToken_def GetSharedMemoryWriter_def wr new_events_def)
qed

text \<open>A process that traces the value and ends.\<close>

lemma one_run:
  fixes p :: "('d, 'h, 'g) LogParser"
  assumes "nm \<noteq> []" "length nm < 100" "length v < 100"
  obtains kept ents st where
    "traced_run example_machine (f_traits (one_type nm v)) example_logger (\<lambda>_. None, example_start p) (kept, [((), 6, ())]) (ents, st)"
    "registrations kept < 65535" "command_detach_on_closed (command_data (p_session st))"
proof -
  let ?F = "one_type nm v" and ?start = "example_start p"
  define pr where "pr = trace_if (EnabledAt kInfo) example_machine (f_traits ?F) (\<lambda>_. 6) () () (proc_of example_logger (\<lambda>_. None) ?start)"
  obtain a r where evs: "new_events (p_data ?start) (pr_data pr) = [TypeRegistered a, NewRecord r]"
    using one_traced [OF assms, of p] unfolding pr_def by blast
  have start: "p_alive ?start" "p_answer ?start = None" by (simp_all add: pipe_init_def Let_def)
  let ?run = "traced_run example_machine (f_traits ?F) example_logger (\<lambda>_. None, ?start)"
  let ?s1 = "put_proc pr ?start"
  have "?run ([] @ [TypeRegistered a, NewRecord r], [] @ [((), 6, ())]) (pr_entries pr, ?s1)"
    using pr_def evs start(1) by (intro traced_next [OF traced_start] trace_call [where en = "EnabledAt kInfo" and clock = "\<lambda>_. 6"]) simp_all
  from traced_next [OF this system [OF crashed]]
  have run2: "?run ([TypeRegistered a, NewRecord r], [((), 6, ())]) (pr_entries pr, ?s1\<lparr>p_alive := False\<rparr>)" by simp
  let ?s3 = "?s1\<lparr>p_alive := False, p_session := OnClosedByPeer (p_session ?s1)\<rparr>"
  have "pipe_step (m_pad example_machine) (m_img example_machine) (?s1\<lparr>p_alive := False\<rparr>) [] ?s3"
    using hung_up [of "?s1\<lparr>p_alive := False\<rparr>"] start by (simp add: put_proc_def)
  from traced_next [OF run2 system [OF this]]
  have "?run ([TypeRegistered a, NewRecord r], [((), 6, ())]) (pr_entries pr, ?s3)" by simp
  then show thesis by (rule that) (simp_all add: registrations_def OnClosedByPeer_def upd_cmd_def)
qed

lemma traced_run_handled:
  assumes "length d = n" "length e = n" "n < 2 ^ 63" "quiet pad img M" "family_ok F"
    and "app_prefix_of (lg_config lg) = Some (app_prefix lg)" "index_parser_map p = []" "calls p = []"
    and "traced_run M (f_traits F) lg (\<lambda>_. None, pipe_init d e nm en quota p) (kept, recs) (ents, st)"
    and "registrations kept < 65535"
  shows "(\<exists>rest. concat (map (record_calls p F (app_prefix lg) ents) recs) = calls (parser (p_session st)) @ rest) \<and>
    (writer_detached (p_data st) \<or> command_detach_on_closed (command_data (p_session st)) \<longrightarrow>
      calls (parser (snd (snd (Tick env (p_data st) (p_session st))))) = concat (map (record_calls p F (app_prefix lg) ents) recs))"
proof -
  have "traced_ok p F (app_prefix lg) [] [] (\<lambda>_. None) (pipe_init d e nm en quota p)"
    using pipe_ok_init [OF assms(1-3), of p nm en quota] assms(7,8)
    by (simp add: traced_ok_def parser_ok_def known_def pipe_init_def NewSharedMemoryWriter_def Let_def)
  from traced_run_ok [OF assms(9) this assms(5,4) app_prefix_shape [OF assms(6)] refl assms(10)]
  have ok: "pipe_ok p kept st" and parser: "calls (feed kept p) = concat (map (record_calls p F (app_prefix lg) ents) recs)"
    by (simp_all add: traced_ok_def parser_ok_def)
  obtain res q s where t: "Tick env (p_data st) (p_session st) = (res, q, s)" by (cases "Tick env (p_data st) (p_session st)")
  obtain handled rest where h: "kept = handled @ rest" "parser (p_session st) = feed handled p" using ok by (auto simp: pipe_ok_def)
  have "\<exists>more. calls (feed kept p) = calls (parser (p_session st)) @ more" using calls_grow [of rest "feed handled p"] h by simp
  with parser pipe_ticked(2) [OF ok t refl] show ?thesis by (auto simp: gone_def t)
qed

text \<open>C2: A traced value reaches the handlers of its type. Whatever the process traces, at whatever
  levels, with registrations that fail for lack of room and are repeated, and whatever the
  session does in between: every record that got into the buffer is handed, once and in
  order, to the handlers bound to the name of its own type and to the general handlers
  with the description of that type, never to others; what has been handed over is a
  prefix of that, and all of it once the process has gone and the session has ticked.\<close>

theorem traced_values_reach_their_handlers:
  assumes "length d = n" "length e = n" "n < 2 ^ 63" "quiet pad img M" "family_ok F"
    and "app_prefix_of (lg_config lg) = Some (app_prefix lg)" "index_parser_map p = []" "calls p = []"
    and "traced_run M (f_traits F) lg (\<lambda>_. None, pipe_init d e nm en quota p) (kept, recs) (ents, st)"
    and "registrations kept < 65535"
  shows "(\<exists>rest. concat (map (record_calls p F (app_prefix lg) ents) recs) = calls (parser (p_session st)) @ rest) \<and>
    (writer_detached (p_data st) \<or> command_detach_on_closed (command_data (p_session st)) \<longrightarrow>
      calls (parser (snd (snd (Tick env (p_data st) (p_session st))))) = concat (map (record_calls p F (app_prefix lg) ents) recs))"
  by (rule traced_run_handled [OF assms])

theorem traced_values_reach_their_handlers_witness:
  "\<exists>kept ents st. traced_run example_machine (f_traits (one_type [84] [1, 2])) example_logger (\<lambda>_. None, example_start example_parser)
       (kept, [((), 6, ())]) (ents, st) \<and>
     calls (parser (snd (snd (Tick example_tick_env (p_data st) (p_session st))))) =
       record_calls example_parser (one_type [84] [1, 2]) (app_prefix example_logger) ents ((), 6, ())"
proof -
  obtain kept ents st where run: "traced_run example_machine (f_traits (one_type [84] [1, 2])) example_logger (\<lambda>_. None, example_start example_parser)
      (kept, [((), 6, ())]) (ents, st)" "registrations kept < 65535" "command_detach_on_closed (command_data (p_session st))"
    by (rule one_run [of "[84]" "[1, 2]" example_parser]) simp_all
  from traced_values_reach_their_handlers [OF _ _ _ example_quiet one_type_ok example_logger(1) _ _ run(1,2), of 300 example_tick_env] run
  show ?thesis by (intro exI [of _ kept] exI [of _ ents] exI [of _ st]) (simp add: example_parser_def NewLogParser_def)
qed

end
