(* ===== verification/FileTransfer.thy ===== *)
theory FileTransfer
  imports DltFormat DltHeaders
begin

unbundle bit_operations_syntax

text \<open>
  File transfer: the packages of the protocol (\<^verbatim>\<open>datarouter/include/dlt/dlt_protocol.h\<close>) and
  the handler that sends files (\<^verbatim>\<open>src/file_transfer/file_transfer_impl/filetransfer_stream.cpp\<close>
  and \<^verbatim>\<open>.h\<close>).

  A package is built in a buffer by copying pieces one after the other. Copying past the
  end of the buffer is undefined behaviour, which is the result \<open>Overrun\<close>. The file system,
  the clock, \<^verbatim>\<open>errno\<close>, the base library's log levels and the other thread's exit request are
  answers of the environment.
\<close>

section \<open>Constants of the protocol\<close>

definition kFlstNor :: u8 where "kFlstNor = 8"
definition kFldaNor :: u8 where "kFldaNor = 5"
definition kFlfiNor :: u8 where "kFlfiNor = 3"
definition kFlifNor :: u8 where "kFlifNor = 7"
definition kFlerFileNor :: u8 where "kFlerFileNor = 9"
definition kFlerNoFileNor :: u8 where "kFlerNoFileNor = 5"
definition kBufferSize :: nat where "kBufferSize = 1024"
definition kPkgFlagBytes :: nat where "kPkgFlagBytes = 2 + 5 + 4"
definition kPkgSerialnoBytes :: nat where "kPkgSerialnoBytes = 4 + 4"
definition kPkgPkgnoBytes :: nat where "kPkgPkgnoBytes = 4 + 4"
definition kPkgRawdataBytes :: nat where "kPkgRawdataBytes = 4 + 2 + kBufferSize"
definition kDatapkgsize :: nat where
  "kDatapkgsize = kPkgFlagBytes + kPkgSerialnoBytes + kPkgPkgnoBytes + kPkgRawdataBytes + kPkgFlagBytes"
definition kDltFiletransferErrorFileHead :: u16 where "kDltFiletransferErrorFileHead = - 400"
definition kDltFiletransferErrorFileData :: u16 where "kDltFiletransferErrorFileData = - 500"

definition DLT_TYPE_INFO_SINT :: u32 where "DLT_TYPE_INFO_SINT = 0x20"
definition DLT_TYPE_INFO_UINT :: u32 where "DLT_TYPE_INFO_UINT = 0x40"
definition DLT_TYPE_INFO_STRG :: u32 where "DLT_TYPE_INFO_STRG = 0x200"
definition DLT_TYPE_INFO_RAWD :: u32 where "DLT_TYPE_INFO_RAWD = 0x400"
definition DLT_TYLE_16BIT :: u32 where "DLT_TYLE_16BIT = 2"
definition DLT_TYLE_32BIT :: u32 where "DLT_TYLE_32BIT = 3"
definition DLT_SCOD_UTF8 :: u32 where "DLT_SCOD_UTF8 = 0x8000"

lemmas ft_consts = kFlstNor_def kFldaNor_def kFlfiNor_def kFlifNor_def kFlerFileNor_def kFlerNoFileNor_def kBufferSize_def
  kPkgFlagBytes_def kPkgSerialnoBytes_def kPkgPkgnoBytes_def kPkgRawdataBytes_def kDatapkgsize_def

lemmas ft_type_consts = DLT_TYPE_INFO_SINT_def DLT_TYPE_INFO_UINT_def DLT_TYPE_INFO_STRG_def DLT_TYPE_INFO_RAWD_def DLT_TYLE_16BIT_def
  DLT_TYLE_32BIT_def DLT_SCOD_UTF8_def

section \<open>Copying into a package\<close>

text \<open>A piece: the bytes that are copied, and by how much the write position advances.\<close>

type_synonym piece = "bytes \<times> nat"

datatype Package = Packed bytes u8 | NoPackage | Overrun

fun copy_pieces :: "piece list \<Rightarrow> nat \<Rightarrow> bytes \<Rightarrow> (nat \<times> bytes) option" where
  "copy_pieces [] buffersize buffer = Some (buffersize, buffer)"
| "copy_pieces ((src, step) # ps) buffersize buffer =
     (if length buffer < buffersize + length src then None
      else copy_pieces ps (buffersize + step) (put_at buffersize src buffer))"

definition packed :: "piece list \<Rightarrow> u8 \<Rightarrow> bytes \<Rightarrow> Package" where
  "packed ps nor data_span =
     (case copy_pieces ps 0 data_span of None \<Rightarrow> Overrun | Some (buffersize, buffer) \<Rightarrow> Packed (subspan 0 buffersize buffer) nor)"

definition type_piece :: "u32 \<Rightarrow> piece" where
  "type_piece type_info = (le32 type_info, 4)"

definition flag_pieces :: "bytes \<Rightarrow> piece list" where
  "flag_pieces transfer_type = [type_piece (DLT_TYPE_INFO_STRG OR DLT_SCOD_UTF8), (le16 5, 2), (transfer_type, 5)]"

definition u32_pieces :: "u32 \<Rightarrow> piece list" where
  "u32_pieces v = [type_piece (DLT_TYPE_INFO_UINT OR DLT_TYLE_32BIT), (le32 v, 4)]"

text \<open>The characters of a text are copied; the zero byte behind them is the buffer's.\<close>

definition text_pieces :: "bytes \<Rightarrow> piece list" where
  "text_pieces s = [type_piece (DLT_TYPE_INFO_STRG OR DLT_SCOD_UTF8), (le16 (word_of_nat (length s + 1)), 2), (s, length s + 1)]"

definition FLST :: bytes where "FLST = [70, 76, 83, 84, 0]"
definition FLDA :: bytes where "FLDA = [70, 76, 68, 65, 0]"
definition FLFI :: bytes where "FLFI = [70, 76, 70, 73, 0]"
definition FLER :: bytes where "FLER = [70, 76, 69, 82, 0]"
definition FLIF :: bytes where "FLIF = [70, 76, 73, 70, 0]"

definition PackageFileHeader :: "bytes \<Rightarrow> u32 \<Rightarrow> bytes \<Rightarrow> u32 \<Rightarrow> bytes \<Rightarrow> u32 \<Rightarrow> Package" where
  "PackageFileHeader data_span serialno alias fsize creationdate packagecount =
     (let buffersize_limit = 4 + 2 + 5 + 4 + 4 + 4 + 2 + (length alias + 1) + 4 + 4 + 4 + 2 + (length creationdate + 1)
            + 4 + 4 + 4 + 2 + 4 + 2 + 5 in
      if length data_span < buffersize_limit then NoPackage
      else packed (flag_pieces FLST @ u32_pieces serialno @ text_pieces alias @ u32_pieces fsize @ text_pieces creationdate
             @ u32_pieces packagecount @ [type_piece (DLT_TYPE_INFO_UINT OR DLT_TYLE_16BIT), (le16 (word_of_nat kBufferSize), 2)]
             @ flag_pieces FLST) kFlstNor data_span)"

text \<open>
  A data package: \<open>seek\<close> says whether the file position could be set, \<open>read\<close> are the bytes
  that were read from there, at most the given number; they go behind the count, which is
  filled in afterwards.
\<close>

definition PackageFileData :: "bytes \<Rightarrow> (u32 \<Rightarrow> bool) \<Rightarrow> (u32 \<Rightarrow> nat \<Rightarrow> bytes) \<Rightarrow> u32 \<Rightarrow> u32 \<Rightarrow> Package" where
  "PackageFileData buffer_in seek read serialno pkgno =
     (let position = (pkgno - 1) * word_of_nat kBufferSize in
      if \<not> seek position then NoPackage
      else if length buffer_in < 4 + 2 + 5 + 4 + 4 + 4 + 4 + 4 + 2 + kBufferSize + 4 + 2 + 5 then NoPackage
      else
        let data' = read position kBufferSize
        in packed (flag_pieces FLDA @ u32_pieces serialno @ u32_pieces pkgno @
             [type_piece DLT_TYPE_INFO_RAWD, (le16 (word_of_nat (length data')), 2), (data', length data')] @ flag_pieces FLDA)
             kFldaNor buffer_in)"

definition PackageFileEnd :: "bytes \<Rightarrow> u32 \<Rightarrow> Package" where
  "PackageFileEnd data_buffer serialno =
     (if length data_buffer < 4 + 2 + 5 + 4 + 4 + 4 + 2 + 5 then NoPackage
      else packed (flag_pieces FLFI @ u32_pieces serialno @ flag_pieces FLFI) kFlfiNor data_buffer)"

text \<open>
  The error package has no check of the size. The four bytes of \<^verbatim>\<open>errno\<close> are copied and the
  position advances by two.
\<close>

definition error_code_pieces :: "u16 \<Rightarrow> u32 \<Rightarrow> piece list" where
  "error_code_pieces errorcode errno =
     [type_piece (DLT_TYPE_INFO_SINT OR DLT_TYLE_16BIT), (le16 errorcode, 2),
      type_piece (DLT_TYPE_INFO_SINT OR DLT_TYLE_16BIT), (le32 errno, 2)]"

definition ENOENT :: u32 where "ENOENT = 2"

definition PackageFileError :: "bytes \<Rightarrow> u32 \<Rightarrow> u16 \<Rightarrow> u32 \<Rightarrow> bytes \<Rightarrow> u32 \<Rightarrow> bytes \<Rightarrow> u32 \<Rightarrow> bytes \<Rightarrow> Package" where
  "PackageFileError data_span errno errorcode serialno alias fsize creationdate packagecount error_msg =
     (if errno \<noteq> ENOENT then
        packed (flag_pieces FLER @ error_code_pieces errorcode errno @ u32_pieces serialno @ text_pieces alias @ u32_pieces fsize
          @ text_pieces creationdate @ u32_pieces packagecount @ (if error_msg \<noteq> [] then text_pieces error_msg else []) @ flag_pieces FLER)
          (if error_msg \<noteq> [] then kFlerFileNor + 1 else kFlerFileNor) data_span
      else
        packed (flag_pieces FLER @ error_code_pieces errorcode errno @ text_pieces alias @ flag_pieces FLER) kFlerNoFileNor data_span)"

definition PackageFileInformation :: "bytes \<Rightarrow> u32 \<Rightarrow> bytes \<Rightarrow> u32 \<Rightarrow> bytes \<Rightarrow> u32 \<Rightarrow> Package" where
  "PackageFileInformation data_span serialno alias fsize creationdate packagecount =
     (let buffersize_max = 4 + 2 + 5 + 4 + 4 + 4 + 2 + (length alias + 1) + 4 + 4 + 4 + 2 + (length creationdate + 1)
            + 4 + 4 + 4 + 2 + 5 in
      if length data_span < buffersize_max then NoPackage
      else packed (flag_pieces FLIF @ u32_pieces serialno @ text_pieces alias @ u32_pieces fsize @ text_pieces creationdate
             @ u32_pieces packagecount @ flag_pieces FLIF) kFlifNor data_span)"

section \<open>The handler\<close>

record FileTransferEntry =
  fte_appid :: id4
  fte_ctxid :: id4
  fte_file_name :: bytes
  fte_delete_file :: u8

record FtMessage =
  ft_data :: bytes
  ft_level :: u8
  ft_app :: id4
  ft_ctx :: id4
  ft_nor :: u8
  ft_tmsp :: u32

record FileTransferStreamHandler =
  container :: "FileTransferEntry list"
  readfile :: bytes
  creationdate :: bytes
  ft_appid :: id4
  ft_ctxid :: id4
  serialno :: u32
  ft_fsize :: u32
  packagecount :: u32
  ft_sent :: "FtMessage list"
  ft_removed :: "bytes list"

definition NewFileTransferStreamHandler :: FileTransferStreamHandler where
  "NewFileTransferStreamHandler = \<lparr>container = [], readfile = [], creationdate = [], ft_appid = (0, 0, 0, 0), ft_ctxid = (0, 0, 0, 0),
     serialno = 0, ft_fsize = 0, packagecount = 0, ft_sent = [], ft_removed = []\<rparr>"

record StatBuffer =
  st_ino :: u64
  st_size :: u64
  st_ctime :: u64

text \<open>
  The environment of one transfer: the file system, the clock at the message of a given
  number, \<^verbatim>\<open>errno\<close>, and the exit request as it is read at the four places that look at it.
\<close>

record FtEnv =
  env_stat :: "bytes \<Rightarrow> StatBuffer option"
  env_base_name :: "bytes \<Rightarrow> bytes"
  env_put_time :: "u64 \<Rightarrow> bytes option"
  env_char_value :: "byte \<Rightarrow> u32"
  env_fopen :: bool
  env_fseek :: "u32 \<Rightarrow> bool"
  env_fread :: "u32 \<Rightarrow> nat \<Rightarrow> bytes"
  env_errno :: u32
  env_kError :: u8
  env_kInfo :: u8
  env_tmsp :: "nat \<Rightarrow> u32"
  exit_at_header :: bool
  exit_at_data :: bool
  exit_at_end :: bool
  exit_at_error :: bool

definition Ft_Handle :: "bool \<Rightarrow> FileTransferEntry \<Rightarrow> FileTransferStreamHandler \<Rightarrow> FileTransferStreamHandler" where
  "Ft_Handle output_enabled e h = (if \<not> output_enabled then h else h\<lparr>container := container h @ [e]\<rparr>)"

definition get_file_serial_number :: "FtEnv \<Rightarrow> StatBuffer \<Rightarrow> bytes \<Rightarrow> u32" where
  "get_file_serial_number env st file =
     (if file = [] then 0
      else
        let hash = (ucast (st_ino st) :: u32);
            hash = push_bit 16 hash;
            hash = hash OR ucast (st_size st);
            hash = hash XOR ucast (st_ctime st)
        in foldl (\<lambda>hash c. 53 * hash + env_char_value env c) hash file)"

definition getpackages_count :: "u32 \<Rightarrow> u32" where
  "getpackages_count fsize =
     (if fsize < word_of_nat kBufferSize then 1
      else
        let packages = fsize div word_of_nat kBufferSize
        in if fsize mod word_of_nat kBufferSize = 0 then packages else packages + 1)"

definition ReadFileHeaderInfo :: "FtEnv \<Rightarrow> bytes \<Rightarrow> FileTransferStreamHandler \<Rightarrow> bool \<times> FileTransferStreamHandler" where
  "ReadFileHeaderInfo env filename h =
     (case env_stat env filename of
        None \<Rightarrow> (False, h)
      | Some st \<Rightarrow>
          (True, h\<lparr>serialno := get_file_serial_number env st filename, ft_fsize := ucast (st_size st),
             creationdate := (case env_put_time env (st_ctime st) of Some d \<Rightarrow> d | None \<Rightarrow> []),
             packagecount := getpackages_count (ucast (st_size st))\<rparr>))"

definition SendFt :: "FtEnv \<Rightarrow> bytes \<Rightarrow> u8 \<Rightarrow> u8 \<Rightarrow> FileTransferStreamHandler \<Rightarrow> FileTransferStreamHandler" where
  "SendFt env data' level nor h =
     h\<lparr>ft_sent := ft_sent h @ [\<lparr>ft_data = data', ft_level = level, ft_app = ft_appid h, ft_ctx = ft_ctxid h, ft_nor = nor,
         ft_tmsp = env_tmsp env (length (ft_sent h))\<rparr>]\<rparr>"

definition remove_from_file_queue :: "FileTransferStreamHandler \<Rightarrow> FileTransferStreamHandler" where
  "remove_from_file_queue h =
     (case container h of
        [] \<Rightarrow> h
      | e # rest \<Rightarrow> h\<lparr>container := rest, ft_removed := (if fte_delete_file e \<noteq> 0 then ft_removed h @ [readfile h] else ft_removed h)\<rparr>)"

definition zeroes :: "nat \<Rightarrow> bytes" where "zeroes n = replicate n 0"

definition LogFileError :: "FtEnv \<Rightarrow> u16 \<Rightarrow> bytes \<Rightarrow> FileTransferStreamHandler \<Rightarrow> FileTransferStreamHandler option" where
  "LogFileError env errorcode error_msg h =
     (if exit_at_error env then Some h
      else
        case PackageFileError (zeroes kBufferSize) (env_errno env) errorcode (serialno h) (env_base_name env (readfile h)) (ft_fsize h)
            (creationdate h) (packagecount h) error_msg of
          Overrun \<Rightarrow> None
        | Packed data_output number_of_args \<Rightarrow> Some (remove_from_file_queue (SendFt env data_output (env_kError env) number_of_args h))
        | NoPackage \<Rightarrow> Some (remove_from_file_queue h))"

definition LogFileEnd :: "FtEnv \<Rightarrow> FileTransferStreamHandler \<Rightarrow> FileTransferStreamHandler option" where
  "LogFileEnd env h =
     (if exit_at_end env then Some h
      else
        case PackageFileEnd (zeroes kBufferSize) (serialno h) of
          Overrun \<Rightarrow> None
        | Packed data_output number_of_args \<Rightarrow> Some (remove_from_file_queue (SendFt env data_output (env_kInfo env) number_of_args h))
        | NoPackage \<Rightarrow> Some (remove_from_file_queue h))"

text \<open>The result says whether the header was sent; without it the error has been reported.\<close>

definition LogFileHeader :: "FtEnv \<Rightarrow> FileTransferStreamHandler \<Rightarrow> (bool \<times> FileTransferStreamHandler) option" where
  "LogFileHeader env h =
     (let (ok, h) = ReadFileHeaderInfo env (readfile h) h;
          failed = (\<lambda>h. map_option (Pair False) (LogFileError env kDltFiletransferErrorFileHead [] h))
      in if ok \<and> \<not> exit_at_header env then
           (case PackageFileHeader (zeroes kBufferSize) (serialno h) (env_base_name env (readfile h)) (ft_fsize h) (creationdate h) (packagecount h) of
              Overrun \<Rightarrow> None
            | Packed data_output number_of_args \<Rightarrow> Some (True, SendFt env data_output (env_kInfo env) number_of_args h)
            | NoPackage \<Rightarrow> failed h)
         else failed h)"

definition format_error :: bytes where
  "format_error = map of_char ''Unable to format data package''"

text \<open>The packages from \<open>pkgno\<close> on, \<open>n\<close> of them; the end is sent when all are through.\<close>

fun send_packages :: "FtEnv \<Rightarrow> nat \<Rightarrow> u32 \<Rightarrow> FileTransferStreamHandler \<Rightarrow> FileTransferStreamHandler option" where
  "send_packages env 0 pkgno h = LogFileEnd env h"
| "send_packages env (Suc n) pkgno h =
     (case PackageFileData (zeroes kDatapkgsize) (env_fseek env) (env_fread env) (serialno h) pkgno of
        Overrun \<Rightarrow> None
      | NoPackage \<Rightarrow> LogFileError env kDltFiletransferErrorFileData format_error h
      | Packed data_packet number_of_args \<Rightarrow> send_packages env n (pkgno + 1) (SendFt env data_packet (env_kInfo env) number_of_args h))"

definition LogFileData :: "FtEnv \<Rightarrow> FileTransferStreamHandler \<Rightarrow> FileTransferStreamHandler option" where
  "LogFileData env h =
     (if env_fopen env \<and> \<not> exit_at_data env then send_packages env (unat (packagecount h)) 1 h
      else LogFileError env kDltFiletransferErrorFileData [] h)"

text \<open>One round of the thread.\<close>

definition process_round :: "FtEnv \<Rightarrow> FileTransferStreamHandler \<Rightarrow> FileTransferStreamHandler option" where
  "process_round env h =
     (case container h of
        [] \<Rightarrow> Some h
      | e # _ \<Rightarrow>
          (case LogFileHeader env (h\<lparr>ft_appid := fte_appid e, ft_ctxid := fte_ctxid e, readfile := fte_file_name e\<rparr>) of
             None \<Rightarrow> None
           | Some (ok, h) \<Rightarrow> if ok then LogFileData env h else Some h))"

section \<open>What a package holds\<close>

definition pieces_bytes :: "piece list \<Rightarrow> bytes" where
  "pieces_bytes ps = concat (map (\<lambda>(src, step). src @ zeroes (step - length src)) ps)"

lemma pieces_bytes_simps [simp]:
  "pieces_bytes [] = []"
  "pieces_bytes ((src, step) # ps) = src @ zeroes (step - length src) @ pieces_bytes ps"
  "pieces_bytes (ps @ qs) = pieces_bytes ps @ pieces_bytes qs"
  by (simp_all add: pieces_bytes_def)

lemma length_zeroes [simp]: "length (zeroes n) = n"
  by (simp add: zeroes_def)

lemma zeroes_split: "k \<le> n \<Longrightarrow> zeroes n = zeroes k @ zeroes (n - k)"
  by (simp add: zeroes_def flip: replicate_add)

lemma zeroes_0 [simp]: "zeroes 0 = []" "zeroes (Suc 0) = [0]"
  by (simp_all add: zeroes_def)

lemma copy_pieces_append:
  "copy_pieces (ps @ qs) n b = (case copy_pieces ps n b of None \<Rightarrow> None | Some (m, b') \<Rightarrow> copy_pieces qs m b')"
  by (induction ps n b rule: copy_pieces.induct) simp_all

lemma copy_pieces_size:
  "copy_pieces ps n b = Some (m, b') \<Longrightarrow> m = n + sum_list (map snd ps) \<and> length b' = length b"
  by (induction ps n b rule: copy_pieces.induct) (simp_all split: if_splits)

lemma copy_pieces_zeroes:
  assumes "list_all (\<lambda>(src, step). length src \<le> step) ps" "length (pieces_bytes ps) \<le> k"
  shows "copy_pieces ps (length d) (d @ zeroes k) =
    Some (length d + length (pieces_bytes ps), d @ pieces_bytes ps @ zeroes (k - length (pieces_bytes ps)))"
  using assms
proof (induction ps arbitrary: d k)
  case (Cons p ps)
  obtain src step where p: "p = (src, step)" by fastforce
  let ?d = "d @ src @ zeroes (step - length src)"
  from Cons.prems p have le: "length src \<le> step" "step + length (pieces_bytes ps) \<le> k" by simp_all
  then have "put_at (length d) src (d @ zeroes k) = d @ src @ zeroes (k - length src)"
    by (simp add: put_at_def zeroes_def)
  also have "\<dots> = ?d @ zeroes (k - step)"
    using le zeroes_split [of "step - length src" "k - length src"] by simp
  finally show ?case
    using Cons.IH [of "k - step" ?d] Cons.prems p le by simp
qed simp

lemma copy_pieces_overrun:
  assumes "length b < n + sum_list (map snd ps) + length src"
  shows "copy_pieces (ps @ [(src, step)]) n b = None"
  using assms copy_pieces_size [of ps n b] by (auto simp: copy_pieces_append split: option.splits)

lemma sum_snd_pieces:
  "list_all (\<lambda>(src, step). length src \<le> step) ps \<Longrightarrow> sum_list (map snd ps) = length (pieces_bytes ps)"
  by (induction ps) auto

lemma packed_zeroes:
  assumes "list_all (\<lambda>(src, step). length src \<le> step) ps"
  shows "packed (ps @ [(src, length src)]) nor (zeroes k) =
    (if length (pieces_bytes ps) + length src \<le> k then Packed (pieces_bytes ps @ src) nor else Overrun)"
  using assms copy_pieces_zeroes [of "ps @ [(src, length src)]" k "[]"] copy_pieces_overrun [of "zeroes k" 0 ps src "length src"]
  by (auto simp: packed_def sum_snd_pieces subspan_def)

text \<open>The packages as lists of DLT arguments.\<close>

abbreviation U32 :: "u32 \<Rightarrow> DltArg" where "U32 v \<equiv> DInt False (le32 v) 0"
abbreviation U16 :: "u16 \<Rightarrow> DltArg" where "U16 v \<equiv> DInt False (le16 v) 0"
abbreviation S16 :: "u16 \<Rightarrow> DltArg" where "S16 v \<equiv> DInt True (le16 v) 0"

definition flag :: "bytes \<Rightarrow> DltArg" where "flag transfer_type = DString (butlast transfer_type)"

definition header_args :: "u32 \<Rightarrow> bytes \<Rightarrow> u32 \<Rightarrow> bytes \<Rightarrow> u32 \<Rightarrow> DltArg list" where
  "header_args serial alias size' date count =
     [flag FLST, U32 serial, DString alias, U32 size', DString date, U32 count, U16 1024, flag FLST]"

definition data_args :: "u32 \<Rightarrow> u32 \<Rightarrow> bytes \<Rightarrow> DltArg list" where
  "data_args serial pkgno chunk = [flag FLDA, U32 serial, U32 pkgno, DRaw chunk, flag FLDA]"

definition end_args :: "u32 \<Rightarrow> DltArg list" where
  "end_args serial = [flag FLFI, U32 serial, flag FLFI]"

definition information_args :: "u32 \<Rightarrow> bytes \<Rightarrow> u32 \<Rightarrow> bytes \<Rightarrow> u32 \<Rightarrow> DltArg list" where
  "information_args serial alias size' date count =
     [flag FLIF, U32 serial, DString alias, U32 size', DString date, U32 count, flag FLIF]"

definition error_args :: "u32 \<Rightarrow> u16 \<Rightarrow> u32 \<Rightarrow> bytes \<Rightarrow> u32 \<Rightarrow> bytes \<Rightarrow> u32 \<Rightarrow> bytes \<Rightarrow> DltArg list" where
  "error_args errno errorcode serial alias size' date count msg =
     (if errno \<noteq> ENOENT then
        [flag FLER, S16 errorcode, S16 (ucast errno), U32 serial, DString alias, U32 size', DString date, U32 count]
        @ (if msg \<noteq> [] then [DString msg] else []) @ [flag FLER]
      else [flag FLER, S16 errorcode, S16 (ucast errno), DString alias, flag FLER])"

abbreviation args_bytes :: "DltArg list \<Rightarrow> bytes" where
  "args_bytes as \<equiv> concat (map arg_bytes as)"

lemmas package_args_defs = header_args_def data_args_def end_args_def information_args_def error_args_def flag_def
  FLST_def FLDA_def FLFI_def FLER_def FLIF_def

lemma piece_args:
  "pieces_bytes (u32_pieces v) = arg_bytes (U32 v)"
  "pieces_bytes (text_pieces t) = arg_bytes (DString t)"
  "length tt = 5 \<Longrightarrow> last tt = 0 \<Longrightarrow> pieces_bytes (flag_pieces tt) = arg_bytes (flag tt)"
  "pieces_bytes [type_piece (DLT_TYPE_INFO_UINT OR DLT_TYLE_16BIT), (le16 w, 2)] = arg_bytes (U16 w)"
  "pieces_bytes [type_piece DLT_TYPE_INFO_RAWD, (le16 (word_of_nat (length d)), 2), (d, length d)] = arg_bytes (DRaw d)"
proof -
  show "length tt = 5 \<Longrightarrow> last tt = 0 \<Longrightarrow> pieces_bytes (flag_pieces tt) = arg_bytes (flag tt)"
    by (cases tt rule: rev_cases) (simp_all add: flag_pieces_def flag_def type_piece_def ft_type_consts)
qed (simp_all add: u32_pieces_def text_pieces_def type_piece_def ft_type_consts length_code_def)

lemma pieces_fit [simp]:
  "list_all (\<lambda>(src, step). length src \<le> step) (u32_pieces v)"
  "list_all (\<lambda>(src, step). length src \<le> step) (text_pieces t)"
  "length tt = 5 \<Longrightarrow> list_all (\<lambda>(src, step). length src \<le> step) (flag_pieces tt)"
  "list_all (\<lambda>(src, step). length src \<le> step) [type_piece ti]"
  by (simp_all add: u32_pieces_def text_pieces_def flag_pieces_def type_piece_def)

lemma flags [simp]: "tt \<in> {FLST, FLDA, FLFI, FLER, FLIF} \<Longrightarrow> length tt = 5 \<and> last tt = 0"
  by (auto simp: package_args_defs)

text \<open>Every package ends with its flag, so it overruns the buffer exactly when its arguments are longer.\<close>

lemma packed_args:
  assumes "list_all (\<lambda>(src, step). length src \<le> step) ps" "length tt = 5" "last tt = 0" "pieces_bytes ps = args_bytes as"
  shows "packed (ps @ flag_pieces tt) nor (zeroes k) =
    (if length (args_bytes (as @ [flag tt])) \<le> k then Packed (args_bytes (as @ [flag tt])) nor else Overrun)"
proof -
  obtain qs where qs: "flag_pieces tt = qs @ [(tt, length tt)]" "list_all (\<lambda>(src, step). length src \<le> step) qs"
    using assms(2) by (simp add: flag_pieces_def type_piece_def)
  have "pieces_bytes (ps @ qs) @ tt = args_bytes (as @ [flag tt])"
    using assms piece_args(3) [of tt] qs by simp
  then show ?thesis
    using packed_zeroes [of "ps @ qs" tt nor k] assms(1) qs by (simp flip: length_append)
qed

text \<open>The fourth byte group of \<^verbatim>\<open>errno\<close> is overwritten by what follows.\<close>

lemma errno_overwritten:
  assumes "length e = 4" "length t = 4"
  shows "copy_pieces ((e, 2) # (t, 4) # ps) n b = copy_pieces ((take 2 e, 2) # (t, 4) # ps) n b"
proof (cases "n + 6 \<le> length b")
  case True
  have "put_at (n + 2) t (put_at n e b) = put_at (n + 2) t (put_at n (take 2 e) b)"
    using True assms by (simp add: put_at_def take_Cons' drop_Cons')
  with True assms show ?thesis by simp
qed (use assms in auto)

lemma packed_cong:
  "copy_pieces qs = copy_pieces qs' \<Longrightarrow> packed (ps @ qs) nor b = packed (ps @ qs') nor b"
  by (auto simp: packed_def copy_pieces_append split: option.splits)

lemma take_le32: "take 2 (le32 w) = le16 (ucast w)"
proof -
  have "unat (ucast w :: u16) = unat w mod (256 * 256)"
    by (simp add: unsigned_ucast_eq take_bit_eq_mod)
  then have "unat (ucast w :: u16) mod 256 = unat w mod 256" "unat (ucast w :: u16) div 256 mod 256 = unat w div 256 mod 256"
    by (simp_all only: mod_mult2_eq) simp_all
  moreover have "(4::nat) = Suc (Suc (Suc (Suc 0)))" "(2::nat) = Suc (Suc 0)" by simp_all
  ultimately show ?thesis
    unfolding le32_def le16_def by (simp only: le_image.simps take_Suc_Cons take_0)
qed

lemma code_piece: "pieces_bytes [type_piece (DLT_TYPE_INFO_SINT OR DLT_TYLE_16BIT), (le16 w, 2)] = arg_bytes (S16 w)"
  by (simp add: type_piece_def ft_type_consts length_code_def)

text \<open>The error package: its size decides whether it stays within the buffer.\<close>

lemma packed_error:
  assumes "list_all (\<lambda>(src, step). length src \<le> step) ps" "pieces_bytes (type_piece ti # ps) = args_bytes as"
  shows "packed (flag_pieces FLER @ error_code_pieces errorcode errno @ (type_piece ti # ps) @ flag_pieces FLER) nor (zeroes k) =
    (let args = [flag FLER, S16 errorcode, S16 (ucast errno)] @ as @ [flag FLER] in
     if length (args_bytes args) \<le> k then Packed (args_bytes args) nor else Overrun)"
proof -
  let ?sint = "type_piece (DLT_TYPE_INFO_SINT OR DLT_TYLE_16BIT)"
  let ?pre = "flag_pieces FLER @ [?sint, (le16 errorcode, 2), ?sint]"
  have "packed (flag_pieces FLER @ error_code_pieces errorcode errno @ (type_piece ti # ps) @ flag_pieces FLER) nor (zeroes k) =
      packed (?pre @ (le32 errno, 2) # (le32 ti, 4) # ps @ flag_pieces FLER) nor (zeroes k)"
    by (simp add: error_code_pieces_def type_piece_def)
  also have "\<dots> = packed (?pre @ (le16 (ucast errno), 2) # (le32 ti, 4) # ps @ flag_pieces FLER) nor (zeroes k)"
    by (rule packed_cong) (intro ext, simp only: errno_overwritten [OF length_le32 length_le32] take_le32)
  also have "\<dots> = packed ((?pre @ (le16 (ucast errno), 2) # type_piece ti # ps) @ flag_pieces FLER) nor (zeroes k)"
    by (simp add: type_piece_def)
  also have "\<dots> = (let args = [flag FLER, S16 errorcode, S16 (ucast errno)] @ as @ [flag FLER] in
     if length (args_bytes args) \<le> k then Packed (args_bytes args) nor else Overrun)"
  proof -
    have "pieces_bytes (?pre @ (le16 (ucast errno), 2) # type_piece ti # ps) = args_bytes ([flag FLER, S16 errorcode, S16 (ucast errno)] @ as)"
      using assms(2) piece_args(3) [of FLER] code_piece [of errorcode] code_piece [of "ucast errno"] by (simp add: type_piece_def)
    from packed_args [OF _ _ _ this, of FLER nor k] assms(1) show ?thesis
      by (simp add: type_piece_def)
  qed
  finally show ?thesis .
qed

lemma PackageFileHeader_args:
  "PackageFileHeader (zeroes k) serial alias size' date count =
    (if length (args_bytes (header_args serial alias size' date count)) \<le> k
     then Packed (args_bytes (header_args serial alias size' date count)) kFlstNor else NoPackage)"
proof -
  let ?ps = "flag_pieces FLST @ u32_pieces serial @ text_pieces alias @ u32_pieces size' @ text_pieces date
    @ u32_pieces count @ [type_piece (DLT_TYPE_INFO_UINT OR DLT_TYLE_16BIT), (le16 (word_of_nat kBufferSize), 2)]"
  let ?as = "[flag FLST, U32 serial, DString alias, U32 size', DString date, U32 count, U16 1024]"
  have "pieces_bytes ?ps = args_bytes ?as"
    using piece_args(3) [of FLST] by (simp del: pieces_bytes_simps(2) add: piece_args kBufferSize_def)
  moreover have "header_args serial alias size' date count = ?as @ [flag FLST]" by (simp add: header_args_def)
  ultimately show ?thesis
    using packed_args [of ?ps FLST ?as kFlstNor k]
    by (simp add: PackageFileHeader_def flag_def FLST_def type_piece_def)
qed

lemma PackageFileInformation_args:
  "PackageFileInformation (zeroes k) serial alias size' date count =
    (if length (args_bytes (information_args serial alias size' date count)) \<le> k
     then Packed (args_bytes (information_args serial alias size' date count)) kFlifNor else NoPackage)"
proof -
  let ?ps = "flag_pieces FLIF @ u32_pieces serial @ text_pieces alias @ u32_pieces size' @ text_pieces date @ u32_pieces count"
  let ?as = "[flag FLIF, U32 serial, DString alias, U32 size', DString date, U32 count]"
  have "pieces_bytes ?ps = args_bytes ?as"
    using piece_args(3) [of FLIF] by (simp del: pieces_bytes_simps(2) add: piece_args)
  moreover have "information_args serial alias size' date count = ?as @ [flag FLIF]" by (simp add: information_args_def)
  ultimately show ?thesis
    using packed_args [of ?ps FLIF ?as kFlifNor k]
    by (simp add: PackageFileInformation_def flag_def FLIF_def type_piece_def)
qed

lemma PackageFileEnd_args:
  "PackageFileEnd (zeroes k) serial =
    (if length (args_bytes (end_args serial)) \<le> k then Packed (args_bytes (end_args serial)) kFlfiNor else NoPackage)"
proof -
  let ?ps = "flag_pieces FLFI @ u32_pieces serial"
  have "pieces_bytes ?ps = args_bytes [flag FLFI, U32 serial]"
    using piece_args(3) [of FLFI] by (simp del: pieces_bytes_simps(2) add: piece_args)
  then show ?thesis
    using packed_args [of ?ps FLFI "[flag FLFI, U32 serial]" kFlfiNor k]
    by (simp add: PackageFileEnd_def end_args_def flag_def FLFI_def)
qed

lemma PackageFileData_args:
  assumes "seek ((pkgno - 1) * word_of_nat kBufferSize)" "length (read ((pkgno - 1) * word_of_nat kBufferSize) kBufferSize) \<le> kBufferSize"
  shows "PackageFileData (zeroes kDatapkgsize) seek read serial pkgno =
    Packed (args_bytes (data_args serial pkgno (read ((pkgno - 1) * word_of_nat kBufferSize) kBufferSize))) kFldaNor"
proof -
  let ?d = "read ((pkgno - 1) * word_of_nat kBufferSize) kBufferSize"
  let ?ps = "flag_pieces FLDA @ u32_pieces serial @ u32_pieces pkgno @
    [type_piece DLT_TYPE_INFO_RAWD, (le16 (word_of_nat (length ?d)), 2), (?d, length ?d)]"
  let ?as = "[flag FLDA, U32 serial, U32 pkgno, DRaw ?d]"
  have "pieces_bytes ?ps = args_bytes ?as"
    using piece_args(3) [of FLDA] by (simp del: pieces_bytes_simps(2) add: piece_args)
  then show ?thesis
    using packed_args [of ?ps FLDA ?as kFldaNor kDatapkgsize] assms
    by (simp add: PackageFileData_def Let_def data_args_def flag_def FLDA_def type_piece_def ft_consts)
qed

lemma PackageFileError_args:
  "PackageFileError (zeroes k) errno errorcode serial alias size' date count msg =
    (let args = error_args errno errorcode serial alias size' date count msg in
     if length (args_bytes args) \<le> k then Packed (args_bytes args) (word_of_nat (length args)) else Overrun)"
proof (cases "errno = ENOENT")
  case True
  let ?ps = "[(le16 (word_of_nat (length alias + 1)), 2), (alias, length alias + 1)]"
  have "text_pieces alias = type_piece (DLT_TYPE_INFO_STRG OR DLT_SCOD_UTF8) # ?ps" by (simp add: text_pieces_def)
  with packed_error [of ?ps "DLT_TYPE_INFO_STRG OR DLT_SCOD_UTF8" "[DString alias]" errorcode errno kFlerNoFileNor k] piece_args(2) [of "alias"] True
  show ?thesis by (simp add: PackageFileError_def error_args_def Let_def kFlerNoFileNor_def)
next
  case False
  let ?tail = "text_pieces alias @ u32_pieces size' @ text_pieces date @ u32_pieces count @ (if msg \<noteq> [] then text_pieces msg else [])"
  let ?as = "[U32 serial, DString alias, U32 size', DString date, U32 count] @ (if msg \<noteq> [] then [DString msg] else [])"
  have u: "u32_pieces serial = type_piece (DLT_TYPE_INFO_UINT OR DLT_TYLE_32BIT) # [(le32 serial, 4)]" by (simp add: u32_pieces_def)
  have "pieces_bytes (u32_pieces serial @ ?tail) = args_bytes ?as"
    by (simp del: pieces_bytes_simps(2) add: piece_args)
  with packed_error [of "(le32 serial, 4) # ?tail" "DLT_TYPE_INFO_UINT OR DLT_TYLE_32BIT" ?as errorcode errno] False u
  show ?thesis by (simp add: PackageFileError_def error_args_def Let_def kFlerFileNor_def)
qed

section \<open>A whole transfer\<close>

definition chunk :: "bytes \<Rightarrow> nat \<Rightarrow> bytes" where
  "chunk F i = take 1024 (drop (1024 * i) F)"

text \<open>The environment lets the whole file be read, and no exit is requested.\<close>

definition serves :: "FtEnv \<Rightarrow> bytes \<Rightarrow> bool" where
  "serves env F \<longleftrightarrow> env_fopen env \<and> (\<forall>p. env_fseek env p) \<and> (\<forall>p n. env_fread env p n = take n (drop (unat p) F)) \<and>
     \<not> exit_at_header env \<and> \<not> exit_at_data env \<and> \<not> exit_at_end env \<and> \<not> exit_at_error env"

definition SendArgs :: "FtEnv \<Rightarrow> DltArg list \<Rightarrow> FileTransferStreamHandler \<Rightarrow> FileTransferStreamHandler" where
  "SendArgs env as h = SendFt env (args_bytes as) (env_kInfo env) (word_of_nat (length as)) h"

definition carries :: "u8 \<Rightarrow> id4 \<Rightarrow> id4 \<Rightarrow> DltArg list \<Rightarrow> FtMessage \<Rightarrow> bool" where
  "carries level app ctx as m \<longleftrightarrow> ft_data m = args_bytes as \<and> ft_nor m = word_of_nat (length as) \<and> ft_level m = level \<and>
     ft_app m = app \<and> ft_ctx m = ctx"

lemma SendArgs_serialno [simp]: "serialno (SendArgs env as h) = serialno h"
  by (simp add: SendArgs_def SendFt_def)

lemma fold_SendArgs:
  "\<exists>ms. fold (SendArgs env) ass h = h\<lparr>ft_sent := ft_sent h @ ms\<rparr> \<and> list_all2 (carries (env_kInfo env) (ft_appid h) (ft_ctxid h)) ass ms"
proof (induction ass arbitrary: h)
  case (Cons as ass)
  obtain m where m: "SendArgs env as h = h\<lparr>ft_sent := ft_sent h @ [m]\<rparr>" "carries (env_kInfo env) (ft_appid h) (ft_ctxid h) as m"
    by (simp add: SendArgs_def SendFt_def carries_def)
  from Cons.IH [of "SendArgs env as h"] m(1) obtain ms where
    "fold (SendArgs env) ass (SendArgs env as h) = h\<lparr>ft_sent := ft_sent h @ m # ms\<rparr>"
    "list_all2 (carries (env_kInfo env) (ft_appid h) (ft_ctxid h)) ass ms"
    by auto
  with m(2) show ?case by (intro exI [of _ "m # ms"]) simp
qed simp

lemma concat_chunks: "concat (map (chunk F) [0..<n]) = take (1024 * n) F"
proof (induction n)
  case (Suc n)
  have "take (1024 * Suc n) F = take (1024 * n) F @ take 1024 (drop (1024 * n) F)"
    using take_add [of "1024 * n" 1024 F] by (simp add: add.commute)
  with Suc show ?case by (simp add: chunk_def)
qed simp

lemma getpackages_count_ceil:
  fixes fs :: u32
  shows "unat (getpackages_count fs) =
      (if unat fs < 1024 then 1 else unat fs div 1024 + (if unat fs mod 1024 = 0 then 0 else 1))"
    and "unat (getpackages_count fs) \<le> 2 ^ 22"
    and "unat fs \<le> 1024 * unat (getpackages_count fs)"
proof -
  have b: "unat fs < 2 ^ 32" using unat_bound [of fs] by simp
  have d: "unat (fs div 1024) = unat fs div 1024" "unat (fs mod 1024) = unat fs mod 1024"
    by (simp_all add: unat_div unat_mod)
  have "unat (fs div 1024 + 1) = unat fs div 1024 + 1"
    using b d by (subst unat_add_lem [THEN iffD1]) auto
  then show eq: "unat (getpackages_count fs) =
      (if unat fs < 1024 then 1 else unat fs div 1024 + (if unat fs mod 1024 = 0 then 0 else 1))"
    using d by (simp add: getpackages_count_def kBufferSize_def Let_def word_less_nat_alt unat_eq_iff_word)
  from b have "unat fs div 1024 < 2 ^ 22" by simp
  with eq show "unat (getpackages_count fs) \<le> 2 ^ 22" by simp
  have "unat fs = 1024 * (unat fs div 1024) + unat fs mod 1024" "unat fs mod 1024 < 1024" by simp_all
  with eq show "unat fs \<le> 1024 * unat (getpackages_count fs)"
    by (cases "unat fs mod 1024 = 0") (simp_all, linarith+)
qed

lemma data_package:
  assumes "serves env F" "j < 2 ^ 22"
  shows "PackageFileData (zeroes kDatapkgsize) (env_fseek env) (env_fread env) serial (word_of_nat (Suc j)) =
    Packed (args_bytes (data_args serial (word_of_nat (Suc j)) (chunk F j))) kFldaNor"
proof -
  have "(word_of_nat (Suc j) - 1) * word_of_nat kBufferSize = (word_of_nat (1024 * j) :: u32)"
    by (simp add: kBufferSize_def)
  moreover have "unat (word_of_nat (1024 * j) :: u32) = 1024 * j"
    using assms(2) by (intro unat_word_of_nat) simp
  ultimately show ?thesis
    using assms(1) by (subst PackageFileData_args) (simp_all add: serves_def chunk_def kBufferSize_def mult.commute)
qed

lemma send_packages_all:
  assumes "serves env F" "j + n \<le> 2 ^ 22"
  shows "send_packages env n (word_of_nat (Suc j)) h =
    LogFileEnd env (fold (SendArgs env) (map (\<lambda>i. data_args (serialno h) (word_of_nat (Suc i)) (chunk F i)) [j..<j + n]) h)"
  using assms(2)
proof (induction n arbitrary: j h)
  case (Suc n)
  have "SendFt env (args_bytes (data_args a b c)) (env_kInfo env) kFldaNor = SendArgs env (data_args a b c)" for a b c
    by (simp add: fun_eq_iff SendArgs_def data_args_def kFldaNor_def)
  moreover have "[j..<j + Suc n] = j # [Suc j..<Suc j + n]" by (simp add: upt_conv_Cons)
  ultimately show ?case
    using Suc.IH [of "Suc j"] Suc.prems data_package [OF assms(1), of j "serialno h"]
    by (simp del: upt_Suc)
qed simp

lemma LogFileEnd_done:
  assumes "\<not> exit_at_end env"
  shows "LogFileEnd env h = Some (remove_from_file_queue (SendArgs env (end_args (serialno h)) h))"
  using assms PackageFileEnd_args [of kBufferSize "serialno h"]
  by (simp add: LogFileEnd_def SendArgs_def end_args_def flag_def FLFI_def ft_consts)

lemma LogFileHeader_done:
  assumes "\<not> exit_at_header env" "env_stat env (readfile h) = Some st"
    and d: "date = (case env_put_time env (st_ctime st) of Some d \<Rightarrow> d | None \<Rightarrow> [])"
    and h': "h' = h\<lparr>serialno := get_file_serial_number env st (readfile h), ft_fsize := ucast (st_size st),
      creationdate := date, packagecount := getpackages_count (ucast (st_size st))\<rparr>"
    and "length (env_base_name env (readfile h)) + length date \<le> 949"
  shows "LogFileHeader env h = Some (True, SendArgs env (header_args (serialno h') (env_base_name env (readfile h)) (ft_fsize h') date (packagecount h')) h')"
  using assms PackageFileHeader_args [of kBufferSize]
  by (simp add: LogFileHeader_def ReadFileHeaderInfo_def SendArgs_def header_args_def flag_def FLST_def ft_consts)

lemma header_args_ok: "length alias' + length date \<le> 949 \<Longrightarrow> list_all arg_ok (header_args a alias' b date c)"
  by (simp add: header_args_def flag_def FLST_def)

lemma data_args_ok: "list_all arg_ok (data_args a b (chunk F i))"
  by (simp add: data_args_def flag_def FLDA_def chunk_def)

lemma end_args_ok: "list_all arg_ok (end_args a)"
  by (simp add: end_args_def flag_def FLFI_def)

lemmas transfer_args_ok = header_args_ok data_args_ok end_args_ok

lemma carried_parse:
  "list_all2 (carries level app ctx) ass ms \<Longrightarrow> list_all (list_all arg_ok) ass \<Longrightarrow>
    map (parse_args \<circ> ft_data) ms = map Some ass \<and>
    map ft_nor ms = map (word_of_nat \<circ> length) ass \<and> (\<forall>m \<in> set ms. ft_level m = level \<and> ft_app m = app \<and> ft_ctx m = ctx)"
  by (induction rule: list_all2_induct) (auto simp: carries_def parse_args_bytes)

lemma process_round_sends:
  assumes front: "container h = e # rest" and stat: "env_stat env (fte_file_name e) = Some st"
    and content: "unat (st_size st) = length F" "length F < 2 ^ 32" "serves env F"
    and d: "date = (case env_put_time env (st_ctime st) of Some d \<Rightarrow> d | None \<Rightarrow> [])"
    and fits: "length (env_base_name env (fte_file_name e)) + length date \<le> 949"
    and serial: "serial = get_file_serial_number env st (fte_file_name e)"
    and n: "n = unat (getpackages_count (word_of_nat (length F)))"
    and ass: "ass = [header_args serial (env_base_name env (fte_file_name e)) (word_of_nat (length F)) date (word_of_nat n)] @
      map (\<lambda>i. data_args serial (word_of_nat (Suc i)) (chunk F i)) [0..<n] @ [end_args serial]"
  shows "\<exists>h'. process_round env h = Some (remove_from_file_queue (fold (SendArgs env) ass h')) \<and>
    ft_sent h' = ft_sent h \<and> ft_removed h' = ft_removed h \<and> container h' = e # rest \<and> readfile h' = fte_file_name e \<and>
    ft_appid h' = fte_appid e \<and> ft_ctxid h' = fte_ctxid e"
proof -
  let ?h = "h\<lparr>ft_appid := fte_appid e, ft_ctxid := fte_ctxid e, readfile := fte_file_name e, serialno := serial,
    ft_fsize := word_of_nat (length F), creationdate := date, packagecount := word_of_nat n\<rparr>"
  have sz: "ucast (st_size st) = (word_of_nat (length F) :: u32)"
    using content(1) by (metis of_nat_unat)
  have hdr: "hd ass = header_args serial (env_base_name env (fte_file_name e)) (word_of_nat (length F)) date (word_of_nat n)" by (simp add: ass)
  have "LogFileHeader env (h\<lparr>ft_appid := fte_appid e, ft_ctxid := fte_ctxid e, readfile := fte_file_name e\<rparr>) =
      Some (True, SendArgs env (hd ass) ?h)"
    using LogFileHeader_done [OF _ _ d refl, of "h\<lparr>ft_appid := fte_appid e, ft_ctxid := fte_ctxid e, readfile := fte_file_name e\<rparr>"]
      stat fits content(3) by (simp add: serves_def hdr serial n sz)
  moreover have "LogFileData env (SendArgs env (hd ass) ?h) = Some (remove_from_file_queue (fold (SendArgs env) (tl ass) (SendArgs env (hd ass) ?h)))"
  proof -
    have "n \<le> 2 ^ 22" using n getpackages_count_ceil(2) by simp
    moreover have "unat (word_of_nat n :: u32) = n" using n by simp
    moreover have "packagecount (SendArgs env (hd ass) ?h) = word_of_nat n" by (simp add: SendArgs_def SendFt_def)
    moreover have "serialno (fold (SendArgs env) xs k) = serialno k" for xs k by (induction xs arbitrary: k) simp_all
    ultimately show ?thesis
      using content(3) send_packages_all [OF content(3), of 0 n "SendArgs env (hd ass) ?h"]
      by (simp add: LogFileData_def serves_def LogFileEnd_done ass)
  qed
  moreover have "fold (SendArgs env) (tl ass) (SendArgs env (hd ass) ?h) = fold (SendArgs env) ass ?h"
    by (simp only: ass append.simps list.sel fold_simps)
  ultimately have "process_round env h = Some (remove_from_file_queue (fold (SendArgs env) ass ?h))"
    by (simp only: process_round_def front list.case option.case prod.case if_True)
  then show ?thesis using front by (intro exI [of _ ?h]) simp
qed

text \<open>C12: A requested file that can be read and does not change is transferred completely: the
  round sends a start message, the data in packages that are numbered from 1, and an end
  message, all under the requester's identifiers. Each of them parses as DLT arguments, the
  argument counts are right, and the raw data joined together is the contents of the file.
  Then the request is gone, and the file is removed exactly when this was asked for. The
  file is smaller than 4 GiB, and its base name and its date fit the start message.\<close>

theorem file_transferred_completely:
  assumes "container h = e # rest" "env_stat env (fte_file_name e) = Some st"
    and "unat (st_size st) = length F" "length F < 2 ^ 32" "serves env F"
    and "date = (case env_put_time env (st_ctime st) of Some d \<Rightarrow> d | None \<Rightarrow> [])"
    and "length (env_base_name env (fte_file_name e)) + length date \<le> 949"
    and "serial = get_file_serial_number env st (fte_file_name e)"
    and "n = unat (getpackages_count (word_of_nat (length F)))"
  shows "\<exists>h' ms. process_round env h = Some h' \<and> ft_sent h' = ft_sent h @ ms \<and>
    map (parse_args \<circ> ft_data) ms =
      [Some (header_args serial (env_base_name env (fte_file_name e)) (word_of_nat (length F)) date (word_of_nat n))] @
      map (\<lambda>i. Some (data_args serial (word_of_nat (Suc i)) (chunk F i))) [0..<n] @ [Some (end_args serial)] \<and>
    map ft_nor ms = [8] @ replicate n 5 @ [3] \<and>
    (\<forall>m \<in> set ms. ft_level m = env_kInfo env \<and> ft_app m = fte_appid e \<and> ft_ctx m = fte_ctxid e) \<and>
    concat (map (chunk F) [0..<n]) = F \<and>
    container h' = rest \<and> ft_removed h' = ft_removed h @ (if fte_delete_file e \<noteq> 0 then [fte_file_name e] else [])"
proof -
  let ?ass = "[header_args serial (env_base_name env (fte_file_name e)) (word_of_nat (length F)) date (word_of_nat n)] @
    map (\<lambda>i. data_args serial (word_of_nat (Suc i)) (chunk F i)) [0..<n] @ [end_args serial]"
  from process_round_sends [OF assms refl] obtain h' where
    h': "process_round env h = Some (remove_from_file_queue (fold (SendArgs env) ?ass h'))" "ft_sent h' = ft_sent h"
      "ft_removed h' = ft_removed h" "container h' = e # rest" "readfile h' = fte_file_name e"
      "ft_appid h' = fte_appid e" "ft_ctxid h' = fte_ctxid e"
    by blast
  from fold_SendArgs [of env ?ass h'] h'(6,7) obtain ms where
    ms: "fold (SendArgs env) ?ass h' = h'\<lparr>ft_sent := ft_sent h' @ ms\<rparr>" "list_all2 (carries (env_kInfo env) (fte_appid e) (fte_ctxid e)) ?ass ms"
    by auto
  have "list_all (list_all arg_ok) ?ass"
    using transfer_args_ok assms(7) by (simp add: list_all_iff)
  note parsed = carried_parse [OF ms(2) this]
  moreover have "map (word_of_nat \<circ> length) ?ass = [8 :: u8] @ replicate n 5 @ [3]"
    by (simp add: header_args_def data_args_def end_args_def comp_def map_replicate_const)
  moreover have "concat (map (chunk F) [0..<n]) = F"
    using getpackages_count_ceil(3) [of "word_of_nat (length F)"] assms(4,9) unat_word_of_nat [where 'a = 32 and n = "length F"]
    by (simp add: concat_chunks)
  moreover have "process_round env h = Some (remove_from_file_queue (h'\<lparr>ft_sent := ft_sent h' @ ms\<rparr>))"
    using h'(1) by (simp only: ms(1))
  ultimately show ?thesis
    using h'(2-5) by (intro exI [of _ "remove_from_file_queue (h'\<lparr>ft_sent := ft_sent h' @ ms\<rparr>)"] exI [of _ ms])
      (simp add: remove_from_file_queue_def comp_def)
qed

text \<open>C32: A requested file that cannot be looked at is reported with one error message, and the
  request is dropped, with the removal it asked for. The error message is built without a
  check of its size: the round runs over the end of its buffer exactly when the file's base
  name (with the date of the file transferred before, which is part of the message unless
  the file does not exist) is too long.\<close>

theorem missing_file_reported:
  assumes "container h = e # rest" "env_stat env (fte_file_name e) = None" "\<not> exit_at_error env"
    and "name = env_base_name env (fte_file_name e)"
  shows "(process_round env h = None \<longleftrightarrow>
      (if env_errno env = ENOENT then 983 < length name else 952 < length name + length (creationdate h))) \<and>
    (\<forall>h'. process_round env h = Some h' \<longrightarrow>
      (\<exists>m. ft_sent h' = ft_sent h @ [m] \<and> ft_level m = env_kError env \<and> ft_app m = fte_appid e \<and> ft_ctx m = fte_ctxid e \<and>
         parse_args (ft_data m) = Some (error_args (env_errno env) kDltFiletransferErrorFileHead (serialno h) name (ft_fsize h)
           (creationdate h) (packagecount h) []) \<and> unat (ft_nor m) = (if env_errno env = ENOENT then 5 else 9)) \<and>
      container h' = rest \<and> ft_removed h' = ft_removed h @ (if fte_delete_file e \<noteq> 0 then [fte_file_name e] else []))"
proof (intro conjI allI impI)
  let ?args = "error_args (env_errno env) kDltFiletransferErrorFileHead (serialno h) name (ft_fsize h) (creationdate h) (packagecount h) []"
  let ?h = "h\<lparr>ft_appid := fte_appid e, ft_ctxid := fte_ctxid e, readfile := fte_file_name e\<rparr>"
  have len: "length (args_bytes ?args) = (if env_errno env = ENOENT then 41 + length name else 72 + length name + length (creationdate h))"
    by (simp add: error_args_def flag_def FLER_def)
  have r: "process_round env h = (if length (args_bytes ?args) \<le> 1024
    then Some (remove_from_file_queue (SendFt env (args_bytes ?args) (env_kError env) (word_of_nat (length ?args)) ?h)) else None)"
    using assms PackageFileError_args [of 1024]
    by (simp add: process_round_def LogFileHeader_def ReadFileHeaderInfo_def LogFileError_def kBufferSize_def Let_def del: arg_bytes.simps)
  then show "process_round env h = None \<longleftrightarrow>
      (if env_errno env = ENOENT then 983 < length name else 952 < length name + length (creationdate h))"
    using len by auto
  fix h' assume h': "process_round env h = Some h'"
  with r len have "list_all arg_ok ?args"
    by (auto simp: error_args_def flag_def FLER_def split: if_splits)
  then have "parse_args (args_bytes ?args) = Some ?args" by (rule parse_args_bytes)
  moreover have "length ?args = (if env_errno env = ENOENT then 5 else 9)" by (simp add: error_args_def)
  ultimately show "\<exists>m. ft_sent h' = ft_sent h @ [m] \<and> ft_level m = env_kError env \<and> ft_app m = fte_appid e \<and> ft_ctx m = fte_ctxid e \<and>
       parse_args (ft_data m) = Some ?args \<and> unat (ft_nor m) = (if env_errno env = ENOENT then 5 else 9)"
    and "container h' = rest" and "ft_removed h' = ft_removed h @ (if fte_delete_file e \<noteq> 0 then [fte_file_name e] else [])"
    using r h' assms(1) by (auto simp: remove_from_file_queue_def SendFt_def split: if_splits)
qed

section \<open>Requests during a round\<close>

text \<open>A request that arrives is appended; nothing a round does looks behind the front.\<close>

definition requested :: "FileTransferEntry \<Rightarrow> FileTransferStreamHandler \<Rightarrow> FileTransferStreamHandler" where
  "requested e h = h\<lparr>container := container h @ [e]\<rparr>"

lemma requested_select [simp]:
  "container (requested e h) = container h @ [e]" "readfile (requested e h) = readfile h" "serialno (requested e h) = serialno h"
  "ft_fsize (requested e h) = ft_fsize h" "creationdate (requested e h) = creationdate h" "packagecount (requested e h) = packagecount h"
  by (simp_all add: requested_def)

lemma SendFt_requested [simp]: "SendFt env d l n (requested e h) = requested e (SendFt env d l n h)"
  by (simp add: SendFt_def requested_def)

lemma container_SendFt [simp]: "container (SendFt env d l n h) = container h" "serialno (SendFt env d l n h) = serialno h"
  "packagecount (SendFt env d l n h) = packagecount h"
  by (simp_all add: SendFt_def)

lemma remove_requested [simp]:
  "container h \<noteq> [] \<Longrightarrow> remove_from_file_queue (requested e h) = requested e (remove_from_file_queue h)"
  by (cases "container h") (simp_all add: remove_from_file_queue_def requested_def)

lemma LogFileError_requested:
  "container h \<noteq> [] \<Longrightarrow> LogFileError env code msg (requested e h) = map_option (requested e) (LogFileError env code msg h)"
  by (simp add: LogFileError_def split: Package.split)

lemma LogFileEnd_requested:
  "container h \<noteq> [] \<Longrightarrow> LogFileEnd env (requested e h) = map_option (requested e) (LogFileEnd env h)"
  by (simp add: LogFileEnd_def split: Package.split)

lemma send_packages_requested:
  "container h \<noteq> [] \<Longrightarrow> send_packages env n pkgno (requested e h) = map_option (requested e) (send_packages env n pkgno h)"
  by (induction n arbitrary: pkgno h)
    (simp_all add: LogFileEnd_requested LogFileError_requested split: Package.split)

lemma ReadFileHeaderInfo_requested:
  "ReadFileHeaderInfo env f (requested e h) = apsnd (requested e) (ReadFileHeaderInfo env f h)"
  "container (snd (ReadFileHeaderInfo env f h)) = container h"
  by (simp_all add: ReadFileHeaderInfo_def requested_def split: option.split)

lemma LogFileHeader_requested:
  "container h \<noteq> [] \<Longrightarrow> LogFileHeader env (requested e h) = map_option (apsnd (requested e)) (LogFileHeader env h)"
  "container h \<noteq> [] \<Longrightarrow> LogFileHeader env h = Some (True, h') \<Longrightarrow> container h' = container h"
  using ReadFileHeaderInfo_requested(2) [of env "readfile h" h]
  by (cases "ReadFileHeaderInfo env (readfile h) h"; 
      auto simp: LogFileHeader_def ReadFileHeaderInfo_requested(1) LogFileError_requested option.map_comp comp_def split: Package.splits if_splits)+

lemma LogFileData_requested:
  "container h \<noteq> [] \<Longrightarrow> LogFileData env (requested e h) = map_option (requested e) (LogFileData env h)"
  by (simp add: LogFileData_def send_packages_requested LogFileError_requested)

text \<open>A request that arrives while a file is being transferred changes nothing of that
  transfer: the round sends the same messages and takes the same request off the queue as
  if the new one had arrived after the round; the new request stands behind the others.\<close>

theorem request_waits_its_turn:
  assumes "container h \<noteq> []"
  shows "process_round env (Ft_Handle enabled e h) = map_option (Ft_Handle enabled e) (process_round env h)"
proof (cases enabled)
  case True
  then have r: "Ft_Handle enabled e = requested e" by (simp add: fun_eq_iff Ft_Handle_def requested_def)
  obtain f rest where f: "container h = f # rest" using assms by (cases "container h") auto
  let ?h = "h\<lparr>ft_appid := fte_appid f, ft_ctxid := fte_ctxid f, readfile := fte_file_name f\<rparr>"
  have "(requested e h)\<lparr>ft_appid := fte_appid f, ft_ctxid := fte_ctxid f, readfile := fte_file_name f\<rparr> = requested e ?h"
    by (simp add: requested_def)
  then have u: "process_round env (requested e h) =
      (case LogFileHeader env (requested e ?h) of None \<Rightarrow> None | Some (ok, h) \<Rightarrow> if ok then LogFileData env h else Some h)"
    "process_round env h = (case LogFileHeader env ?h of None \<Rightarrow> None | Some (ok, h) \<Rightarrow> if ok then LogFileData env h else Some h)"
    using f by (simp_all add: process_round_def)
  have ne: "container ?h \<noteq> []" using f by simp
  note hdr = LogFileHeader_requested(1) [OF ne, of env e] LogFileHeader_requested(2) [OF ne, of env]
  show ?thesis
  proof (cases "LogFileHeader env ?h")
    case (Some okh)
    obtain ok k where "okh = (ok, k)" by fastforce
    with Some hdr(2) [of k] ne show ?thesis
      unfolding r u hdr(1) by (cases ok) (simp_all add: LogFileData_requested)
  qed (simp add: r u hdr(1))
qed (simp add: Ft_Handle_def fun_eq_iff option.map_ident_strong)

text \<open>Concrete transfers: a file of five bytes, and files that cannot be looked at.\<close>

definition example_ft_entry :: FileTransferEntry where
  "example_ft_entry = \<lparr>fte_appid = (65, 80, 80, 0), fte_ctxid = (67, 84, 88, 0), fte_file_name = [47, 97], fte_delete_file = 1\<rparr>"

definition example_ft_env :: FtEnv where
  "example_ft_env = \<lparr>env_stat = (\<lambda>f. if f = [47, 97] then Some \<lparr>st_ino = 7, st_size = 5, st_ctime = 9\<rparr> else None),
     env_base_name = (\<lambda>f. drop 1 f), env_put_time = (\<lambda>t. Some [49]), env_char_value = ucast, env_fopen = True, env_fseek = (\<lambda>p. True),
     env_fread = (\<lambda>p n. take n (drop (unat p) [1, 2, 3, 4, 5])), env_errno = 36, env_kError = 2, env_kInfo = 4, env_tmsp = (\<lambda>n. 100),
     exit_at_header = False, exit_at_data = False, exit_at_end = False, exit_at_error = False\<rparr>"

definition example_ft_handler :: "FileTransferEntry \<Rightarrow> FileTransferStreamHandler" where
  "example_ft_handler e = Ft_Handle True e NewFileTransferStreamHandler"

lemmas example_ft_defs = example_ft_entry_def example_ft_env_def example_ft_handler_def Ft_Handle_def NewFileTransferStreamHandler_def

theorem file_transferred_completely_witness:
  "\<exists>h' ms. process_round example_ft_env (example_ft_handler example_ft_entry) = Some h' \<and> ft_sent h' = ms \<and>
    map (parse_args \<circ> ft_data) ms =
      [Some (header_args (get_file_serial_number example_ft_env \<lparr>st_ino = 7, st_size = 5, st_ctime = 9\<rparr> [47, 97]) [97] 5 [49] 1),
       Some (data_args (get_file_serial_number example_ft_env \<lparr>st_ino = 7, st_size = 5, st_ctime = 9\<rparr> [47, 97]) 1 [1, 2, 3, 4, 5]),
       Some (end_args (get_file_serial_number example_ft_env \<lparr>st_ino = 7, st_size = 5, st_ctime = 9\<rparr> [47, 97]))] \<and>
    map ft_nor ms = [8, 5, 3] \<and> (\<forall>m \<in> set ms. ft_level m = env_kInfo example_ft_env \<and> ft_app m = fte_appid example_ft_entry \<and> ft_ctx m = fte_ctxid example_ft_entry) \<and>
    container h' = [] \<and> ft_removed h' = [[47, 97]]"
proof -
  have n: "1 = unat (getpackages_count (word_of_nat (length [1, 2, 3, 4, 5 :: byte])))"
    by (simp add: getpackages_count_ceil)
  have "serves example_ft_env [1, 2, 3, 4, 5]" by (simp add: serves_def example_ft_env_def)
  moreover have "container (example_ft_handler example_ft_entry) = [example_ft_entry]" "ft_sent (example_ft_handler example_ft_entry) = []"
    "ft_removed (example_ft_handler example_ft_entry) = []"
    by (simp_all add: example_ft_handler_def Ft_Handle_def NewFileTransferStreamHandler_def)
  moreover have "fte_file_name example_ft_entry = [47, 97]" "fte_delete_file example_ft_entry = 1" by (simp_all add: example_ft_entry_def)
  moreover have "env_stat example_ft_env [47, 97] = Some \<lparr>st_ino = 7, st_size = 5, st_ctime = 9\<rparr>"
    "env_put_time example_ft_env 9 = Some [49]" "env_base_name example_ft_env [47, 97] = [97]" by (simp_all add: example_ft_env_def)
  moreover have "chunk [1, 2, 3, 4, 5] 0 = [1, 2, 3, 4, 5]" by (simp add: chunk_def)
  ultimately show ?thesis
    using file_transferred_completely [of "example_ft_handler example_ft_entry" example_ft_entry "[]" example_ft_env
      "\<lparr>st_ino = 7, st_size = 5, st_ctime = 9\<rparr>" "[1, 2, 3, 4, 5]" "[49]", OF _ _ _ _ _ _ _ refl n]
    by simp
qed

theorem missing_file_reported_witness:
  "process_round example_ft_env (example_ft_handler (example_ft_entry\<lparr>fte_file_name := 47 # replicate 1000 97\<rparr>)) = None \<and>
   process_round example_ft_env (example_ft_handler (example_ft_entry\<lparr>fte_file_name := [47, 98]\<rparr>)) \<noteq> None"
proof -
  have "length (replicate 1000 97 :: bytes) = 1000" by simp
  then show ?thesis
  using missing_file_reported [of "example_ft_handler (example_ft_entry\<lparr>fte_file_name := 47 # replicate 1000 97\<rparr>)"
      "example_ft_entry\<lparr>fte_file_name := 47 # replicate 1000 97\<rparr>" "[]" example_ft_env, OF _ _ _ refl]
    missing_file_reported [of "example_ft_handler (example_ft_entry\<lparr>fte_file_name := [47, 98]\<rparr>)"
      "example_ft_entry\<lparr>fte_file_name := [47, 98]\<rparr>" "[]" example_ft_env, OF _ _ _ refl]
  by (simp add: example_ft_defs ENOENT_def numeral_eq_Suc)
qed

theorem request_waits_its_turn_witness:
  "process_round example_ft_env (Ft_Handle True example_ft_entry (example_ft_handler example_ft_entry)) =
    map_option (Ft_Handle True example_ft_entry) (process_round example_ft_env (example_ft_handler example_ft_entry))"
  by (rule request_waits_its_turn) (simp add: example_ft_defs)

end
