(* ===== verification/UnixSocket.thy ===== *)
theory UnixSocket
  imports Prelude
begin

text \<open>
  Messages over a Unix domain socket (\<^verbatim>\<open>datarouter/include/unix_domain/unix_domain_common.h\<close>,
  \<^verbatim>\<open>src/unix_domain/unix_domain_common.cpp\<close>): a header, the text and its zero byte, and with
  it perhaps a file descriptor. A direction of a connection is a stream of bytes; a file
  descriptor travels with the first byte of its message. What the system calls answer is
  given from outside; what is printed is left out. The build is the one that passes file
  descriptors.
\<close>

type_synonym fd = int
type_synonym stream = "(byte \<times> fd option) list"

section \<open>Addresses\<close>

record UnixDomainSockAddr =
  sun_path :: bytes

text \<open>\<open>n\<close> is the size of the path in a socket address.\<close>

definition NewUnixDomainSockAddr :: "nat \<Rightarrow> bytes \<Rightarrow> bool \<Rightarrow> UnixDomainSockAddr" where
  "NewUnixDomainSockAddr n path is_abstract =
     (let off = (if is_abstract then 1 else 0); len = min (n - 1 - off) (length path)
      in \<lparr>sun_path = put_at off (take len path) (replicate n 0)\<rparr>)"

definition IsAbstract :: "UnixDomainSockAddr \<Rightarrow> bool" where
  "IsAbstract addr \<longleftrightarrow> sun_path addr ! 0 = 0"

definition GetAddressString :: "UnixDomainSockAddr \<Rightarrow> bytes" where
  "GetAddressString addr = takeWhile (\<lambda>b. b \<noteq> 0) (drop (if IsAbstract addr then 1 else 0) (sun_path addr))"

section \<open>Headers\<close>

definition kDefault :: u8 where "kDefault = 0"
definition kSharedMemoryFileHandle :: u8 where "kSharedMemoryFileHandle = 1"

record SocketMessangerHeader =
  hdr_len :: u16
  hdr_type :: u8
  hdr_pid :: u32

text \<open>The bytes of a header in memory: there is one byte of padding behind the type.\<close>

definition header_image :: "SocketMessangerHeader \<Rightarrow> bytes" where
  "header_image h = le16 (hdr_len h) @ [hdr_type h, 0] @ le32 (hdr_pid h)"

definition kHeaderSize :: nat where "kHeaderSize = 8"

definition header_of :: "bytes \<Rightarrow> SocketMessangerHeader" where
  "header_of bs =
     (let raw = take kHeaderSize (bs @ replicate kHeaderSize 0)
      in \<lparr>hdr_len = from_le16 (take 2 raw), hdr_type = raw ! 2, hdr_pid = from_le32 (drop 4 raw)\<rparr>)"

section \<open>Sending\<close>

datatype SendEvent = Accepts nat | Unavailable | Refuses

fun attach :: "fd option \<Rightarrow> bytes \<Rightarrow> stream" where
  "attach handle [] = []"
| "attach handle (b # bs) = (b, handle) # map (\<lambda>b. (b, None)) bs"

fun sendmsg :: "SendEvent \<Rightarrow> bytes \<Rightarrow> fd option \<Rightarrow> stream \<Rightarrow> stream" where
  "sendmsg (Accepts n) bs handle st = st @ attach handle (take n bs)"
| "sendmsg _ bs handle st = st"

definition SendSocketMessage :: "SendEvent \<Rightarrow> u32 \<Rightarrow> bytes \<Rightarrow> fd option \<Rightarrow> stream \<Rightarrow> stream" where
  "SendSocketMessage ev pid message file_handle st =
     (let file_handle = (case file_handle of Some f \<Rightarrow> if f < 0 then None else Some f | None \<Rightarrow> None);
          messanger_header = \<lparr>hdr_len = word_of_nat (length message + 1), hdr_type = kDefault, hdr_pid = pid\<rparr>
      in sendmsg ev (header_image messanger_header @ message @ [0]) file_handle st)"

definition SendAncillaryDataOverSocket :: "SendEvent \<Rightarrow> u32 \<Rightarrow> bytes \<Rightarrow> stream \<Rightarrow> stream" where
  "SendAncillaryDataOverSocket ev pid data' st =
     sendmsg ev (header_image \<lparr>hdr_len = word_of_nat (length data'), hdr_type = kSharedMemoryFileHandle, hdr_pid = pid\<rparr> @ data') None st"

section \<open>Receiving\<close>

text \<open>
  What a receive call meets: it gets all it asks for, a signal or a time limit ends it after some
  bytes, it is told to come back later, or it fails. The stream holds all the bytes that arrive,
  and \<open>closed\<close> says whether the peer closes the connection behind them. The calls wait for
  everything they ask for: when there is less and the connection stays open, they never return.
\<close>

datatype RecvEvent = Ready | Cut nat | Interrupted | Broken

datatype RecvResult = Got stream stream | TryLater | Failed | Waits

definition recvmsg :: "RecvEvent \<Rightarrow> bool \<Rightarrow> nat \<Rightarrow> stream \<Rightarrow> RecvResult" where
  "recvmsg ev closed n st =
     (case ev of
        Ready \<Rightarrow> if length st < n \<and> \<not> closed then Waits else Got (take n st) (drop n st)
      | Cut k \<Rightarrow> if take (min k n) st = [] then TryLater else Got (take (min k n) st) (drop (min k n) st)
      | Interrupted \<Rightarrow> TryLater
      | Broken \<Rightarrow> Failed)"

datatype Response = Message bytes | NoMessage | UndefinedResponse | NeverReturns

definition received_handle :: "stream \<Rightarrow> fd option" where
  "received_handle got = (case filter (\<lambda>x. snd x \<noteq> None) got of [] \<Rightarrow> None | x # xs \<Rightarrow> snd x)"

definition kIoBufferSize :: nat where "kIoBufferSize = 1024"

text \<open>The second receive call and the evaluation of what it gives.\<close>

definition recv_payload ::
  "RecvEvent \<Rightarrow> bool \<Rightarrow> (bytes \<Rightarrow> fd option) option \<Rightarrow> SocketMessangerHeader \<Rightarrow> fd option \<Rightarrow> stream \<Rightarrow> Response \<times> fd option \<times> stream" where
  "recv_payload ev closed ancillary_data_process h file_handle st =
     (case recvmsg ev closed (unat (hdr_len h)) st of
        Waits \<Rightarrow> (NeverReturns, file_handle, st)
      | TryLater \<Rightarrow> (Message [], file_handle, st)
      | Failed \<Rightarrow> (Message [], file_handle, st)
      | Got got rest \<Rightarrow>
          let iobuf = map fst got in
          if got = [] then (NoMessage, file_handle, rest)
          else if hdr_type h = kDefault then (Message (take (length got - 1) iobuf), file_handle, rest)
          else if hdr_type h = kSharedMemoryFileHandle then
            (case ancillary_data_process of
               None \<Rightarrow> (NoMessage, file_handle, rest)
             | Some process \<Rightarrow>
                 (case process iobuf of
                    None \<Rightarrow> (NoMessage, file_handle, rest)
                  | Some decoded \<Rightarrow> (Message [], Some decoded, rest)))
          else (NoMessage, file_handle, rest))"

text \<open>
  The result, the file descriptor, the peer's process and the rest of the stream. A failure
  of the first call other than an interruption is not caught: the code reads the value of a
  result that has none.
\<close>

definition RecvSocketMessage ::
  "RecvEvent \<Rightarrow> RecvEvent \<Rightarrow> bool \<Rightarrow> (bytes \<Rightarrow> fd option) option \<Rightarrow> stream \<Rightarrow> Response \<times> fd option \<times> u32 option \<times> stream" where
  "RecvSocketMessage ev1 ev2 closed ancillary_data_process st =
     (case recvmsg ev1 closed kHeaderSize st of
        Waits \<Rightarrow> (NeverReturns, None, None, st)
      | TryLater \<Rightarrow> (Message [], None, None, st)
      | Failed \<Rightarrow> (UndefinedResponse, None, Some 0, st)
      | Got got rest \<Rightarrow>
          let messanger_header = header_of (map fst got); peer_pid = Some (hdr_pid messanger_header)
          in if length got \<noteq> kHeaderSize \<or> kIoBufferSize < unat (hdr_len messanger_header) then (NoMessage, None, peer_pid, rest)
             else
               let (result, file_handle, rest) = recv_payload ev2 closed ancillary_data_process messanger_header (received_handle got) rest
               in (result, file_handle, peer_pid, rest))"

section \<open>What is sent is received\<close>

lemma length_header_image [simp]: "length (header_image h) = 8"
  by (simp add: header_image_def)

lemma header_round_trip [simp]: "header_of (header_image h) = h"
  by (simp add: header_of_def header_image_def kHeaderSize_def nth_append numeral_eq_Suc)

lemma attach_props [simp]:
  "length (attach handle bs) = length bs" "map fst (attach handle bs) = bs"
  by (cases bs; simp add: o_def)+

lemma attach_take: "take n (attach handle bs) = attach handle (take n bs)"
  by (cases bs; cases n; simp add: take_map)

lemma received_attach: "bs \<noteq> [] \<Longrightarrow> received_handle (attach handle bs) = handle"
  by (cases bs; cases handle) (simp_all add: received_handle_def filter_empty_conv)

text \<open>
  What the receiver makes of a message that was sent whole. The length field counts the zero byte
  and is cut to sixteen bits: when it is in the receiver's range it decides, whatever was sent.
\<close>

definition announced_length :: "bytes \<Rightarrow> nat" where
  "announced_length message = (length message + 1) mod 65536"

lemma sent_stream:
  fixes message :: bytes and pid :: u32
  assumes "handle = None \<or> handle = Some f \<and> 0 \<le> f" "length message + 9 \<le> n"
  defines "h \<equiv> \<lparr>hdr_len = word_of_nat (length message + 1), hdr_type = kDefault, hdr_pid = pid\<rparr> :: SocketMessangerHeader"
  shows "\<exists>payload. SendSocketMessage (Accepts n) pid message handle [] = attach handle (header_image h) @ payload \<and>
    map fst payload = message @ [0]"
proof -
  have "SendSocketMessage (Accepts n) pid message handle [] = attach handle (header_image h @ message @ [0])"
    using assms by (auto simp: SendSocketMessage_def Let_def)
  moreover have "attach handle (header_image h @ message @ [0]) =
      attach handle (header_image h) @ drop 8 (attach handle (header_image h @ message @ [0]))"
    using append_take_drop_id [of 8 "attach handle (header_image h @ message @ [0])"] by (simp add: attach_take)
  moreover have "map fst (drop 8 (attach handle (header_image h @ message @ [0]))) = message @ [0]" by (simp flip: drop_map)
  ultimately show ?thesis by auto
qed

lemma sent_message:
  fixes message :: bytes
  assumes "handle = None \<or> handle = Some f \<and> 0 \<le> f" "length message + 9 \<le> n"
  shows "RecvSocketMessage Ready Ready closed cb (SendSocketMessage (Accepts n) pid message handle [] @ rest) =
    (if announced_length message = 0 \<or> 1024 < announced_length message
     then (NoMessage, if announced_length message = 0 then handle else None, Some pid, drop 8 (SendSocketMessage (Accepts n) pid message handle []) @ rest)
     else (Message (take (announced_length message - 1) message), handle, Some pid,
           drop (8 + announced_length message) (SendSocketMessage (Accepts n) pid message handle []) @ rest))"
proof -
  define h :: SocketMessangerHeader where "h = \<lparr>hdr_len = word_of_nat (length message + 1), hdr_type = kDefault, hdr_pid = pid\<rparr>"
  let ?l = "announced_length message"
  obtain payload where st: "SendSocketMessage (Accepts n) pid message handle [] = attach handle (header_image h) @ payload"
    and payload: "map fst payload = message @ [0]"
    using sent_stream [OF assms, where pid = pid] unfolding h_def by blast
  have len: "unat (hdr_len h) = ?l" by (simp add: h_def announced_length_def unat_of_nat del: of_nat_Suc of_nat_add)
  have le: "?l \<le> length payload" using arg_cong [OF payload, of length] by (simp add: announced_length_def)
  have "header_image h \<noteq> []" by (metis length_header_image list.size(3) zero_neq_numeral)
  note fh = received_attach [OF this, of handle]
  have "map fst (take ?l payload) = take ?l (message @ [0])" by (simp add: payload flip: take_map)
  moreover have "?l \<le> length message + 1" by (simp add: announced_length_def)
  ultimately have got: "take (?l - 1) (map fst (take ?l payload)) = take (?l - 1) message" by (simp add: min_def)
  have "recvmsg Ready closed 8 ((attach handle (header_image h) @ payload) @ rest) = Got (attach handle (header_image h)) (payload @ rest)"
    by (simp add: recvmsg_def)
  moreover have "recvmsg Ready closed ?l (payload @ rest) = Got (take ?l payload) (drop ?l payload @ rest)"
    using le by (simp add: recvmsg_def)
  ultimately show ?thesis
    using len fh got le by (simp add: st RecvSocketMessage_def recv_payload_def kHeaderSize_def kIoBufferSize_def Let_def min_def)
      (auto simp: h_def)
qed

lemma received_message:
  fixes message :: bytes
  assumes "handle = None \<or> handle = Some f \<and> 0 \<le> f" "length message + 9 \<le> n" "length message < 1024"
  shows "RecvSocketMessage Ready Ready closed cb (SendSocketMessage (Accepts n) pid message handle [] @ rest) = (Message message, handle, Some pid, rest)"
proof -
  obtain h :: SocketMessangerHeader and payload where st: "SendSocketMessage (Accepts n) pid message handle [] = attach handle (header_image h) @ payload"
    and "map fst payload = message @ [0]"
    using sent_stream [OF assms(1,2), where pid = pid] by blast
  moreover from arg_cong [OF this(2), of length] have "length payload = length message + 1" by simp
  ultimately have "length (SendSocketMessage (Accepts n) pid message handle []) = 9 + length message" by simp
  then show ?thesis using sent_message [OF assms(1,2), of closed cb pid rest] assms(3) by (simp add: announced_length_def)
qed

text \<open>Sending some messages one after the other, and receiving so many.\<close>

definition send_messages :: "u32 \<Rightarrow> bytes list \<Rightarrow> stream \<Rightarrow> stream" where
  "send_messages pid ms st = fold (\<lambda>m. SendSocketMessage (Accepts (length m + 9)) pid m None) ms st"

fun recv_messages :: "bool \<Rightarrow> nat \<Rightarrow> stream \<Rightarrow> (Response \<times> u32 option) list" where
  "recv_messages closed 0 st = []"
| "recv_messages closed (Suc n) st =
     (let (r, handle, pid, st) = RecvSocketMessage Ready Ready closed None st in (r, pid) # recv_messages closed n st)"

lemma SendSocketMessage_append: "SendSocketMessage ev pid m handle st = st @ SendSocketMessage ev pid m handle []"
  by (cases ev) (simp_all add: SendSocketMessage_def Let_def)

lemma send_messages_append: "send_messages pid ms st = st @ send_messages pid ms []"
proof (induction ms arbitrary: st)
  case (Cons m ms)
  from Cons [of "SendSocketMessage (Accepts (length m + 9)) pid m None st"] Cons [of "SendSocketMessage (Accepts (length m + 9)) pid m None []"]
  show ?case using SendSocketMessage_append [of _ pid m None st] by (simp add: send_messages_def)
qed (simp add: send_messages_def)

lemma send_messages_Cons:
  "send_messages pid (m # ms) [] = SendSocketMessage (Accepts (length m + 9)) pid m None [] @ send_messages pid ms []"
  using send_messages_append [of pid ms "SendSocketMessage (Accepts (length m + 9)) pid m None []"] by (simp add: send_messages_def)

lemma end_of_stream: "RecvSocketMessage Ready Ready closed cb [] = (if closed then (NoMessage, None, Some 0, []) else (NeverReturns, None, None, []))"
proof -
  have "from_le32 (replicate 4 0) = 0" by (simp add: from_le32_def numeral_eq_Suc)
  then show ?thesis by (simp add: RecvSocketMessage_def recvmsg_def header_of_def kHeaderSize_def Let_def numeral_eq_Suc)
qed

lemma messages_received:
  assumes "\<forall>m \<in> set ms. length m < 1024"
  shows "recv_messages closed (length ms + k) (send_messages pid ms [] @ rest) =
    map (\<lambda>m. (Message m, Some pid)) ms @ recv_messages closed k rest"
  using assms
proof (induction ms)
  case (Cons m ms)
  then show ?case using received_message [of None 0 m "length m + 9"] by (simp add: send_messages_Cons)
qed (simp add: send_messages_def)

text \<open>C31: Messages over the socket arrive unchanged, in order and with the sender's process, if each
  is shorter than 1024 bytes; behind the last one the receiver sees the end of the connection if
  there is one, and waits otherwise. The length field holds the length with the zero byte cut to
  sixteen bits. Of a longer message the receiver gets nothing and gives the connection up when
  that field exceeds 1024 or is zero; otherwise, which takes a message of at least 65536 bytes,
  it gets the beginning of the message, one byte less than the field says, as if it were all of it.\<close>

theorem socket_messages_arrive_in_order:
  shows "((\<forall>m \<in> set ms. length m < 1024) \<longrightarrow>
      recv_messages closed (Suc (length ms)) (send_messages pid ms []) =
        map (\<lambda>m. (Message m, Some pid)) ms @ [if closed then (NoMessage, Some 0) else (NeverReturns, None)]) \<and>
    (1024 \<le> length m \<longrightarrow>
      recv_messages closed 1 (send_messages pid [m] []) =
        [(if announced_length m = 0 \<or> 1024 < announced_length m then NoMessage else Message (take (announced_length m - 1) m), Some pid)] \<and>
      (announced_length m = 0 \<or> 1024 < announced_length m \<or> 65536 \<le> length m))"
proof (intro conjI impI)
  assume "\<forall>m \<in> set ms. length m < 1024"
  from messages_received [OF this, of closed 1 pid "[]"]
  show "recv_messages closed (Suc (length ms)) (send_messages pid ms []) =
        map (\<lambda>m. (Message m, Some pid)) ms @ [if closed then (NoMessage, Some 0) else (NeverReturns, None)]"
    by (simp add: end_of_stream)
next
  show "recv_messages closed 1 (send_messages pid [m] []) =
        [(if announced_length m = 0 \<or> 1024 < announced_length m then NoMessage else Message (take (announced_length m - 1) m), Some pid)]"
    using sent_message [of None 0 m "length m + 9" closed None pid "[]"] by (simp add: send_messages_def)
next
  assume "1024 \<le> length m"
  then show "announced_length m = 0 \<or> 1024 < announced_length m \<or> 65536 \<le> length m"
    by (cases "length m = 65535") (auto simp: announced_length_def)
qed

text \<open>Two messages, and one of 65541 bytes of which five arrive.\<close>

theorem socket_messages_arrive_in_order_witness:
  "recv_messages True (Suc (Suc (Suc 0))) (send_messages 7 [[97, 98], []] []) = [(Message [97, 98], Some 7), (Message [], Some 7), (NoMessage, Some 0)] \<and>
   recv_messages True 1 (send_messages 7 [replicate 65541 97] []) = [(Message (replicate 5 97), Some 7)]"
  using socket_messages_arrive_in_order [of "[[97, 98], []]" True 7 "replicate 65541 97"]
  by (simp add: announced_length_def del: recv_messages.simps)

end
