(* ===== verification/UnixServer.thy ===== *)
theory UnixServer
  imports UnixSocket "HOL-Library.AList"
begin

text \<open>
  The server of the configuration sessions (\<^verbatim>\<open>datarouter/include/unix_domain/unix_domain_server.h\<close>,
  \<^verbatim>\<open>src/unix_domain/unix_domain_server.cpp\<close>): it polls its connections, hands what arrives to
  the session of the connection and lets sessions run from a work queue.

  The sessions are an interface: a state of any type with the operations of
  \<^verbatim>\<open>ISession\<close>, which may also change a state outside the server. What the system calls answer
  (the events of the poll, the connection that is accepted, what arrives on each connection, the
  clock) is given for one iteration of the loop. The hash map of the connections is an
  association list.
\<close>

section \<open>How a call ends\<close>

text \<open>
  A call returns, ends the process, runs into undefined behaviour, or waits for a peer that never
  comes. A loop of the server's own that never ends is not among these: it is the value \<open>None\<close> of
  the functions that contain one.
\<close>

datatype 'a Outcome = Returned 'a | Exited | Undefined | Waiting

fun and_then :: "'a Outcome \<Rightarrow> ('a \<Rightarrow> 'b Outcome) \<Rightarrow> 'b Outcome" where
  "and_then (Returned x) k = k x"
| "and_then Exited k = Exited"
| "and_then Undefined k = Undefined"
| "and_then Waiting k = Waiting"

section \<open>State\<close>

record ('s, 'g) ISession =
  ses_Tick :: "'s \<Rightarrow> 'g \<Rightarrow> bool \<times> 's \<times> 'g"
  ses_OnCommand :: "bytes \<Rightarrow> 's \<Rightarrow> 'g \<Rightarrow> 's \<times> 'g"
  ses_OnClosedByPeer :: "'s \<Rightarrow> 'g \<Rightarrow> 's \<times> 'g"
  ses_factory :: "(bytes \<Rightarrow> fd \<Rightarrow> 'g \<Rightarrow> 's \<times> 'g) option"

record 's SessionWrapper =
  w_timeout :: nat
  w_enqueued :: bool
  w_running :: bool
  w_to_delete :: bool
  w_closed_by_peer :: bool
  w_session :: "'s option"

record ('s, 'g) UnixDomainServer =
  connection_fd_map :: "(fd \<times> 's SessionWrapper) list"
  connection_pollfd_list :: "(fd \<times> bool) list"
  work_queue :: "fd list"
  closed_fds :: "fd list"
  outside :: 'g

definition NewSessionWrapper :: "nat \<Rightarrow> 's SessionWrapper" where
  "NewSessionWrapper now = \<lparr>w_timeout = now + 500, w_enqueued = False, w_running = False, w_to_delete = False,
     w_closed_by_peer = False, w_session = None\<rparr>"

section \<open>A connection\<close>

definition EnqueueTickDirect :: "fd \<Rightarrow> ('s, 'g) UnixDomainServer \<Rightarrow> ('s, 'g) UnixDomainServer" where
  "EnqueueTickDirect f st = st\<lparr>work_queue := work_queue st @ [f]\<rparr>"

definition EnqueueTick ::
  "fd \<Rightarrow> 's SessionWrapper \<Rightarrow> ('s, 'g) UnixDomainServer \<Rightarrow> 's SessionWrapper \<times> ('s, 'g) UnixDomainServer" where
  "EnqueueTick f w st =
     (if \<not> w_enqueued w \<and> \<not> w_to_delete w
      then (w\<lparr>w_enqueued := True\<rparr>, if \<not> w_running w then EnqueueTickDirect f st else st)
      else (w, st))"

definition HandleCommand ::
  "('s, 'g) ISession \<Rightarrow> nat \<Rightarrow> bytes \<Rightarrow> fd \<Rightarrow> 's SessionWrapper \<Rightarrow> ('s, 'g) UnixDomainServer \<Rightarrow>
   bool \<times> 's SessionWrapper \<times> ('s, 'g) UnixDomainServer" where
  "HandleCommand I now in_string f w st =
     (case w_session w of
        None \<Rightarrow>
          (case ses_factory I of
             Some factory \<Rightarrow>
               if in_string \<noteq> [] then
                 let (s, g) = factory in_string f (outside st)
                 in (True, EnqueueTick f (w\<lparr>w_session := Some s\<rparr>) (st\<lparr>outside := g\<rparr>))
               else (now < w_timeout w, w, st)
           | None \<Rightarrow> (now < w_timeout w, w, st))
      | Some s \<Rightarrow>
          let (s, g) = (if in_string \<noteq> [] then ses_OnCommand I in_string s (outside st) else (s, outside st))
          in (True, EnqueueTick f (w\<lparr>w_session := Some s\<rparr>) (st\<lparr>outside := g\<rparr>)))"

definition TryEnqueueForDelete ::
  "bool \<Rightarrow> fd \<Rightarrow> 's SessionWrapper \<Rightarrow> ('s, 'g) UnixDomainServer \<Rightarrow> bool \<times> 's SessionWrapper \<times> ('s, 'g) UnixDomainServer" where
  "TryEnqueueForDelete by_peer f w st =
     (if w_session w \<noteq> None then
        let w = w\<lparr>w_to_delete := True, w_closed_by_peer := by_peer\<rparr>
        in if \<not> w_running w \<and> \<not> w_enqueued w then (True, w\<lparr>w_enqueued := True\<rparr>, EnqueueTickDirect f st) else (True, w, st)
      else (False, w, st))"

definition SetRunning :: "'s SessionWrapper \<Rightarrow> 's SessionWrapper" where
  "SetRunning w = w\<lparr>w_enqueued := False, w_running := True\<rparr>"

definition ResetRunning :: "bool \<Rightarrow> 's SessionWrapper \<Rightarrow> bool \<times> 's SessionWrapper" where
  "ResetRunning requeue w =
     (let w = w\<lparr>w_running := False\<rparr>; w = (if requeue then w\<lparr>w_enqueued := True\<rparr> else w) in (w_enqueued w, w))"

definition put_wrapper :: "fd \<Rightarrow> 's SessionWrapper \<Rightarrow> ('s, 'g) UnixDomainServer \<Rightarrow> ('s, 'g) UnixDomainServer" where
  "put_wrapper f w st = st\<lparr>connection_fd_map := AList.update f w (connection_fd_map st)\<rparr>"

text \<open>Erasing a connection destroys its wrapper, which closes the file descriptor.\<close>

definition erase_connection :: "fd \<Rightarrow> ('s, 'g) UnixDomainServer \<Rightarrow> ('s, 'g) UnixDomainServer" where
  "erase_connection f st = st\<lparr>connection_fd_map := AList.delete f (connection_fd_map st), closed_fds := closed_fds st @ [f]\<rparr>"

section \<open>The loops over the connections\<close>

text \<open>One element of either loop: the result says whether it stays in the list.\<close>

definition serve_connection ::
  "('s, 'g) ISession \<Rightarrow> nat \<Rightarrow> bool \<Rightarrow> bytes option \<Rightarrow> fd \<Rightarrow> ('s, 'g) UnixDomainServer \<Rightarrow> bool \<times> ('s, 'g) UnixDomainServer" where
  "serve_connection I now by_peer response f st =
     (case map_of (connection_fd_map st) f of
        None \<Rightarrow> (False, st)
      | Some w \<Rightarrow>
          let (keep, w, st) = (case response of None \<Rightarrow> (False, w, st) | Some in_string \<Rightarrow> HandleCommand I now in_string f w st)
          in if \<not> keep then
               let (delayed, w, st) = TryEnqueueForDelete by_peer f w st; st = put_wrapper f w st
               in (False, if \<not> delayed then erase_connection f st else st)
             else (True, put_wrapper f w st))"

text \<open>The iteration over the idle connections, with what is done for an element and its event.\<close>

fun connection_loop ::
  "(bool \<Rightarrow> fd \<Rightarrow> ('s, 'g) UnixDomainServer \<Rightarrow> bool \<times> ('s, 'g) UnixDomainServer) \<Rightarrow> (fd \<times> bool) list \<Rightarrow>
   ('s, 'g) UnixDomainServer \<Rightarrow> (fd \<times> bool) list \<times> ('s, 'g) UnixDomainServer" where
  "connection_loop serve [] st = ([], st)"
| "connection_loop serve ((f, pollin) # its) st =
     (let (keep, st) = serve pollin f st; (kept, st) = connection_loop serve its st
      in (if keep then (f, pollin) # kept else kept, st))"

definition serve_idle ::
  "('s, 'g) ISession \<Rightarrow> nat \<Rightarrow> bool \<Rightarrow> fd \<Rightarrow> ('s, 'g) UnixDomainServer \<Rightarrow> bool \<times> ('s, 'g) UnixDomainServer" where
  "serve_idle I now pollin f st = (if \<not> pollin then serve_connection I now False (Some []) f st else (True, st))"

text \<open>What a connection with something to read meets, and what it reads.\<close>

record Incoming =
  in_ev1 :: RecvEvent
  in_ev2 :: RecvEvent
  in_closed :: bool
  in_stream :: stream

definition receive :: "Incoming \<Rightarrow> bytes option Outcome" where
  "receive i =
     (case fst (RecvSocketMessage (in_ev1 i) (in_ev2 i) (in_closed i) None (in_stream i)) of
        Message in_string \<Rightarrow> Returned (Some in_string)
      | NoMessage \<Rightarrow> Returned None
      | UndefinedResponse \<Rightarrow> Undefined
      | NeverReturns \<Rightarrow> Waiting)"

definition serve_active ::
  "('s, 'g) ISession \<Rightarrow> nat \<Rightarrow> (fd \<Rightarrow> Incoming) \<Rightarrow> bool \<Rightarrow> fd \<Rightarrow> ('s, 'g) UnixDomainServer \<Rightarrow> (bool \<times> ('s, 'g) UnixDomainServer) Outcome" where
  "serve_active I now recv pollin f st =
     (if pollin then
        (if map_of (connection_fd_map st) f = None then Returned (False, st)
         else and_then (receive (recv f)) (\<lambda>response. Returned (serve_connection I now True response f st)))
      else Returned (True, st))"

fun active_loop ::
  "('s, 'g) ISession \<Rightarrow> nat \<Rightarrow> (fd \<Rightarrow> Incoming) \<Rightarrow> (fd \<times> bool) list \<Rightarrow> ('s, 'g) UnixDomainServer \<Rightarrow>
   ((fd \<times> bool) list \<times> ('s, 'g) UnixDomainServer) Outcome" where
  "active_loop I now recv [] st = Returned ([], st)"
| "active_loop I now recv ((f, pollin) # its) st =
     and_then (serve_active I now recv pollin f st) (\<lambda>(keep, st).
       and_then (active_loop I now recv its st) (\<lambda>(kept, st). Returned (if keep then (f, pollin) # kept else kept, st)))"

text \<open>The first element of the list is the server's own.\<close>

definition ProcessActiveConnections ::
  "('s, 'g) ISession \<Rightarrow> nat \<Rightarrow> (fd \<Rightarrow> Incoming) \<Rightarrow> ('s, 'g) UnixDomainServer \<Rightarrow> ('s, 'g) UnixDomainServer Outcome" where
  "ProcessActiveConnections I now recv st =
     (case connection_pollfd_list st of
        [] \<Rightarrow> Returned st
      | server # its \<Rightarrow>
          and_then (active_loop I now recv its st) (\<lambda>(kept, st). Returned (st\<lparr>connection_pollfd_list := server # kept\<rparr>)))"

definition ProcessIdleConnections ::
  "('s, 'g) ISession \<Rightarrow> nat \<Rightarrow> ('s, 'g) UnixDomainServer \<Rightarrow> ('s, 'g) UnixDomainServer" where
  "ProcessIdleConnections I now st =
     (case connection_pollfd_list st of
        [] \<Rightarrow> st
      | server # its \<Rightarrow> let (kept, st) = connection_loop (serve_idle I now) its st in st\<lparr>connection_pollfd_list := server # kept\<rparr>)"

definition cleanup_connection :: "fd \<times> bool \<Rightarrow> ('s, 'g) UnixDomainServer \<Rightarrow> ('s, 'g) UnixDomainServer" where
  "cleanup_connection it st =
     (let f = fst it in
      case map_of (connection_fd_map st) f of
        None \<Rightarrow> st
      | Some w \<Rightarrow>
          let (delayed, w, st) = TryEnqueueForDelete False f w st; st = put_wrapper f w st
          in if \<not> delayed then erase_connection f st else st)"

definition CleanupAllConnections :: "('s, 'g) UnixDomainServer \<Rightarrow> ('s, 'g) UnixDomainServer" where
  "CleanupAllConnections st =
     (let st = (case connection_pollfd_list st of
                  [] \<Rightarrow> st
                | server # its \<Rightarrow> (fold cleanup_connection its st)\<lparr>connection_pollfd_list := [server]\<rparr>)
      in st\<lparr>connection_fd_map := [], closed_fds := closed_fds st @ map fst (connection_fd_map st)\<rparr>)"

section \<open>The work queue\<close>

text \<open>The front of the queue runs; a session that is missing is called through a null pointer.\<close>

definition run_front :: "('s, 'g) ISession \<Rightarrow> fd \<Rightarrow> ('s, 'g) UnixDomainServer \<Rightarrow> ('s, 'g) UnixDomainServer Outcome" where
  "run_front I f st =
     (case map_of (connection_fd_map st) f of
        None \<Rightarrow> Returned st
      | Some w \<Rightarrow>
          (case w_session w of
             None \<Rightarrow> Undefined
           | Some s \<Rightarrow>
               let w = SetRunning w;
                   closed_by_peer = w_closed_by_peer w;
                   w = w\<lparr>w_closed_by_peer := False\<rparr>;
                   (s, g) = (if closed_by_peer then ses_OnClosedByPeer I s (outside st) else (s, outside st));
                   (requeue, s, g) = ses_Tick I s g;
                   (enqueued, w) = ResetRunning requeue (w\<lparr>w_session := Some s\<rparr>);
                   st = put_wrapper f w (st\<lparr>outside := g\<rparr>)
               in Returned (if enqueued then EnqueueTickDirect f st
                        else if w_to_delete w then erase_connection f st
                        else st)))"

text \<open>The loop may run forever, which is the result \<open>None\<close>.\<close>

partial_function (option) ProcessQueue ::
  "('s, 'g) ISession \<Rightarrow> ('s, 'g) UnixDomainServer \<Rightarrow> ('s, 'g) UnixDomainServer Outcome option" where
  "ProcessQueue I st =
     (case work_queue st of
        [] \<Rightarrow> Some (Returned st)
      | f # rest \<Rightarrow>
          (case run_front I f st of
             Returned st \<Rightarrow> ProcessQueue I (st\<lparr>work_queue := tl (work_queue st)\<rparr>)
           | out \<Rightarrow> Some out))"

section \<open>An iteration\<close>

record PollEnv =
  pe_poll :: "(fd \<Rightarrow> bool) option"
  pe_accept :: "fd option"
  pe_recv :: "fd \<Rightarrow> Incoming"
  pe_now :: nat

text \<open>A poll or an accept that fails ends the process.\<close>

definition accept_connection :: "PollEnv \<Rightarrow> ('s, 'g) UnixDomainServer \<Rightarrow> ('s, 'g) UnixDomainServer Outcome" where
  "accept_connection env st =
     (case connection_pollfd_list st of
        (server, True) # its \<Rightarrow>
          (case pe_accept env of
             None \<Rightarrow> Exited
           | Some f \<Rightarrow>
               let st = st\<lparr>connection_pollfd_list := connection_pollfd_list st @ [(f, False)]\<rparr>
               in Returned (if map_of (connection_fd_map st) f = None
                        then st\<lparr>connection_fd_map := connection_fd_map st @ [(f, NewSessionWrapper (pe_now env))]\<rparr>
                        else st\<lparr>closed_fds := closed_fds st @ [f]\<rparr>))
      | _ \<Rightarrow> Returned st)"

definition ProcessServerIteration ::
  "('s, 'g) ISession \<Rightarrow> PollEnv \<Rightarrow> nat \<Rightarrow> ('s, 'g) UnixDomainServer \<Rightarrow> ('s, 'g) UnixDomainServer Outcome option" where
  "ProcessServerIteration I env timeout st =
     (case pe_poll env of
        None \<Rightarrow> Some Exited
      | Some revents \<Rightarrow>
          (case and_then (accept_connection env (st\<lparr>connection_pollfd_list := map (\<lambda>(f, _). (f, revents f)) (connection_pollfd_list st)\<rparr>))
                  (ProcessActiveConnections I (pe_now env) (pe_recv env)) of
             Returned st \<Rightarrow>
               (case ProcessQueue I st of
                  Some (Returned st) \<Rightarrow>
                    if 0 < timeout then Some (Returned st)
                    else ProcessQueue I (ProcessIdleConnections I (pe_now env) st)
                | out \<Rightarrow> out)
           | out \<Rightarrow> Some out))"

section \<open>The thread of the server\<close>

text \<open>
  The socket of the server: the name that is unlinked first, if any, and the descriptor. What a
  system call answers is given; one that fails ends the process, except the unlinking.
\<close>

record SocketSetup =
  su_socket :: "fd option"
  su_bind :: bool
  su_listen :: bool

definition SetupServerSocket :: "SocketSetup \<Rightarrow> UnixDomainSockAddr \<Rightarrow> bytes option \<times> fd option" where
  "SetupServerSocket su addr =
     (if \<not> IsAbstract addr then Some (takeWhile (\<lambda>b. b \<noteq> 0) (sun_path addr)) else None,
      case su_socket su of None \<Rightarrow> None | Some server_fd \<Rightarrow> if \<not> su_bind su then None else if \<not> su_listen su then None else Some server_fd)"

text \<open>The time the poll may wait, and when the idle connections are due next (in milliseconds).\<close>

definition poll_timeout :: "nat \<Rightarrow> nat \<Rightarrow> nat \<times> nat" where
  "poll_timeout now t1 = (if t1 \<le> now then (0, now + 100) else (t1 - now, t1))"

text \<open>The iterations until the server is told to end, each with what the system answers in it.\<close>

fun server_loop ::
  "('s, 'g) ISession \<Rightarrow> PollEnv list \<Rightarrow> nat \<Rightarrow> ('s, 'g) UnixDomainServer \<Rightarrow> ('s, 'g) UnixDomainServer Outcome option" where
  "server_loop I [] t1 st = Some (Returned st)"
| "server_loop I (env # envs) t1 st =
     (let (timeout, t1) = poll_timeout (pe_now env) t1 in
      case ProcessServerIteration I env timeout st of Some (Returned st) \<Rightarrow> server_loop I envs t1 st | out \<Rightarrow> out)"

definition NewUnixDomainServer :: "fd \<Rightarrow> 'g \<Rightarrow> ('s, 'g) UnixDomainServer" where
  "NewUnixDomainServer server g =
     \<lparr>connection_fd_map = [], connection_pollfd_list = [(server, False)], work_queue = [], closed_fds = [], outside = g\<rparr>"

definition ServerRoutine ::
  "('s, 'g) ISession \<Rightarrow> SocketSetup \<Rightarrow> UnixDomainSockAddr \<Rightarrow> nat \<Rightarrow> PollEnv list \<Rightarrow> 'g \<Rightarrow> ('s, 'g) UnixDomainServer Outcome option" where
  "ServerRoutine I su addr now envs g =
     (case snd (SetupServerSocket su addr) of
        None \<Rightarrow> Some Exited
      | Some server_fd \<Rightarrow>
          (case server_loop I envs (now + 100) (NewUnixDomainServer server_fd g) of
             Some (Returned st) \<Rightarrow>
               let st = CleanupAllConnections st in Some (Returned (st\<lparr>closed_fds := closed_fds st @ [server_fd]\<rparr>))
           | out \<Rightarrow> out))"

end
