(* ===== verification/UnixProperties.thy ===== *)
theory UnixProperties
  imports UnixServer "HOL-Library.Multiset"
begin

text \<open>
  The server of the configuration sessions keeps its connections in order: an invariant of
  every iteration, the end of its work loop, and what becomes of a closed connection.
\<close>

section \<open>An iteration that returns\<close>

text \<open>The loop over the connections with something to read, once what they read is known.\<close>

definition received :: "(fd \<Rightarrow> Incoming) \<Rightarrow> fd \<Rightarrow> bytes option" where
  "received recv f = (case receive (recv f) of Returned response \<Rightarrow> response | _ \<Rightarrow> None)"

definition serve_received ::
  "('s, 'g) ISession \<Rightarrow> nat \<Rightarrow> (fd \<Rightarrow> bytes option) \<Rightarrow> bool \<Rightarrow> fd \<Rightarrow> ('s, 'g) UnixDomainServer \<Rightarrow> bool \<times> ('s, 'g) UnixDomainServer" where
  "serve_received I now recv pollin f st = (if pollin then serve_connection I now True (recv f) f st else (True, st))"

definition ProcessReceived ::
  "('s, 'g) ISession \<Rightarrow> nat \<Rightarrow> (fd \<Rightarrow> bytes option) \<Rightarrow> ('s, 'g) UnixDomainServer \<Rightarrow> ('s, 'g) UnixDomainServer" where
  "ProcessReceived I now recv st =
     (case connection_pollfd_list st of
        [] \<Rightarrow> st
      | server # its \<Rightarrow> let (kept, st) = connection_loop (serve_received I now recv) its st in st\<lparr>connection_pollfd_list := server # kept\<rparr>)"

lemma and_then_Returned [simp]: "and_then x k = Returned y \<longleftrightarrow> (\<exists>a. x = Returned a \<and> k a = Returned y)"
  by (cases x) auto

lemma serve_active_returned:
  "serve_active I now recv pollin f st = Returned r \<Longrightarrow> r = serve_received I now (received recv) pollin f st"
  by (auto simp: serve_active_def serve_received_def serve_connection_def received_def split: if_splits)

lemma serve_active_returns:
  "\<lbrakk>pollin \<Longrightarrow> receive (recv f) = Returned x\<rbrakk> \<Longrightarrow> serve_active I now recv pollin f st = Returned (serve_received I now (received recv) pollin f st)"
  by (auto simp: serve_active_def serve_received_def serve_connection_def received_def)

lemma active_loop_returned:
  "active_loop I now recv its st = Returned r \<Longrightarrow> r = connection_loop (serve_received I now (received recv)) its st"
proof (induction its arbitrary: st r)
  case (Cons it its)
  obtain f pollin where it: "it = (f, pollin)" by fastforce
  from Cons.prems obtain keep st1 kept st2 where "serve_active I now recv pollin f st = Returned (keep, st1)"
    "active_loop I now recv its st1 = Returned (kept, st2)" "r = (if keep then (f, pollin) # kept else kept, st2)"
    by (auto simp: it)
  then show ?case using Cons.IH [of st1 "(kept, st2)"] serve_active_returned [of I now recv pollin f st "(keep, st1)"]
    by (auto simp: it dest!: sym [where s = "(keep, st1)"] sym [where s = "(kept, st2)"])
qed simp

lemma active_loop_returns:
  assumes "\<And>f. (f, True) \<in> set its \<Longrightarrow> \<exists>x. receive (recv f) = Returned x"
  shows "active_loop I now recv its st = Returned (connection_loop (serve_received I now (received recv)) its st)"
  using assms
proof (induction its arbitrary: st)
  case (Cons it its)
  obtain f pollin where it: "it = (f, pollin)" by fastforce
  obtain x where "pollin \<Longrightarrow> receive (recv f) = Returned x" using Cons.prems [of f] it by fastforce
  then have "serve_active I now recv pollin f st = Returned (serve_received I now (received recv) pollin f st)"
    by (rule serve_active_returns)
  then show ?case using Cons.IH Cons.prems by (simp add: it split_beta)
qed simp

lemma ProcessActiveConnections_returned:
  "ProcessActiveConnections I now recv st = Returned st' \<Longrightarrow> st' = ProcessReceived I now (received recv) st"
proof (cases "connection_pollfd_list st")
  case (Cons server its)
  assume "ProcessActiveConnections I now recv st = Returned st'"
  then obtain kept st1 where "active_loop I now recv its st = Returned (kept, st1)" "st' = st1\<lparr>connection_pollfd_list := server # kept\<rparr>"
    using Cons by (auto simp: ProcessActiveConnections_def)
  then show ?thesis using Cons by (auto simp: ProcessReceived_def dest!: active_loop_returned sym [of "(kept, st1)"])
qed (simp add: ProcessActiveConnections_def ProcessReceived_def)

lemma ProcessActiveConnections_returns:
  assumes "\<And>f. (f, True) \<in> set (tl (connection_pollfd_list st)) \<Longrightarrow> \<exists>x. receive (recv f) = Returned x"
  shows "ProcessActiveConnections I now recv st = Returned (ProcessReceived I now (received recv) st)"
proof (cases "connection_pollfd_list st")
  case (Cons server its)
  then show ?thesis using active_loop_returns [of its recv I now st] assms
    by (simp add: ProcessActiveConnections_def ProcessReceived_def split_beta)
qed (simp add: ProcessActiveConnections_def ProcessReceived_def)

lemma iteration_returned:
  assumes "ProcessServerIteration I env timeout st = Some (Returned st')"
  obtains revents st1 st2 where "pe_poll env = Some revents"
    "accept_connection env (st\<lparr>connection_pollfd_list := map (\<lambda>(f, _). (f, revents f)) (connection_pollfd_list st)\<rparr>) = Returned st1"
    "ProcessQueue I (ProcessReceived I (pe_now env) (received (pe_recv env)) st1) = Some (Returned st2)"
    "if 0 < timeout then st' = st2 else ProcessQueue I (ProcessIdleConnections I (pe_now env) st2) = Some (Returned st')"
  using assms by (auto simp: ProcessServerIteration_def split: option.splits Outcome.splits if_splits
      dest!: ProcessActiveConnections_returned)

text \<open>The first connection that does not deliver decides how the loop ends.\<close>

definition recast :: "'a Outcome \<Rightarrow> 'b Outcome" where
  "recast out = and_then out (\<lambda>_. Undefined)"

lemma recast_not_Returned [simp]: "recast out \<noteq> Returned x"
  by (cases out) (simp_all add: recast_def)

lemma and_then_recast: "(\<And>x. out \<noteq> Returned x) \<Longrightarrow> and_then out k = recast out"
  by (cases out) (auto simp: recast_def)

lemma recast_recast [simp]: "recast (recast out) = recast out"
  by (cases out) (simp_all add: recast_def)

section \<open>The invariant\<close>

text \<open>
  \<open>P\<close> are the connections in the poll list. A wrapper that is queued stands in the queue once and
  has a session; one that is to be deleted is queued and no longer polled; no session runs.
\<close>

definition wrapper_ok :: "fd set \<Rightarrow> fd list \<Rightarrow> fd \<Rightarrow> 's SessionWrapper \<Rightarrow> bool" where
  "wrapper_ok P q f w \<longleftrightarrow> \<not> w_running w \<and> (w_enqueued w \<longleftrightarrow> f \<in> set q) \<and> (w_enqueued w \<longrightarrow> w_session w \<noteq> None) \<and>
     (w_to_delete w \<longrightarrow> w_enqueued w) \<and> (w_closed_by_peer w \<longrightarrow> w_to_delete w) \<and> (f \<in> P \<longleftrightarrow> \<not> w_to_delete w)"

definition server_inv :: "fd set \<Rightarrow> ('s, 'g) UnixDomainServer \<Rightarrow> bool" where
  "server_inv P st \<longleftrightarrow> distinct (map fst (connection_fd_map st)) \<and> distinct (work_queue st) \<and>
     P \<subseteq> dom (map_of (connection_fd_map st)) \<and> set (work_queue st) \<subseteq> dom (map_of (connection_fd_map st)) \<and>
     (\<forall>f w. map_of (connection_fd_map st) f = Some w \<longrightarrow> wrapper_ok P (work_queue st) f w)"

lemma server_invD:
  "server_inv P st \<Longrightarrow> map_of (connection_fd_map st) f = Some w \<Longrightarrow> wrapper_ok P (work_queue st) f w"
  by (simp add: server_inv_def)

lemma server_inv_keys: "server_inv P st \<Longrightarrow> distinct (map fst (connection_fd_map st))"
  by (simp add: server_inv_def)

text \<open>Replacing one wrapper, with the queue it goes with.\<close>

lemma wrapper_ok_other:
  "wrapper_ok P q f w \<Longrightarrow> (f \<in> set q' \<longleftrightarrow> f \<in> set q) \<Longrightarrow> (f \<in> P' \<longleftrightarrow> f \<in> P) \<Longrightarrow> wrapper_ok P' q' f w"
  by (auto simp: wrapper_ok_def)

lemma server_inv_change:
  assumes inv: "server_inv P st" and keys: "distinct (map fst (connection_fd_map st'))"
    and map: "map_of (connection_fd_map st') = (map_of (connection_fd_map st))(f := v)"
    and queue: "distinct (work_queue st')" "set (work_queue st') - {f} = set (work_queue st) - {f}" and polled: "P' - {f} = P - {f}"
    and new: "case v of None \<Rightarrow> f \<notin> set (work_queue st') \<and> f \<notin> P' | Some w \<Rightarrow> wrapper_ok P' (work_queue st') f w"
  shows "server_inv P' st'"
proof -
  have "wrapper_ok P' (work_queue st') f' w'" if "map_of (connection_fd_map st) f' = Some w'" "f' \<noteq> f" for f' w'
    using server_invD [OF inv that(1)] by (rule wrapper_ok_other) (use that(2) queue(2) polled in auto)
  moreover have "P - {f} \<subseteq> dom (map_of (connection_fd_map st))" "set (work_queue st) - {f} \<subseteq> dom (map_of (connection_fd_map st))"
    using inv by (auto simp: server_inv_def simp del: dom_map_of_conv_image_fst)
  then have "P' - {f} \<subseteq> dom (map_of (connection_fd_map st))" "set (work_queue st') - {f} \<subseteq> dom (map_of (connection_fd_map st))"
    using polled queue(2) by auto
  ultimately show ?thesis
    unfolding server_inv_def map using keys queue(1) new by (cases v) (auto simp del: dom_map_of_conv_image_fst)
qed

lemma server_inv_put:
  assumes "server_inv P st" "f \<in> dom (map_of (connection_fd_map st))"
    and q: "work_queue st' = work_queue st \<or> work_queue st' = work_queue st @ [f] \<and> f \<notin> set (work_queue st)"
    and m: "connection_fd_map st' = connection_fd_map st" and w: "wrapper_ok P' (work_queue st') f w" and P': "P' = P \<or> P' = P - {f}"
  shows "server_inv P' (put_wrapper f w st')"
  using assms by (intro server_inv_change [OF assms(1), of _ f "Some w"])
    (auto simp: put_wrapper_def AList.update_conv' AList.distinct_update server_inv_def)

lemma server_inv_erase:
  assumes "server_inv P st" "f \<notin> set (work_queue st)"
  shows "server_inv (P - {f}) (erase_connection f st)"
  using assms by (intro server_inv_change [OF assms(1), of _ f None])
    (auto simp: erase_connection_def AList.delete_conv' AList.distinct_delete server_inv_def)

lemma EnqueueTick_inv:
  assumes "EnqueueTick f w st = (w', st')" "\<not> w_running w" "\<not> w_to_delete w" "w_enqueued w \<longleftrightarrow> f \<in> set (work_queue st)"
  shows "w' = w\<lparr>w_enqueued := True\<rparr>" "work_queue st' = work_queue st \<or> work_queue st' = work_queue st @ [f] \<and> f \<notin> set (work_queue st)"
    "f \<in> set (work_queue st')" "connection_fd_map st' = connection_fd_map st" "connection_pollfd_list st' = connection_pollfd_list st"
    "closed_fds st' = closed_fds st"
  using assms by (auto simp: EnqueueTick_def EnqueueTickDirect_def split: if_splits)

text \<open>What a handled message does to the wrapper and the queue.\<close>

lemma HandleCommand_inv:
  assumes "HandleCommand I now m f w st = (keep, w', st')" "wrapper_ok P (work_queue st) f w" "f \<in> P"
  shows "connection_fd_map st' = connection_fd_map st"
    "work_queue st' = work_queue st \<or> work_queue st' = work_queue st @ [f] \<and> f \<notin> set (work_queue st)"
    "wrapper_ok P (work_queue st') f w'" "\<not> keep \<Longrightarrow> w' = w \<and> st' = st \<and> w_session w = None"
proof -
  have w: "\<not> w_running w" "\<not> w_to_delete w" "w_enqueued w \<longleftrightarrow> f \<in> set (work_queue st)" "\<not> w_closed_by_peer w"
    using assms(2,3) by (auto simp: wrapper_ok_def)
  consider (kept) s st0 where "keep" "EnqueueTick f (w\<lparr>w_session := Some s\<rparr>) st0 = (w', st')"
      "connection_fd_map st0 = connection_fd_map st" "work_queue st0 = work_queue st"
    | (waiting) "w' = w" "st' = st" "\<not> keep \<longrightarrow> w_session w = None"
    using assms(1) by (auto simp: HandleCommand_def split: option.splits if_splits prod.splits)
  then have "connection_fd_map st' = connection_fd_map st \<and>
    (work_queue st' = work_queue st \<or> work_queue st' = work_queue st @ [f] \<and> f \<notin> set (work_queue st)) \<and>
    wrapper_ok P (work_queue st') f w' \<and> (\<not> keep \<longrightarrow> w' = w \<and> st' = st \<and> w_session w = None)"
  proof cases
    case kept
    have "w_enqueued (w\<lparr>w_session := Some s\<rparr>) \<longleftrightarrow> f \<in> set (work_queue st0)" using w(3) kept(4) by simp
    note e = EnqueueTick_inv [OF kept(2) _ _ this, simplified, OF w(1,2)]
    with kept w assms(3) show ?thesis by (auto simp: wrapper_ok_def)
  qed (use assms(2) in simp)
  then show "connection_fd_map st' = connection_fd_map st"
    "work_queue st' = work_queue st \<or> work_queue st' = work_queue st @ [f] \<and> f \<notin> set (work_queue st)"
    "wrapper_ok P (work_queue st') f w'" "\<not> keep \<Longrightarrow> w' = w \<and> st' = st \<and> w_session w = None"
    by blast+
qed

lemma TryEnqueueForDelete_inv:
  assumes "TryEnqueueForDelete b f w st = (delayed, w', st')" "wrapper_ok P (work_queue st) f w" "f \<in> P"
  shows "connection_fd_map st' = connection_fd_map st"
    "work_queue st' = work_queue st \<or> work_queue st' = work_queue st @ [f] \<and> f \<notin> set (work_queue st)"
    "delayed \<Longrightarrow> wrapper_ok (P - {f}) (work_queue st') f w'" "\<not> delayed \<Longrightarrow> w' = w \<and> st' = st \<and> f \<notin> set (work_queue st)"
  using assms by (auto simp: TryEnqueueForDelete_def EnqueueTickDirect_def wrapper_ok_def Let_def split: if_splits)

lemma serve_connection_inv:
  assumes "server_inv P st" "f \<in> P" "serve_connection I now b response f st = (keep, st')"
  shows "server_inv (if keep then P else P - {f}) st'"
proof -
  obtain w where w: "map_of (connection_fd_map st) f = Some w" using assms(1,2) by (auto simp: server_inv_def)
  note ok = server_invD [OF assms(1) w]
  have dom: "f \<in> dom (map_of (connection_fd_map st))" using w by auto
  obtain handled w1 st1 where h:
    "(case response of None \<Rightarrow> (False, w, st) | Some m \<Rightarrow> HandleCommand I now m f w st) = (handled, w1, st1)" by (metis prod_cases3)
  have h1: "connection_fd_map st1 = connection_fd_map st"
    "work_queue st1 = work_queue st \<or> work_queue st1 = work_queue st @ [f] \<and> f \<notin> set (work_queue st)"
    "wrapper_ok P (work_queue st1) f w1" "\<not> handled \<Longrightarrow> w1 = w \<and> st1 = st"
    using h HandleCommand_inv [OF _ ok assms(2), where m = m and st' = st1 and w' = w1 for m] ok by (auto split: option.splits)
  show ?thesis
  proof (cases handled)
    case True
    then have "keep" "st' = put_wrapper f w1 st1" using assms(3) w h by (auto simp: serve_connection_def)
    with server_inv_put [OF assms(1) dom h1(2,1,3)] show ?thesis by simp
  next
    case False
    note same = h1(4) [OF False]
    obtain delayed w2 st2 where d: "TryEnqueueForDelete b f w st = (delayed, w2, st2)" by (metis prod_cases3)
    note t = TryEnqueueForDelete_inv [OF d ok assms(2)]
    have r: "\<not> keep" "st' = (if \<not> delayed then erase_connection f (put_wrapper f w2 st2) else put_wrapper f w2 st2)"
      using assms(3) w h d same False by (auto simp: serve_connection_def Let_def)
    show ?thesis
    proof (cases delayed)
      case True
      then show ?thesis using server_inv_put [OF assms(1) dom t(2,1) t(3)] r by simp
    next
      case False
      have "server_inv P (put_wrapper f w2 st2)"
        using t(4) [OF False] ok by (intro server_inv_put [OF assms(1) dom]) auto
      moreover have "f \<notin> set (work_queue (put_wrapper f w2 st2))" using t(4) [OF False] by (simp add: put_wrapper_def)
      ultimately show ?thesis using False r server_inv_erase by auto
    qed
  qed
qed

lemma frame_list [simp]:
  "connection_pollfd_list (put_wrapper f w st) = connection_pollfd_list st" "connection_pollfd_list (erase_connection f st) = connection_pollfd_list st"
  "connection_pollfd_list (EnqueueTickDirect f st) = connection_pollfd_list st"
  "connection_pollfd_list (snd (EnqueueTick f w st)) = connection_pollfd_list st"
  "connection_pollfd_list (snd (snd (TryEnqueueForDelete b f w st))) = connection_pollfd_list st"
  by (simp_all add: put_wrapper_def erase_connection_def EnqueueTickDirect_def EnqueueTick_def TryEnqueueForDelete_def Let_def)

lemma HandleCommand_list [simp]: "connection_pollfd_list (snd (snd (HandleCommand I now m f w st))) = connection_pollfd_list st"
  by (simp add: HandleCommand_def split_beta split: option.split)

lemma serve_connection_list: "connection_pollfd_list (snd (serve_connection I now b response f st)) = connection_pollfd_list st"
  by (simp add: serve_connection_def split_beta Let_def split: option.split)

text \<open>The file descriptors the server has closed, with those it still holds.\<close>

definition ledger :: "('s, 'g) UnixDomainServer \<Rightarrow> fd multiset" where
  "ledger st = mset (closed_fds st) + mset (map fst (connection_fd_map st))"

lemma ledger_put: "f \<in> fst ` set (connection_fd_map st) \<Longrightarrow> ledger (put_wrapper f w st) = ledger st"
  by (simp add: ledger_def put_wrapper_def AList.update_keys)

lemma ledger_erase:
  "distinct (map fst (connection_fd_map st)) \<Longrightarrow> f \<in> fst ` set (connection_fd_map st) \<Longrightarrow> ledger (erase_connection f st) = ledger st"
  by (simp add: ledger_def erase_connection_def AList.delete_keys flip: distinct_remove1_removeAll)

lemma distinct_put: "distinct (map fst (connection_fd_map st)) \<Longrightarrow> distinct (map fst (connection_fd_map (put_wrapper f w st)))"
  by (simp add: put_wrapper_def AList.distinct_update)

lemma in_keys_put: "f \<in> fst ` set (connection_fd_map (put_wrapper f w st))"
  by (simp add: put_wrapper_def AList.update_conv' flip: dom_map_of_conv_image_fst)

lemma frame_ledger [simp]:
  "closed_fds (snd (snd (TryEnqueueForDelete b f w st))) = closed_fds st" "connection_fd_map (snd (snd (TryEnqueueForDelete b f w st))) = connection_fd_map st"
  "closed_fds (snd (EnqueueTick f w st)) = closed_fds st" "connection_fd_map (snd (EnqueueTick f w st)) = connection_fd_map st"
  by (simp_all add: EnqueueTickDirect_def EnqueueTick_def TryEnqueueForDelete_def Let_def)

lemma HandleCommand_ledger [simp]:
  "closed_fds (snd (snd (HandleCommand I now m f w st))) = closed_fds st"
  "connection_fd_map (snd (snd (HandleCommand I now m f w st))) = connection_fd_map st"
  by (simp_all add: HandleCommand_def split_beta split: option.split)

lemma serve_connection_ledger:
  assumes "distinct (map fst (connection_fd_map st))"
  shows "ledger (snd (serve_connection I now b response f st)) = ledger st"
proof (cases "map_of (connection_fd_map st) f")
  case (Some w)
  then have f: "f \<in> fst ` set (connection_fd_map st)" by (metis domI dom_map_of_conv_image_fst)
  have put: "ledger (put_wrapper f w' st') = ledger st" "ledger (erase_connection f (put_wrapper f w' st')) = ledger st"
    if "closed_fds st' = closed_fds st" "connection_fd_map st' = connection_fd_map st" for w' st'
    using assms f that by (simp_all add: ledger_put ledger_erase distinct_put in_keys_put) (simp_all add: ledger_def)
  show ?thesis using Some by (simp add: serve_connection_def split_beta Let_def put split: option.split)
qed (simp add: serve_connection_def)

text \<open>What either loop does for an element: it keeps the invariant, without the element when that is dropped.\<close>

definition serves_inv :: "(bool \<Rightarrow> fd \<Rightarrow> ('s, 'g) UnixDomainServer \<Rightarrow> bool \<times> ('s, 'g) UnixDomainServer) \<Rightarrow> bool" where
  "serves_inv serve \<longleftrightarrow> (\<forall>pollin f st P. server_inv P st \<longrightarrow> f \<in> P \<longrightarrow>
     server_inv (if fst (serve pollin f st) then P else P - {f}) (snd (serve pollin f st)) \<and>
     connection_pollfd_list (snd (serve pollin f st)) = connection_pollfd_list st \<and> ledger (snd (serve pollin f st)) = ledger st)"

lemma serves_inv_loops: "serves_inv (serve_received I now recv)" "serves_inv (serve_idle I now)"
proof -
  have "server_inv (if fst (serve_connection I now b r f st) then P else P - {f}) (snd (serve_connection I now b r f st))"
    if "server_inv P st" "f \<in> P" for b r f P st
    by (rule serve_connection_inv [OF that, where I = I and now = now and b = b and response = r]) simp
  then show "serves_inv (serve_received I now recv)" "serves_inv (serve_idle I now)"
    by (simp_all add: serves_inv_def serve_received_def serve_idle_def serve_connection_list serve_connection_ledger server_inv_keys)
qed

lemma serve_step:
  assumes "serves_inv serve" "server_inv (K \<union> fst ` set ((f, pollin) # its)) st" "distinct (map fst ((f, pollin) # its))"
    and "K \<inter> fst ` set ((f, pollin) # its) = {}" "serve pollin f st = (keep, st1)"
  shows "server_inv ((if keep then insert f K else K) \<union> fst ` set its) st1" "distinct (map fst its)"
    "(if keep then insert f K else K) \<inter> fst ` set its = {}" "connection_pollfd_list st1 = connection_pollfd_list st" "ledger st1 = ledger st"
proof -
  let ?P = "K \<union> fst ` set ((f, pollin) # its)"
  have "f \<in> ?P" by simp
  from assms(1) [unfolded serves_inv_def, rule_format, OF assms(2) this, of pollin]
  have "server_inv (if keep then ?P else ?P - {f}) st1" and l: "connection_pollfd_list st1 = connection_pollfd_list st" "ledger st1 = ledger st"
    using assms(5) by simp_all
  moreover have "(if keep then ?P else ?P - {f}) = (if keep then insert f K else K) \<union> fst ` set its" using assms(3,4) by auto
  ultimately show "server_inv ((if keep then insert f K else K) \<union> fst ` set its) st1" by simp
  show "distinct (map fst its)" "(if keep then insert f K else K) \<inter> fst ` set its = {}" using assms(3,4) by auto
  show "connection_pollfd_list st1 = connection_pollfd_list st" "ledger st1 = ledger st" by (rule l)+
qed

lemma connection_loop_inv:
  assumes "serves_inv serve" "connection_loop serve its st = (kept, st')" "server_inv (K \<union> fst ` set its) st"
    and "distinct (map fst its)" "K \<inter> fst ` set its = {}"
  shows "server_inv (K \<union> fst ` set kept) st' \<and> fst ` set kept \<subseteq> fst ` set its \<and> distinct (map fst kept) \<and>
    connection_pollfd_list st' = connection_pollfd_list st \<and> ledger st' = ledger st"
  using assms(2-)
proof (induction its arbitrary: K kept st st')
  case (Cons it its)
  obtain f pollin where it: "it = (f, pollin)" by fastforce
  obtain keep st1 where s1: "serve pollin f st = (keep, st1)" by fastforce
  obtain kept1 st2 where s2: "connection_loop serve its st1 = (kept1, st2)" by fastforce
  have r: "kept = (if keep then it # kept1 else kept1)" "st' = st2" using Cons.prems(1) it s1 s2 by auto
  note step = serve_step [OF assms(1) Cons.prems(2-4) [unfolded it] s1]
  from Cons.IH [OF s2 step(1-3)] r step(4,5) it Cons.prems(3) show ?case by auto
qed simp

text \<open>The invariant of the server between two iterations.\<close>

definition conn_inv :: "('s, 'g) UnixDomainServer \<Rightarrow> bool" where
  "conn_inv st \<longleftrightarrow> (\<exists>server its. connection_pollfd_list st = server # its \<and> distinct (map fst its) \<and> server_inv (fst ` set its) st)"

lemma ledger_list [simp]: "ledger (st\<lparr>connection_pollfd_list := l\<rparr>) = ledger st" "ledger (st\<lparr>work_queue := q\<rparr>) = ledger st"
    "ledger (st\<lparr>outside := g\<rparr>) = ledger st" "ledger (EnqueueTickDirect f st) = ledger st"
  by (simp_all add: ledger_def EnqueueTickDirect_def)

lemma loop_conn_inv:
  assumes "conn_inv st" "serves_inv serve"
    and st': "st' = (case connection_pollfd_list st of [] \<Rightarrow> st
      | server # its \<Rightarrow> let (kept, st) = connection_loop serve its st in st\<lparr>connection_pollfd_list := server # kept\<rparr>)"
  shows "conn_inv st' \<and> ledger st' = ledger st"
proof -
  obtain server its where l: "connection_pollfd_list st = server # its" "distinct (map fst its)" "server_inv ({} \<union> fst ` set its) st"
    using assms(1) by (auto simp: conn_inv_def)
  obtain kept st1 where c: "connection_loop serve its st = (kept, st1)" by fastforce
  from connection_loop_inv [OF assms(2) c l(3,2)] have "server_inv (fst ` set kept) st1" "distinct (map fst kept)" "ledger st1 = ledger st" by simp_all
  then show ?thesis using l(1) c by (auto simp: st' conn_inv_def server_inv_def)
qed

lemmas process_connections_inv =
  loop_conn_inv [OF _ serves_inv_loops(1) ProcessReceived_def]
  loop_conn_inv [OF _ serves_inv_loops(2) ProcessIdleConnections_def]

section \<open>The work queue\<close>

definition pop_front :: "('s, 'g) UnixDomainServer \<Rightarrow> ('s, 'g) UnixDomainServer" where
  "pop_front st = st\<lparr>work_queue := tl (work_queue st)\<rparr>"

text \<open>The front of the queue always has a session; its turn keeps the invariant.\<close>

lemma run_front_session:
  assumes "server_inv P st" "work_queue st = f # rest"
  obtains w s where "map_of (connection_fd_map st) f = Some w" "w_session w = Some s" "w_enqueued w" "wrapper_ok P (f # rest) f w"
proof -
  have "f \<in> dom (map_of (connection_fd_map st))" using assms by (auto simp: server_inv_def simp del: dom_map_of_conv_image_fst)
  then obtain w where w: "map_of (connection_fd_map st) f = Some w" by auto
  from server_invD [OF assms(1) w] assms(2) have "wrapper_ok P (f # rest) f w" by simp
  with w that show ?thesis by (auto simp: wrapper_ok_def)
qed

definition ran :: "bool \<Rightarrow> 's \<Rightarrow> 's SessionWrapper \<Rightarrow> 's SessionWrapper" where
  "ran requeue s w = w\<lparr>w_enqueued := requeue, w_running := False, w_closed_by_peer := False, w_session := Some s\<rparr>"

definition turned :: "bool \<Rightarrow> 's \<Rightarrow> 'g \<Rightarrow> fd \<Rightarrow> 's SessionWrapper \<Rightarrow> ('s, 'g) UnixDomainServer \<Rightarrow> ('s, 'g) UnixDomainServer" where
  "turned requeue s g f w st =
     (let st = put_wrapper f (ran requeue s w) (st\<lparr>outside := g\<rparr>)
      in if requeue then EnqueueTickDirect f st else if w_to_delete w then erase_connection f st else st)"

lemma turned_map:
  "map_of (connection_fd_map (turned requeue s g f w st)) =
     (map_of (connection_fd_map st))(f := if \<not> requeue \<and> w_to_delete w then None else Some (ran requeue s w))"
  by (auto simp: turned_def put_wrapper_def erase_connection_def EnqueueTickDirect_def AList.update_conv' AList.delete_conv' Let_def)

lemma turned_queue: "work_queue (turned requeue s g f w st) = work_queue st @ (if requeue then [f] else [])"
  by (simp add: turned_def put_wrapper_def erase_connection_def EnqueueTickDirect_def Let_def)

lemma turned_keys:
  "distinct (map fst (connection_fd_map st)) \<Longrightarrow> distinct (map fst (connection_fd_map (turned requeue s g f w st)))"
  by (auto simp: turned_def put_wrapper_def erase_connection_def EnqueueTickDirect_def AList.distinct_update AList.distinct_delete Let_def)

lemma run_front_eq:
  assumes "map_of (connection_fd_map st) f = Some w" "w_session w = Some s"
    and "(if w_closed_by_peer w then ses_OnClosedByPeer I s (outside st) else (s, outside st)) = (s1, g1)"
    and "ses_Tick I s1 g1 = (requeue, s2, g2)"
  shows "run_front I f st = Returned (turned requeue s2 g2 f w st)"
  using assms by (cases w; cases requeue) (auto simp: run_front_def SetRunning_def ResetRunning_def ran_def turned_def Let_def)

lemma run_front_turn:
  assumes "server_inv P st" "work_queue st = f # rest"
  obtains w s s1 g1 requeue s2 g2 where "map_of (connection_fd_map st) f = Some w" "w_session w = Some s" "wrapper_ok P (f # rest) f w"
    "(if w_closed_by_peer w then ses_OnClosedByPeer I s (outside st) else (s, outside st)) = (s1, g1)"
    "ses_Tick I s1 g1 = (requeue, s2, g2)" "run_front I f st = Returned (turned requeue s2 g2 f w st)"
proof -
  obtain w s where w: "map_of (connection_fd_map st) f = Some w" "w_session w = Some s" "wrapper_ok P (f # rest) f w"
    using run_front_session [OF assms] by blast
  obtain s1 g1 where c: "(if w_closed_by_peer w then ses_OnClosedByPeer I s (outside st) else (s, outside st)) = (s1, g1)"
    by (metis surj_pair)
  obtain requeue s2 g2 where t: "ses_Tick I s1 g1 = (requeue, s2, g2)" by (metis prod_cases3)
  show thesis using that [OF w c t run_front_eq [OF w(1,2) c t]] .
qed

lemma run_front_inv:
  assumes "server_inv P st" "work_queue st = f # rest"
  shows "\<exists>st'. run_front I f st = Returned st' \<and> server_inv P (pop_front st')"
proof -
  obtain w s s1 g1 requeue s2 g2 where w: "map_of (connection_fd_map st) f = Some w" "w_session w = Some s" "wrapper_ok P (f # rest) f w"
    and c: "(if w_closed_by_peer w then ses_OnClosedByPeer I s (outside st) else (s, outside st)) = (s1, g1)"
    and t: "ses_Tick I s1 g1 = (requeue, s2, g2)" and r: "run_front I f st = Returned (turned requeue s2 g2 f w st)"
    by (rule run_front_turn [OF assms])
  have q: "distinct rest" "f \<notin> set rest" "distinct (map fst (connection_fd_map st))" using assms by (auto simp: server_inv_def)
  have "server_inv P (pop_front (turned requeue s2 g2 f w st))"
    by (rule server_inv_change [OF assms(1), of _ f "if \<not> requeue \<and> w_to_delete w then None else Some (ran requeue s2 w)"])
      (use w(3) q assms(2) in \<open>auto simp: pop_front_def turned_map turned_queue turned_keys wrapper_ok_def ran_def\<close>)
  with r show ?thesis by blast
qed

lemma run_front_list: "run_front I f st = Returned st' \<Longrightarrow> connection_pollfd_list st' = connection_pollfd_list st"
  by (auto simp: run_front_def Let_def split_beta split: option.splits if_splits)

lemma run_front_ledger:
  assumes "run_front I f st = Returned st'" "distinct (map fst (connection_fd_map st))"
  shows "ledger st' = ledger st"
proof (cases "map_of (connection_fd_map st) f")
  case (Some w)
  then have f: "f \<in> fst ` set (connection_fd_map st)" by (metis domI dom_map_of_conv_image_fst)
  have "ledger (put_wrapper f w' (st\<lparr>outside := g\<rparr>)) = ledger st" "ledger (erase_connection f (put_wrapper f w' (st\<lparr>outside := g\<rparr>))) = ledger st" for w' g
    using assms(2) f by (simp_all add: ledger_put ledger_erase distinct_put in_keys_put)
  then show ?thesis using assms(1) Some by (auto simp: run_front_def Let_def split_beta split: option.splits if_splits)
qed (use assms(1) in \<open>simp add: run_front_def\<close>)

text \<open>What every turn of the loop keeps holds when the loop is left.\<close>

definition turn_keeps :: "('s, 'g) ISession \<Rightarrow> (('s, 'g) UnixDomainServer \<Rightarrow> bool) \<Rightarrow> bool" where
  "turn_keeps I J \<longleftrightarrow> (\<forall>st f rest st'. J st \<longrightarrow> work_queue st = f # rest \<longrightarrow> run_front I f st = Returned st' \<longrightarrow> J (pop_front st'))"

lemma ProcessQueue_ends:
  assumes "ProcessQueue I st = Some out" "turn_keeps I J" "J st"
  obtains st' where "J st'" "work_queue st' = []" "out = Returned st'"
    | st' f rest where "J st'" "work_queue st' = f # rest" "run_front I f st' = out" "\<And>st''. out \<noteq> Returned st''"
proof -
  let ?ended = "\<lambda>I out. \<exists>st'. J st' \<and> (work_queue st' = [] \<and> out = Returned st' \<or>
    (\<exists>f rest. work_queue st' = f # rest \<and> run_front I f st' = out \<and> (\<forall>st''. out \<noteq> Returned st'')))"
  have "turn_keeps I J \<and> J st \<longrightarrow> ?ended I out"
    using assms(1)
  proof (rule ProcessQueue.raw_induct [rotated])
    fix pq and I :: "('a, 'b) ISession" and st :: "('a, 'b) UnixDomainServer" and out
    assume IH: "\<And>I st out. pq I st = Some out \<Longrightarrow> turn_keeps I J \<and> J st \<longrightarrow> ?ended I out"
      and eq: "(case work_queue st of [] \<Rightarrow> Some (Returned st) | f # rest \<Rightarrow>
        (case run_front I f st of Returned st \<Rightarrow> pq I (st\<lparr>work_queue := tl (work_queue st)\<rparr>) | out \<Rightarrow> Some out)) = Some out"
    show "turn_keeps I J \<and> J st \<longrightarrow> ?ended I out"
    proof (cases "work_queue st")
      case (Cons f rest)
      show ?thesis
      proof (cases "\<exists>st1. run_front I f st = Returned st1")
        case True
        then obtain st1 where st1: "run_front I f st = Returned st1" "pq I (pop_front st1) = Some out"
          using eq Cons by (auto simp: pop_front_def)
        then show ?thesis using IH [OF st1(2)] Cons by (auto simp: turn_keeps_def)
      next
        case False
        then have "run_front I f st = out" "\<forall>st''. out \<noteq> Returned st''" using eq Cons by (auto split: Outcome.splits)
        then show ?thesis using Cons by blast
      qed
    qed (use eq in auto)
  qed
  then show thesis using assms(2,3) that by blast
qed

lemma ProcessQueue_keeps:
  assumes "ProcessQueue I st = Some (Returned st')" "turn_keeps I J" "J st"
  shows "J st' \<and> work_queue st' = []"
  using assms(1,2,3) by (rule ProcessQueue_ends) auto

lemma ProcessQueue_inv:
  assumes "ProcessQueue I st = Some (Returned st')" "server_inv P st"
  shows "server_inv P st' \<and> work_queue st' = [] \<and> connection_pollfd_list st' = connection_pollfd_list st \<and> ledger st' = ledger st"
proof -
  let ?J = "\<lambda>st1. server_inv P st1 \<and> connection_pollfd_list st1 = connection_pollfd_list st \<and> ledger st1 = ledger st"
  have "server_inv P (pop_front st2)" if "server_inv P st1" "work_queue st1 = f # rest" "run_front I f st1 = Returned st2" for st1 st2 f rest
    using run_front_inv [OF that(1,2), of I] that(3) by auto
  then have "turn_keeps I ?J"
    using run_front_list run_front_ledger by (fastforce simp: turn_keeps_def pop_front_def server_inv_keys)
  from ProcessQueue_keeps [OF assms(1) this] assms(2) show ?thesis by simp
qed

text \<open>With an empty queue, exactly the polled connections are left.\<close>

lemma idle_connections:
  assumes "server_inv P st" "work_queue st = []"
  shows "set (map fst (connection_fd_map st)) = P"
proof -
  have "f \<in> P" if "map_of (connection_fd_map st) f = Some w" for f w
    using server_invD [OF assms(1) that] assms(2) by (auto simp: wrapper_ok_def)
  then have "dom (map_of (connection_fd_map st)) \<subseteq> P" by auto
  moreover have "P \<subseteq> dom (map_of (connection_fd_map st))" using assms(1) by (simp add: server_inv_def)
  ultimately show ?thesis by (auto simp: dom_map_of_conv_image_fst)
qed

section \<open>The life of the server\<close>

lemma accept_inv:
  assumes "accept_connection env st = Returned st'" "conn_inv st"
    and fresh: "\<And>f. pe_accept env = Some f \<Longrightarrow> f \<notin> fst ` set (connection_fd_map st)"
  shows "conn_inv st' \<and> ledger st' = ledger st +
    mset (case connection_pollfd_list st of (server, True) # its \<Rightarrow> (case pe_accept env of None \<Rightarrow> [] | Some f \<Rightarrow> [f]) | _ \<Rightarrow> [])"
proof -
  obtain server pollin its where l: "connection_pollfd_list st = (server, pollin) # its" "distinct (map fst its)" "server_inv (fst ` set its) st"
    using assms(2) by (auto simp: conn_inv_def)
  show ?thesis
  proof (cases "pollin \<and> pe_accept env \<noteq> None")
    case True
    then obtain f where f: "pollin" "pe_accept env = Some f" by auto
    note new = fresh [OF f(2)]
    then have n: "map_of (connection_fd_map st) f = None" by (simp add: map_of_eq_None_iff)
    have st': "st' = st\<lparr>connection_pollfd_list := connection_pollfd_list st @ [(f, False)],
        connection_fd_map := connection_fd_map st @ [(f, NewSessionWrapper (pe_now env))]\<rparr>"
      using assms(1) l(1) f n by (simp add: accept_connection_def Let_def)
    have sub: "fst ` set its \<subseteq> fst ` set (connection_fd_map st)" "set (work_queue st) \<subseteq> fst ` set (connection_fd_map st)"
      using l(3) by (auto simp: server_inv_def dom_map_of_conv_image_fst)
    have "map_of (connection_fd_map st') = (map_of (connection_fd_map st))(f \<mapsto> NewSessionWrapper (pe_now env))"
      using n by (auto simp: st' map_add_def fun_eq_iff split: option.split)
    then have "server_inv (insert f (fst ` set its)) st'"
      by (rule server_inv_change [OF l(3), rotated 1])
        (use l(3) new sub in \<open>auto simp: st' server_inv_def wrapper_ok_def NewSessionWrapper_def\<close>)
    then show ?thesis using l(1,2) f new sub by (auto simp: conn_inv_def ledger_def st')
  qed (use assms(1,2) l(1) in \<open>auto simp: accept_connection_def split: if_splits option.splits bool.splits\<close>)
qed

lemma accept_returns: "pe_accept env \<noteq> None \<Longrightarrow> \<exists>st'. accept_connection env st = Returned st'"
  by (auto simp: accept_connection_def Let_def split: list.split prod.split bool.split)

text \<open>The connections with something to read are among those that were polled.\<close>

lemma accept_polled:
  assumes "accept_connection env (st\<lparr>connection_pollfd_list := map (\<lambda>(f, _). (f, revents f)) (connection_pollfd_list st)\<rparr>) = Returned st1"
    and "(f, True) \<in> set (tl (connection_pollfd_list st1))"
  shows "f \<in> fst ` set (tl (connection_pollfd_list st)) \<and> revents f"
proof (cases "connection_pollfd_list st")
  case (Cons server its)
  then have "(f, True) \<in> set (map (\<lambda>(f, _). (f, revents f)) its)"
    using assms by (cases server) (auto simp: accept_connection_def Let_def split: bool.splits option.splits if_splits)
  then show ?thesis using Cons by force
qed (use assms in \<open>auto simp: accept_connection_def\<close>)

text \<open>The events of the poll change no descriptor.\<close>

lemma conn_inv_poll:
  "conn_inv st \<Longrightarrow> conn_inv (st\<lparr>connection_pollfd_list := map (\<lambda>(f, _). (f, revents f)) (connection_pollfd_list st)\<rparr>)"
  by (fastforce simp: conn_inv_def server_inv_def o_def split_beta image_image)

lemma queue_conn_inv:
  assumes "ProcessQueue I st = Some (Returned st')" "conn_inv st"
  shows "conn_inv st' \<and> work_queue st' = [] \<and> ledger st' = ledger st"
  using assms(2) ProcessQueue_inv [OF assms(1)] by (auto simp: conn_inv_def)

text \<open>The descriptors an iteration takes from the system.\<close>

definition accepted :: "PollEnv \<Rightarrow> ('s, 'g) UnixDomainServer \<Rightarrow> fd list" where
  "accepted env st =
     (case (pe_poll env, connection_pollfd_list st, pe_accept env) of
        (Some revents, server # its, Some f) \<Rightarrow> if revents (fst server) then [f] else []
      | _ \<Rightarrow> [])"

lemma iteration_inv:
  assumes "ProcessServerIteration I env timeout st = Some (Returned st')" "conn_inv st"
    and fresh: "\<And>f. pe_accept env = Some f \<Longrightarrow> f \<notin> fst ` set (connection_fd_map st)"
  shows "conn_inv st' \<and> work_queue st' = [] \<and> ledger st' = ledger st + mset (accepted env st)"
proof -
  obtain revents st1 st2 where p: "pe_poll env = Some revents"
    and a: "accept_connection env (st\<lparr>connection_pollfd_list := map (\<lambda>(f, _). (f, revents f)) (connection_pollfd_list st)\<rparr>) = Returned st1"
    and q: "ProcessQueue I (ProcessReceived I (pe_now env) (received (pe_recv env)) st1) = Some (Returned st2)"
    and r: "if 0 < timeout then st' = st2 else ProcessQueue I (ProcessIdleConnections I (pe_now env) st2) = Some (Returned st')"
    by (rule iteration_returned [OF assms(1)])
  let ?st = "st\<lparr>connection_pollfd_list := map (\<lambda>(f, _). (f, revents f)) (connection_pollfd_list st)\<rparr>"
  have "mset (case connection_pollfd_list ?st of (server, True) # its \<Rightarrow> (case pe_accept env of None \<Rightarrow> [] | Some f \<Rightarrow> [f]) | _ \<Rightarrow> []) = mset (accepted env st)"
    using p by (auto simp: accepted_def split: list.split option.split prod.split bool.split)
  with accept_inv [OF a conn_inv_poll [OF assms(2)]] fresh have "conn_inv st1 \<and> ledger st1 = ledger st + mset (accepted env st)" by simp
  then have "conn_inv st2 \<and> work_queue st2 = [] \<and> ledger st2 = ledger st + mset (accepted env st)"
    using queue_conn_inv [OF q] process_connections_inv(1) [of st1] by auto
  then show ?thesis
    using r queue_conn_inv [of I "ProcessIdleConnections I (pe_now env) st2"] process_connections_inv(2) [of st2] by (auto split: if_splits)
qed

text \<open>What a server becomes; \<open>fds\<close> are the descriptors it accepted.\<close>

inductive server_running :: "('s, 'g) ISession \<Rightarrow> fd list \<Rightarrow> ('s, 'g) UnixDomainServer \<Rightarrow> bool" for I where
  start: "server_running I [] (NewUnixDomainServer server g)"
| iterate: "server_running I fds st \<Longrightarrow> (\<And>f. pe_accept env = Some f \<Longrightarrow> f \<notin> set (map fst (connection_fd_map st))) \<Longrightarrow>
    ProcessServerIteration I env timeout st = Some (Returned st') \<Longrightarrow> server_running I (fds @ accepted env st) st'"

lemma server_running_inv: "server_running I fds st \<Longrightarrow> conn_inv st \<and> work_queue st = [] \<and> ledger st = mset fds"
proof (induction rule: server_running.induct)
  case (start server g)
  show ?case by (auto simp: NewUnixDomainServer_def conn_inv_def server_inv_def ledger_def)
next
  case (iterate fds st env timeout st')
  then show ?case using iteration_inv [OF iterate(3)] by simp
qed

lemma cleanup_connection_ledger:
  assumes "distinct (map fst (connection_fd_map st))"
  shows "ledger (cleanup_connection it st) = ledger st \<and> distinct (map fst (connection_fd_map (cleanup_connection it st)))"
proof (cases "map_of (connection_fd_map st) (fst it)")
  case (Some w)
  then have f: "fst it \<in> fst ` set (connection_fd_map st)" by (metis domI dom_map_of_conv_image_fst)
  let ?t = "TryEnqueueForDelete False (fst it) w st"
  let ?st = "put_wrapper (fst it) (fst (snd ?t)) (snd (snd ?t))"
  have "distinct (map fst (connection_fd_map ?st))" "ledger ?st = ledger st"
    using assms f by (auto intro!: distinct_put) (simp add: ledger_put f, simp add: ledger_def)
  moreover then have "ledger (erase_connection (fst it) ?st) = ledger st" by (simp add: ledger_erase in_keys_put)
  ultimately show ?thesis
    using Some by (auto simp: cleanup_connection_def split_beta Let_def) (simp add: erase_connection_def AList.distinct_delete)
qed (use assms in \<open>simp add: cleanup_connection_def\<close>)

lemma cleanup_all_ledger:
  assumes "conn_inv st"
  shows "connection_fd_map (CleanupAllConnections st) = [] \<and> mset (closed_fds (CleanupAllConnections st)) = ledger st"
proof -
  obtain server its where l: "connection_pollfd_list st = server # its" using assms by (auto simp: conn_inv_def)
  have "distinct (map fst (connection_fd_map st))" using assms by (auto simp: conn_inv_def server_inv_def)
  then have "ledger (fold cleanup_connection its st) = ledger st"
    by (induction its arbitrary: st) (simp_all add: cleanup_connection_ledger)
  then show ?thesis using l by (simp add: CleanupAllConnections_def ledger_def)
qed

text \<open>The system gives out no descriptor that is in use.\<close>

fun accepts_fresh :: "('s, 'g) ISession \<Rightarrow> PollEnv list \<Rightarrow> nat \<Rightarrow> ('s, 'g) UnixDomainServer \<Rightarrow> bool" where
  "accepts_fresh I [] t1 st \<longleftrightarrow> True"
| "accepts_fresh I (env # envs) t1 st \<longleftrightarrow>
     (let (timeout, t1) = poll_timeout (pe_now env) t1 in
      (case pe_accept env of None \<Rightarrow> True | Some f \<Rightarrow> f \<notin> set (map fst (connection_fd_map st))) \<and>
      (case ProcessServerIteration I env timeout st of Some (Returned st) \<Rightarrow> accepts_fresh I envs t1 st | _ \<Rightarrow> True))"

fun all_accepted :: "('s, 'g) ISession \<Rightarrow> PollEnv list \<Rightarrow> nat \<Rightarrow> ('s, 'g) UnixDomainServer \<Rightarrow> fd list" where
  "all_accepted I [] t1 st = []"
| "all_accepted I (env # envs) t1 st =
     (let (timeout, t1) = poll_timeout (pe_now env) t1 in
      accepted env st @ (case ProcessServerIteration I env timeout st of Some (Returned st) \<Rightarrow> all_accepted I envs t1 st | _ \<Rightarrow> []))"

lemma server_loop_running:
  assumes "server_loop I envs t1 st = Some (Returned st')" "accepts_fresh I envs t1 st" "server_running I fds st"
  shows "server_running I (fds @ all_accepted I envs t1 st) st'"
  using assms
proof (induction envs arbitrary: t1 st fds)
  case (Cons env envs)
  obtain timeout t2 where t: "poll_timeout (pe_now env) t1 = (timeout, t2)" by fastforce
  obtain st1 where st1: "ProcessServerIteration I env timeout st = Some (Returned st1)" "server_loop I envs t2 st1 = Some (Returned st')"
    using Cons.prems(1) t by (auto split: option.splits Outcome.splits)
  have fresh: "accepts_fresh I envs t2 st1" "\<And>f. pe_accept env = Some f \<Longrightarrow> f \<notin> set (map fst (connection_fd_map st))"
    using Cons.prems(2) t st1(1) by auto
  from Cons.IH [OF st1(2) fresh(1) server_running.iterate [OF Cons.prems(3) fresh(2) st1(1)]] show ?case
    using t st1(1) by simp
qed simp

section \<open>The work loop returns\<close>

text \<open>What a session promises the server: it does not ask for its next turn for ever.\<close>

locale finite_session =
  fixes I :: "('s, 'g) ISession" and rank :: "'s \<Rightarrow> nat"
  assumes rank_Tick: "ses_Tick I s g = (True, s', g') \<Longrightarrow> rank s' < rank s"
    and rank_OnClosedByPeer: "ses_OnClosedByPeer I s g = (s', g') \<Longrightarrow> rank s' \<le> rank s"
begin

definition turns :: "('s, 'g) UnixDomainServer \<Rightarrow> fd \<Rightarrow> nat" where
  "turns st f = (case map_of (connection_fd_map st) f of None \<Rightarrow> 1 | Some w \<Rightarrow> (case w_session w of None \<Rightarrow> 1 | Some s \<Rightarrow> Suc (rank s)))"

definition pending :: "('s, 'g) UnixDomainServer \<Rightarrow> nat" where
  "pending st = sum_list (map (turns st) (work_queue st))"

lemma pending_decreases:
  assumes "server_inv P st" "work_queue st = f # rest" "run_front I f st = Returned st'"
  shows "pending (pop_front st') < pending st"
proof -
  obtain w s s1 g1 requeue s2 g2 where w: "map_of (connection_fd_map st) f = Some w" "w_session w = Some s" "wrapper_ok P (f # rest) f w"
    and c: "(if w_closed_by_peer w then ses_OnClosedByPeer I s (outside st) else (s, outside st)) = (s1, g1)"
    and t: "ses_Tick I s1 g1 = (requeue, s2, g2)" and r: "run_front I f st = Returned (turned requeue s2 g2 f w st)"
    by (rule run_front_turn [OF assms(1,2)])
  from r assms(3) have st': "st' = turned requeue s2 g2 f w st" by simp
  have "rank s1 \<le> rank s" using c rank_OnClosedByPeer by (auto split: if_splits)
  then have less: "rank s2 < rank s" if "requeue" using rank_Tick [of s1 g1 s2 g2] t that by simp
  have "f \<notin> set rest" using assms(1,2) by (auto simp: server_inv_def)
  then have "map (turns (pop_front st')) rest = map (turns st) rest"
    by (auto simp: turns_def pop_front_def st' turned_map)
  then have rest: "sum_list (map (turns (pop_front st')) rest) = sum_list (map (turns st) rest)" by (rule arg_cong)
  have "turns (pop_front st') f = Suc (rank s2)" if "requeue"
    using that by (simp add: turns_def pop_front_def st' turned_map ran_def)
  moreover have "turns st f = Suc (rank s)" using w by (simp add: turns_def)
  moreover have "work_queue (pop_front st') = rest @ (if requeue then [f] else [])"
    using assms(2) by (simp add: pop_front_def st' turned_queue)
  ultimately show ?thesis using less rest assms(2) by (simp add: pending_def)
qed

lemma ProcessQueue_returns:
  assumes "server_inv P st"
  shows "\<exists>st'. ProcessQueue I st = Some (Returned st')"
  using assms
proof (induction st rule: measure_induct_rule [of pending])
  case (less st)
  show ?case
  proof (cases "work_queue st")
    case Nil
    then show ?thesis by (subst ProcessQueue.simps) simp
  next
    case (Cons f rest)
    obtain st1 where st1: "run_front I f st = Returned st1" "server_inv P (pop_front st1)" using run_front_inv [OF less.prems Cons, of I] by blast
    with less.IH [OF pending_decreases [OF less.prems Cons st1(1)]] Cons show ?thesis
      by (subst ProcessQueue.simps) (simp add: pop_front_def)
  qed
qed

lemma iteration_returns:
  assumes "conn_inv st" "pe_poll env = Some revents" "pe_accept env \<noteq> None"
    and fresh: "\<And>f. pe_accept env = Some f \<Longrightarrow> f \<notin> fst ` set (connection_fd_map st)"
    and reads: "\<And>f. f \<in> fst ` set (tl (connection_pollfd_list st)) \<Longrightarrow> revents f \<Longrightarrow> \<exists>x. receive (pe_recv env f) = Returned x"
  shows "\<exists>st'. ProcessServerIteration I env timeout st = Some (Returned st')"
proof -
  let ?st = "st\<lparr>connection_pollfd_list := map (\<lambda>(f, _). (f, revents f)) (connection_pollfd_list st)\<rparr>"
  have queue: "\<exists>st'. ProcessQueue I st = Some (Returned st')" if "conn_inv st" for st
    using that ProcessQueue_returns by (auto simp: conn_inv_def)
  obtain st1 where a: "accept_connection env ?st = Returned st1" using accept_returns [of env ?st] assms(3) by blast
  have "conn_inv st1" using accept_inv [OF a conn_inv_poll [OF assms(1)]] fresh by simp
  then obtain st2 where q: "ProcessQueue I (ProcessReceived I (pe_now env) (received (pe_recv env)) st1) = Some (Returned st2)" and "conn_inv st2"
    using queue queue_conn_inv process_connections_inv(1) by blast
  then obtain st3 where "ProcessQueue I (ProcessIdleConnections I (pe_now env) st2) = Some (Returned st3)"
    using queue process_connections_inv(2) by blast
  moreover have "ProcessActiveConnections I (pe_now env) (pe_recv env) st1 = Returned (ProcessReceived I (pe_now env) (received (pe_recv env)) st1)"
    using accept_polled [OF a] reads by (intro ProcessActiveConnections_returns) blast
  ultimately show ?thesis using assms(2) a q by (simp add: ProcessServerIteration_def)
qed

end

text \<open>A session that always asks for another turn keeps the loop from ever returning.\<close>

lemma ProcessQueue_spins:
  assumes always: "\<And>s g. fst (ses_Tick I s g)" and "server_inv P st" "work_queue st \<noteq> []"
  shows "ProcessQueue I st = None"
proof -
  let ?J = "\<lambda>st. server_inv P st \<and> work_queue st \<noteq> []"
  have "?J (pop_front st')" if J: "?J st" and q: "work_queue st = f # rest" and run: "run_front I f st = Returned st'" for st st' f rest
  proof -
    obtain w s s1 g1 requeue s2 g2 where t: "ses_Tick I s1 g1 = (requeue, s2, g2)" and r: "run_front I f st = Returned (turned requeue s2 g2 f w st)"
      using run_front_turn [OF conjunct1 [OF J] q, where I = I] by metis
    have requeue using always [of s1 g1] t by simp
    then have "work_queue (pop_front st') \<noteq> []" using r run q by (simp add: turned_queue pop_front_def)
    moreover have "server_inv P (pop_front st')" using run_front_inv [OF conjunct1 [OF J] q, of I] run by auto
    ultimately show ?thesis by simp
  qed
  then have "turn_keeps I ?J" unfolding turn_keeps_def by blast
  then have "False" if "ProcessQueue I st = Some out" for out
    by (rule ProcessQueue_ends [OF that]) (use assms(2,3) run_front_inv [where I = I] in fastforce)+
  then show ?thesis by (cases "ProcessQueue I st") auto
qed

section \<open>What the sessions are told\<close>

text \<open>What the message of a connection does outside the server, given the connections \<open>m\<close>.\<close>

definition command_effect ::
  "('s, 'g) ISession \<Rightarrow> (fd \<Rightarrow> bytes option) \<Rightarrow> (fd \<rightharpoonup> 's SessionWrapper) \<Rightarrow> fd \<times> bool \<Rightarrow> 'g \<Rightarrow> 'g" where
  "command_effect I recv m it g =
     (case (snd it, m (fst it), recv (fst it)) of
        (True, Some w, Some in_string) \<Rightarrow>
          if in_string = [] then g
          else (case w_session w of
                  Some s \<Rightarrow> snd (ses_OnCommand I in_string s g)
                | None \<Rightarrow> (case ses_factory I of None \<Rightarrow> g | Some factory \<Rightarrow> snd (factory in_string (fst it) g)))
      | _ \<Rightarrow> g)"

lemma frame_outside [simp]:
  "outside (put_wrapper f w st) = outside st" "outside (erase_connection f st) = outside st"
  "outside (snd (EnqueueTick f w st)) = outside st" "outside (snd (snd (TryEnqueueForDelete b f w st))) = outside st"
  "outside (EnqueueTickDirect f st) = outside st"
  by (simp_all add: put_wrapper_def erase_connection_def EnqueueTickDirect_def EnqueueTick_def TryEnqueueForDelete_def Let_def)

lemma serve_received_outside:
  "outside (snd (serve_received I now recv pollin f st)) = command_effect I recv (map_of (connection_fd_map st)) (f, pollin) (outside st)"
  by (auto simp: serve_received_def serve_connection_def HandleCommand_def command_effect_def Let_def split_beta split: option.split)

lemma serve_idle_outside: "outside (snd (serve_idle I now pollin f st)) = outside st"
  by (auto simp: serve_idle_def serve_connection_def HandleCommand_def Let_def split_beta split: option.split)

lemma serve_connection_others:
  "f' \<noteq> f \<Longrightarrow> map_of (connection_fd_map (snd (serve_connection I now b response f st))) f' = map_of (connection_fd_map st) f'"
  by (auto simp: serve_connection_def put_wrapper_def erase_connection_def AList.update_conv' AList.delete_conv' Let_def split_beta
      split: option.split)

lemma active_loop_outside:
  assumes "distinct (map fst its)" "\<And>f. f \<in> fst ` set its \<Longrightarrow> map_of (connection_fd_map st) f = m f"
  shows "outside (snd (connection_loop (serve_received I now recv) its st)) = fold (command_effect I recv m) its (outside st)"
  using assms
proof (induction its arbitrary: st)
  case (Cons it its)
  obtain f pollin where it: "it = (f, pollin)" by fastforce
  obtain keep st1 where s1: "serve_received I now recv pollin f st = (keep, st1)" by fastforce
  have "map_of (connection_fd_map st1) f' = m f'" if "f' \<in> fst ` set its" for f'
    using that Cons.prems s1 serve_connection_others [of f' f I now True "recv f" st] it
    by (auto simp: serve_received_def split: if_splits)
  with Cons.IH [of st1] Cons.prems(1) have "outside (snd (connection_loop (serve_received I now recv) its st1)) = fold (command_effect I recv m) its (outside st1)"
    by simp
  moreover have "outside st1 = command_effect I recv m (f, pollin) (outside st)"
    using serve_received_outside [of I now recv pollin f st] s1 Cons.prems(2) [of f] it by (simp add: command_effect_def)
  ultimately show ?case using it s1 by (simp add: split_beta)
qed simp

lemma idle_loop_outside: "outside (snd (connection_loop (serve_idle I now) its st)) = outside st"
proof (induction its arbitrary: st)
  case (Cons it its)
  then show ?case using serve_idle_outside by (cases it) (simp add: split_beta)
qed simp

lemma active_loop_stops:
  assumes "distinct (map fst its)" "\<And>g. g \<in> fst ` set its \<Longrightarrow> map_of (connection_fd_map st) g \<noteq> None"
    and "map fst (filter snd its) = before @ f # after" "\<And>g. g \<in> set before \<Longrightarrow> \<exists>x. receive (recv g) = Returned x"
    and "\<And>x. receive (recv f) \<noteq> Returned x"
  shows "active_loop I now recv its st = recast (receive (recv f))"
  using assms(1-4)
proof (induction its arbitrary: st before)
  case (Cons it its)
  obtain g pollin where it: "it = (g, pollin)" by fastforce
  show ?case
  proof (cases "pollin \<and> before = []")
    case True
    then have "serve_active I now recv pollin g st = recast (receive (recv f))"
      using Cons.prems(2) [of g] Cons.prems(3) assms(5) by (auto simp: it serve_active_def intro: and_then_recast)
    then show ?thesis by (simp add: it and_then_recast)
  next
    case False
    then have "pollin \<Longrightarrow> \<exists>x. receive (recv g) = Returned x" using Cons.prems(3,4) it by (cases before) auto
    then have s1: "serve_active I now recv pollin g st = Returned (serve_received I now (received recv) pollin g st)"
      using serve_active_returns [of pollin recv g] by blast
    let ?st = "snd (serve_received I now (received recv) pollin g st)"
    have "map_of (connection_fd_map ?st) h \<noteq> None" if "h \<in> fst ` set its" for h
    proof -
      have "h \<noteq> g" using that Cons.prems(1) it by auto
      then show ?thesis using that Cons.prems(2) [of h] serve_connection_others [of h g I now True "received recv g" st] it
        by (simp add: serve_received_def)
    qed
    moreover have "map fst (filter snd its) = (if pollin then tl before else before) @ f # after"
      using Cons.prems(3) False it by (cases before) auto
    moreover have "\<exists>x. receive (recv h) = Returned x" if "h \<in> set (if pollin then tl before else before)" for h
      using that Cons.prems(4) [of h] by (cases before) (auto split: if_splits)
    ultimately have "active_loop I now recv its ?st = recast (receive (recv f))"
      using Cons.prems(1) by (intro Cons.IH [of ?st "if pollin then tl before else before"]) simp_all
    then show ?thesis by (simp add: it s1 split_beta and_then_recast)
  qed
qed simp

lemma iteration_stops:
  assumes "conn_inv st" "connection_pollfd_list st = server # its" "pe_poll env = Some revents" "pe_accept env \<noteq> None"
    and fresh: "\<And>f. pe_accept env = Some f \<Longrightarrow> f \<notin> fst ` set (connection_fd_map st)"
    and readable: "filter revents (map fst its) = before @ f # after" "\<And>g. g \<in> set before \<Longrightarrow> \<exists>x. receive (pe_recv env g) = Returned x"
    and stop: "\<And>x. receive (pe_recv env f) \<noteq> Returned x"
  shows "ProcessServerIteration I env timeout st = Some (recast (receive (pe_recv env f)))"
proof -
  let ?st = "st\<lparr>connection_pollfd_list := map (\<lambda>(f, _). (f, revents f)) (connection_pollfd_list st)\<rparr>"
  let ?its = "map (\<lambda>(f, _). (f, revents f)) its"
  obtain st1 where a: "accept_connection env ?st = Returned st1" using accept_returns [of env ?st] assms(4) by blast
  have "conn_inv st1" using accept_inv [OF a conn_inv_poll [OF assms(1)]] fresh by simp
  then obtain server1 its1 where l: "connection_pollfd_list st1 = server1 # its1" "distinct (map fst its1)" "server_inv (fst ` set its1) st1"
    by (auto simp: conn_inv_def)
  have "\<exists>more. its1 = ?its @ more \<and> filter snd more = []"
    using a assms(2) l(1) by (cases server) (auto simp: accept_connection_def Let_def split: bool.splits if_splits option.splits)
  then have "filter snd its1 = filter snd ?its" by auto
  moreover have "map fst (filter snd ?its) = filter revents (map fst its)" by (induction its) auto
  moreover have "map_of (connection_fd_map st1) g \<noteq> None" if "g \<in> fst ` set its1" for g
    using l(3) that unfolding server_inv_def by blast
  ultimately have "active_loop I (pe_now env) (pe_recv env) its1 st1 = recast (receive (pe_recv env f))"
    using l(2) readable stop by (intro active_loop_stops [of its1 st1 before f after]) simp_all
  then have "ProcessActiveConnections I (pe_now env) (pe_recv env) st1 = recast (receive (pe_recv env f))"
    using l(1) by (simp add: ProcessActiveConnections_def and_then_recast)
  then show ?thesis using assms(3) a stop by (cases "receive (pe_recv env f)") (auto simp: ProcessServerIteration_def recast_def)
qed

text \<open>A session that does nothing in its turns: the server is then nothing but a dispatcher.\<close>

locale quiet_session = finite_session +
  assumes quiet_Tick: "ses_Tick I s g = (r, s', g') \<Longrightarrow> g' = g"
    and quiet_OnClosedByPeer: "ses_OnClosedByPeer I s g = (s', g') \<Longrightarrow> g' = g"
begin

lemma run_front_outside: "run_front I f st = Returned st' \<Longrightarrow> outside st' = outside st"
  using quiet_Tick quiet_OnClosedByPeer
  by (auto simp: run_front_def Let_def split: option.splits if_splits prod.splits) metis+

lemma ProcessQueue_outside:
  assumes "ProcessQueue I st = Some (Returned st')"
  shows "outside st' = outside st"
proof -
  have "turn_keeps I (\<lambda>st'. outside st' = outside st)" by (simp add: turn_keeps_def pop_front_def run_front_outside)
  from ProcessQueue_keeps [OF assms this] show ?thesis by simp
qed

lemma iteration_dispatches:
  assumes "conn_inv st" "connection_pollfd_list st = server # its" "pe_poll env = Some revents"
    and fresh: "\<And>f. pe_accept env = Some f \<Longrightarrow> f \<notin> fst ` set (connection_fd_map st)"
    and it: "ProcessServerIteration I env timeout st = Some (Returned st')"
  shows "outside st' =
    fold (command_effect I (received (pe_recv env)) (map_of (connection_fd_map st))) (map (\<lambda>(f, _). (f, revents f)) its) (outside st)"
proof -
  let ?its = "map (\<lambda>(f, _). (f, revents f)) its"
  let ?st = "st\<lparr>connection_pollfd_list := map (\<lambda>(f, _). (f, revents f)) (connection_pollfd_list st)\<rparr>"
  obtain st1 st2 where a: "accept_connection env ?st = Returned st1" and q: "ProcessQueue I (ProcessReceived I (pe_now env) (received (pe_recv env)) st1) = Some (Returned st2)"
    and r: "if 0 < timeout then st' = st2 else ProcessQueue I (ProcessIdleConnections I (pe_now env) st2) = Some (Returned st')"
    by (rule iteration_returned [OF it]) (use assms(3) in auto)
  have keys: "map_of (connection_fd_map st) f = None" if "pe_accept env = Some f" for f
    using fresh [OF that] by (simp add: map_of_eq_None_iff)
  have sub: "fst ` set its \<subseteq> fst ` set (connection_fd_map st)" "distinct (map fst its)"
    using assms(1,2) by (auto simp: conn_inv_def server_inv_def dom_map_of_conv_image_fst)
  obtain new where new: "connection_pollfd_list st1 = (fst server, revents (fst server)) # ?its @ new" "outside st1 = outside st"
    "\<And>f. f \<in> fst ` set its \<Longrightarrow> map_of (connection_fd_map st1) f = map_of (connection_fd_map st) f"
    "new = [] \<or> (\<exists>f. new = [(f, False)] \<and> f \<notin> fst ` set its)"
  proof (cases "revents (fst server)")
    case True
    then obtain f where f: "pe_accept env = Some f" using a assms(2) by (cases server) (auto simp: accept_connection_def split: option.splits)
    have "f \<notin> fst ` set its" using fresh [OF f] sub(1) by blast
    then have "\<And>b. (f, b) \<notin> set its" by force
    then show thesis using f True a assms(2) keys [OF f]
      by (intro that [of "[(f, False)]"]; cases server) (auto simp: accept_connection_def Let_def map_add_def split: option.split)
  next
    case False
    then show thesis using a assms(2) by (intro that [of "[]"]; cases server) (auto simp: accept_connection_def)
  qed
  let ?recv = "received (pe_recv env)" and ?m = "map_of (connection_fd_map st1)"
  have "map fst (?its @ new) = map fst its @ map fst new" by auto
  moreover have "distinct (map fst its @ map fst new)" using new(4) sub(2) by (elim disjE exE conjE) simp_all
  ultimately have "distinct (map fst (?its @ new))" by metis
  then have "outside (ProcessReceived I (pe_now env) ?recv st1) = fold (command_effect I ?recv ?m) (?its @ new) (outside st1)"
    using new(1) active_loop_outside [of "?its @ new" st1 ?m I "pe_now env" ?recv]
    by (simp add: ProcessReceived_def split_beta)
  also have "\<dots> = fold (command_effect I ?recv ?m) ?its (outside st)"
    using new(2,4) by (auto simp: command_effect_def)
  also have "\<dots> = fold (command_effect I ?recv (map_of (connection_fd_map st))) ?its (outside st)"
  proof (rule fold_cong [OF refl refl])
    fix it assume "it \<in> set ?its"
    then have "fst it \<in> fst ` set its" by force
    then show "command_effect I ?recv ?m it = command_effect I ?recv (map_of (connection_fd_map st)) it"
      using new(3) by (simp add: command_effect_def fun_eq_iff)
  qed
  finally have st2: "outside st2 = \<dots>" using ProcessQueue_outside [OF q] by simp
  have "outside (ProcessIdleConnections I (pe_now env) st2) = outside st2"
    using idle_loop_outside [of I "pe_now env" _ st2] by (auto simp: ProcessIdleConnections_def split_beta split: list.split)
  then show ?thesis using r st2 ProcessQueue_outside [of "ProcessIdleConnections I (pe_now env) st2" st'] by (auto split: if_splits)
qed

end

section \<open>A session belongs to its connection\<close>

definition owned :: "(fd \<Rightarrow> 's \<Rightarrow> bool) \<Rightarrow> ('s, 'g) UnixDomainServer \<Rightarrow> bool" where
  "owned Q st \<longleftrightarrow> (\<forall>f w s. map_of (connection_fd_map st) f = Some w \<longrightarrow> w_session w = Some s \<longrightarrow> Q f s)"

lemma owned_put: "owned Q st \<Longrightarrow> (\<And>s. w_session w = Some s \<Longrightarrow> Q f s) \<Longrightarrow> owned Q (put_wrapper f w st)"
  by (simp add: owned_def put_wrapper_def AList.update_conv')

lemma owned_erase: "owned Q st \<Longrightarrow> owned Q (erase_connection f st)"
  by (simp add: owned_def erase_connection_def AList.delete_conv')

lemma owned_frame: "connection_fd_map st' = connection_fd_map st \<Longrightarrow> owned Q st' = owned Q st"
  by (simp add: owned_def)

lemma owned_list: "owned Q (st\<lparr>connection_pollfd_list := l\<rparr>) = owned Q st" "owned Q (st\<lparr>work_queue := q\<rparr>) = owned Q st"
  by (simp_all add: owned_def)

lemma owned_accept:
  assumes "accept_connection env st = Returned st'" "owned Q st"
  shows "owned Q st'"
proof (cases "\<exists>server its f. connection_pollfd_list st = (server, True) # its \<and> pe_accept env = Some f \<and> map_of (connection_fd_map st) f = None")
  case True
  then obtain f where "map_of (connection_fd_map st) f = None" "connection_fd_map st' = connection_fd_map st @ [(f, NewSessionWrapper (pe_now env))]"
    using assms(1) by (auto simp: accept_connection_def)
  then show ?thesis using assms(2) by (auto simp: owned_def map_add_def NewSessionWrapper_def split: option.splits if_splits)
next
  case False
  then have "connection_fd_map st' = connection_fd_map st"
    using assms(1) by (auto simp: accept_connection_def Let_def split: list.splits prod.splits bool.splits option.splits)
  then show ?thesis using assms(2) owned_frame by blast
qed

lemma w_session_frame [simp]:
  "w_session (fst (EnqueueTick f w st)) = w_session w" "w_session (fst (snd (TryEnqueueForDelete b f w st))) = w_session w"
  by (simp_all add: EnqueueTick_def TryEnqueueForDelete_def Let_def)

locale owning_session =
  fixes I :: "('s, 'g) ISession" and Q :: "fd \<Rightarrow> 's \<Rightarrow> bool"
  assumes own_factory: "ses_factory I = Some factory \<Longrightarrow> Q f (fst (factory m f g))"
    and own_OnCommand: "Q f s \<Longrightarrow> Q f (fst (ses_OnCommand I m s g))"
    and own_OnClosedByPeer: "Q f s \<Longrightarrow> Q f (fst (ses_OnClosedByPeer I s g))"
    and own_Tick: "Q f s \<Longrightarrow> Q f (fst (snd (ses_Tick I s g)))"
begin

lemma owned_HandleCommand:
  assumes "\<And>s. w_session w = Some s \<Longrightarrow> Q f s" "w_session (fst (snd (HandleCommand I now m f w st))) = Some s"
  shows "Q f s"
  using assms own_factory own_OnCommand by (auto simp: HandleCommand_def Let_def split_beta split: option.splits if_splits)

lemma owned_serve: "owned Q st \<Longrightarrow> owned Q (snd (serve_connection I now b response f st))"
proof (cases "map_of (connection_fd_map st) f")
  case (Some w)
  assume st: "owned Q st"
  then have w: "w_session w = Some s \<Longrightarrow> Q f s" for s using Some by (auto simp: owned_def)
  have step: "owned Q (put_wrapper f w' st') \<and> owned Q (erase_connection f (put_wrapper f w' st'))"
    if "connection_fd_map st' = connection_fd_map st" "\<And>s. w_session w' = Some s \<Longrightarrow> Q f s" for w' st'
    using owned_put [of Q st' w' f] that st owned_frame [OF that(1)] owned_erase by blast
  show ?thesis
  proof (cases response)
    case None
    then show ?thesis using step [of "snd (snd (TryEnqueueForDelete b f w st))" "fst (snd (TryEnqueueForDelete b f w st))"] w Some
      by (auto simp: serve_connection_def Let_def split_beta)
  next
    case (Some m)
    let ?h = "HandleCommand I now m f w st"
    have h: "Q f s" if "w_session (fst (snd ?h)) = Some s" for s using owned_HandleCommand [OF w that] .
    let ?t = "TryEnqueueForDelete b f (fst (snd ?h)) (snd (snd ?h))"
    from step [of "snd (snd ?h)" "fst (snd ?h)"] step [of "snd (snd ?t)" "fst (snd ?t)"] h Some \<open>map_of (connection_fd_map st) f = Some w\<close>
    show ?thesis by (auto simp: serve_connection_def Let_def split_beta)
  qed
qed (simp add: serve_connection_def)

lemma owned_loop:
  assumes "\<And>pollin f st. owned Q st \<Longrightarrow> owned Q (snd (serve pollin f st))" "owned Q st"
  shows "owned Q (snd (connection_loop serve its st))"
  using assms(2)
proof (induction its arbitrary: st)
  case (Cons it its)
  then show ?case using assms(1) by (cases it) (simp add: split_beta)
qed simp

lemma owned_connections:
  assumes "owned Q st"
  shows "owned Q (ProcessReceived I now recv st)" "owned Q (ProcessIdleConnections I now st)"
proof -
  have l: "owned Q (snd (connection_loop (serve_received I now recv) its st))" "owned Q (snd (connection_loop (serve_idle I now) its st))" for its
    by (rule owned_loop; use assms owned_serve in \<open>simp add: serve_received_def serve_idle_def\<close>)+
  show "owned Q (ProcessReceived I now recv st)"
    using l(1) assms by (simp add: ProcessReceived_def split_beta owned_list split: list.split)
  show "owned Q (ProcessIdleConnections I now st)"
    using l(2) assms by (simp add: ProcessIdleConnections_def split_beta owned_list split: list.split)
qed

lemma owned_run_front:
  assumes "owned Q st" "run_front I f st = Returned st'"
  shows "owned Q st'"
proof (cases "map_of (connection_fd_map st) f")
  case (Some w)
  then obtain s where s: "w_session w = Some s" using assms(2) by (auto simp: run_front_def split: option.splits)
  obtain s1 g1 where c: "(if w_closed_by_peer w then ses_OnClosedByPeer I s (outside st) else (s, outside st)) = (s1, g1)"
    by (metis surj_pair)
  obtain requeue s2 g2 where t: "ses_Tick I s1 g1 = (requeue, s2, g2)" by (metis prod_cases3)
  have "Q f s" using assms(1) Some s by (auto simp: owned_def)
  then have "Q f s1" using c own_OnClosedByPeer [of f s "outside st"] by (auto split: if_splits)
  then have "Q f s2" using own_Tick [of f s1 g1] t by simp
  then have "owned Q (turned requeue s2 g2 f w st)" using assms(1) by (simp add: owned_def turned_map ran_def)
  then show ?thesis using assms(2) run_front_eq [OF Some s c t] by simp
qed (use assms in \<open>auto simp: run_front_def\<close>)

lemma owned_queue:
  assumes "ProcessQueue I st = Some (Returned st')" "owned Q st"
  shows "owned Q st'"
proof -
  have "turn_keeps I (owned Q)" using owned_run_front by (auto simp: turn_keeps_def pop_front_def owned_def)
  from ProcessQueue_keeps [OF assms(1) this assms(2)] show ?thesis by simp
qed

lemma owned_iteration:
  assumes "ProcessServerIteration I env timeout st = Some (Returned st')" "owned Q st"
  shows "owned Q st'"
proof -
  obtain revents st1 st2 where a: "accept_connection env (st\<lparr>connection_pollfd_list := map (\<lambda>(f, _). (f, revents f)) (connection_pollfd_list st)\<rparr>) = Returned st1"
    and q: "ProcessQueue I (ProcessReceived I (pe_now env) (received (pe_recv env)) st1) = Some (Returned st2)"
    and r: "if 0 < timeout then st' = st2 else ProcessQueue I (ProcessIdleConnections I (pe_now env) st2) = Some (Returned st')"
    by (rule iteration_returned [OF assms(1)])
  have "owned Q st1" using owned_accept [OF a] assms(2) by (simp add: owned_list)
  then have "owned Q st2" using owned_queue [OF q] owned_connections(1) by blast
  then show ?thesis using r owned_queue owned_connections(2) by (auto split: if_splits)
qed

lemma owned_running: "server_running I fds st \<Longrightarrow> owned Q st"
proof (induction rule: server_running.induct)
  case (iterate fds st env timeout st')
  then show ?case using owned_iteration by blast
qed (simp add: NewUnixDomainServer_def owned_def)

end

section \<open>A message wakes its session\<close>

lemma serve_connection_queue: "set (work_queue st) \<subseteq> set (work_queue (snd (serve_connection I now b response f st)))"
  by (auto simp: serve_connection_def HandleCommand_def EnqueueTick_def TryEnqueueForDelete_def EnqueueTickDirect_def put_wrapper_def
      erase_connection_def Let_def split_beta split: option.split)

lemma serve_wakes:
  assumes "server_inv P st" "f \<in> P" "ses_factory I \<noteq> None" "m \<noteq> []"
  shows "f \<in> set (work_queue (snd (serve_connection I now b (Some m) f st)))"
proof -
  obtain w where w: "map_of (connection_fd_map st) f = Some w" using assms(1,2) by (auto simp: server_inv_def)
  with server_invD [OF assms(1)] assms(2) have "w_enqueued w \<longleftrightarrow> f \<in> set (work_queue st)" "\<not> w_to_delete w" "\<not> w_running w"
    by (auto simp: wrapper_ok_def)
  then show ?thesis using w assms(3,4)
    by (cases "ses_factory I"; cases "w_session w")
      (auto simp: serve_connection_def HandleCommand_def EnqueueTick_def EnqueueTickDirect_def put_wrapper_def split_beta Let_def)
qed

lemma loop_queue: "set (work_queue st) \<subseteq> set (work_queue (snd (connection_loop (serve_received I now recv) its st)))"
proof (induction its arbitrary: st)
  case (Cons it its)
  obtain f pollin where it: "it = (f, pollin)" by fastforce
  have "set (work_queue st) \<subseteq> set (work_queue (snd (serve_received I now recv pollin f st)))"
    using serve_connection_queue [of st I now True "recv f" f] by (simp add: serve_received_def)
  with Cons.IH it show ?case by (fastforce simp: split_beta)
qed simp

lemma active_wakes:
  assumes "server_inv (K \<union> fst ` set its) st" "distinct (map fst its)" "K \<inter> fst ` set its = {}"
    and "(f, True) \<in> set its" "ses_factory I \<noteq> None" "recv f = Some m" "m \<noteq> []"
  shows "work_queue (snd (connection_loop (serve_received I now recv) its st)) \<noteq> []"
  using assms(1-4)
proof (induction its arbitrary: K st)
  case (Cons it its)
  obtain f' pollin where it: "it = (f', pollin)" by fastforce
  obtain keep st1 where s1: "serve_received I now recv pollin f' st = (keep, st1)" by fastforce
  have rest: "set (work_queue st1) \<subseteq> set (work_queue (snd (connection_loop (serve_received I now recv) (it # its) st)))"
    using loop_queue [of st1 I now recv its] it s1 by (simp add: split_beta)
  show ?case
  proof (cases "(f, True) = it")
    case True
    have "f \<in> set (work_queue st1)"
      using serve_wakes [OF Cons.prems(1) _ assms(5,7), of f now True] s1 it True assms(6) by (simp add: serve_received_def)
    with rest show ?thesis by auto
  next
    case False
    note step = serve_step [OF serves_inv_loops(1) Cons.prems(1-3) [unfolded it] s1]
    have "(f, True) \<in> set its" using Cons.prems(4) it False by auto
    from Cons.IH [OF step(1-3) this] it s1 show ?thesis by (simp add: split_beta)
  qed
qed simp

end
