(* ===== verification/ConfigServer.thy ===== *)
theory ConfigServer
  imports UnixProperties ServerProperties
begin

text \<open>
  The configuration sessions of the data router: the session that hands commands to the log
  server (\<^verbatim>\<open>dynamic_config_impl/dynamic_config_session.h\<close> and its factory), the one of a build
  without dynamic configuration (\<^verbatim>\<open>dynamic_config_stub/stub_config_session.h\<close>), and how
  \<^verbatim>\<open>socketserver.cpp\<close> puts them into the server of the socket.

  The state outside the socket server is the log server with the streams that lead to the
  clients.
\<close>

section \<open>Sessions\<close>

type_synonym 'p ConfigWorld = "'p DltLogServer \<times> (fd \<Rightarrow> stream)"

text \<open>\<open>ev\<close> is how the system takes a message, \<open>pid\<close> the process of the data router.\<close>

definition PassMessage :: "SendEvent \<Rightarrow> u32 \<Rightarrow> fd \<Rightarrow> bytes \<Rightarrow> (fd \<Rightarrow> stream) \<Rightarrow> (fd \<Rightarrow> stream)" where
  "PassMessage ev pid f message out = out(f := SendSocketMessage ev pid message None (out f))"

definition ConfigSession_Tick :: "fd \<Rightarrow> 'p ConfigWorld \<Rightarrow> bool \<times> fd \<times> 'p ConfigWorld" where
  "ConfigSession_Tick handle g = (False, handle, g)"

definition ConfigSession_OnCommand :: "'p ServerEnv \<Rightarrow> SendEvent \<Rightarrow> u32 \<Rightarrow> bytes \<Rightarrow> fd \<Rightarrow> 'p ConfigWorld \<Rightarrow> fd \<times> 'p ConfigWorld" where
  "ConfigSession_OnCommand E ev pid command handle g =
     (let (response, srv) = OnConfigCommand E command (fst g)
      in (handle, srv, PassMessage ev pid handle response (snd g)))"

text \<open>The factory ignores the first message of a connection; the session keeps its handle.\<close>

definition CreateConfigSession :: "bytes \<Rightarrow> fd \<Rightarrow> 'p ConfigWorld \<Rightarrow> fd \<times> 'p ConfigWorld" where
  "CreateConfigSession nm handle g = (handle, g)"

definition ConfigSessions :: "'p ServerEnv \<Rightarrow> SendEvent \<Rightarrow> u32 \<Rightarrow> (fd, 'p ConfigWorld) ISession" where
  "ConfigSessions E ev pid = \<lparr>ses_Tick = ConfigSession_Tick, ses_OnCommand = ConfigSession_OnCommand E ev pid,
     ses_OnClosedByPeer = Pair, ses_factory = Some CreateConfigSession\<rparr>"

definition StubConfigSessions :: "(unit, 'g) ISession" where
  "StubConfigSessions = \<lparr>ses_Tick = (\<lambda>s g. (True, s, g)), ses_OnCommand = (\<lambda>command s g. (s, g)),
     ses_OnClosedByPeer = (\<lambda>s g. (s, g)), ses_factory = Some (\<lambda>nm handle g. ((), g))\<rparr>"

section \<open>The contract of the server\<close>

lemmas config_ops = ConfigSessions_def ConfigSession_Tick_def ConfigSession_OnCommand_def CreateConfigSession_def

interpretation config: quiet_session "ConfigSessions E ev pid" "\<lambda>_. 0" for E ev pid
  by unfold_locales (auto simp: config_ops)

interpretation owner: owning_session "ConfigSessions E ev pid" "\<lambda>f s. s = f" for E ev pid
  by unfold_locales (auto simp: config_ops split_beta)

section \<open>Commands are answered\<close>

text \<open>What the server does for a connection with something to read, seen from outside.\<close>

definition answer ::
  "'p ServerEnv \<Rightarrow> SendEvent \<Rightarrow> u32 \<Rightarrow> (fd \<Rightarrow> bytes option) \<Rightarrow> (fd, 'p ConfigWorld) UnixDomainServer \<Rightarrow> fd \<Rightarrow> 'p ConfigWorld \<Rightarrow> 'p ConfigWorld" where
  "answer E ev pid recv st f g =
     (case recv f of
        None \<Rightarrow> g
      | Some command \<Rightarrow>
          if command \<noteq> [] \<and> (\<exists>w. map_of (connection_fd_map st) f = Some w \<and> w_session w \<noteq> None) then
            let (reply, srv) = OnConfigCommand E command (fst g) in (srv, PassMessage ev pid f reply (snd g))
          else g)"

lemma command_effect_answer:
  assumes "owned (\<lambda>f s. s = f) st"
  shows "command_effect (ConfigSessions E ev pid) recv (map_of (connection_fd_map st)) (f, pollin) g =
    (if pollin then answer E ev pid recv st f g else g)"
  using assms by (auto simp: command_effect_def answer_def owned_def config_ops split_beta split: option.split)

lemma fold_filter: "fold (\<lambda>x g. if P x then h x g else g) xs g = fold h (filter P xs) g"
  by (induction xs arbitrary: g) auto

definition delivers :: "PollEnv \<Rightarrow> fd \<Rightarrow> bool" where
  "delivers env f \<longleftrightarrow> (case receive (pe_recv env f) of Returned response \<Rightarrow> True | _ \<Rightarrow> False)"

lemma deliversD: "delivers env f \<Longrightarrow> \<exists>x. receive (pe_recv env f) = Returned x"
  by (auto simp: delivers_def split: Outcome.splits)

lemma iteration_answers:
  fixes E :: "'p ServerEnv"
  assumes run: "server_running (ConfigSessions E ev pid) fds st" and l: "connection_pollfd_list st = server # its"
    and env: "pe_poll env = Some revents" "pe_accept env = Some new" "new \<notin> set (map fst (connection_fd_map st))"
    and reads: "\<forall>f \<in> set (filter revents (map fst its)). delivers env f"
  shows "\<exists>st'. ProcessServerIteration (ConfigSessions E ev pid) env timeout st = Some (Returned st') \<and>
    outside st' = fold (answer E ev pid (received (pe_recv env)) st) (filter revents (map fst its)) (outside st)"
proof -
  note inv = conjunct1 [OF server_running_inv [OF run]]
  have fresh: "f \<notin> fst ` set (connection_fd_map st)" if "pe_accept env = Some f" for f using that env(2,3) by simp
  have "\<exists>x. receive (pe_recv env f) = Returned x" if "f \<in> fst ` set (tl (connection_pollfd_list st))" "revents f" for f
    using that reads l by (intro deliversD) auto
  moreover have "pe_accept env \<noteq> None" using env(2) by simp
  ultimately have "\<exists>st'. ProcessServerIteration (ConfigSessions E ev pid) env timeout st = Some (Returned st')"
    using fresh by (intro config.iteration_returns [OF inv env(1)])
  then obtain st' where st': "ProcessServerIteration (ConfigSessions E ev pid) env timeout st = Some (Returned st')" ..
  have effect: "fold (command_effect (ConfigSessions E ev pid) (received (pe_recv env)) (map_of (connection_fd_map st))) (map (\<lambda>(f, _). (f, revents f)) its) g =
      fold (\<lambda>f g. if revents f then answer E ev pid (received (pe_recv env)) st f g else g) (map fst its) g" for g
    using command_effect_answer [OF owner.owned_running [OF run], of E ev pid "received (pe_recv env)"]
    by (induction its arbitrary: g) (simp_all add: split_beta)
  have "outside st' = fold (\<lambda>f g. if revents f then answer E ev pid (received (pe_recv env)) st f g else g) (map fst its) (outside st)"
    using config.iteration_dispatches [OF inv l env(1) fresh st'] effect by simp
  then show ?thesis using st' by (simp add: fold_filter)
qed

text \<open>A connection whose message stays unfinished, or whose receive call fails, stops the server, whatever the sessions are.\<close>

lemma running_stops:
  assumes run: "server_running I fds st" and l: "connection_pollfd_list st = server # its"
    and env: "pe_poll env = Some revents" "pe_accept env = Some new" "new \<notin> set (map fst (connection_fd_map st))"
    and readable: "filter revents (map fst its) = before @ f # after" "\<forall>g \<in> set before. delivers env g"
    and stop: "receive (pe_recv env f) = out" "\<not> delivers env f"
  shows "ProcessServerIteration I env timeout st = Some (recast out)"
proof -
  have "ProcessServerIteration I env timeout st = Some (recast (receive (pe_recv env f)))"
    by (rule iteration_stops [OF conjunct1 [OF server_running_inv [OF run]] l env(1) _ _ readable(1)])
      (use env readable(2) stop(2) deliversD in \<open>auto simp: delivers_def\<close>)
  then show ?thesis using stop(1) by simp
qed


text \<open>Every answer of the log server fits the buffer of the client.\<close>

lemma AppendId_fold_length: "length (fold (\<lambda>c. AppendId (nm c)) cs bs) = length bs + 4 * length cs"
  by (induction cs arbitrary: bs) (simp_all add: AppendId_def Let_def)

lemma reply_fits:
  assumes "server_ok srv"
  shows "length (fst (OnConfigCommand E command srv)) \<le> 125"
proof (cases "Parse (env_levels E) command")
  case (Some j)
  have "length (channels srv) < 32" using assms by (simp add: server_ok_def)
  then have "length (fst (Execute E j srv)) \<le> 125"
    by (cases j) (auto simp: ReadLogChannelNames_def AppendId_fold_length ResetToDefault_def StoreDltConfig_def SetLogLevel_def Let_def
        SetMessagingFilteringState_def SetDefaultLogLevel_def SetDltOutputEnable_def SetLogChannelThreshold_def
        SetLogChannelAssignment_def split: option.split)
  with Some show ?thesis by (simp add: OnConfigCommand_def)
qed (simp add: OnConfigCommand_def)

lemma message_received:
  assumes "length message < 1024" "length message + 9 \<le> n"
  shows "RecvSocketMessage Ready Ready shut None (SendSocketMessage (Accepts n) pid message None []) = (Message message, None, Some pid, [])"
  using received_message [of None 0 message n shut None pid "[]"] assms by simp

text \<open>C19: A client with a session that sends a command to the socket gets the log server's answer to it
  as one message and nothing else, and the log server is in the state the command leaves; no
  other client receives anything.\<close>

theorem config_command_answered:
  fixes E :: "'p ServerEnv"
  assumes "server_running (ConfigSessions E (Accepts n) pid) fds st" "134 \<le> n" "connection_pollfd_list st = server # its"
    and "pe_poll env = Some revents" "pe_accept env = Some new" "new \<notin> set (map fst (connection_fd_map st))"
    and "filter revents (map fst its) = [f]" "receive (pe_recv env f) = Returned (Some command)" "command \<noteq> []"
    and "map_of (connection_fd_map st) f = Some w" "w_session w \<noteq> None"
    and "outside st = (srv, out)" "server_ok srv" "out f = []"
  shows "\<exists>st' srv' out'. ProcessServerIteration (ConfigSessions E (Accepts n) pid) env timeout st = Some (Returned st') \<and>
    outside st' = (srv', out') \<and> srv' = snd (OnConfigCommand E command srv) \<and>
    RecvSocketMessage Ready Ready shut None (out' f) = (Message (fst (OnConfigCommand E command srv)), None, Some pid, []) \<and>
    (\<forall>f'. f' \<noteq> f \<longrightarrow> out' f' = out f')"
proof -
  have "\<forall>f \<in> set (filter revents (map fst its)). delivers env f" using assms(7,8) by (simp add: delivers_def)
  then obtain st' where st': "ProcessServerIteration (ConfigSessions E (Accepts n) pid) env timeout st = Some (Returned st')"
    "outside st' = answer E (Accepts n) pid (received (pe_recv env)) st f (srv, out)"
    using iteration_answers [OF assms(1,3-6), of timeout] assms(7,12) by auto
  have "length (fst (OnConfigCommand E command srv)) \<le> 125" by (rule reply_fits [OF assms(13)])
  then have "RecvSocketMessage Ready Ready shut None (SendSocketMessage (Accepts n) pid (fst (OnConfigCommand E command srv)) None []) =
      (Message (fst (OnConfigCommand E command srv)), None, Some pid, [])"
    using assms(2) by (intro message_received) simp_all
  then show ?thesis using st' assms(8-11,14) by (auto simp: answer_def received_def PassMessage_def split_beta)
qed

section \<open>An unfinished message\<close>

lemma unfinished_message:
  assumes "length message < 1024" "length message + 9 \<le> n" "k < length message + 9"
    and "in_ev1 i = Ready" "in_ev2 i = Ready" "\<not> in_closed i" "in_stream i = take k (SendSocketMessage (Accepts n) pid message None [])"
  shows "receive i = Waiting"
proof -
  define h :: SocketMessangerHeader where "h = \<lparr>hdr_len = word_of_nat (length message + 1), hdr_type = kDefault, hdr_pid = pid\<rparr>"
  obtain payload where st: "SendSocketMessage (Accepts n) pid message None [] = attach None (header_image h) @ payload"
    and payload: "map fst payload = message @ [0]"
    using sent_stream [of None 0 message n pid] assms(2) unfolding h_def by blast
  from arg_cong [OF payload, of length] have len: "length payload = length message + 1" by simp
  have hl: "unat (hdr_len h) = length message + 1" using assms(1) by (simp add: h_def unat_of_nat del: of_nat_Suc of_nat_add)
  show ?thesis
  proof (cases "k < 8")
    case True
    then show ?thesis using assms(4-7) by (simp add: receive_def RecvSocketMessage_def recvmsg_def kHeaderSize_def st len)
  next
    case False
    then have "take k (attach None (header_image h) @ payload) = attach None (header_image h) @ take (k - 8) payload" by simp
    moreover have "length (take (k - 8) payload) < length message + 1" using assms(3) len False by simp
    ultimately show ?thesis using assms(1,4-7) hl
      by (simp add: receive_def RecvSocketMessage_def recv_payload_def recvmsg_def kHeaderSize_def kIoBufferSize_def st Let_def)
  qed
qed

text \<open>One client can stop the configuration server for good: when the first connection with something
  to read holds only a part of a message and its client keeps it open without sending the rest,
  the iteration never comes back from its receive call, whatever the sessions are; no other
  connection is served, none is accepted and the end of the server is not noticed.\<close>

theorem unfinished_message_stops_server:
  assumes "server_running I fds st" "connection_pollfd_list st = server # its"
    and "pe_poll env = Some revents" "pe_accept env = Some new" "new \<notin> set (map fst (connection_fd_map st))"
    and "filter revents (map fst its) = f # after" "in_ev1 (pe_recv env f) = Ready" "in_ev2 (pe_recv env f) = Ready" "\<not> in_closed (pe_recv env f)"
    and "in_stream (pe_recv env f) = take k (SendSocketMessage (Accepts n) pid message None [])"
    and "length message < 1024" "length message + 9 \<le> n" "0 < k" "k < length message + 9"
  shows "ProcessServerIteration I env timeout st = Some Waiting \<and>
    (fst (poll_timeout (pe_now env) t1) = timeout \<longrightarrow> server_loop I (env # envs) t1 st = Some Waiting)"
proof -
  have w: "receive (pe_recv env f) = Waiting" by (rule unfinished_message [OF assms(11,12,14,7-10)])
  have "ProcessServerIteration I env timeout st = Some Waiting"
    using running_stops [OF assms(1-5), of "[]" f after Waiting timeout] assms(6) w by (simp add: delivers_def recast_def)
  then show ?thesis by (auto simp: split_beta)
qed

section \<open>No descriptor is lost\<close>

text \<open>Between two iterations the server holds exactly the connections it polls: no session is left
  running, queued or waiting to be deleted. It has closed each of the other descriptors it
  accepted exactly once, and when it ends the rest of them too: none leaks and none is closed
  twice, whatever sessions, peers and clock do.\<close>

theorem connections_accounted_for:
  assumes "server_running I fds st"
  shows "set (map fst (connection_fd_map st)) = set (map fst (tl (connection_pollfd_list st))) \<and>
    (\<forall>f w. map_of (connection_fd_map st) f = Some w \<longrightarrow> \<not> w_running w \<and> \<not> w_enqueued w \<and> \<not> w_to_delete w) \<and>
    mset (closed_fds st) + mset (map fst (connection_fd_map st)) = mset fds \<and>
    connection_fd_map (CleanupAllConnections st) = [] \<and> mset (closed_fds (CleanupAllConnections st)) = mset fds"
proof -
  obtain server its where i: "connection_pollfd_list st = server # its" "server_inv (fst ` set its) st" "work_queue st = []" "ledger st = mset fds" "conn_inv st"
    using server_running_inv [OF assms] by (auto simp: conn_inv_def)
  have "\<not> w_running w \<and> \<not> w_enqueued w \<and> \<not> w_to_delete w" if "map_of (connection_fd_map st) f = Some w" for f w
    using server_invD [OF i(2) that] i(3) by (auto simp: wrapper_ok_def)
  then show ?thesis using idle_connections [OF i(2,3)] i(1,4) cleanup_all_ledger [OF i(5)] by (simp add: ledger_def)
qed

text \<open>C20: When the thread of the server ends, it has closed every descriptor it ever accepted and its own
  socket, each exactly once, and holds no connection.\<close>

theorem server_thread_closes_everything:
  assumes "su_socket su = Some server" "ServerRoutine I su addr now envs g = Some (Returned st)"
    and "accepts_fresh I envs (now + 100) (NewUnixDomainServer server g)"
  shows "connection_fd_map st = [] \<and>
    mset (closed_fds st) = mset (all_accepted I envs (now + 100) (NewUnixDomainServer server g)) + {#server#}"
proof -
  obtain st1 where st1: "server_loop I envs (now + 100) (NewUnixDomainServer server g) = Some (Returned st1)"
    "st = (CleanupAllConnections st1)\<lparr>closed_fds := closed_fds (CleanupAllConnections st1) @ [server]\<rparr>"
    using assms(1,2) by (auto simp: ServerRoutine_def SetupServerSocket_def Let_def split: option.splits Outcome.splits if_splits)
  from server_running_inv [OF server_loop_running [OF st1(1) assms(3) server_running.start]] cleanup_all_ledger [of st1]
  show ?thesis by (simp add: st1(2))
qed

section \<open>A build without dynamic configuration\<close>

text \<open>C21: In a build without dynamic configuration the first message of a client, whatever it says, stops
  the server for good, when every connection with something to read delivers it: the session asks
  for another turn after every turn, so the work loop never ends (the only case in which the
  iteration has no outcome), no other connection is served any more and the end of the process is
  never noticed.\<close>

theorem stub_session_spins:
  fixes st :: "(unit, 'g) UnixDomainServer"
  assumes "server_running StubConfigSessions fds st" "connection_pollfd_list st = server # its"
    and "pe_poll env = Some revents" "pe_accept env = Some new" "new \<notin> set (map fst (connection_fd_map st))"
    and "\<forall>g \<in> set (filter revents (map fst its)). delivers env g"
    and "f \<in> set (filter revents (map fst its))" "receive (pe_recv env f) = Returned (Some m)" "m \<noteq> []"
  shows "ProcessServerIteration StubConfigSessions env timeout st = None"
proof -
  let ?I = "StubConfigSessions :: (unit, 'g) ISession"
  let ?st = "st\<lparr>connection_pollfd_list := map (\<lambda>(f, _). (f, revents f)) (connection_pollfd_list st)\<rparr>"
  let ?served = "ProcessReceived ?I (pe_now env) (received (pe_recv env))"
  obtain st1 where a: "accept_connection env ?st = Returned st1" using accept_returns [of env ?st] assms(4) by auto
  have "conn_inv st1" using accept_inv [OF a conn_inv_poll] server_running_inv [OF assms(1)] assms(4,5) by simp
  then obtain server1 its1 where l: "connection_pollfd_list st1 = server1 # its1" "distinct (map fst its1)" "server_inv ({} \<union> fst ` set its1) st1"
    by (auto simp: conn_inv_def)
  have "\<exists>more. its1 = map (\<lambda>(f, _). (f, revents f)) its @ more"
    using a assms(2,4) l(1) by (cases server) (auto simp: accept_connection_def Let_def split: bool.splits if_splits)
  moreover have "(f, True) \<in> set (map (\<lambda>(f, _). (f, revents f)) its)" using assms(7) by force
  ultimately have "(f, True) \<in> set its1" by (metis UnCI set_append)
  moreover have "received (pe_recv env) f = Some m" using assms(8) by (simp add: received_def)
  ultimately have "work_queue (?served st1) \<noteq> []"
    using active_wakes [of "{}" its1 st1 f ?I "received (pe_recv env)" m "pe_now env"] l assms(9)
    by (simp add: ProcessReceived_def split_beta StubConfigSessions_def)
  moreover obtain P where "server_inv P (?served st1)"
    using conjunct1 [OF process_connections_inv(1) [OF \<open>conn_inv st1\<close>]] unfolding conn_inv_def by blast
  ultimately have "ProcessQueue ?I (?served st1) = None"
    by (intro ProcessQueue_spins) (simp_all add: StubConfigSessions_def)
  moreover have "ProcessActiveConnections ?I (pe_now env) (pe_recv env) st1 = Returned (?served st1)"
    using accept_polled [OF a] assms(2,6) by (intro ProcessActiveConnections_returns deliversD) auto
  ultimately show ?thesis using assms(3) a by (simp add: ProcessServerIteration_def)
qed

section \<open>A client\<close>

definition client_connects :: PollEnv where
  "client_connects = \<lparr>pe_poll = Some (\<lambda>f. f = 3), pe_accept = Some 5,
     pe_recv = (\<lambda>_. \<lparr>in_ev1 = Interrupted, in_ev2 = Ready, in_closed = False, in_stream = []\<rparr>), pe_now = 0\<rparr>"

text \<open>The client sends a message, of which so many bytes arrive.\<close>

definition client_sends :: "nat \<Rightarrow> bytes \<Rightarrow> PollEnv" where
  "client_sends k m = \<lparr>pe_poll = Some (\<lambda>f. f = 5), pe_accept = Some 6,
     pe_recv = (\<lambda>_. \<lparr>in_ev1 = Ready, in_ev2 = Ready, in_closed = False,
        in_stream = take k (SendSocketMessage (Accepts 100) 9 m None [])\<rparr>), pe_now = 1\<rparr>"

lemma client_sends_delivers:
  assumes "length m < 50"
  shows "receive (pe_recv (client_sends 100 m) f) = Returned (Some m)"
proof -
  obtain h :: SocketMessangerHeader and payload where st: "SendSocketMessage (Accepts 100) 9 m None [] = attach None (header_image h) @ payload"
    and "map fst payload = m @ [0]"
    using sent_stream [of None 0 m 100 9] assms by auto
  moreover from arg_cong [OF this(2), of length] have "length payload = length m + 1" by simp
  ultimately have "take 100 (SendSocketMessage (Accepts 100) 9 m None []) = SendSocketMessage (Accepts 100) 9 m None []" using assms by simp
  then show ?thesis using message_received [of m 100 False 9] assms by (simp add: receive_def client_sends_def)
qed

lemma client_sends_simps [simp]:
  "pe_poll (client_sends k m) = Some (\<lambda>f. f = 5)" "pe_accept (client_sends k m) = Some 6" "pe_now (client_sends k m) = 1"
  "in_ev1 (pe_recv (client_sends k m) f) = Ready" "in_ev2 (pe_recv (client_sends k m) f) = Ready" "\<not> in_closed (pe_recv (client_sends k m) f)"
  "in_stream (pe_recv (client_sends k m) f) = take k (SendSocketMessage (Accepts 100) 9 m None [])"
  by (simp_all add: client_sends_def)

definition connected :: "'s option \<Rightarrow> bool \<Rightarrow> 'g \<Rightarrow> ('s, 'g) UnixDomainServer" where
  "connected s accepting g =
     \<lparr>connection_fd_map = [(5, (NewSessionWrapper 0)\<lparr>w_session := s\<rparr>)], connection_pollfd_list = [(3, accepting), (5, \<not> accepting)],
      work_queue = [], closed_fds = [], outside = g\<rparr>"

lemmas run_ops = ProcessServerIteration_def accept_connection_def ProcessActiveConnections_def ProcessIdleConnections_def serve_active_def
  serve_idle_def serve_connection_def HandleCommand_def EnqueueTick_def EnqueueTickDirect_def TryEnqueueForDelete_def put_wrapper_def
  erase_connection_def run_front_def SetRunning_def ResetRunning_def NewSessionWrapper_def

lemma client_accepted:
  "ProcessServerIteration I client_connects (Suc t) (NewUnixDomainServer 3 g) = Some (Returned (connected None True g))"
  by (simp add: run_ops client_connects_def NewUnixDomainServer_def connected_def ProcessQueue.simps)

lemma client_connected: "server_running I [5] (connected None True g)"
proof -
  from server_running.iterate [OF server_running.start _ client_accepted [of I 0 g]] show ?thesis
    by (simp add: accepted_def client_connects_def NewUnixDomainServer_def)
qed

lemma client_has_session: "server_running (ConfigSessions E ev pid) [5] (connected (Some 5) False g)"
proof -
  have "ProcessServerIteration (ConfigSessions E ev pid) (client_sends 100 [1]) 1 (connected None True g) = Some (Returned (connected (Some 5) False g))"
    using client_sends_delivers [of "[1]" 5] by (simp add: run_ops connected_def ProcessQueue.simps config_ops)
  from server_running.iterate [OF client_connected _ this] show ?thesis
    by (simp add: accepted_def connected_def)
qed

theorem connections_accounted_for_witness:
  "mset (closed_fds (CleanupAllConnections (connected (Some 5) False (example_server, \<lambda>_. [])) :: (fd, PersistentConfig ConfigWorld) UnixDomainServer)) = {#5#}"
  using connections_accounted_for [OF client_has_session [of example_env "Accepts 200" 7 "(example_server, \<lambda>_. [])"]] by simp


theorem config_command_answered_witness:
  "\<exists>st'. ProcessServerIteration (ConfigSessions example_env (Accepts 200) 7) (client_sends 100 [9, 1]) 0
      (connected (Some 5) False (example_server, \<lambda>_. [])) = Some (Returned st') \<and>
    RecvSocketMessage Ready Ready True None (snd (outside st') 5) = (Message [kRetError], None, Some 7, [])"
proof -
  have "fst (OnConfigCommand example_env [9, 1] example_server) = [kRetError]"
    by (simp add: OnConfigCommand_def Parse_def command_ids field_sizes)
  then show ?thesis
    using config_command_answered [OF client_has_session [of example_env "Accepts 200" 7 "(example_server, \<lambda>_. [])"],
      of "(3, False)" "[(5, True)]" "client_sends 100 [9, 1]" "\<lambda>f. f = 5" 6 5 "[9, 1]"
        "(NewSessionWrapper 0)\<lparr>w_session := Some 5\<rparr>" example_server "\<lambda>_. []" 0 True] example_server_ok client_sends_delivers [of "[9, 1]" 5]
    by (auto simp: connected_def)
qed

text \<open>Ten of the eleven bytes arrive.\<close>

theorem unfinished_message_stops_server_witness:
  "ProcessServerIteration StubConfigSessions (client_sends 10 [9, 1]) 100 (connected None True ()) = Some Waiting \<and>
   server_loop StubConfigSessions [client_sends 10 [9, 1]] 101 (connected None True ()) = Some Waiting"
  using unfinished_message_stops_server [OF client_connected [of StubConfigSessions "()"], of "(3, True)" "[(5, False)]"
      "client_sends 10 [9, 1]" "\<lambda>f. f = 5" 6 5 "[]" 10 100 9 "[9, 1]" 100 101 "[]"]
  by (simp add: connected_def poll_timeout_def)

theorem stub_session_spins_witness:
  "ProcessServerIteration StubConfigSessions (client_sends 100 [9, 1]) 0 (connected None True ()) = None"
  using stub_session_spins [OF client_connected [of StubConfigSessions "()"], of "(3, True)" "[(5, False)]" "client_sends 100 [9, 1]" "\<lambda>f. f = 5" 6 5 "[9, 1]" 0]
    client_sends_delivers [of "[9, 1]" 5]
  by (simp add: connected_def delivers_def)

text \<open>A client that connects and is still there when the server ends.\<close>

theorem server_thread_closes_everything_witness:
  "\<exists>st. ServerRoutine StubConfigSessions \<lparr>su_socket = Some 3, su_bind = True, su_listen = True\<rparr> \<lparr>sun_path = [0, 65]\<rparr> 0 [client_connects] () = Some (Returned st) \<and>
    mset (closed_fds st) = {#5, 3#}"
proof -
  have it: "ProcessServerIteration StubConfigSessions client_connects 100 (NewUnixDomainServer 3 ()) = Some (Returned (connected None True ()))"
    using client_accepted [of StubConfigSessions 99 "()"] by simp
  moreover have "poll_timeout 0 100 = (100, 100)" "pe_now client_connects = 0" "pe_accept client_connects = Some 5"
    by (simp_all add: poll_timeout_def client_connects_def)
  moreover have "accepted client_connects (NewUnixDomainServer 3 () :: (unit, unit) UnixDomainServer) = [5]"
    "connection_fd_map (NewUnixDomainServer 3 () :: (unit, unit) UnixDomainServer) = []"
    by (simp_all add: accepted_def client_connects_def NewUnixDomainServer_def)
  moreover obtain st where st: "ServerRoutine StubConfigSessions \<lparr>su_socket = Some 3, su_bind = True, su_listen = True\<rparr> \<lparr>sun_path = [0, 65]\<rparr> 0 [client_connects] () = Some (Returned st)"
    using calculation by (simp add: ServerRoutine_def SetupServerSocket_def Let_def)
  ultimately show ?thesis
    using server_thread_closes_everything [OF _ st, of 3] by (simp add: add_mset_commute)
qed

end
