(* ===== verification/MessageClient.thy ===== *)
theory MessageClient
  imports Factories LogParser
begin

text \<open>
  The messages between a logging process and the data router
  (\<^verbatim>\<open>mw/log/detail/data_router/data_router_messages.h\<close>) and the client side of the connection
  (\<^verbatim>\<open>data_router_message_client_impl.cpp\<close>), with the file name that the data router derives
  from the connect message (\<^verbatim>\<open>datarouter/src/daemon/socketserver.cpp\<close>).

  The message passing library, the signal mask and the thread names belong to the
  surroundings: what they answer is in \<open>ClientEnv\<close>, what the client asks of them is
  recorded in order. The identifier class of the base library is its four bytes. The wait
  for the connection is one step that ends with the state the environment reports.

  The handlers run one after the other in the first model of the client. They belong to
  different threads, though, and the flag of the unlinking is a plain variable: calls of
  \<^verbatim>\<open>UnlinkSharedMemoryFile\<close> that overlap have a step relation of their own at the end.
\<close>

section \<open>Messages\<close>

datatype DatarouterMessageIdentifier = kConnect | kAcquireRequest | kAcquireResponse

fun message_id_value :: "DatarouterMessageIdentifier \<Rightarrow> byte" where
  "message_id_value kConnect = 0"
| "message_id_value kAcquireRequest = 1"
| "message_id_value kAcquireResponse = 2"

text \<open>A payload is given by the image of its object.\<close>

definition SerializeMessage :: "DatarouterMessageIdentifier \<Rightarrow> bytes \<Rightarrow> bytes" where
  "SerializeMessage i payload = message_id_value i # payload"

record ConnectMessageFromClient =
  conn_appid :: id4
  conn_uid :: u32
  conn_use_dynamic_identifier :: bool
  conn_random_part :: bytes

definition NewConnectMessage :: ConnectMessageFromClient where
  "NewConnectMessage = \<lparr>conn_appid = (0, 0, 0, 0), conn_uid = 0, conn_use_dynamic_identifier = False, conn_random_part = replicate 6 0\<rparr>"

text \<open>The object of the connect message in memory; one byte of padding at its end.\<close>

definition sizeof_ConnectMessage :: nat where "sizeof_ConnectMessage = 16"

definition connect_image :: "byte \<Rightarrow> ConnectMessageFromClient \<Rightarrow> bytes" where
  "connect_image pad c = id_bytes (conn_appid c) @ le32 (conn_uid c) @
     [if conn_use_dynamic_identifier c then 1 else 0] @ conn_random_part c @ [pad]"

definition connect_of_image :: "bytes \<Rightarrow> ConnectMessageFromClient" where
  "connect_of_image bs =
     \<lparr>conn_appid = NewDltidT (take 4 bs), conn_uid = from_le32 (subspan 4 4 bs),
      conn_use_dynamic_identifier = (bs ! 8 \<noteq> 0), conn_random_part = subspan 9 6 bs\<rparr>"

definition acquire_image :: "ReadAcquireResult \<Rightarrow> bytes" where
  "acquire_image acq = le32 (acquired_buffer acq)"

text \<open>The limits of the messages.\<close>

definition kMaxMessageSize :: nat where "kMaxMessageSize = 17"
definition kRandomFilenameStartIndex :: nat where "kRandomFilenameStartIndex = 13"

section \<open>Client\<close>

datatype ConnectionState = kStarting | kReady | kStopping | kStopped

datatype ClientError = kBlockingTerminationSignalFailed | kFailedToSetLoggerThreadName | kFailedToCreateMessagePassingClient
  | kShutdownDuringInitialization | kFailedToSendMessageToDatarouter | kUnlinkSharedMemoryError

datatype ClientCall = ClientUnlink string | ClientSend bytes | ClientReport ClientError | ClientSleep | ClientStart

record ClientEnv =
  sig_empty_set :: bool
  sig_add_set :: bool
  pthread_sig_mask :: bool
  pthread_setname :: bool
  create_client :: bool
  send_succeeds :: "bytes \<Rightarrow> bool"
  unlink_succeeds :: bool

record MessageClient =
  run_started :: bool
  client_appid :: id4
  client_uid :: u32
  use_dynamic_datarouter_ids :: bool
  first_message_received :: bool
  unlinked_shared_memory_file :: bool
  writer_file_name :: string
  client_stop_requested :: bool
  sender_state :: "ConnectionState option"
  has_sender :: bool
  client_calls :: "ClientCall list"

definition NewMessageClient :: "id4 \<Rightarrow> u32 \<Rightarrow> bool \<Rightarrow> string \<Rightarrow> bool \<Rightarrow> MessageClient" where
  "NewMessageClient appid uid use_dynamic name stopped =
     \<lparr>run_started = False, client_appid = appid, client_uid = uid, use_dynamic_datarouter_ids = use_dynamic,
      first_message_received = False, unlinked_shared_memory_file = False, writer_file_name = name,
      client_stop_requested = stopped, sender_state = None, has_sender = False, client_calls = []\<rparr>"

definition call :: "ClientCall \<Rightarrow> MessageClient \<Rightarrow> MessageClient" where
  "call c m = m\<lparr>client_calls := client_calls m @ [c]\<rparr>"

definition report_unless :: "bool \<Rightarrow> ClientError \<Rightarrow> MessageClient \<Rightarrow> MessageClient" where
  "report_unless ok e m = (if ok then m else call (ClientReport e) m)"

definition UnlinkSharedMemoryFile :: "ClientEnv \<Rightarrow> MessageClient \<Rightarrow> MessageClient" where
  "UnlinkSharedMemoryFile env m =
     (if unlinked_shared_memory_file m then m
      else
        let m = m\<lparr>unlinked_shared_memory_file := True\<rparr>;
            m = call (ClientUnlink (writer_file_name m)) m
        in report_unless (unlink_succeeds env) kUnlinkSharedMemoryError m)"

definition RequestInternalShutdown :: "ClientEnv \<Rightarrow> MessageClient \<Rightarrow> MessageClient" where
  "RequestInternalShutdown env m = (UnlinkSharedMemoryFile env m)\<lparr>client_stop_requested := True\<rparr>"

definition SendMessage :: "ClientEnv \<Rightarrow> bytes \<Rightarrow> MessageClient \<Rightarrow> MessageClient" where
  "SendMessage env message m =
     (let (has_value, m) =
        (if has_sender m then (send_succeeds env message, call (ClientSend message) m) else (True, m))
      in if \<not> has_value
         then RequestInternalShutdown env (call (ClientReport kFailedToSendMessageToDatarouter) m)
         else m)"

definition HandleFirstMessageReceived :: "ClientEnv \<Rightarrow> MessageClient \<Rightarrow> MessageClient" where
  "HandleFirstMessageReceived env m =
     (if first_message_received m then m
      else UnlinkSharedMemoryFile env (m\<lparr>first_message_received := True\<rparr>))"

definition OnAcquireRequest ::
  "ClientEnv \<Rightarrow> MessageClient \<times> SharedMemoryWriter \<times> SharedData \<Rightarrow> MessageClient \<times> SharedMemoryWriter \<times> SharedData" where
  "OnAcquireRequest env = (\<lambda>(m, w, sd).
     let m = HandleFirstMessageReceived env m;
         (acquire_result, w, sd) = ReadAcquire w sd;
         message = SerializeMessage kAcquireResponse (acquire_image acquire_result)
     in (SendMessage env message m, w, sd))"

definition OnNotify ::
  "ClientEnv \<Rightarrow> bytes \<Rightarrow> MessageClient \<times> SharedMemoryWriter \<times> SharedData \<Rightarrow> MessageClient \<times> SharedMemoryWriter \<times> SharedData" where
  "OnNotify env message st =
     (if length message \<noteq> 1 then st
      else if hd message \<noteq> message_id_value kAcquireRequest then st
      else OnAcquireRequest env st)"

text \<open>The name is cut at its thirteenth character; \<open>name_bytes\<close> are the bytes of a text.\<close>

definition name_bytes :: "string \<Rightarrow> bytes" where "name_bytes s = map (\<lambda>c. word_of_nat (of_char c)) s"

definition connect_message :: "MessageClient \<Rightarrow> ConnectMessageFromClient" where
  "connect_message m =
     (let msg = NewConnectMessage;
          msg = msg\<lparr>conn_appid := client_appid m\<rparr>;
          msg = msg\<lparr>conn_uid := client_uid m\<rparr>;
          msg = msg\<lparr>conn_use_dynamic_identifier := use_dynamic_datarouter_ids m\<rparr>
      in if use_dynamic_datarouter_ids m \<and>
            length (writer_file_name m) > kRandomFilenameStartIndex + length (conn_random_part msg) + 1
         then msg\<lparr>conn_random_part := subspan kRandomFilenameStartIndex (length (conn_random_part msg)) (name_bytes (writer_file_name m))\<rparr>
         else msg)"

definition SendConnectMessage :: "ClientEnv \<Rightarrow> byte \<Rightarrow> MessageClient \<Rightarrow> MessageClient" where
  "SendConnectMessage env pad m = SendMessage env (SerializeMessage kConnect (connect_image pad (connect_message m))) m"

definition CheckExitRequestAndSendConnectMessage :: "ClientEnv \<Rightarrow> byte \<Rightarrow> MessageClient \<Rightarrow> MessageClient" where
  "CheckExitRequestAndSendConnectMessage env pad m =
     (if client_stop_requested m then call (ClientReport kShutdownDuringInitialization) m
      else SendConnectMessage env pad m)"

definition BlockTermSignal :: "ClientEnv \<Rightarrow> MessageClient \<Rightarrow> MessageClient" where
  "BlockTermSignal env m =
     (let m = report_unless (sig_empty_set env) kBlockingTerminationSignalFailed m;
          m = report_unless (sig_add_set env) kBlockingTerminationSignalFailed m
      in report_unless (pthread_sig_mask env) kBlockingTerminationSignalFailed m)"

definition SetThreadName :: "ClientEnv \<Rightarrow> MessageClient \<Rightarrow> MessageClient" where
  "SetThreadName env m = report_unless (pthread_setname env) kFailedToSetLoggerThreadName m"

definition CreateSender :: "ClientEnv \<Rightarrow> MessageClient \<Rightarrow> bool \<times> MessageClient" where
  "CreateSender env m =
     (let m = m\<lparr>has_sender := create_client env\<rparr>
      in if \<not> has_sender m then (False, m) else (True, call ClientStart m))"

definition state_callback :: "ClientEnv \<Rightarrow> ConnectionState \<Rightarrow> MessageClient \<Rightarrow> MessageClient" where
  "state_callback env new_state m =
     (let m = m\<lparr>sender_state := Some new_state\<rparr>
      in if new_state = kStopped then RequestInternalShutdown env m else m)"

text \<open>
  The connect task: up to the wait for the connection, and after it, when the connection is
  ready or a stop was requested. State changes and notifications arrive in between.
\<close>

definition ConnectToDatarouter_begin :: "ClientEnv \<Rightarrow> MessageClient \<Rightarrow> bool \<times> MessageClient" where
  "ConnectToDatarouter_begin env m =
     (let m = SetThreadName env (BlockTermSignal env m);
          (created, m) = CreateSender env m
      in if \<not> created
         then (False, RequestInternalShutdown env (call (ClientReport kFailedToCreateMessagePassingClient) m))
         else (True, m))"

definition wait_over :: "MessageClient \<Rightarrow> bool" where
  "wait_over m \<longleftrightarrow> sender_state m = Some kReady \<or> client_stop_requested m"

definition ConnectToDatarouter_end :: "ClientEnv \<Rightarrow> byte \<Rightarrow> MessageClient \<Rightarrow> MessageClient" where
  "ConnectToDatarouter_end env pad m =
     (if client_stop_requested m then RequestInternalShutdown env m
      else if sender_state m \<noteq> Some kReady then RequestInternalShutdown env m
      else CheckExitRequestAndSendConnectMessage env pad m)"

text \<open>\<open>Run\<close> may be called once; then the connect task is started.\<close>

definition Run :: "MessageClient \<Rightarrow> MessageClient option" where
  "Run m = (if run_started m then None else Some (m\<lparr>run_started := True\<rparr>))"

definition Shutdown :: "ClientEnv \<Rightarrow> MessageClient \<Rightarrow> MessageClient" where
  "Shutdown env m =
     (let m = (if \<not> first_message_received m then call ClientSleep m else m);
          m = m\<lparr>client_stop_requested := True\<rparr>;
          m = m\<lparr>has_sender := False\<rparr>
      in UnlinkSharedMemoryFile env m)"

section \<open>Data router side\<close>

text \<open>The bytes of an identifier as a text; the identifier class cuts it at the first zero.\<close>

definition identifier_text :: "id4 \<Rightarrow> string" where
  "identifier_text i = map (\<lambda>b. char_of (unat b)) (takeWhile (\<lambda>b. b \<noteq> 0) (id_bytes i))"

definition ResolveSharedMemoryFileName :: "ConnectMessageFromClient \<Rightarrow> string \<Rightarrow> string" where
  "ResolveSharedMemoryFileName conn appid =
     (let name = (if conn_use_dynamic_identifier conn
                  then ''/tmp/logging-'' @ map (\<lambda>b. char_of (unat b)) (conn_random_part conn)
                  else ''/tmp/logging.'' @ appid @ ''.'' @ show_nat (unat (conn_uid conn)))
      in name @ ''.shmem'')"

text \<open>The answer as the data router reads it: as many bytes as there are, over zeros.\<close>

definition acquire_of_image :: "bytes \<Rightarrow> ReadAcquireResult" where
  "acquire_of_image message = \<lparr>acquired_buffer = from_le32 (take 4 (message @ replicate 4 0))\<rparr>"

section \<open>Both sides agree on the messages\<close>

lemma char_of_name_bytes [simp]: "map (\<lambda>b. char_of (unat b)) (name_bytes s) = s"
proof -
  have "char_of (unat (word_of_nat (of_char c) :: byte)) = c" for c
    by (simp add: unat_word_of_nat)
  then show ?thesis by (simp add: name_bytes_def comp_def)
qed

lemma connect_image_length: "length (conn_random_part c) = 6 \<Longrightarrow> length (connect_image pad c) = sizeof_ConnectMessage"
  by (cases "conn_appid c") (simp add: connect_image_def sizeof_ConnectMessage_def)

lemma connect_of_connect_image: "length (conn_random_part c) = 6 \<Longrightarrow> connect_of_image (connect_image pad c) = c"
proof -
  assume r: "length (conn_random_part c) = 6"
  obtain a1 a2 a3 a4 where a: "conn_appid c = (a1, a2, a3, a4)" by (cases "conn_appid c")
  have "take 4 (connect_image pad c) = id_bytes (conn_appid c)" "subspan 4 4 (connect_image pad c) = le32 (conn_uid c)"
    "connect_image pad c ! 8 = (if conn_use_dynamic_identifier c then 1 else 0)" "subspan 9 6 (connect_image pad c) = conn_random_part c"
    using r by (simp_all add: connect_image_def a subspan_def nth_append)
  then show ?thesis by (simp add: connect_of_image_def NewDltidT_id_bytes)
qed

lemma connect_message_random: "length (conn_random_part (connect_message m)) = 6"
  by (auto simp: connect_message_def NewConnectMessage_def kRandomFilenameStartIndex_def subspan_def name_bytes_def Let_def)

text \<open>The data router opens the file that the process created. Whatever name the writer factory
  gave the shared memory file, fixed or with a random part, the connect message has the
  size the connection is set up for, is read back field by field, and the data router
  derives exactly that name from it. For the random part \<^verbatim>\<open>mkstemps\<close> replaces the six
  letters of the template and nothing else; the fixed name needs an application name that
  its identifier represents.\<close>

theorem connect_message_names_the_file:
  assumes "os_mkstemps os kFileNameTemplate = ''/tmp/logging-'' @ random_part @ ''.shmem''" "length random_part = 6"
    and "app_name = identifier_text appid" "os_getuid os < 2 ^ 32"
  shows "let name = file_name (fst (PrepareFileNameAndUpdateOpenFlags os flags dynamic_mode app_name));
             m = NewMessageClient appid (word_of_nat (os_getuid os)) dynamic_mode name stopped;
             message = SerializeMessage kConnect (connect_image pad (connect_message m));
             conn = connect_of_image (tl message)
         in length message = kMaxMessageSize \<and> hd message = message_id_value kConnect \<and> conn = connect_message m \<and>
            ResolveSharedMemoryFileName conn (identifier_text (conn_appid conn)) = name"
proof -
  let ?name = "file_name (fst (PrepareFileNameAndUpdateOpenFlags os flags dynamic_mode app_name))"
  let ?m = "NewMessageClient appid (word_of_nat (os_getuid os)) dynamic_mode ?name stopped"
  have "ResolveSharedMemoryFileName (connect_message ?m) (identifier_text (conn_appid (connect_message ?m))) = ?name"
  proof (cases dynamic_mode)
    case True
    then have n: "?name = ''/tmp/logging-'' @ random_part @ ''.shmem''"
      using assms(1) by (simp add: PrepareFileNameAndUpdateOpenFlags_def Let_def)
    have "map (\<lambda>b. char_of (unat b)) (subspan 13 6 (name_bytes ?name)) = subspan 13 6 ?name"
      by (simp add: subspan_def take_map [symmetric] drop_map [symmetric])
    also have "\<dots> = random_part" using assms(2) by (simp add: n subspan_def)
    finally show ?thesis
      using True assms(2) n by (simp add: ResolveSharedMemoryFileName_def connect_message_def NewMessageClient_def
          NewConnectMessage_def kRandomFilenameStartIndex_def)
  next
    case False
    then show ?thesis
      using assms(3,4) by (simp add: ResolveSharedMemoryFileName_def connect_message_def NewMessageClient_def NewConnectMessage_def
          PrepareFileNameAndUpdateOpenFlags_def GetStaticLoggingClientFilename_def kFileNameDirectoryTemplate_def kSuffixName_def
          unat_word_of_nat Let_def)
  qed
  then show ?thesis
    using connect_image_length [OF connect_message_random, of pad ?m] connect_of_connect_image [OF connect_message_random, of pad ?m]
    by (simp add: Let_def SerializeMessage_def kMaxMessageSize_def sizeof_ConnectMessage_def)
qed

definition example_os :: Osal where
  "example_os = \<lparr>has_fcntl = True, has_unistd = True, has_mman = True, has_stat = True, has_stdlib = True, os_getuid = 1000, os_getpid = 7,
     os_exists = \<lambda>_. False, os_open = \<lambda>_ _. Some 3, os_chmod = \<lambda>_. True, os_ftruncate = \<lambda>_ _. True, os_mmap = \<lambda>_ _. Some 4096,
     os_mkstemps = \<lambda>_. ''/tmp/logging-a1b2c3.shmem'', os_mapped = []\<rparr>"

theorem connect_message_names_the_file_witness:
  "let m = NewMessageClient (65, 66, 0, 0) 1000 True ''/tmp/logging-a1b2c3.shmem'' False
   in length (SerializeMessage kConnect (connect_image 0 (connect_message m))) = kMaxMessageSize \<and>
      ResolveSharedMemoryFileName (connect_of_image (tl (SerializeMessage kConnect (connect_image 0 (connect_message m)))))
        (identifier_text (conn_appid (connect_of_image (tl (SerializeMessage kConnect (connect_image 0 (connect_message m))))))) =
      ''/tmp/logging-a1b2c3.shmem''"
proof -
  have name: "file_name (fst (PrepareFileNameAndUpdateOpenFlags example_os [] True (identifier_text (65, 66, 0, 0)))) = ''/tmp/logging-a1b2c3.shmem''"
    by (simp add: PrepareFileNameAndUpdateOpenFlags_def example_os_def Let_def)
  have "word_of_nat (os_getuid example_os) = (1000 :: u32)" by (simp add: example_os_def)
  note at = connect_message_names_the_file [where os = example_os and random_part = "''a1b2c3''" and app_name = "identifier_text (65, 66, 0, 0)"
      and appid = "(65, 66, 0, 0)" and dynamic_mode = True and flags = "[]" and stopped = False and pad = 0, unfolded name this Let_def]
  have "os_mkstemps example_os kFileNameTemplate = ''/tmp/logging-'' @ ''a1b2c3'' @ ''.shmem''" "length ''a1b2c3'' = 6"
    "os_getuid example_os < 2 ^ 32" by (simp_all add: example_os_def)
  from at [OF this(1,2) refl this(3)] show ?thesis unfolding Let_def by blast
qed

section \<open>Runs of the client\<close>

text \<open>What can happen to a client, each with what the environment answers.\<close>

datatype client_event = RunClient | BeginConnect ClientEnv | EndConnect ClientEnv byte | Notified ClientEnv bytes
  | StateChanged ClientEnv ConnectionState | ShutDown ClientEnv

type_synonym client_state = "MessageClient \<times> SharedMemoryWriter \<times> SharedData"

fun client_step :: "client_event \<Rightarrow> client_state \<Rightarrow> client_state" where
  "client_step RunClient (m, w, sd) = (case Run m of Some m \<Rightarrow> (m, w, sd) | None \<Rightarrow> (m, w, sd))"
| "client_step (BeginConnect env) (m, w, sd) = (snd (ConnectToDatarouter_begin env m), w, sd)"
| "client_step (EndConnect env pad) (m, w, sd) = (if wait_over m then (ConnectToDatarouter_end env pad m, w, sd) else (m, w, sd))"
| "client_step (Notified env message) (m, w, sd) = OnNotify env message (m, w, sd)"
| "client_step (StateChanged env st) (m, w, sd) = (state_callback env st m, w, sd)"
| "client_step (ShutDown env) (m, w, sd) = (Shutdown env m, w, sd)"

definition unlinks :: "MessageClient \<Rightarrow> ClientCall list" where
  "unlinks m = filter (\<lambda>c. \<exists>n. c = ClientUnlink n) (client_calls m)"

text \<open>The file is unlinked once, when the flag says so, and never before; the flag is never reset.\<close>

definition unlink_ok :: "MessageClient \<Rightarrow> bool" where
  "unlink_ok m \<longleftrightarrow> unlinks m = (if unlinked_shared_memory_file m then [ClientUnlink (writer_file_name m)] else []) \<and>
     (first_message_received m \<longrightarrow> unlinked_shared_memory_file m)"

lemma unlinks_simps [simp]:
  "unlinks (call c m) = unlinks m @ (if \<exists>n. c = ClientUnlink n then [c] else [])"
  "unlinks (report_unless ok e m) = unlinks m"
  "unlinks (m\<lparr>run_started := a\<rparr>) = unlinks m" "unlinks (m\<lparr>has_sender := b\<rparr>) = unlinks m" "unlinks (m\<lparr>sender_state := st\<rparr>) = unlinks m"
  "unlinks (m\<lparr>client_stop_requested := c'\<rparr>) = unlinks m" "unlinks (m\<lparr>first_message_received := d\<rparr>) = unlinks m"
  "unlinks (m\<lparr>unlinked_shared_memory_file := e'\<rparr>) = unlinks m"
  by (simp_all add: unlinks_def call_def report_unless_def)

lemma client_frame [simp]:
  "writer_file_name (call c m) = writer_file_name m" "unlinked_shared_memory_file (call c m) = unlinked_shared_memory_file m"
  "first_message_received (call c m) = first_message_received m"
  "writer_file_name (report_unless ok e m) = writer_file_name m"
  "unlinked_shared_memory_file (report_unless ok e m) = unlinked_shared_memory_file m"
  "first_message_received (report_unless ok e m) = first_message_received m"
  by (simp_all add: call_def report_unless_def)

lemma Unlink_ok: "unlink_ok m \<Longrightarrow> unlink_ok (UnlinkSharedMemoryFile env m) \<and> unlinked_shared_memory_file (UnlinkSharedMemoryFile env m)
    \<and> writer_file_name (UnlinkSharedMemoryFile env m) = writer_file_name m"
  by (simp add: unlink_ok_def UnlinkSharedMemoryFile_def Let_def)

lemma unlink_ok_simps [simp]:
  "unlink_ok (report_unless ok e m) = unlink_ok m" "unlink_ok (call (ClientReport e) m) = unlink_ok m"
  "unlink_ok (call (ClientSend bs) m) = unlink_ok m" "unlink_ok (call ClientSleep m) = unlink_ok m" "unlink_ok (call ClientStart m) = unlink_ok m"
  "unlink_ok (m\<lparr>run_started := a\<rparr>) = unlink_ok m" "unlink_ok (m\<lparr>has_sender := b\<rparr>) = unlink_ok m" "unlink_ok (m\<lparr>sender_state := st\<rparr>) = unlink_ok m"
  "unlink_ok (m\<lparr>client_stop_requested := c\<rparr>) = unlink_ok m"
  by (simp_all add: unlink_ok_def)

lemma RequestInternalShutdown_ok:
  "unlink_ok m \<Longrightarrow> unlink_ok (RequestInternalShutdown env m) \<and> unlinked_shared_memory_file (RequestInternalShutdown env m)
    \<and> writer_file_name (RequestInternalShutdown env m) = writer_file_name m"
  using Unlink_ok [of m env] by (simp add: RequestInternalShutdown_def)

lemma SendMessage_ok:
  "unlink_ok m \<Longrightarrow> unlink_ok (SendMessage env bs m) \<and> writer_file_name (SendMessage env bs m) = writer_file_name m \<and>
    (unlinked_shared_memory_file m \<longrightarrow> unlinked_shared_memory_file (SendMessage env bs m))"
  using RequestInternalShutdown_ok [of "call (ClientReport kFailedToSendMessageToDatarouter) (call (ClientSend bs) m)" env]
  by (simp add: SendMessage_def)

lemma First_ok:
  "unlink_ok m \<Longrightarrow> unlink_ok (HandleFirstMessageReceived env m) \<and> unlinked_shared_memory_file (HandleFirstMessageReceived env m) \<and>
    writer_file_name (HandleFirstMessageReceived env m) = writer_file_name m"
  by (simp add: unlink_ok_def HandleFirstMessageReceived_def UnlinkSharedMemoryFile_def Let_def)

lemma OnNotify_ok:
  assumes "unlink_ok m" "OnNotify env message (m, w, sd) = (m', w', sd')"
  shows "unlink_ok m' \<and> writer_file_name m' = writer_file_name m \<and> (message = [1] \<longrightarrow> unlinked_shared_memory_file m')"
  using assms First_ok [OF assms(1), of env] SendMessage_ok [of "HandleFirstMessageReceived env m" env]
  by (auto simp: OnNotify_def OnAcquireRequest_def Let_def split: if_splits prod.splits)

lemma client_step_ok:
  assumes "unlink_ok m" "client_step e (m, w, sd) = (m', w', sd')"
  shows "unlink_ok m' \<and> writer_file_name m' = writer_file_name m"
proof (cases e)
  case (Notified env message)
  then show ?thesis using OnNotify_ok [OF assms(1)] assms(2) by simp
qed (use assms in \<open>auto simp: Run_def ConnectToDatarouter_begin_def CreateSender_def BlockTermSignal_def SetThreadName_def Let_def
    ConnectToDatarouter_end_def CheckExitRequestAndSendConnectMessage_def SendConnectMessage_def state_callback_def Shutdown_def
    RequestInternalShutdown_ok SendMessage_ok Unlink_ok split: if_splits\<close>)

lemma client_steps_ok:
  assumes "unlink_ok m" "fold client_step es (m, w, sd) = (m', w', sd')"
  shows "unlink_ok m' \<and> writer_file_name m' = writer_file_name m"
  using assms
proof (induction es arbitrary: m w sd)
  case (Cons e es)
  obtain m1 w1 sd1 where "client_step e (m, w, sd) = (m1, w1, sd1)" by (cases "client_step e (m, w, sd)")
  with Cons client_step_ok [OF Cons.prems(1) this] show ?case by auto
qed simp

text \<open>When the handlers run one after the other, in any order and with any failures of the
  environment, the only file the client ever unlinks is its own, at most once; it has been
  unlinked after the first request for the buffer, after a shutdown and after the end of the
  connection.\<close>

theorem file_unlinked_once:
  assumes "fold client_step (before @ [e]) (NewMessageClient appid uid dynamic_ids name stopped, w, sd) = (m, w', sd')"
  shows "unlinks m \<in> {[], [ClientUnlink name]} \<and>
    ((\<exists>env. e \<in> {Notified env [1], ShutDown env, StateChanged env kStopped}) \<longrightarrow> unlinks m = [ClientUnlink name])"
proof -
  let ?m0 = "NewMessageClient appid uid dynamic_ids name stopped"
  obtain m1 w1 sd1 where b: "fold client_step before (?m0, w, sd) = (m1, w1, sd1)" by (cases "fold client_step before (?m0, w, sd)")
  have "unlink_ok ?m0" by (simp add: unlink_ok_def unlinks_def NewMessageClient_def)
  from client_steps_ok [OF this b] have ok1: "unlink_ok m1" "writer_file_name m1 = name" by (simp_all add: NewMessageClient_def)
  have e: "client_step e (m1, w1, sd1) = (m, w', sd')" using assms b by simp
  from client_step_ok [OF ok1(1) e] ok1(2) have ok: "unlink_ok m" "writer_file_name m = name" by simp_all
  have "unlinked_shared_memory_file m" if "e \<in> {Notified env [1], ShutDown env, StateChanged env kStopped}" for env
    using that e ok1 OnNotify_ok [OF ok1(1), of env "[1]"] Unlink_ok RequestInternalShutdown_ok
    by (auto simp: Shutdown_def state_callback_def Let_def)
  with ok show ?thesis by (auto simp: unlink_ok_def)
qed

theorem file_unlinked_once_witness:
  "let env = \<lparr>sig_empty_set = True, sig_add_set = True, pthread_sig_mask = True, pthread_setname = True, create_client = True,
         send_succeeds = \<lambda>_. True, unlink_succeeds = True\<rparr>;
       w = NewSharedMemoryWriter (fresh_shared_data [] []) False
   in unlinks (fst (fold client_step ([RunClient, BeginConnect env, StateChanged env kReady, EndConnect env 0, Notified env [1]] @ [ShutDown env])
        (NewMessageClient (65, 0, 0, 0) 0 False ''f'' False, w, fresh_shared_data [] []))) = [ClientUnlink ''f'']"
proof -
  define env where "env = \<lparr>sig_empty_set = True, sig_add_set = True, pthread_sig_mask = True, pthread_setname = True, create_client = True,
         send_succeeds = \<lambda>_ :: bytes. True, unlink_succeeds = True\<rparr>"
  let ?st = "(NewMessageClient (65, 0, 0, 0) 0 False ''f'' False, NewSharedMemoryWriter (fresh_shared_data [] []) False, fresh_shared_data [] [])"
  let ?es = "[RunClient, BeginConnect env, StateChanged env kReady, EndConnect env 0, Notified env [1]]"
  obtain m w sd where "fold client_step (?es @ [ShutDown env]) ?st = (m, w, sd)" by (cases "fold client_step (?es @ [ShutDown env]) ?st")
  note run = this and once = file_unlinked_once [OF this]
  have "unlinks m = [ClientUnlink ''f'']" using once by blast
  then show ?thesis unfolding Let_def env_def [symmetric] run by simp
qed

lemma sends_simps:
  "filter (\<lambda>c. \<exists>b. c = ClientSend b) (client_calls (UnlinkSharedMemoryFile env m)) = filter (\<lambda>c. \<exists>b. c = ClientSend b) (client_calls m)"
  "has_sender (UnlinkSharedMemoryFile env m) = has_sender m"
  by (simp_all add: UnlinkSharedMemoryFile_def report_unless_def call_def Let_def)

text \<open>A request is answered with the block that was switched. A connected client that gets the
  one-byte request switches the buffers once and sends one message, which the data router
  reads back as exactly the result of that switch; any other notification changes nothing
  and sends nothing.\<close>

theorem request_answered_with_switched_block:
  assumes "has_sender m"
  shows "case OnNotify env message (m, w, sd) of (m', w', sd') \<Rightarrow>
    if message = [message_id_value kAcquireRequest]
    then case ReadAcquire w sd of (result, w1, sd1) \<Rightarrow>
      (w', sd') = (w1, sd1) \<and>
      (\<exists>answer. filter (\<lambda>c. \<exists>b. c = ClientSend b) (client_calls m') =
          filter (\<lambda>c. \<exists>b. c = ClientSend b) (client_calls m) @ [ClientSend answer] \<and>
        hd answer = message_id_value kAcquireResponse \<and> length answer \<le> kMaxMessageSize \<and> acquire_of_image (tl answer) = result)
    else (m', w', sd') = (m, w, sd)"
proof (cases "message = [message_id_value kAcquireRequest]")
  case True
  obtain result w1 sd1 where acq: "ReadAcquire w sd = (result, w1, sd1)" by (cases "ReadAcquire w sd")
  let ?answer = "SerializeMessage kAcquireResponse (acquire_image result)"
  let ?m = "HandleFirstMessageReceived env m"
  have m: "has_sender ?m" "filter (\<lambda>c. \<exists>b. c = ClientSend b) (client_calls ?m) = filter (\<lambda>c. \<exists>b. c = ClientSend b) (client_calls m)"
    using assms by (simp_all add: HandleFirstMessageReceived_def sends_simps)
  have "filter (\<lambda>c. \<exists>b. c = ClientSend b) (client_calls (SendMessage env ?answer ?m)) =
      filter (\<lambda>c. \<exists>b. c = ClientSend b) (client_calls m) @ [ClientSend ?answer]"
    using m by (simp add: SendMessage_def RequestInternalShutdown_def sends_simps) (simp add: call_def)
  moreover have "acquire_of_image (tl ?answer) = result"
    by (simp add: SerializeMessage_def acquire_image_def acquire_of_image_def)
  ultimately show ?thesis
    using True acq by (simp add: OnNotify_def OnAcquireRequest_def Let_def)
      (simp add: SerializeMessage_def kMaxMessageSize_def acquire_image_def)
next
  case False
  then have "length message \<noteq> 1 \<or> hd message \<noteq> message_id_value kAcquireRequest"
    by (cases message) (auto simp: length_Suc_conv)
  with False show ?thesis by (auto simp: OnNotify_def)
qed

theorem request_answered_with_switched_block_witness:
  "let env = \<lparr>sig_empty_set = True, sig_add_set = True, pthread_sig_mask = True, pthread_setname = True, create_client = True,
         send_succeeds = \<lambda>_. True, unlink_succeeds = True\<rparr>;
       m = (NewMessageClient (65, 0, 0, 0) 0 False ''f'' False)\<lparr>has_sender := True\<rparr>;
       w = NewSharedMemoryWriter (fresh_shared_data [] []) False
   in OnNotify env [2] (m, w, fresh_shared_data [] []) = (m, w, fresh_shared_data [] [])"
  using request_answered_with_switched_block [where m = "(NewMessageClient (65, 0, 0, 0) 0 False ''f'' False)\<lparr>has_sender := True\<rparr>"
      and message = "[2]" and w = "NewSharedMemoryWriter (fresh_shared_data [] []) False" and sd = "fresh_shared_data [] []"
      and env = "\<lparr>sig_empty_set = True, sig_add_set = True, pthread_sig_mask = True, pthread_setname = True, create_client = True,
         send_succeeds = \<lambda>_ :: bytes. True, unlink_succeeds = True\<rparr>"]
  by (simp add: Let_def split: prod.splits)

section \<open>Overlapping calls\<close>

text \<open>
  The connect thread, the callbacks and the thread that shuts down reach \<^verbatim>\<open>UnlinkSharedMemoryFile\<close>
  with nothing between them: the test of the flag, its setting and the unlinking are steps
  between which other threads run.
\<close>

datatype unlink_pc = NotInside | SawUnset | FlagSet

record unlink_sys =
  us_client :: MessageClient
  us_pcs :: "nat \<Rightarrow> unlink_pc"

inductive unlink_step :: "ClientEnv \<Rightarrow> nat \<Rightarrow> unlink_sys \<Rightarrow> unlink_sys \<Rightarrow> bool" for env t where
  saw_set: "us_pcs s t = NotInside \<Longrightarrow> unlinked_shared_memory_file (us_client s) \<Longrightarrow> unlink_step env t s s"
| saw_unset: "us_pcs s t = NotInside \<Longrightarrow> \<not> unlinked_shared_memory_file (us_client s) \<Longrightarrow>
    unlink_step env t s (s\<lparr>us_pcs := (us_pcs s)(t := SawUnset)\<rparr>)"
| set_flag: "us_pcs s t = SawUnset \<Longrightarrow>
    unlink_step env t s (s\<lparr>us_client := (us_client s)\<lparr>unlinked_shared_memory_file := True\<rparr>, us_pcs := (us_pcs s)(t := FlagSet)\<rparr>)"
| unlink: "us_pcs s t = FlagSet \<Longrightarrow>
    unlink_step env t s (s\<lparr>us_client := report_unless (unlink_succeeds env) kUnlinkSharedMemoryError
        (call (ClientUnlink (writer_file_name (us_client s))) (us_client s)), us_pcs := (us_pcs s)(t := NotInside)\<rparr>)"

inductive unlink_reach :: "nat \<Rightarrow> MessageClient \<Rightarrow> unlink_sys \<Rightarrow> bool" for nthreads m where
  start: "unlink_reach nthreads m \<lparr>us_client = m, us_pcs = (\<lambda>_. NotInside)\<rparr>"
| step: "unlink_reach nthreads m s \<Longrightarrow> t < nthreads \<Longrightarrow> unlink_step env t s s' \<Longrightarrow> unlink_reach nthreads m s'"

text \<open>A thread that is alone does what the sequential operation does.\<close>

lemma unlink_alone:
  assumes "us_pcs s t = NotInside"
  shows "(unlink_step env t)\<^sup>*\<^sup>* s (s\<lparr>us_client := UnlinkSharedMemoryFile env (us_client s)\<rparr>)"
proof (cases "unlinked_shared_memory_file (us_client s)")
  case False
  let ?s1 = "s\<lparr>us_pcs := (us_pcs s)(t := SawUnset)\<rparr>"
  let ?s2 = "?s1\<lparr>us_client := (us_client s)\<lparr>unlinked_shared_memory_file := True\<rparr>, us_pcs := (us_pcs s)(t := FlagSet)\<rparr>"
  let ?s3 = "?s2\<lparr>us_client := report_unless (unlink_succeeds env) kUnlinkSharedMemoryError
        (call (ClientUnlink (writer_file_name (us_client ?s2))) (us_client ?s2)), us_pcs := (us_pcs ?s2)(t := NotInside)\<rparr>"
  have "unlink_step env t s ?s1" by (rule unlink_step.saw_unset) (use assms False in simp_all)
  moreover have "unlink_step env t ?s1 ?s2" using unlink_step.set_flag [of ?s1 t env] by simp
  moreover have "unlink_step env t ?s2 ?s3" by (rule unlink_step.unlink) simp
  moreover have "(us_pcs s)(t := NotInside) = us_pcs s" using assms by auto
  then have "?s3 = s\<lparr>us_client := UnlinkSharedMemoryFile env (us_client s)\<rparr>"
    using False by (simp add: UnlinkSharedMemoryFile_def Let_def)
  ultimately show ?thesis by (metis converse_rtranclp_into_rtranclp rtranclp.rtrancl_refl)
qed (simp add: UnlinkSharedMemoryFile_def)

definition inside_unlink :: "unlink_sys \<Rightarrow> nat set" where
  "inside_unlink s = {t. us_pcs s t \<noteq> NotInside}"

definition unlink_inv :: "nat \<Rightarrow> string \<Rightarrow> unlink_sys \<Rightarrow> bool" where
  "unlink_inv nthreads name s \<longleftrightarrow> writer_file_name (us_client s) = name \<and> inside_unlink s \<subseteq> {..<nthreads} \<and>
     set (unlinks (us_client s)) \<subseteq> {ClientUnlink name} \<and> length (unlinks (us_client s)) + card (inside_unlink s) \<le> nthreads \<and>
     (if unlinked_shared_memory_file (us_client s) then unlinks (us_client s) \<noteq> [] \<or> (\<exists>t. us_pcs s t = FlagSet)
      else unlinks (us_client s) = [] \<and> (\<forall>t. us_pcs s t \<noteq> FlagSet))"

lemma inside_unlink_upd:
  "inside_unlink (s\<lparr>us_pcs := (us_pcs s)(t := v)\<rparr>) = (if v = NotInside then inside_unlink s - {t} else insert t (inside_unlink s))"
  "inside_unlink (s\<lparr>us_client := m, us_pcs := (us_pcs s)(t := v)\<rparr>) = (if v = NotInside then inside_unlink s - {t} else insert t (inside_unlink s))"
  by (auto simp: inside_unlink_def)

lemma unlink_inv_step:
  assumes "unlink_inv nthreads name s" "t < nthreads" "unlink_step env t s s'"
  shows "unlink_inv nthreads name s'"
proof -
  have fin: "finite (inside_unlink s)" using assms(1) by (auto simp: unlink_inv_def intro: finite_subset)
  from assms(3) show ?thesis
  proof cases
    case saw_unset
    have "card (insert t (inside_unlink s)) \<le> nthreads"
      using card_mono [of "{..<nthreads}" "insert t (inside_unlink s)"] assms(1,2) by (auto simp: unlink_inv_def)
    then show ?thesis using saw_unset assms(1,2) by (auto simp: unlink_inv_def inside_unlink_upd)
  next
    case set_flag
    then have "insert t (inside_unlink s) = inside_unlink s" by (auto simp: inside_unlink_def)
    then show ?thesis using set_flag assms(1,2) by (auto simp: unlink_inv_def inside_unlink_upd)
  next
    case unlink
    then have "t \<in> inside_unlink s" by (simp add: inside_unlink_def)
    then have "Suc (card (inside_unlink s - {t})) = card (inside_unlink s)" using fin by (metis card_Suc_Diff1)
    then show ?thesis using unlink assms(1) by (auto simp: unlink_inv_def inside_unlink_upd split: if_splits)
  qed (use assms(1) in simp)
qed

lemma unlink_reach_inv:
  assumes "unlink_reach nthreads m s" "\<not> unlinked_shared_memory_file m" "unlinks m = []"
  shows "unlink_inv nthreads (writer_file_name m) s"
  using assms
proof (induction rule: unlink_reach.induct)
  case start
  have "inside_unlink \<lparr>us_client = m, us_pcs = (\<lambda>_. NotInside)\<rparr> = {}" by (simp add: inside_unlink_def)
  with start show ?case by (simp add: unlink_inv_def)
qed (auto intro: unlink_inv_step)

text \<open>The worst case: all test the flag before any sets it.\<close>

definition all_at :: "nat \<Rightarrow> unlink_pc \<Rightarrow> unlink_pc \<Rightarrow> nat \<Rightarrow> unlink_pc" where
  "all_at k v v' t = (if t < k then v else v')"

lemma all_at_upd: "(all_at k v v')(k := v) = all_at (Suc k) v v'"
  by (auto simp: all_at_def)

lemma all_saw_unset:
  assumes "k \<le> n" "\<not> unlinked_shared_memory_file m"
  shows "unlink_reach n m \<lparr>us_client = m, us_pcs = all_at k SawUnset NotInside\<rparr>"
  using assms(1)
proof (induction k)
  case 0
  show ?case using unlink_reach.start [of n m] by (simp add: all_at_def [abs_def])
next
  case (Suc k)
  from unlink_step.saw_unset [of "\<lparr>us_client = m, us_pcs = all_at k SawUnset NotInside\<rparr>" k] assms(2)
  have "unlink_step undefined k \<lparr>us_client = m, us_pcs = all_at k SawUnset NotInside\<rparr> \<lparr>us_client = m, us_pcs = all_at (Suc k) SawUnset NotInside\<rparr>"
    by (simp add: all_at_upd [symmetric]) (simp add: all_at_def)
  from unlink_reach.step [OF _ _ this] Suc show ?case by simp
qed

lemma each_unlinks:
  assumes "k \<le> n" "\<not> unlinked_shared_memory_file m" "unlinks m = []"
  shows "\<exists>s. unlink_reach n m s \<and> us_pcs s = (\<lambda>t. if t < k then NotInside else if t < n then SawUnset else NotInside) \<and>
    length (unlinks (us_client s)) = k"
  using assms(1)
proof (induction k)
  case 0
  show ?case using all_saw_unset [of n n m] assms(2,3) by (intro exI [of _ "\<lparr>us_client = m, us_pcs = all_at n SawUnset NotInside\<rparr>"]) (auto simp: all_at_def)
next
  case (Suc k)
  then obtain s where s: "unlink_reach n m s" "us_pcs s = (\<lambda>t. if t < k then NotInside else if t < n then SawUnset else NotInside)"
    "length (unlinks (us_client s)) = k" by auto
  let ?s1 = "s\<lparr>us_client := (us_client s)\<lparr>unlinked_shared_memory_file := True\<rparr>, us_pcs := (us_pcs s)(k := FlagSet)\<rparr>"
  have k: "k < n" using Suc.prems by simp
  have "us_pcs s k = SawUnset" using k by (simp add: s(2))
  from unlink_reach.step [OF s(1) k unlink_step.set_flag [OF this]] have r1: "unlink_reach n m ?s1" .
  have "us_pcs ?s1 k = FlagSet" by simp
  note r2 = unlink_reach.step [OF r1 k unlink_step.unlink [OF this]]
  show ?case by (rule exI, rule conjI, rule r2) (use k s(2,3) in \<open>auto simp: less_Suc_eq\<close>)
qed

text \<open>The unlinking of the shared memory file when calls overlap. Whatever the threads do, only the
  client's own file is unlinked, not before the flag is set, at least once when the flag is set
  and no call is under way, and at most as many times as there are threads. That is all: as many
  threads as reach the call together may each unlink the name, all but the first with an error report or,
  worse, a file that another process has created under that name meanwhile.\<close>

theorem overlapping_unlinks:
  assumes "m = NewMessageClient appid uid dynamic_ids name stopped"
  shows "(unlink_reach nthreads m s \<longrightarrow>
      set (unlinks (us_client s)) \<subseteq> {ClientUnlink name} \<and> length (unlinks (us_client s)) \<le> nthreads \<and>
      (\<not> unlinked_shared_memory_file (us_client s) \<longrightarrow> unlinks (us_client s) = []) \<and>
      (unlinked_shared_memory_file (us_client s) \<and> (\<forall>t. us_pcs s t = NotInside) \<longrightarrow> unlinks (us_client s) \<noteq> [])) \<and>
    (\<exists>s. unlink_reach nthreads m s \<and> (\<forall>t. us_pcs s t = NotInside) \<and> length (unlinks (us_client s)) = nthreads)"
proof (intro conjI impI)
  have new: "\<not> unlinked_shared_memory_file m" "unlinks m = []" "writer_file_name m = name"
    using assms by (simp_all add: NewMessageClient_def unlinks_def)
  assume "unlink_reach nthreads m s"
  from unlink_reach_inv [OF this new(1,2)] have inv: "unlink_inv nthreads name s" by (simp add: new(3))
  then show "set (unlinks (us_client s)) \<subseteq> {ClientUnlink name}" "length (unlinks (us_client s)) \<le> nthreads"
    "\<not> unlinked_shared_memory_file (us_client s) \<Longrightarrow> unlinks (us_client s) = []"
    "unlinked_shared_memory_file (us_client s) \<and> (\<forall>t. us_pcs s t = NotInside) \<Longrightarrow> unlinks (us_client s) \<noteq> []"
    by (auto simp: unlink_inv_def)
next
  have "\<not> unlinked_shared_memory_file m" "unlinks m = []" using assms by (simp_all add: NewMessageClient_def unlinks_def)
  from each_unlinks [OF order_refl this, of nthreads]
  show "\<exists>s. unlink_reach nthreads m s \<and> (\<forall>t. us_pcs s t = NotInside) \<and> length (unlinks (us_client s)) = nthreads" by fastforce
qed

theorem overlapping_unlinks_witness:
  "\<exists>s. unlink_reach 2 (NewMessageClient (65, 0, 0, 0) 0 False ''f'' False) s \<and> unlinks (us_client s) = [ClientUnlink ''f'', ClientUnlink ''f'']"
proof -
  let ?m = "NewMessageClient (65, 0, 0, 0) 0 False ''f'' False"
  note both = overlapping_unlinks [OF refl, where appid = "(65, 0, 0, 0)" and uid = 0 and dynamic_ids = False and name = "''f''" and stopped = False and nthreads = 2]
  obtain s where s: "unlink_reach 2 ?m s" "length (unlinks (us_client s)) = 2" using conjunct2 [OF both] by blast
  then have "set (unlinks (us_client s)) \<subseteq> {ClientUnlink ''f''}" using both [of s] by blast
  then have "unlinks (us_client s) = [ClientUnlink ''f'', ClientUnlink ''f'']"
    using s(2) by (auto simp: length_Suc_conv numeral_2_eq_2)
  with s(1) show ?thesis by blast
qed

end
