(* ===== verification/RouterMain.thy ===== *)
theory RouterMain
  imports TracedPipeline ConfigProperties FileTransfer ConfigServer MessageClient "HOL-Library.Signed_Division"
begin

text \<open>
  The data router put together: the handlers of the log server
  (\<^verbatim>\<open>src/daemon/verbose_dlt.cpp\<close>, \<^verbatim>\<open>src/dlt/nonverbose_dlt_impl/nonverbose_dlt.cpp\<close>), and
  \<^verbatim>\<open>src/daemon/socketserver.cpp\<close>, which connects parser, log server, sessions and main loop.

  The deserialisation of a log entry and of a file transfer request is the work of the
  serialisation library: two functions \<open>decode\<close> and \<open>decode_ft\<close> from the bytes of a record.
  The build is one without \<^verbatim>\<open>DLT_OUTPUT_ENABLED\<close>, which would force the output on.
\<close>

section \<open>The handlers\<close>

datatype TypeHandler = vhandler | fthandler
datatype AnyHandler = nvhandler

type_synonym RouterParser = "(NvMsgDescriptor, TypeHandler, AnyHandler) LogParser"

definition kLogEntryTypeName :: bytes where
  "kLogEntryTypeName = map of_char ''score::mw::log::detail::LogEntry''"

definition kFileTransferTypeName :: bytes where
  "kFileTransferTypeName = map of_char ''score::logging::FileTransferEntry''"




definition GetGlobalHandlers :: "AnyHandler list" where
  "GetGlobalHandlers = [nvhandler]"

definition GetTypeHandlerBindings :: "(bytes \<times> TypeHandler) list" where
  "GetTypeHandlerBindings = [(kLogEntryTypeName, vhandler), (kFileTransferTypeName, fthandler)]"

definition CreateLogParser :: "(bytes \<Rightarrow> NvMsgDescriptor option) \<Rightarrow> RouterParser" where
  "CreateLogParser nv_config = NewLogParser nv_config GetGlobalHandlers GetTypeHandlerBindings"



section \<open>The main program\<close>

text \<open>\<open>None\<close> is a file whose accessors have no value; an error ends the work.\<close>

definition CreateDltServer ::
  "LogLevels \<Rightarrow> ('t \<Rightarrow> Json option) \<Rightarrow> (string \<Rightarrow> 't option) \<Rightarrow> 'p ServerEnv \<times> bool \<Rightarrow> string option \<Rightarrow> 'p \<Rightarrow>
   (LoggingErrorCode + 'p DltLogServer) option" where
  "CreateDltServer L parse files storage_handlers log_channels_path pd =
     (let config_path = (case log_channels_path of Some path \<Rightarrow> path | None \<Rightarrow> ''./etc/log-channels.json'')
      in case ReadStaticDlt L parse (files config_path) of
           None \<Rightarrow> None
         | Some (Inl e) \<Rightarrow> Some (Inl e)
         | Some (Inr sc) \<Rightarrow>
             Some (Inr (NewDltLogServer (fst storage_handlers) sc (snd storage_handlers) pd)))"

text \<open>What the server calls when its output is switched: it is stored, the sessions and the server are told.\<close>

definition enable_handler ::
  "('p, 't) IPersistentDictionary \<Rightarrow> bool \<Rightarrow>
   'p \<times> ('d, 'h, 'g) SourceSession list \<times> 'q DltLogServer \<Rightarrow> 'p \<times> ('d, 'h, 'g) SourceSession list \<times> 'q DltLogServer" where
  "enable_handler D enable st =
     (let (pd, sources, s) = st
      in (WriteDltEnabled D enable pd, map (SetLoggingClientEnabled enable) sources, snd (SetDltOutputEnable enable s)))"

text \<open>The file is opened and the factory makes a reader of it: no reader, no session.\<close>

definition CreateMessagePassingSession ::
  "(string \<Rightarrow> 'f option) \<Rightarrow> ('f \<Rightarrow> SharedMemoryReader option) \<Rightarrow> (int \<times> int) \<Rightarrow> (bytes \<Rightarrow> NvMsgDescriptor option) \<Rightarrow>
   ConnectMessageFromClient \<Rightarrow> 'p DltLogServer \<Rightarrow> (NvMsgDescriptor, TypeHandler, AnyHandler) SourceSession option" where
  "CreateMessagePassingSession open' create_reader now nv_config conn s =
     (let appid = identifier_text (conn_appid conn)
      in case open' (ResolveSharedMemoryFileName conn appid) of
           None \<Rightarrow> None
         | Some fd \<Rightarrow>
             (case create_reader fd of
                None \<Rightarrow> None
              | Some rd \<Rightarrow>
                  Some (NewSourceSession (fst now) (snd now) rd appid (dlt_output_enabled s)
                    (GetQuota s (map of_char appid)) (sc_quota_enforcement_enabled (static_config s)) (CreateLogParser nv_config))))"



section \<open>From the calls of the handlers to the channels\<close>


fun op_destination :: "'p ServerEnv \<Rightarrow> 'p DltLogServer \<Rightarrow> nat \<Rightarrow> ChannelOp \<Rightarrow> bool" where
  "op_destination E s i (OpVerbose t e) = destination s (NewDltidT (env_view E (app_id e))) (NewDltidT (env_view E (ctx_id e))) (log_level e) i"
| "op_destination E s i (OpNonVerbose desc t d) = destination s (NewDltidT (env_view E (nv_app desc))) (NewDltidT (env_view E (nv_ctx desc))) (nv_log_level desc) i"
| "op_destination E s i _ = False"

lemma op_destination_channels [simp]: "op_destination E (s\<lparr>channels := cs\<rparr>) i op = op_destination E s i op"
  by (cases op) (simp_all add: destination_def split: option.split)












section \<open>From the traced value to the network\<close>









end
