(* ===== verification/Recorder.thy ===== *)
theory Recorder
  imports Tracing DltFormat
begin

text \<open>
  The recorders of a logging process: \<^verbatim>\<open>FileRecorder\<close> and \<^verbatim>\<open>DataRouterRecorder\<close>
  (\<^verbatim>\<open>mw/log/detail/file_recorder/file_recorder.cpp\<close>, \<^verbatim>\<open>data_router/data_router_recorder.cpp\<close>), the
  reporter of statistics (\<^verbatim>\<open>common/statistics_reporter.cpp\<close>), and the backends that keep the
  slots: \<^verbatim>\<open>data_router_backend.cpp\<close>, \<^verbatim>\<open>slog_backend.cpp\<close>, \<^verbatim>\<open>syslog_backend.cpp\<close>.

  A recorder is written against the interface of a backend; the slots of a backend are in
  an allocator of the base library. Parameters: the allocator, the payload buffer of a slot
  with its two ways of being emptied, the counter of arguments, the conversion of a text
  into an identifier, the configured thresholds, and the clock.
\<close>

section \<open>Parameters\<close>

text \<open>A slot: the log entry, whose bytes are those of the payload buffer.\<close>

record 'p LogSlot =
  ls_app :: id4
  ls_ctx :: id4
  ls_args :: u8
  ls_level :: u8
  ls_payload :: 'p

text \<open>
  The counter of arguments calls the function that adds an argument and updates the
  number; that function acts on the payload and a counter of refused arguments.
\<close>

record 'p Library =
  lib_platform :: "'p Platform"
  lib_bytes :: "'p \<Rightarrow> bytes"
  lib_clear :: "'p \<Rightarrow> 'p"
  lib_Reset :: "'p \<Rightarrow> 'p"
  lib_TryAddArgument :: "('p \<times> u64 \<Rightarrow> AddArgumentResult \<times> 'p \<times> u64) \<Rightarrow> u8 \<times> 'p \<times> u64 \<Rightarrow> u8 \<times> 'p \<times> u64"
  lib_LoggingIdentifier :: "bytes \<Rightarrow> id4"
  lib_IsLogLevelEnabled :: "u8 \<Rightarrow> bytes \<Rightarrow> bool"
  lib_AppId :: bytes
  kDecimal :: u8
  kHex :: u8
  kBinary :: u8

definition GetLogEntryOf :: "'p Library \<Rightarrow> 'p LogSlot \<Rightarrow> LogEntry" where
  "GetLogEntryOf L s = \<lparr>app_id = ls_app s, ctx_id = ls_ctx s, entry_payload = lib_bytes L (ls_payload s),
     num_of_args = ls_args s, log_level = ls_level s\<rparr>"

record ('b, 'p) Backend =
  ReserveSlot :: "'b \<Rightarrow> u8 option \<times> 'b"
  GetLogRecord :: "u8 \<Rightarrow> 'b \<Rightarrow> 'p LogSlot"
  SetLogRecord :: "u8 \<Rightarrow> 'p LogSlot \<Rightarrow> 'b \<Rightarrow> 'b"
  FlushSlot :: "u8 \<Rightarrow> 'b \<Rightarrow> 'b"

section \<open>Arguments of a message\<close>

datatype LogArg =
    ABool bool
  | AU8 u8 | AI8 u8 | AU16 u16 | AI16 u16 | AU32 u32 | AI32 u32 | AU64 u64 | AI64 u64
  | AFloat u32 | ADouble u64 | AText bytes
  | AHex8 u8 | AHex16 u16 | AHex32 u32 | AHex64 u64
  | ABin8 u8 | ABin16 u16 | ABin32 u32 | ABin64 u64
  | ARaw bytes | ASlog2 u16 bytes

text \<open>The overload of the formatter that an overload of \<^verbatim>\<open>Log\<close> calls, with its default representation.\<close>

fun format_value :: "'p Library \<Rightarrow> LogArg \<Rightarrow> LogValue" where
  "format_value L (ABool d) = VBool d"
| "format_value L (AU8 d) = VU8 d (kDecimal L)"
| "format_value L (AI8 d) = VI8 d (kDecimal L)"
| "format_value L (AU16 d) = VU16 d (kDecimal L)"
| "format_value L (AI16 d) = VI16 d (kDecimal L)"
| "format_value L (AU32 d) = VU32 d (kDecimal L)"
| "format_value L (AI32 d) = VI32 d (kDecimal L)"
| "format_value L (AU64 d) = VU64 d (kDecimal L)"
| "format_value L (AI64 d) = VI64 d (kDecimal L)"
| "format_value L (AFloat d) = VFloat d"
| "format_value L (ADouble d) = VDouble d"
| "format_value L (AText d) = VString d"
| "format_value L (AHex8 d) = VHex8 d (kHex L)"
| "format_value L (AHex16 d) = VHex16 d (kHex L)"
| "format_value L (AHex32 d) = VHex32 d (kHex L)"
| "format_value L (AHex64 d) = VHex64 d (kHex L)"
| "format_value L (ABin8 d) = VBin8 d (kBinary L)"
| "format_value L (ABin16 d) = VBin16 d (kBinary L)"
| "format_value L (ABin32 d) = VBin32 d (kBinary L)"
| "format_value L (ABin64 d) = VBin64 d (kBinary L)"
| "format_value L (ARaw d) = VRaw d"
| "format_value L (ASlog2 code message) = VString message"

section \<open>File recorder\<close>

definition FileRecorder_StartRecord ::
  "'p Library \<Rightarrow> ('b, 'p) Backend \<Rightarrow> bytes \<Rightarrow> u8 \<Rightarrow> 'b \<Rightarrow> u8 option \<times> 'b" where
  "FileRecorder_StartRecord L B context_id level b =
     (if \<not> lib_IsLogLevelEnabled L level context_id then (None, b)
      else
        case ReserveSlot B b of
          (None, b) \<Rightarrow> (None, b)
        | (Some slot, b) \<Rightarrow>
            (Some slot, SetLogRecord B slot
              \<lparr>ls_app = lib_LoggingIdentifier L (lib_AppId L), ls_ctx = lib_LoggingIdentifier L context_id, ls_args = 0,
               ls_level = level, ls_payload = lib_Reset L (ls_payload (GetLogRecord B slot b))\<rparr> b))"

definition FileRecorder_StopRecord :: "('b, 'p) Backend \<Rightarrow> u8 \<Rightarrow> 'b \<Rightarrow> 'b" where
  "FileRecorder_StopRecord B slot b = FlushSlot B slot b"

text \<open>The arguments go through the counter; there are no statistics here.\<close>

definition FileRecorder_Log :: "'p Library \<Rightarrow> ('b, 'p) Backend \<Rightarrow> u8 \<Rightarrow> LogArg \<Rightarrow> 'b \<Rightarrow> 'b" where
  "FileRecorder_Log L B slot data' b =
     (let log_record = GetLogRecord B slot b;
          (args, payload, _) = lib_TryAddArgument L
            (\<lambda>(payload, c). let (result, payload) = Log (lib_platform L) payload (format_value L data') in (result, payload, c))
            (ls_args log_record, ls_payload log_record, 0)
      in SetLogRecord B slot (log_record\<lparr>ls_args := args, ls_payload := payload\<rparr>) b)"

section \<open>Statistics and the recorder of the data router\<close>

record StatisticsReporter =
  report_interval :: int
  number_of_slots :: u64
  slot_size_bytes :: u64
  no_slot_available_counter :: u64
  message_too_long_counter :: u64
  last_report_time_point_nanoseconds :: int
  currently_reporting :: bool

definition kStatisticsReportInterval :: int where "kStatisticsReportInterval = 5"

definition NewStatisticsReporter :: "int \<Rightarrow> u64 \<Rightarrow> u64 \<Rightarrow> StatisticsReporter" where
  "NewStatisticsReporter interval slots slot_size =
     \<lparr>report_interval = interval, number_of_slots = slots, slot_size_bytes = slot_size, no_slot_available_counter = 0,
      message_too_long_counter = 0, last_report_time_point_nanoseconds = 0, currently_reporting = False\<rparr>"

text \<open>Times are in nanoseconds; the cast to seconds cuts towards zero.\<close>

definition to_seconds :: "int \<Rightarrow> int" where
  "to_seconds d = (if 0 \<le> d then d div 1000000000 else - (- d div 1000000000))"

definition IsReportOverdue :: "int \<Rightarrow> int \<Rightarrow> int \<Rightarrow> bool" where
  "IsReportOverdue now last_report interval \<longleftrightarrow> to_seconds (now - last_report) \<ge> interval"

text \<open>The clock is read, and the weak exchange may fail, at the moments that \<open>moment\<close> counts.\<close>

record 'b DataRouterRecorder =
  dr_backend :: 'b
  dr_stats :: StatisticsReporter
  moment :: nat

record Moments =
  steady_now :: "nat \<Rightarrow> int"
  spurious_failure :: "nat \<Rightarrow> bool"

definition NewDataRouterRecorder :: "'b \<Rightarrow> u64 \<Rightarrow> u64 \<Rightarrow> 'b DataRouterRecorder" where
  "NewDataRouterRecorder b slots slot_size =
     \<lparr>dr_backend = b, dr_stats = NewStatisticsReporter kStatisticsReportInterval slots slot_size, moment = 0\<rparr>"

definition upd_stats :: "(StatisticsReporter \<Rightarrow> StatisticsReporter) \<Rightarrow> 'b DataRouterRecorder \<Rightarrow> 'b DataRouterRecorder" where
  "upd_stats f s = s\<lparr>dr_stats := f (dr_stats s)\<rparr>"

definition IncrementNoSlotAvailable :: "StatisticsReporter \<Rightarrow> StatisticsReporter" where
  "IncrementNoSlotAvailable r = r\<lparr>no_slot_available_counter := no_slot_available_counter r + 1\<rparr>"

definition CleanLogRecord :: "'p Library \<Rightarrow> 'p LogSlot \<Rightarrow> 'p LogSlot" where
  "CleanLogRecord L log_record = log_record\<lparr>ls_args := 0, ls_payload := lib_clear L (ls_payload log_record)\<rparr>"

definition SetApplicationId :: "'p Library \<Rightarrow> 'p LogSlot \<Rightarrow> 'p LogSlot" where
  "SetApplicationId L log_record = log_record\<lparr>ls_app := lib_LoggingIdentifier L (lib_AppId L)\<rparr>"

definition SetContext :: "'p Library \<Rightarrow> bytes \<Rightarrow> 'p LogSlot \<Rightarrow> 'p LogSlot" where
  "SetContext L context_id log_record = log_record\<lparr>ls_ctx := lib_LoggingIdentifier L context_id\<rparr>"

definition SetLogLevel :: "u8 \<Rightarrow> 'p LogSlot \<Rightarrow> 'p LogSlot" where
  "SetLogLevel level log_record = log_record\<lparr>ls_level := level\<rparr>"

definition DataRouterRecorder_StopRecord :: "('b, 'p) Backend \<Rightarrow> u8 \<Rightarrow> 'b DataRouterRecorder \<Rightarrow> 'b DataRouterRecorder" where
  "DataRouterRecorder_StopRecord B slot s = s\<lparr>dr_backend := FlushSlot B slot (dr_backend s)\<rparr>"

definition DataRouterRecorder_Log :: "'p Library \<Rightarrow> ('b, 'p) Backend \<Rightarrow> u8 \<Rightarrow> LogArg \<Rightarrow> 'b DataRouterRecorder \<Rightarrow> 'b DataRouterRecorder" where
  "DataRouterRecorder_Log L B slot data' s =
     (let log_record = GetLogRecord B slot (dr_backend s);
          (args, payload, too_long) = lib_TryAddArgument L
            (\<lambda>(payload, c). let (result, payload) = Log (lib_platform L) payload (format_value L data')
               in (result, payload, if result = kNotAdded then c + 1 else c))
            (ls_args log_record, ls_payload log_record, message_too_long_counter (dr_stats s))
      in upd_stats (\<lambda>r. r\<lparr>message_too_long_counter := too_long\<rparr>)
           (s\<lparr>dr_backend := SetLogRecord B slot (log_record\<lparr>ls_args := args, ls_payload := payload\<rparr>) (dr_backend s)\<rparr>))"

text \<open>What is written between the start and the end of a report.\<close>

definition text_bytes :: "string \<Rightarrow> bytes" where
  "text_bytes s = map of_char s"

definition report_args :: "StatisticsReporter \<Rightarrow> LogArg list" where
  "report_args r =
     [AText (text_bytes ''mw::log statistics: number_of_slots=''), AU64 (number_of_slots r),
      AText (text_bytes '', slot_size_bytes=''), AU64 (slot_size_bytes r),
      AText (text_bytes '', no_slot_available_counter=''), AU64 (no_slot_available_counter r),
      AText (text_bytes '', message_too_long_counter=''), AU64 (message_too_long_counter r)]"

definition report_level :: "StatisticsReporter \<Rightarrow> u8" where
  "report_level r = (if no_slot_available_counter r > 0 \<or> message_too_long_counter r > 0 then kWarn else kInfo)"

definition report_body :: "'p Library \<Rightarrow> ('b, 'p) Backend \<Rightarrow> StatisticsReporter \<Rightarrow> u8 \<Rightarrow> 'b DataRouterRecorder \<Rightarrow> 'b DataRouterRecorder" where
  "report_body L B r slot s = DataRouterRecorder_StopRecord B slot (fold (DataRouterRecorder_Log L B slot) (report_args r) s)"

text \<open>The beginning of a record, once the statistics have been looked after.\<close>

definition open_record :: "'p Library \<Rightarrow> ('b, 'p) Backend \<Rightarrow> bytes \<Rightarrow> u8 \<Rightarrow> 'b DataRouterRecorder \<Rightarrow> u8 option \<times> 'b DataRouterRecorder" where
  "open_record L B context_id level s =
     (if \<not> lib_IsLogLevelEnabled L level context_id then (None, s)
      else
        case ReserveSlot B (dr_backend s) of
          (None, b) \<Rightarrow> (None, upd_stats IncrementNoSlotAvailable (s\<lparr>dr_backend := b\<rparr>))
        | (Some slot, b) \<Rightarrow>
            (Some slot, s\<lparr>dr_backend := SetLogRecord B slot
              (SetLogLevel level (SetContext L context_id (SetApplicationId L (CleanLogRecord L (GetLogRecord B slot b))))) b\<rparr>))"

text \<open>
  Starting a record updates the statistics, and a due report is itself a record: the two
  operations call each other.
\<close>

function DataRouterRecorder_StartRecord ::
    "'p Library \<Rightarrow> ('b, 'p) Backend \<Rightarrow> Moments \<Rightarrow> bytes \<Rightarrow> u8 \<Rightarrow> 'b DataRouterRecorder \<Rightarrow> u8 option \<times> 'b DataRouterRecorder"
  and Update :: "'p Library \<Rightarrow> ('b, 'p) Backend \<Rightarrow> Moments \<Rightarrow> int \<Rightarrow> 'b DataRouterRecorder \<Rightarrow> 'b DataRouterRecorder" where
  "DataRouterRecorder_StartRecord L B T context_id level s =
     open_record L B context_id level (Update L B T (steady_now T (moment s)) (s\<lparr>moment := moment s + 1\<rparr>))"
| "Update L B T now s =
     (if \<not> IsReportOverdue now (last_report_time_point_nanoseconds (dr_stats s)) (report_interval (dr_stats s)) then s
      else if currently_reporting (dr_stats s) \<or> spurious_failure T (moment s) then s
      else
        let r = dr_stats s;
            s = upd_stats (\<lambda>r. r\<lparr>currently_reporting := True\<rparr>) s;
            (slot, s) = DataRouterRecorder_StartRecord L B T (text_bytes ''STAT'') (report_level r) s;
            s = (case slot of None \<Rightarrow> s | Some i \<Rightarrow> report_body L B r i s)
        in upd_stats (\<lambda>r. r\<lparr>last_report_time_point_nanoseconds := now, currently_reporting := False\<rparr>) s)"
  by pat_completeness auto
termination
  by (relation "measure (\<lambda>x. case x of
        Inl (L, B, T, c, l, s) \<Rightarrow> if currently_reporting (dr_stats s) then 1 else 3
      | Inr (L, B, T, n, s) \<Rightarrow> if currently_reporting (dr_stats s) then 0 else 2)")
    (auto simp: upd_stats_def)

declare DataRouterRecorder_StartRecord.simps [simp del] Update.simps [simp del]

section \<open>Backends\<close>

text \<open>\<^verbatim>\<open>GetMaxLogLevelValue\<close> of the base library is the greatest level, \<^verbatim>\<open>kVerbose\<close>.\<close>

text \<open>
  The allocator of slots of the base library; \<^verbatim>\<open>GetUnderlyingBufferFor\<close> returns a reference,
  so that there is a reading and a writing function.
\<close>

record ('a, 'p) CircularAllocator =
  AcquireSlotToWrite :: "'a \<Rightarrow> u64 option \<times> 'a"
  GetUnderlyingBufferFor :: "u64 \<Rightarrow> 'a \<Rightarrow> 'p LogSlot"
  SetUnderlyingBufferFor :: "u64 \<Rightarrow> 'p LogSlot \<Rightarrow> 'a \<Rightarrow> 'a"
  ReleaseSlot :: "u64 \<Rightarrow> 'a \<Rightarrow> 'a"

definition CheckForMaxCapacity :: "u64 \<Rightarrow> u64" where
  "CheckForMaxCapacity capacity = (if capacity \<le> 255 then capacity else 255)"

text \<open>
  The backend of the data router: the slots, the process with its tracing interface, and the
  number of flushes so far, which selects the readings of the clock.
\<close>

record ('a, 'k) DataRouterBackend =
  db_buffer :: 'a
  db_process :: "'k Process"
  db_flushes :: nat

text \<open>
  The constructor: the logger gets the writer of the ring buffer if there is one, and then
  the client of the data router is created and run, which the last component says.
\<close>

definition NewDataRouterBackend ::
  "(u64 \<Rightarrow> 'p LogSlot \<Rightarrow> 'a) \<Rightarrow> Configuration \<Rightarrow> NvConfig option \<Rightarrow> SharedData \<Rightarrow>
   u64 \<Rightarrow> 'p LogSlot \<Rightarrow> Configuration \<Rightarrow> SharedMemoryWriter option \<Rightarrow> LoggerStatics \<Rightarrow> 'a \<times> LoggerStatics \<times> bool" where
  "NewDataRouterBackend new_allocator default_config created_nvconfig sd slots initial_slot_value config writer statics =
     (let buffer = new_allocator (CheckForMaxCapacity slots) initial_slot_value in
      case writer of
        None \<Rightarrow> (buffer, statics, False)
      | Some w \<Rightarrow> (buffer, snd (Logger_Instance default_config created_nvconfig sd (Some config) None (Some w) statics), True))"

definition reserve_in :: "('a, 'p) CircularAllocator \<Rightarrow> 'a \<Rightarrow> u8 option \<times> 'a" where
  "reserve_in A a = (case AcquireSlotToWrite A a of (Some slot, a) \<Rightarrow> (Some (ucast slot), a) | (None, a) \<Rightarrow> (None, a))"

definition DataRouterBackend_ReserveSlot ::
  "('a, 'p) CircularAllocator \<Rightarrow> ('a, 'k) DataRouterBackend \<Rightarrow> u8 option \<times> ('a, 'k) DataRouterBackend" where
  "DataRouterBackend_ReserveSlot A b = (let (slot, a) = reserve_in A (db_buffer b) in (slot, b\<lparr>db_buffer := a\<rparr>))"

definition DataRouterBackend_GetLogRecord :: "('a, 'p) CircularAllocator \<Rightarrow> u8 \<Rightarrow> ('a, 'k) DataRouterBackend \<Rightarrow> 'p LogSlot" where
  "DataRouterBackend_GetLogRecord A slot b = GetUnderlyingBufferFor A (ucast slot) (db_buffer b)"

text \<open>How an entry is traced, by its level; \<open>k\<close> is the type of log entries among the types of the process.\<close>

definition trace_entry ::
  "Machine \<Rightarrow> ('k \<Rightarrow> LogEntry TypeTraits) \<Rightarrow> (nat \<Rightarrow> TimePoint) \<Rightarrow> 'k \<Rightarrow> LogEntry \<Rightarrow> 'k Process \<Rightarrow> 'k Process" where
  "trace_entry M traits clock k logentry pr =
     (if log_level logentry = kVerbose then TraceVerbose M traits clock k logentry pr
      else if log_level logentry = kDebug then TraceDebug M traits clock k logentry pr
      else if log_level logentry = kInfo then TraceInfo M traits clock k logentry pr
      else if log_level logentry = kWarn then TraceWarn M traits clock k logentry pr
      else if log_level logentry = kError then TraceError M traits clock k logentry pr
      else if log_level logentry = kFatal then TraceFatal M traits clock k logentry pr
      else pr)"

definition DataRouterBackend_FlushSlot ::
  "('a, 'p) CircularAllocator \<Rightarrow> 'p Library \<Rightarrow> Machine \<Rightarrow> ('k \<Rightarrow> LogEntry TypeTraits) \<Rightarrow> (nat \<Rightarrow> nat \<Rightarrow> TimePoint) \<Rightarrow> 'k \<Rightarrow>
   u8 \<Rightarrow> ('a, 'k) DataRouterBackend \<Rightarrow> ('a, 'k) DataRouterBackend" where
  "DataRouterBackend_FlushSlot A L M traits clock k slot b =
     (let log_entry = GetLogEntryOf L (GetUnderlyingBufferFor A (ucast slot) (db_buffer b))
      in \<lparr>db_buffer = ReleaseSlot A (ucast slot) (db_buffer b),
          db_process = trace_entry M traits (clock (db_flushes b)) k log_entry (db_process b), db_flushes = db_flushes b + 1\<rparr>)"

definition data_router_backend ::
  "('a, 'p) CircularAllocator \<Rightarrow> 'p Library \<Rightarrow> Machine \<Rightarrow> ('k \<Rightarrow> LogEntry TypeTraits) \<Rightarrow> (nat \<Rightarrow> nat \<Rightarrow> TimePoint) \<Rightarrow> 'k \<Rightarrow>
   (('a, 'k) DataRouterBackend, 'p) Backend" where
  "data_router_backend A L M traits clock k =
     \<lparr>ReserveSlot = DataRouterBackend_ReserveSlot A, GetLogRecord = DataRouterBackend_GetLogRecord A,
      SetLogRecord = (\<lambda>slot r b. b\<lparr>db_buffer := SetUnderlyingBufferFor A (ucast slot) r (db_buffer b)\<rparr>),
      FlushSlot = DataRouterBackend_FlushSlot A L M traits clock k\<rparr>"

text \<open>
  The text backends: a line is the first four characters of the two identifiers and the
  payload, each ended by a zero byte; a record of two components holds the slots and the
  lines handed to the system logger.
\<close>

record ('a, 'v) TextBackend =
  tb_buffer :: 'a
  tb_app :: bytes
  tb_lines :: "('v \<times> bytes) list"

definition c_text :: "nat \<Rightarrow> bytes \<Rightarrow> bytes" where
  "c_text n bs = takeWhile (\<lambda>c. c \<noteq> 0) (take n bs)"

definition log_line :: "(id4 \<Rightarrow> bytes) \<Rightarrow> bytes \<Rightarrow> LogEntry \<Rightarrow> bytes" where
  "log_line GetStringView app logentry =
     (let app_id_length = min 4 (length app);
          ctx_id_length = min 4 (length (GetStringView (ctx_id logentry)));
          payload_length = min 2147483647 (length (entry_payload logentry))
      in c_text app_id_length app @ [44] @ c_text ctx_id_length (GetStringView (ctx_id logentry)) @ [58, 32] @
         c_text payload_length (entry_payload logentry))"

text \<open>The same limit, as the text backends write it.\<close>

definition CheckTheMaxCapacity :: "u64 \<Rightarrow> u64" where
  "CheckTheMaxCapacity capacity = (if capacity \<le> 255 then capacity else 255)"

lemma CheckTheMaxCapacity_eq: "CheckTheMaxCapacity n = CheckForMaxCapacity n"
  by (simp add: CheckTheMaxCapacity_def CheckForMaxCapacity_def)

datatype SlogLogLevel = Slog_kDebug2 | Slog_kDebug1 | Slog_kInfo | Slog_kWarning | Slog_kError | Slog_kCritical | Slog_kInvalid

definition ConvertMwLogLevelToSlogLevel :: "u8 \<Rightarrow> SlogLogLevel" where
  "ConvertMwLogLevelToSlogLevel level =
     (if level = kVerbose then Slog_kDebug2 else if level = kDebug then Slog_kDebug1 else if level = kInfo then Slog_kInfo
      else if level = kWarn then Slog_kWarning else if level = kError then Slog_kError else if level = kFatal then Slog_kCritical
      else Slog_kInvalid)"

definition ToSloggerLogLevel :: "u8 \<Rightarrow> SlogLogLevel" where
  "ToSloggerLogLevel level = (if level \<le> kVerbose then ConvertMwLogLevelToSlogLevel level else Slog_kInvalid)"

text \<open>
  The constructors: the slots, the name of the application, and the registration with the
  system logger, with one buffer of 16 pages at the most verbose level; a failure to
  register is reported and the backend goes on.
\<close>

record SlogBufferConfig =
  num_buffers :: nat
  buffer_set_name :: bytes
  verbosity_level :: SlogLogLevel
  buffer_name :: bytes
  num_pages :: nat

definition Slog_Init :: "(SlogBufferConfig \<Rightarrow> bool) \<Rightarrow> SlogLogLevel \<Rightarrow> bytes \<Rightarrow> bool" where
  "Slog_Init slog2_register verbosity app =
     (let registered = slog2_register \<lparr>num_buffers = 1, buffer_set_name = app, verbosity_level = verbosity, buffer_name = app, num_pages = 16\<rparr>
      in \<not> registered)"

definition NewSlogBackend ::
  "(u64 \<Rightarrow> 'p LogSlot \<Rightarrow> 'a) \<Rightarrow> (SlogBufferConfig \<Rightarrow> bool) \<Rightarrow> u64 \<Rightarrow> 'p LogSlot \<Rightarrow> bytes \<Rightarrow> ('a, SlogLogLevel) TextBackend \<times> bool" where
  "NewSlogBackend new_allocator slog2_register slots initial_slot_value app =
     (\<lparr>tb_buffer = new_allocator (CheckTheMaxCapacity slots) initial_slot_value, tb_app = app, tb_lines = []\<rparr>,
      Slog_Init slog2_register Slog_kDebug2 app)"

definition SlogBackend_ReserveSlot ::
  "('a, 'p) CircularAllocator \<Rightarrow> ('a, SlogLogLevel) TextBackend \<Rightarrow> u8 option \<times> ('a, SlogLogLevel) TextBackend" where
  "SlogBackend_ReserveSlot A b =
     (case AcquireSlotToWrite A (tb_buffer b) of
        (Some slot, a) \<Rightarrow> (if slot < 255 then Some (ucast slot) else None, b\<lparr>tb_buffer := a\<rparr>)
      | (None, a) \<Rightarrow> (None, b\<lparr>tb_buffer := a\<rparr>))"

definition SlogBackend_FlushSlot ::
  "('a, 'p) CircularAllocator \<Rightarrow> 'p Library \<Rightarrow> (id4 \<Rightarrow> bytes) \<Rightarrow> u8 \<Rightarrow> ('a, SlogLogLevel) TextBackend \<Rightarrow> ('a, SlogLogLevel) TextBackend" where
  "SlogBackend_FlushSlot A L GetStringView slot b =
     (let log_entry = GetLogEntryOf L (GetUnderlyingBufferFor A (ucast slot) (tb_buffer b))
      in b\<lparr>tb_lines := tb_lines b @ [(ToSloggerLogLevel (log_level log_entry), log_line GetStringView (tb_app b) log_entry)],
           tb_buffer := ReleaseSlot A (ucast slot) (tb_buffer b)\<rparr>)"

datatype SyslogPriority = Syslog_kCrit | Syslog_kErr | Syslog_kWarning | Syslog_kInfo | Syslog_kDebug | Syslog_kInvalid

definition ConvertMwLogLevelToSyslogPriority :: "u8 \<Rightarrow> SyslogPriority" where
  "ConvertMwLogLevelToSyslogPriority level =
     (if level = kVerbose then Syslog_kDebug else if level = kDebug then Syslog_kDebug else if level = kInfo then Syslog_kInfo
      else if level = kWarn then Syslog_kWarning else if level = kError then Syslog_kErr else if level = kFatal then Syslog_kCrit
      else Syslog_kInvalid)"

definition ToSyslogPriority :: "u8 \<Rightarrow> SyslogPriority" where
  "ToSyslogPriority level = (if level \<le> kVerbose then ConvertMwLogLevelToSyslogPriority level else Syslog_kInvalid)"

definition NewSyslogBackend :: "(u64 \<Rightarrow> 'p LogSlot \<Rightarrow> 'a) \<Rightarrow> u64 \<Rightarrow> 'p LogSlot \<Rightarrow> bytes \<Rightarrow> ('a, SyslogPriority) TextBackend" where
  "NewSyslogBackend new_allocator slots initial_slot_value app =
     \<lparr>tb_buffer = new_allocator (CheckTheMaxCapacity slots) initial_slot_value, tb_app = app, tb_lines = []\<rparr>"

text \<open>A failed assertion ends the process: no result.\<close>

definition SyslogBackend_ReserveSlot ::
  "('a, 'p) CircularAllocator \<Rightarrow> ('a, SyslogPriority) TextBackend \<Rightarrow> (u8 option \<times> ('a, SyslogPriority) TextBackend) option" where
  "SyslogBackend_ReserveSlot A b =
     (case AcquireSlotToWrite A (tb_buffer b) of
        (Some slot, a) \<Rightarrow> if slot < 255 then Some (Some (ucast slot), b\<lparr>tb_buffer := a\<rparr>) else None
      | (None, a) \<Rightarrow> Some (None, b\<lparr>tb_buffer := a\<rparr>))"

definition SyslogBackend_FlushSlot ::
  "('a, 'p) CircularAllocator \<Rightarrow> 'p Library \<Rightarrow> (id4 \<Rightarrow> bytes) \<Rightarrow> u8 \<Rightarrow> ('a, SyslogPriority) TextBackend \<Rightarrow> ('a, SyslogPriority) TextBackend" where
  "SyslogBackend_FlushSlot A L GetStringView slot b =
     (let log_entry = GetLogEntryOf L (GetUnderlyingBufferFor A (ucast slot) (tb_buffer b));
          priority = ToSyslogPriority (log_level log_entry);
          b = (if priority \<noteq> Syslog_kInvalid then b\<lparr>tb_lines := tb_lines b @ [(priority, log_line GetStringView (tb_app b) log_entry)]\<rparr> else b)
      in b\<lparr>tb_buffer := ReleaseSlot A (ucast slot) (tb_buffer b)\<rparr>)"

definition TextBackend_GetLogRecord :: "('a, 'p) CircularAllocator \<Rightarrow> u8 \<Rightarrow> ('a, 'v) TextBackend \<Rightarrow> 'p LogSlot" where
  "TextBackend_GetLogRecord A slot b = GetUnderlyingBufferFor A (ucast slot) (tb_buffer b)"

definition slog_backend :: "('a, 'p) CircularAllocator \<Rightarrow> 'p Library \<Rightarrow> (id4 \<Rightarrow> bytes) \<Rightarrow> (('a, SlogLogLevel) TextBackend, 'p) Backend" where
  "slog_backend A L GetStringView =
     \<lparr>ReserveSlot = SlogBackend_ReserveSlot A, GetLogRecord = TextBackend_GetLogRecord A,
      SetLogRecord = (\<lambda>slot r b. b\<lparr>tb_buffer := SetUnderlyingBufferFor A (ucast slot) r (tb_buffer b)\<rparr>),
      FlushSlot = SlogBackend_FlushSlot A L GetStringView\<rparr>"

definition syslog_backend :: "('a, 'p) CircularAllocator \<Rightarrow> 'p Library \<Rightarrow> (id4 \<Rightarrow> bytes) \<Rightarrow> (('a, SyslogPriority) TextBackend, 'p) Backend" where
  "syslog_backend A L GetStringView =
     \<lparr>ReserveSlot = (\<lambda>b. case SyslogBackend_ReserveSlot A b of Some result \<Rightarrow> result | None \<Rightarrow> (None, b)),
      GetLogRecord = TextBackend_GetLogRecord A,
      SetLogRecord = (\<lambda>slot r b. b\<lparr>tb_buffer := SetUnderlyingBufferFor A (ucast slot) r (tb_buffer b)\<rparr>),
      FlushSlot = SyslogBackend_FlushSlot A L GetStringView\<rparr>"

end
