(* ===== verification/RecorderProperties.thy ===== *)
theory RecorderProperties
  imports Recorder
begin

text \<open>
  What the recorders promise: between the start and the end of a record, the slot belongs
  to one client and collects exactly its arguments; the end hands the finished message to
  the backend and frees the slot. The contract of a backend is a locale, with the backends
  of the program as its instances; the recorders are proved once, inside it.
\<close>

section \<open>The library\<close>

definition library_ok :: "'p Library \<Rightarrow> ('p \<Rightarrow> nat) \<Rightarrow> nat \<Rightarrow> bool" where
  "library_ok L remaining cap \<longleftrightarrow>
     platform_ok (lib_platform L) (lib_bytes L) remaining \<and>
     (\<forall>p. lib_bytes L (lib_clear L p) = [] \<and> remaining (lib_clear L p) = cap) \<and>
     (\<forall>p. lib_bytes L (lib_Reset L p) = [] \<and> remaining (lib_Reset L p) = cap) \<and>
     (\<forall>f n x. n < 255 \<longrightarrow> lib_TryAddArgument L f (n, x) = (let (result, x') = f x in (if result = kAdded then n + 1 else n, x'))) \<and>
     kDecimal L \<le> 3 \<and> kHex L \<le> 3 \<and> kBinary L \<le> 3"

fun arg_in_range :: "LogArg \<Rightarrow> bool" where
  "arg_in_range (AText d) = (length d < 2 ^ 63)"
| "arg_in_range (ARaw d) = (length d < 2 ^ 63)"
| "arg_in_range (ASlog2 c d) = (length d < 2 ^ 63)"
| "arg_in_range _ = True"

lemma format_value_ok: "library_ok L remaining cap \<Longrightarrow> arg_in_range a \<Longrightarrow> value_repr_ok (format_value L a)"
  by (cases a) (simp_all add: library_ok_def)

lemma kept_args_snoc:
  "kept_args room (vs @ [v]) = kept_args room vs @
     (let left = room - length (concat (map arg_bytes (kept_args room vs))) in
      if left < arg_needs v left then [] else [whole_arg left v])"
  by (induction vs arbitrary: room) (simp_all add: Let_def diff_diff_left)

lemma kept_args_count: "length (kept_args room vs) \<le> length vs"
  by (induction vs arbitrary: room) (simp_all add: le_SucI)

section \<open>Messages\<close>

abbreviation payload_args :: "'p Library \<Rightarrow> nat \<Rightarrow> LogArg list \<Rightarrow> DltArg list" where
  "payload_args L cap args \<equiv> kept_args cap (map (format_value L) args)"

definition message :: "'p Library \<Rightarrow> nat \<Rightarrow> bytes \<times> u8 \<times> LogArg list \<Rightarrow> LogEntry" where
  "message L cap rec = (case rec of (ctx, level, args) \<Rightarrow>
     \<lparr>app_id = lib_LoggingIdentifier L (lib_AppId L), ctx_id = lib_LoggingIdentifier L ctx,
      entry_payload = concat (map arg_bytes (payload_args L cap args)),
      num_of_args = word_of_nat (length (payload_args L cap args)), log_level = level\<rparr>)"

definition slot_holds :: "'p Library \<Rightarrow> ('p \<Rightarrow> nat) \<Rightarrow> nat \<Rightarrow> bytes \<times> u8 \<times> LogArg list \<Rightarrow> 'p LogSlot \<Rightarrow> bool" where
  "slot_holds L remaining cap rec s \<longleftrightarrow> GetLogEntryOf L s = message L cap rec \<and>
     remaining (ls_payload s) = cap - length (entry_payload (message L cap rec))"

text \<open>One more argument, as both recorders add it.\<close>

lemma add_argument:
  assumes L: "library_ok L remaining cap" and s: "slot_holds L remaining cap (ctx, level, args) s"
    and a: "arg_in_range a" and n: "length args < 255"
    and add: "lib_TryAddArgument L (\<lambda>(payload, c). let (result, payload) = Log (lib_platform L) payload (format_value L a) in (result, payload, g result c))
      (ls_args s, ls_payload s, c) = (n', p', c')"
  shows "slot_holds L remaining cap (ctx, level, args @ [a]) (s\<lparr>ls_args := n', ls_payload := p'\<rparr>)"
    "c' = g (fst (Log (lib_platform L) (ls_payload s) (format_value L a))) c"
proof -
  let ?P = "lib_platform L" and ?v = "format_value L a" and ?p = "ls_payload s"
  let ?kept = "payload_args L cap args" and ?room = "remaining (ls_payload s)"
  have entry_s: "lib_bytes L ?p = concat (map arg_bytes ?kept)" "ls_args s = word_of_nat (length ?kept)"
    "?room = cap - length (concat (map arg_bytes ?kept))"
    "ls_app s = lib_LoggingIdentifier L (lib_AppId L)" "ls_ctx s = lib_LoggingIdentifier L ctx" "ls_level s = level"
    using s by (simp_all add: slot_holds_def GetLogEntryOf_def message_def)
  have count: "length ?kept < 255" using kept_args_count [of cap "map (format_value L) args"] n by simp
  then have "ls_args s < 255" unfolding entry_s(2) by (simp add: word_less_nat_alt unat_word_of_nat)
  then have call: "lib_TryAddArgument L f (ls_args s, x) = (let (result, x') = f x in (if result = kAdded then ls_args s + 1 else ls_args s, x'))" for f x
    using L by (cases x) (simp add: library_ok_def)
  have P: "platform_ok ?P (lib_bytes L) remaining" using L by (simp add: library_ok_def)
  note log = Log_ok [OF P format_value_ok [OF L a], of ?p]
  obtain res p1 where lg: "Log ?P ?p ?v = (res, p1)" by (cases "Log ?P ?p ?v")
  have n': "n' = (if res = kAdded then ls_args s + 1 else ls_args s)" "p' = p1" "c' = g res c"
    using add unfolding call by (simp_all add: lg)
  then show "c' = g (fst (Log ?P ?p ?v)) c" using lg by simp
  show "slot_holds L remaining cap (ctx, level, args @ [a]) (s\<lparr>ls_args := n', ls_payload := p'\<rparr>)"
  proof (cases "?room < arg_needs ?v ?room")
    case True
    then have "res = kNotAdded" "p1 = ?p" using log(2) lg by auto
    moreover have "payload_args L cap (args @ [a]) = ?kept" using True by (simp add: kept_args_snoc entry_s(3) [symmetric])
    ultimately show ?thesis using s n' by (simp add: slot_holds_def GetLogEntryOf_def message_def)
  next
    case False
    then have fits: "arg_needs ?v ?room \<le> ?room" by simp
    have kept: "payload_args L cap (args @ [a]) = ?kept @ [whole_arg ?room ?v]"
      using False by (simp add: kept_args_snoc entry_s(3) [symmetric])
    from log(1) [OF fits] lg have "res = kAdded" "lib_bytes L p1 = lib_bytes L ?p @ arg_bytes (whole_arg ?room ?v)"
      "remaining p1 = ?room - length (arg_bytes (whole_arg ?room ?v))"
      by (auto simp: logged_def)
    then show ?thesis
      using n' entry_s kept by (simp add: slot_holds_def GetLogEntryOf_def message_def add.commute diff_diff_left)
  qed
qed

section \<open>The contract of a backend\<close>

text \<open>
  A backend keeps the slots it has given out apart; finishing a slot hands its entry to the
  world behind the backend, as \<open>emit\<close> says, and gives the slot up.
\<close>

locale slot_backend =
  fixes B :: "('b, 'p) Backend" and L :: "'p Library" and good :: "'b \<Rightarrow> bool" and held :: "'b \<Rightarrow> u8 set"
    and world :: "'b \<Rightarrow> 'w" and emit :: "LogEntry \<Rightarrow> 'w \<Rightarrow> 'w"
  assumes reserve: "good b \<Longrightarrow> ReserveSlot B b = (r, b') \<Longrightarrow>
      good b' \<and> world b' = world b \<and> held b' = held b \<union> set_option r \<and> set_option r \<inter> held b = {} \<and>
      (\<forall>i \<in> held b. GetLogRecord B i b' = GetLogRecord B i b)"
    and set_record: "good b \<Longrightarrow> i \<in> held b \<Longrightarrow>
      good (SetLogRecord B i s b) \<and> world (SetLogRecord B i s b) = world b \<and> held (SetLogRecord B i s b) = held b \<and>
      (\<forall>j \<in> held b. GetLogRecord B j (SetLogRecord B i s b) = (if j = i then s else GetLogRecord B j b))"
    and flush: "good b \<Longrightarrow> i \<in> held b \<Longrightarrow>
      good (FlushSlot B i b) \<and> world (FlushSlot B i b) = emit (GetLogEntryOf L (GetLogRecord B i b)) (world b) \<and>
      held (FlushSlot B i b) = held b - {i} \<and> (\<forall>j \<in> held b - {i}. GetLogRecord B j (FlushSlot B i b) = GetLogRecord B j b)"

text \<open>The specification: the open records with their arguments, and what has been written.\<close>

record 'w Promise =
  open_records :: "u8 \<Rightarrow> (bytes \<times> u8 \<times> LogArg list) option"
  written :: 'w

lemma Promise_eta: "\<lparr>open_records = open_records m, written = w\<rparr> = m\<lparr>written := w\<rparr>"
  by (cases m) simp

datatype Call = CStart bytes u8 | CLog u8 LogArg | CStop u8

fun promise_step :: "'p Library \<Rightarrow> nat \<Rightarrow> (LogEntry \<Rightarrow> 'w \<Rightarrow> 'w) \<Rightarrow> Call \<Rightarrow> u8 option \<Rightarrow> 'w Promise \<Rightarrow> 'w Promise" where
  "promise_step L cap emit (CStart ctx level) r m =
     (case r of None \<Rightarrow> m | Some i \<Rightarrow> m\<lparr>open_records := (open_records m)(i \<mapsto> (ctx, level, []))\<rparr>)"
| "promise_step L cap emit (CLog i a) r m =
     (case open_records m i of None \<Rightarrow> m
      | Some (ctx, level, args) \<Rightarrow> m\<lparr>open_records := (open_records m)(i \<mapsto> (ctx, level, args @ [a]))\<rparr>)"
| "promise_step L cap emit (CStop i) r m =
     (case open_records m i of None \<Rightarrow> m
      | Some rec \<Rightarrow> \<lparr>open_records = (open_records m)(i := None), written = emit (message L cap rec) (written m)\<rparr>)"

text \<open>Clients use the slots they have been given, for at most 255 arguments.\<close>

fun call_ok :: "'w Promise \<Rightarrow> Call \<Rightarrow> bool" where
  "call_ok m (CStart ctx level) = True"
| "call_ok m (CLog i a) = (arg_in_range a \<and> (case open_records m i of None \<Rightarrow> False | Some (ctx, level, args) \<Rightarrow> length args < 255))"
| "call_ok m (CStop i) = (open_records m i \<noteq> None)"

fun FileRecorder_call :: "'p Library \<Rightarrow> ('b, 'p) Backend \<Rightarrow> Call \<Rightarrow> 'b \<Rightarrow> u8 option \<times> 'b" where
  "FileRecorder_call L B (CStart ctx level) b = FileRecorder_StartRecord L B ctx level b"
| "FileRecorder_call L B (CLog i a) b = (None, FileRecorder_Log L B i a b)"
| "FileRecorder_call L B (CStop i) b = (None, FileRecorder_StopRecord B i b)"

text \<open>A sequence of calls with the slots that they returned, and the same under the specification.\<close>

fun run_calls :: "(Call \<Rightarrow> 's \<Rightarrow> 'r \<times> 's) \<Rightarrow> Call list \<Rightarrow> 's \<Rightarrow> (Call \<times> 'r) list \<times> 's" where
  "run_calls f [] s = ([], s)"
| "run_calls f (c # cs) s = (let (r, s) = f c s; (tr, s) = run_calls f cs s in ((c, r) # tr, s))"

fun promise_run :: "(Call \<Rightarrow> 'r \<Rightarrow> 'w Promise \<Rightarrow> 'w Promise) \<Rightarrow> (Call \<times> 'r) list \<Rightarrow> 'w Promise \<Rightarrow> 'w Promise" where
  "promise_run step [] m = m"
| "promise_run step ((c, r) # tr) m = promise_run step tr (step c r m)"

fun run_ok :: "(Call \<Rightarrow> 'r \<Rightarrow> 'w Promise \<Rightarrow> 'w Promise) \<Rightarrow> (Call \<times> 'r) list \<Rightarrow> 'w Promise \<Rightarrow> bool" where
  "run_ok step [] m = True"
| "run_ok step ((c, r) # tr) m = (call_ok m c \<and> run_ok step tr (step c r m))"

text \<open>
  The recorder of the data router: a call that starts a record may first report the
  statistics, which is a message of its own.
\<close>

definition report_due :: "Moments \<Rightarrow> int \<Rightarrow> 'b DataRouterRecorder \<Rightarrow> bool" where
  "report_due T now s \<longleftrightarrow> IsReportOverdue now (last_report_time_point_nanoseconds (dr_stats s)) (report_interval (dr_stats s)) \<and>
     \<not> currently_reporting (dr_stats s) \<and> \<not> spurious_failure T (moment s)"

definition report_of :: "'p Library \<Rightarrow> ('b, 'p) Backend \<Rightarrow> Moments \<Rightarrow> 'b DataRouterRecorder \<Rightarrow> (bytes \<times> u8 \<times> LogArg list) option" where
  "report_of L B T s =
     (if report_due T (steady_now T (moment s)) (s\<lparr>moment := moment s + 1\<rparr>) \<and>
         lib_IsLogLevelEnabled L (report_level (dr_stats s)) (text_bytes ''STAT'') \<and> fst (ReserveSlot B (dr_backend s)) \<noteq> None
      then Some (text_bytes ''STAT'', report_level (dr_stats s), report_args (dr_stats s)) else None)"

fun DataRouterRecorder_call ::
  "'p Library \<Rightarrow> ('b, 'p) Backend \<Rightarrow> Moments \<Rightarrow> Call \<Rightarrow> 'b DataRouterRecorder \<Rightarrow>
   (u8 option \<times> (bytes \<times> u8 \<times> LogArg list) option) \<times> 'b DataRouterRecorder" where
  "DataRouterRecorder_call L B T (CStart ctx level) s =
     (let (r, s') = DataRouterRecorder_StartRecord L B T ctx level s in ((r, report_of L B T s), s'))"
| "DataRouterRecorder_call L B T (CLog i a) s = ((None, None), DataRouterRecorder_Log L B i a s)"
| "DataRouterRecorder_call L B T (CStop i) s = ((None, None), DataRouterRecorder_StopRecord B i s)"

definition add_report :: "'p Library \<Rightarrow> nat \<Rightarrow> (LogEntry \<Rightarrow> 'w \<Rightarrow> 'w) \<Rightarrow> (bytes \<times> u8 \<times> LogArg list) option \<Rightarrow> 'w Promise \<Rightarrow> 'w Promise" where
  "add_report L cap emit rep m = (case rep of None \<Rightarrow> m | Some rec \<Rightarrow> m\<lparr>written := emit (message L cap rec) (written m)\<rparr>)"

definition promise_step_report ::
  "'p Library \<Rightarrow> nat \<Rightarrow> (LogEntry \<Rightarrow> 'w \<Rightarrow> 'w) \<Rightarrow> Call \<Rightarrow> u8 option \<times> (bytes \<times> u8 \<times> LogArg list) option \<Rightarrow> 'w Promise \<Rightarrow> 'w Promise" where
  "promise_step_report L cap emit c r m = promise_step L cap emit c (fst r) (add_report L cap emit (snd r) m)"

lemma promise_step_report_None [simp]: "promise_step_report L cap emit c (r, None) m = promise_step L cap emit c r m"
  by (simp add: promise_step_report_def add_report_def)

section \<open>The statistics do not recurse\<close>

text \<open>A report, with the record that it opens written out.\<close>

definition report_once :: "'p Library \<Rightarrow> ('b, 'p) Backend \<Rightarrow> int \<Rightarrow> 'b DataRouterRecorder \<Rightarrow> 'b DataRouterRecorder" where
  "report_once L B now s =
     (let r = dr_stats s;
          (slot, s) = open_record L B (text_bytes ''STAT'') (report_level r)
            (upd_stats (\<lambda>r. r\<lparr>currently_reporting := True\<rparr>) s\<lparr>moment := moment s + 1\<rparr>);
          s = (case slot of None \<Rightarrow> s | Some i \<Rightarrow> report_body L B r i s)
      in upd_stats (\<lambda>r. r\<lparr>last_report_time_point_nanoseconds := now, currently_reporting := False\<rparr>) s)"

lemma Update_reporting: "currently_reporting (dr_stats s) \<Longrightarrow> Update L B T now s = s"
  by (simp add: Update.simps)

lemma StartRecord_reporting:
  "currently_reporting (dr_stats s) \<Longrightarrow>
   DataRouterRecorder_StartRecord L B T ctx level s = open_record L B ctx level (s\<lparr>moment := moment s + 1\<rparr>)"
  by (simp add: DataRouterRecorder_StartRecord.simps Update_reporting)

lemma Update_eq: "Update L B T now s = (if report_due T now s then report_once L B now s else s)"
proof (cases "report_due T now s")
  case True
  have "currently_reporting (dr_stats (upd_stats (\<lambda>r. r\<lparr>currently_reporting := True\<rparr>) s))" by (simp add: upd_stats_def)
  note nested = StartRecord_reporting [OF this, of L B T "text_bytes ''STAT''" "report_level (dr_stats s)"]
  show ?thesis
    using True by (subst Update.simps) (simp add: report_due_def report_once_def nested Let_def, simp add: upd_stats_def)
next
  case False
  then show ?thesis by (subst Update.simps) (auto simp: report_due_def)
qed

lemma StartRecord_eq:
  "DataRouterRecorder_StartRecord L B T ctx level s =
     (let now = steady_now T (moment s); s = s\<lparr>moment := moment s + 1\<rparr>
      in open_record L B ctx level (if report_due T now s then report_once L B now s else s))"
  by (simp add: DataRouterRecorder_StartRecord.simps Update_eq Let_def)

lemma stats_frame:
  "currently_reporting (dr_stats (DataRouterRecorder_Log L B i a s)) = currently_reporting (dr_stats s)"
  "currently_reporting (dr_stats (DataRouterRecorder_StopRecord B i s)) = currently_reporting (dr_stats s)"
  "currently_reporting (dr_stats (snd (open_record L B ctx level s))) = currently_reporting (dr_stats s)"
  by (simp_all add: DataRouterRecorder_Log_def DataRouterRecorder_StopRecord_def open_record_def upd_stats_def IncrementNoSlotAvailable_def Let_def
      split: prod.split option.split)

lemma report_once_frame: "\<not> currently_reporting (dr_stats (report_once L B now s))"
  "last_report_time_point_nanoseconds (dr_stats (report_once L B now s)) = now"
  by (simp_all add: report_once_def upd_stats_def Let_def split: prod.split)

context slot_backend
begin

definition sim :: "('p \<Rightarrow> nat) \<Rightarrow> nat \<Rightarrow> 'b \<Rightarrow> 'w Promise \<Rightarrow> bool" where
  "sim remaining cap b m \<longleftrightarrow> good b \<and> held b = dom (open_records m) \<and> world b = written m \<and>
     (\<forall>i rec. open_records m i = Some rec \<longrightarrow> slot_holds L remaining cap rec (GetLogRecord B i b))"

lemma sim_reserve_none:
  assumes "sim remaining cap b m" "ReserveSlot B b = (None, b')"
  shows "sim remaining cap b' m"
  using assms reserve [of b None b'] by (auto simp: sim_def domIff)

lemma sim_reserve_some:
  assumes sim: "sim remaining cap b m" and r: "ReserveSlot B b = (Some i, b')" and s: "slot_holds L remaining cap rec s"
  shows "sim remaining cap (SetLogRecord B i s b') (m\<lparr>open_records := (open_records m)(i \<mapsto> rec)\<rparr>)" "i \<notin> dom (open_records m)"
proof -
  have "good b" "held b = dom (open_records m)" using sim by (simp_all add: sim_def)
  then have b': "good b'" "world b' = world b" "held b' = insert i (dom (open_records m))" "i \<notin> dom (open_records m)"
    "\<forall>j \<in> dom (open_records m). GetLogRecord B j b' = GetLogRecord B j b"
    using reserve [OF _ r] by auto
  then show "i \<notin> dom (open_records m)" by simp
  have "good (SetLogRecord B i s b') \<and> world (SetLogRecord B i s b') = world b' \<and> held (SetLogRecord B i s b') = held b' \<and>
      (\<forall>j \<in> held b'. GetLogRecord B j (SetLogRecord B i s b') = (if j = i then s else GetLogRecord B j b'))"
    using b' by (intro set_record) simp_all
  with b' sim s show "sim remaining cap (SetLogRecord B i s b') (m\<lparr>open_records := (open_records m)(i \<mapsto> rec)\<rparr>)"
    by (auto simp: sim_def domIff)
qed

lemma sim_set:
  assumes sim: "sim remaining cap b m" and i: "open_records m i \<noteq> None" and s: "slot_holds L remaining cap rec s"
  shows "sim remaining cap (SetLogRecord B i s b) (m\<lparr>open_records := (open_records m)(i \<mapsto> rec)\<rparr>)"
proof -
  have "i \<in> held b" "good b" using sim i by (auto simp: sim_def)
  from set_record [OF this(2,1), of s] sim i s show ?thesis by (auto simp: sim_def domIff)
qed

lemma sim_stop:
  assumes sim: "sim remaining cap b m" and i: "open_records m i = Some rec"
  shows "sim remaining cap (FlushSlot B i b) (promise_step L cap emit (CStop i) r m)"
proof -
  have "slot_holds L remaining cap rec (GetLogRecord B i b)" using sim i unfolding sim_def by blast
  then have b: "i \<in> held b" "good b" "GetLogEntryOf L (GetLogRecord B i b) = message L cap rec"
    using sim i by (auto simp: sim_def slot_holds_def)
  from flush [OF b(2,1)] sim i b(3) show ?thesis by (auto simp: sim_def domIff split: if_splits)
qed

text \<open>A step of a recorder that follows the specification can be repeated.\<close>

lemma run_sim:
  assumes "\<And>c s r s' m. sim remaining cap (be s) m \<Longrightarrow> call_ok m c \<Longrightarrow> f c s = (r, s') \<Longrightarrow> sim remaining cap (be s') (step c r m)"
    and "sim remaining cap (be s) m" "run_calls f cs s = (tr, s')" "run_ok step tr m"
  shows "sim remaining cap (be s') (promise_run step tr m)"
  using assms(2-)
proof (induction cs arbitrary: s m tr)
  case (Cons c cs)
  obtain r s1 where f: "f c s = (r, s1)" by (cases "f c s")
  obtain tr1 s2 where rest: "run_calls f cs s1 = (tr1, s2)" by (cases "run_calls f cs s1")
  have tr: "tr = (c, r) # tr1" "s' = s2" using Cons.prems(2) f rest by simp_all
  with Cons.prems(3) have "call_ok m c" "run_ok step tr1 (step c r m)" by simp_all
  with assms(1) [OF Cons.prems(1) _ f] Cons.IH [of s1 "step c r m" tr1] rest tr show ?case by simp
qed simp

lemma file_start:
  assumes L: "library_ok L remaining cap" and sim: "sim remaining cap b m" and f: "FileRecorder_StartRecord L B ctx level b = (r, b')"
  shows "sim remaining cap b' (promise_step L cap emit (CStart ctx level) r m)" "set_option r \<inter> dom (open_records m) = {}"
proof -
  obtain r1 b1 where res: "ReserveSlot B b = (r1, b1)" by (cases "ReserveSlot B b")
  have fresh: "slot_holds L remaining cap (ctx, level, [])
      \<lparr>ls_app = lib_LoggingIdentifier L (lib_AppId L), ls_ctx = lib_LoggingIdentifier L ctx, ls_args = 0, ls_level = level,
       ls_payload = lib_Reset L p\<rparr>" for p
    using L by (simp add: slot_holds_def GetLogEntryOf_def message_def library_ok_def)
  have "sim remaining cap b' (promise_step L cap emit (CStart ctx level) r m) \<and> set_option r \<inter> dom (open_records m) = {}"
  proof (cases "lib_IsLogLevelEnabled L level ctx")
    case False
    then show ?thesis using f sim by (simp add: FileRecorder_StartRecord_def)
  next
    case True
    show ?thesis
    proof (cases r1)
      case None
      then show ?thesis using f sim True sim_reserve_none [OF sim] res by (simp add: FileRecorder_StartRecord_def)
    next
      case (Some i)
      then show ?thesis using f True res sim_reserve_some [OF sim _ fresh] by (auto simp: FileRecorder_StartRecord_def)
    qed
  qed
  then show "sim remaining cap b' (promise_step L cap emit (CStart ctx level) r m)" "set_option r \<inter> dom (open_records m) = {}" by simp_all
qed

lemma file_log:
  assumes L: "library_ok L remaining cap" and sim: "sim remaining cap b m" and ok: "call_ok m (CLog i a)"
  shows "sim remaining cap (FileRecorder_Log L B i a b) (promise_step L cap emit (CLog i a) r m)"
proof -
  obtain ctx level args where i: "open_records m i = Some (ctx, level, args)" "length args < 255" "arg_in_range a"
    using ok by (auto split: option.splits)
  have s: "slot_holds L remaining cap (ctx, level, args) (GetLogRecord B i b)" using sim i(1) unfolding sim_def by blast
  let ?s = "GetLogRecord B i b"
  obtain n' p' c' where add: "lib_TryAddArgument L (\<lambda>(payload, c). let (result, payload) = Log (lib_platform L) payload (format_value L a) in (result, payload, c))
      (ls_args ?s, ls_payload ?s, 0) = (n', p', c')" by (rule prod_cases3)
  from add_argument(1) [OF L s i(3,2), where g = "\<lambda>_ c. c", OF add] sim_set [OF sim, of i] i(1) add
  show ?thesis by (simp add: FileRecorder_Log_def Let_def)
qed

lemma file_call:
  assumes "library_ok L remaining cap" "sim remaining cap b m" "call_ok m c" "FileRecorder_call L B c b = (r, b')"
  shows "sim remaining cap b' (promise_step L cap emit c r m)"
proof (cases c)
  case (CStart ctx level)
  then show ?thesis using assms file_start(1) by simp
next
  case (CLog i a)
  then show ?thesis using assms file_log [of remaining cap b m i a r] by auto
next
  case (CStop i)
  then show ?thesis using assms sim_stop [of remaining cap b m i] by (auto simp: FileRecorder_StopRecord_def)
qed

lemma router_log:
  assumes L: "library_ok L remaining cap" and sim: "sim remaining cap (dr_backend s) m" and ok: "call_ok m (CLog i a)"
  shows "sim remaining cap (dr_backend (DataRouterRecorder_Log L B i a s)) (promise_step L cap emit (CLog i a) r m)"
proof -
  obtain ctx level args where i: "open_records m i = Some (ctx, level, args)" "length args < 255" "arg_in_range a"
    using ok by (auto split: option.splits)
  have sl: "slot_holds L remaining cap (ctx, level, args) (GetLogRecord B i (dr_backend s))" using sim i(1) unfolding sim_def by blast
  let ?s = "GetLogRecord B i (dr_backend s)" and ?c = "message_too_long_counter (dr_stats s)"
  obtain n' p' c' where add: "lib_TryAddArgument L (\<lambda>(payload, c). let (result, payload) = Log (lib_platform L) payload (format_value L a)
      in (result, payload, if result = kNotAdded then c + 1 else c)) (ls_args ?s, ls_payload ?s, ?c) = (n', p', c')" by (rule prod_cases3)
  from add_argument(1) [OF L sl i(3,2), where g = "\<lambda>result c. if result = kNotAdded then c + 1 else c", OF add] sim_set [OF sim, of i] i(1) add
  show ?thesis by (simp add: DataRouterRecorder_Log_def upd_stats_def Let_def)
qed

lemma router_open:
  assumes L: "library_ok L remaining cap" and sim: "sim remaining cap (dr_backend s) m" and f: "open_record L B ctx level s = (r, s')"
  shows "sim remaining cap (dr_backend s') (promise_step L cap emit (CStart ctx level) r m)" "set_option r \<inter> dom (open_records m) = {}"
proof -
  obtain r1 b1 where res: "ReserveSlot B (dr_backend s) = (r1, b1)" by (cases "ReserveSlot B (dr_backend s)")
  have fresh: "slot_holds L remaining cap (ctx, level, []) (SetLogLevel level (SetContext L ctx (SetApplicationId L (CleanLogRecord L p))))" for p
    using L by (simp add: slot_holds_def GetLogEntryOf_def message_def library_ok_def SetLogLevel_def SetContext_def SetApplicationId_def CleanLogRecord_def)
  have "sim remaining cap (dr_backend s') (promise_step L cap emit (CStart ctx level) r m) \<and> set_option r \<inter> dom (open_records m) = {}"
  proof (cases "lib_IsLogLevelEnabled L level ctx")
    case False
    then show ?thesis using f sim by (simp add: open_record_def)
  next
    case True
    show ?thesis
    proof (cases r1)
      case None
      then show ?thesis using f sim True sim_reserve_none [OF sim] res by (auto simp: open_record_def upd_stats_def)
    next
      case (Some i)
      then show ?thesis using f True res sim_reserve_some [OF sim _ fresh] by (auto simp: open_record_def)
    qed
  qed
  then show "sim remaining cap (dr_backend s') (promise_step L cap emit (CStart ctx level) r m)" "set_option r \<inter> dom (open_records m) = {}" by simp_all
qed

lemma router_logs:
  assumes L: "library_ok L remaining cap"
  shows "sim remaining cap (dr_backend s) m \<Longrightarrow> open_records m i = Some (ctx, level, args) \<Longrightarrow> list_all arg_in_range as \<Longrightarrow>
    length args + length as \<le> 255 \<Longrightarrow>
    sim remaining cap (dr_backend (fold (DataRouterRecorder_Log L B i) as s)) (m\<lparr>open_records := (open_records m)(i \<mapsto> (ctx, level, args @ as))\<rparr>)"
proof (induction as arbitrary: s m args)
  case Nil
  then show ?case by (simp add: fun_upd_idem)
next
  case (Cons a as)
  have "sim remaining cap (dr_backend (DataRouterRecorder_Log L B i a s)) (promise_step L cap emit (CLog i a) None m)"
    using Cons.prems by (intro router_log [OF L]) simp_all
  then have "sim remaining cap (dr_backend (DataRouterRecorder_Log L B i a s)) (m\<lparr>open_records := (open_records m)(i \<mapsto> (ctx, level, args @ [a]))\<rparr>)"
    using Cons.prems(2) by simp
  from Cons.IH [OF this, of "args @ [a]"] Cons.prems show ?case by (simp cong: if_cong)
qed

lemma router_report:
  assumes L: "library_ok L remaining cap" and sim: "sim remaining cap (dr_backend s) m"
  shows "sim remaining cap (dr_backend (report_once L B now s))
    (add_report L cap emit (if lib_IsLogLevelEnabled L (report_level (dr_stats s)) (text_bytes ''STAT'') \<and> fst (ReserveSlot B (dr_backend s)) \<noteq> None
      then Some (text_bytes ''STAT'', report_level (dr_stats s), report_args (dr_stats s)) else None) m)"
proof -
  let ?r = "dr_stats s" and ?stat = "text_bytes ''STAT''"
  let ?s = "upd_stats (\<lambda>r. r\<lparr>currently_reporting := True\<rparr>) s\<lparr>moment := moment s + 1\<rparr>"
  have sim0: "sim remaining cap (dr_backend ?s) m" using sim by (simp add: upd_stats_def)
  obtain slot s1 where op: "open_record L B ?stat (report_level ?r) ?s = (slot, s1)" by fastforce
  note op_sim = router_open [OF L sim0 op]
  have res: "slot = None \<longleftrightarrow> \<not> (lib_IsLogLevelEnabled L (report_level ?r) ?stat \<and> fst (ReserveSlot B (dr_backend s)) \<noteq> None)"
    using op by (auto simp: open_record_def upd_stats_def split: if_splits prod.splits option.splits)
  show ?thesis
  proof (cases slot)
    case None
    then show ?thesis using op_sim(1) res op by (auto simp: report_once_def add_report_def upd_stats_def Let_def)
  next
    case (Some i)
    let ?m = "m\<lparr>open_records := (open_records m)(i \<mapsto> (?stat, report_level ?r, []))\<rparr>"
    have m: "sim remaining cap (dr_backend s1) ?m" "i \<notin> dom (open_records m)" using op_sim Some by simp_all
    have args: "list_all arg_in_range (report_args ?r)" "length (report_args ?r) = 8"
      by (simp_all add: report_args_def text_bytes_def)
    have "sim remaining cap (dr_backend (fold (DataRouterRecorder_Log L B i) (report_args ?r) s1))
        (?m\<lparr>open_records := (open_records ?m)(i \<mapsto> (?stat, report_level ?r, [] @ report_args ?r))\<rparr>)"
      using args by (intro router_logs [OF L m(1)]) simp_all
    from sim_stop [OF this, of i "(?stat, report_level ?r, report_args ?r)"]
    have "sim remaining cap (dr_backend (report_body L B ?r i s1))
        (m\<lparr>written := emit (message L cap (?stat, report_level ?r, report_args ?r)) (written m)\<rparr>)"
      using m(2) by (simp add: report_body_def DataRouterRecorder_StopRecord_def fun_upd_idem domIff Promise_eta)
    then show ?thesis using Some res op by (simp add: report_once_def add_report_def upd_stats_def Let_def)
  qed
qed

lemma router_call:
  assumes L: "library_ok L remaining cap" and sim: "sim remaining cap (dr_backend s) m" and ok: "call_ok m c"
    and f: "DataRouterRecorder_call L B T c s = (r, s')"
  shows "sim remaining cap (dr_backend s') (promise_step_report L cap emit c r m)"
proof (cases c)
  case (CStart ctx level)
  let ?now = "steady_now T (moment s)" and ?s = "s\<lparr>moment := moment s + 1\<rparr>"
  have r: "open_record L B ctx level (if report_due T ?now ?s then report_once L B ?now ?s else ?s) = (fst r, s')" "snd r = report_of L B T s"
    using f CStart by (auto simp: StartRecord_eq Let_def split: prod.splits)
  have "sim remaining cap (dr_backend (if report_due T ?now ?s then report_once L B ?now ?s else ?s)) (add_report L cap emit (snd r) m)"
    using sim router_report [OF L, of ?s m ?now] unfolding r(2) by (auto simp: report_of_def add_report_def)
  from router_open(1) [OF L this r(1)] show ?thesis using CStart by (simp add: promise_step_report_def)
next
  case (CLog i a)
  then show ?thesis using f ok router_log [OF L sim, of i a None] by auto
next
  case (CStop i)
  then show ?thesis using f ok sim_stop [OF sim, of i] by (auto simp: DataRouterRecorder_StopRecord_def)
qed

lemma router_run:
  assumes L: "library_ok L remaining cap" and sim: "sim remaining cap (dr_backend s) m"
    and run: "run_calls (DataRouterRecorder_call L B T) cs s = (tr, s')" "run_ok (promise_step_report L cap emit) tr m"
  shows "sim remaining cap (dr_backend s') (promise_run (promise_step_report L cap emit) tr m)"
  by (rule run_sim [where be = dr_backend, OF router_call [OF L] sim run])

lemma file_run:
  assumes L: "library_ok L remaining cap" and sim: "sim remaining cap b m"
    and run: "run_calls (FileRecorder_call L B) cs b = (tr, b')" "run_ok (promise_step L cap emit) tr m"
  shows "sim remaining cap b' (promise_run (promise_step L cap emit) tr m)"
  by (rule run_sim [where be = "\<lambda>b. b", OF file_call [OF L] sim run])

end

section \<open>The backends keep the contract\<close>

text \<open>What the allocator promises: it gives out free slots below its capacity and keeps them apart.\<close>

definition allocator_ok :: "('a, 'p) CircularAllocator \<Rightarrow> ('a \<Rightarrow> u64 set) \<Rightarrow> u64 \<Rightarrow> bool" where
  "allocator_ok A used capacity \<longleftrightarrow>
     (\<forall>a r a'. AcquireSlotToWrite A a = (r, a') \<longrightarrow> used a' = used a \<union> set_option r \<and> set_option r \<inter> used a = {} \<and>
        set_option r \<subseteq> {i. i < capacity} \<and> (\<forall>i \<in> used a. GetUnderlyingBufferFor A i a' = GetUnderlyingBufferFor A i a)) \<and>
     (\<forall>a i s. i \<in> used a \<longrightarrow> used (SetUnderlyingBufferFor A i s a) = used a \<and>
        (\<forall>j \<in> used a. GetUnderlyingBufferFor A j (SetUnderlyingBufferFor A i s a) = (if j = i then s else GetUnderlyingBufferFor A j a))) \<and>
     (\<forall>a i. i \<in> used a \<longrightarrow> used (ReleaseSlot A i a) = used a - {i} \<and>
        (\<forall>j \<in> used a - {i}. GetUnderlyingBufferFor A j (ReleaseSlot A i a) = GetUnderlyingBufferFor A j a))"

definition handles :: "u64 set \<Rightarrow> u8 set" where
  "handles us = ucast ` us"

definition in_capacity :: "u64 \<Rightarrow> u64 set \<Rightarrow> bool" where
  "in_capacity n us \<longleftrightarrow> us \<subseteq> {i. i < CheckForMaxCapacity n}"

lemma CheckForMaxCapacity_bound: "i < CheckForMaxCapacity n \<Longrightarrow> i < 255"
  by (auto simp: CheckForMaxCapacity_def split: if_splits)

lemma handle_round_trip:
  assumes "i < CheckForMaxCapacity n"
  shows "(ucast (ucast i :: u8) :: u64) = i"
proof -
  have "unat i < 255" using CheckForMaxCapacity_bound [OF assms] by (simp add: word_less_nat_alt)
  then have "unat (ucast i :: u8) = unat i" by (simp add: unsigned_ucast_eq take_bit_nat_eq_self)
  moreover have "unat (ucast x :: u64) = unat x" for x :: u8
    using unat_bound [of x] by (simp add: unsigned_ucast_eq take_bit_nat_eq_self)
  ultimately show ?thesis by (simp only: unat_eq_iff_word)
qed

lemma handles_inj: "inj_on (ucast :: u64 \<Rightarrow> u8) {i. i < CheckForMaxCapacity n}"
  by (rule inj_on_inverseI [where g = ucast]) (simp add: handle_round_trip)

lemma slots_contract:
  assumes A: "allocator_ok A used (CheckForMaxCapacity n)" and good: "in_capacity n (used a)"
  shows "reserve_in A a = (r, a') \<Longrightarrow> in_capacity n (used a') \<and> handles (used a') = handles (used a) \<union> set_option r \<and>
      set_option r \<inter> handles (used a) = {} \<and> (\<forall>i \<in> handles (used a). GetUnderlyingBufferFor A (ucast i) a' = GetUnderlyingBufferFor A (ucast i) a)"
    and "i \<in> handles (used a) \<Longrightarrow> used (SetUnderlyingBufferFor A (ucast i) s a) = used a \<and>
      (\<forall>j \<in> handles (used a). GetUnderlyingBufferFor A (ucast j) (SetUnderlyingBufferFor A (ucast i) s a) =
        (if j = i then s else GetUnderlyingBufferFor A (ucast j) a))"
    and "i \<in> handles (used a) \<Longrightarrow> in_capacity n (used (ReleaseSlot A (ucast i) a)) \<and>
      handles (used (ReleaseSlot A (ucast i) a)) = handles (used a) - {i} \<and>
      (\<forall>j \<in> handles (used a) - {i}. GetUnderlyingBufferFor A (ucast j) (ReleaseSlot A (ucast i) a) = GetUnderlyingBufferFor A (ucast j) a)"
proof -
  have rt: "(ucast (ucast j :: u8) :: u64) = j" if "j \<in> used a" for j
    using that good handle_round_trip [of j n] by (auto simp: in_capacity_def)
  have small: "j < CheckForMaxCapacity n" if "j \<in> used a" for j using that good by (auto simp: in_capacity_def)
  {
    assume res: "reserve_in A a = (r, a')"
    obtain r0 where acq: "AcquireSlotToWrite A a = (r0, a')" and r: "r = map_option ucast r0"
      using res by (auto simp: reserve_in_def split: prod.splits option.splits)
    have a': "used a' = used a \<union> set_option r0" "set_option r0 \<inter> used a = {}" "set_option r0 \<subseteq> {i. i < CheckForMaxCapacity n}"
      "\<forall>i \<in> used a. GetUnderlyingBufferFor A i a' = GetUnderlyingBufferFor A i a"
      using A acq by (simp_all add: allocator_ok_def)
    have "ucast ` (set_option r0 \<inter> used a) = (ucast ` set_option r0 :: u8 set) \<inter> ucast ` used a"
      using a'(3) good by (intro inj_on_image_Int [OF handles_inj [of n]]) (auto simp: in_capacity_def)
    then have "set_option r \<inter> handles (used a) = {}"
      using a'(2) by (simp add: r handles_def option.set_map)
    then show "in_capacity n (used a') \<and> handles (used a') = handles (used a) \<union> set_option r \<and>
      set_option r \<inter> handles (used a) = {} \<and> (\<forall>i \<in> handles (used a). GetUnderlyingBufferFor A (ucast i) a' = GetUnderlyingBufferFor A (ucast i) a)"
      using good a'(1,3,4) by (simp add: in_capacity_def handles_def r image_Un option.set_map rt)
  }
  assume "i \<in> handles (used a)"
  then obtain k where k: "i = ucast k" "k \<in> used a" "ucast i = k" by (auto simp: handles_def rt)
  have same: "(ucast j :: u64) = k \<longleftrightarrow> j = i" if "j \<in> handles (used a)" for j
    using that k by (auto simp: handles_def rt)
  have mem: "ucast j \<in> used a" if "j \<in> handles (used a)" for j using that by (auto simp: handles_def rt)
  show "used (SetUnderlyingBufferFor A (ucast i) s a) = used a \<and>
      (\<forall>j \<in> handles (used a). GetUnderlyingBufferFor A (ucast j) (SetUnderlyingBufferFor A (ucast i) s a) =
        (if j = i then s else GetUnderlyingBufferFor A (ucast j) a))"
    using A k same mem by (auto simp: allocator_ok_def)
  have rel: "used (ReleaseSlot A k a) = used a - {k}"
    "\<forall>j \<in> used a - {k}. GetUnderlyingBufferFor A j (ReleaseSlot A k a) = GetUnderlyingBufferFor A j a"
    using A k(2) by (auto simp: allocator_ok_def)
  have "handles (used a - {k}) = handles (used a) - {i}"
    unfolding handles_def using k(2) good by (subst inj_on_image_set_diff [OF handles_inj [of n]]) (auto simp: in_capacity_def k(1))
  then show "in_capacity n (used (ReleaseSlot A (ucast i) a)) \<and>
      handles (used (ReleaseSlot A (ucast i) a)) = handles (used a) - {i} \<and>
      (\<forall>j \<in> handles (used a) - {i}. GetUnderlyingBufferFor A (ucast j) (ReleaseSlot A (ucast i) a) = GetUnderlyingBufferFor A (ucast j) a)"
    using good rel same mem by (auto simp: k(3) in_capacity_def)
qed

text \<open>What a finished entry does to the process: it is traced, at the next readings of the clock.\<close>

definition emit_trace ::
  "Machine \<Rightarrow> ('k \<Rightarrow> LogEntry TypeTraits) \<Rightarrow> (nat \<Rightarrow> nat \<Rightarrow> TimePoint) \<Rightarrow> 'k \<Rightarrow> LogEntry \<Rightarrow> 'k Process \<times> nat \<Rightarrow> 'k Process \<times> nat" where
  "emit_trace M traits clock k e w = (trace_entry M traits (clock (snd w)) k e (fst w), snd w + 1)"

definition router_world :: "('a, 'k) DataRouterBackend \<Rightarrow> 'k Process \<times> nat" where
  "router_world b = (db_process b, db_flushes b)"

text \<open>The lines that an entry gives: always one in the one logger, none for an unknown level in the other.\<close>

definition slog_lines :: "(id4 \<Rightarrow> bytes) \<Rightarrow> bytes \<Rightarrow> LogEntry \<Rightarrow> (SlogLogLevel \<times> bytes) list" where
  "slog_lines GetStringView app e = [(ToSloggerLogLevel (log_level e), log_line GetStringView app e)]"

definition syslog_lines :: "(id4 \<Rightarrow> bytes) \<Rightarrow> bytes \<Rightarrow> LogEntry \<Rightarrow> (SyslogPriority \<times> bytes) list" where
  "syslog_lines GetStringView app e =
     (if kFatal \<le> log_level e \<and> log_level e \<le> kVerbose then [(ToSyslogPriority (log_level e), log_line GetStringView app e)] else [])"

definition emit_lines :: "(bytes \<Rightarrow> LogEntry \<Rightarrow> ('v \<times> bytes) list) \<Rightarrow> LogEntry \<Rightarrow> bytes \<times> ('v \<times> bytes) list \<Rightarrow> bytes \<times> ('v \<times> bytes) list" where
  "emit_lines f e w = (fst w, snd w @ f (fst w) e)"

definition text_world :: "('a, 'v) TextBackend \<Rightarrow> bytes \<times> ('v \<times> bytes) list" where
  "text_world b = (tb_app b, tb_lines b)"

lemma router_contract:
  fixes A :: "('a, 'p) CircularAllocator" and k :: 'k
  assumes A: "allocator_ok A used (CheckForMaxCapacity n)"
  shows "slot_backend (data_router_backend A L M traits clock k) L (\<lambda>b. in_capacity n (used (db_buffer b)))
    (\<lambda>b. handles (used (db_buffer b))) router_world (emit_trace M traits clock k)"
proof
  fix b b' r
  assume g: "in_capacity n (used (db_buffer b))" and "ReserveSlot (data_router_backend A L M traits clock k) b = (r, b')"
  then obtain a' where res: "reserve_in A (db_buffer b) = (r, a')" and b': "b' = b\<lparr>db_buffer := a'\<rparr>"
    by (auto simp: data_router_backend_def DataRouterBackend_ReserveSlot_def split: prod.splits)
  from slots_contract(1) [OF A g res]
  show "in_capacity n (used (db_buffer b')) \<and> router_world b' = router_world b \<and>
      handles (used (db_buffer b')) = handles (used (db_buffer b)) \<union> set_option r \<and> set_option r \<inter> handles (used (db_buffer b)) = {} \<and>
      (\<forall>i \<in> handles (used (db_buffer b)). GetLogRecord (data_router_backend A L M traits clock k) i b' =
        GetLogRecord (data_router_backend A L M traits clock k) i b)"
    by (simp add: b' router_world_def data_router_backend_def DataRouterBackend_GetLogRecord_def)
next
  fix b :: "('a, 'k) DataRouterBackend" and i s
  assume g: "in_capacity n (used (db_buffer b))" and i: "i \<in> handles (used (db_buffer b))"
  let ?B = "data_router_backend A L M traits clock k"
  from slots_contract(2) [OF A g i, of s]
  show "in_capacity n (used (db_buffer (SetLogRecord ?B i s b))) \<and> router_world (SetLogRecord ?B i s b) = router_world b \<and>
      handles (used (db_buffer (SetLogRecord ?B i s b))) = handles (used (db_buffer b)) \<and>
      (\<forall>j \<in> handles (used (db_buffer b)). GetLogRecord ?B j (SetLogRecord ?B i s b) = (if j = i then s else GetLogRecord ?B j b))"
    using g by (simp add: router_world_def data_router_backend_def DataRouterBackend_GetLogRecord_def)
  from slots_contract(3) [OF A g i]
  show "in_capacity n (used (db_buffer (FlushSlot ?B i b))) \<and>
      router_world (FlushSlot ?B i b) = emit_trace M traits clock k (GetLogEntryOf L (GetLogRecord ?B i b)) (router_world b) \<and>
      handles (used (db_buffer (FlushSlot ?B i b))) = handles (used (db_buffer b)) - {i} \<and>
      (\<forall>j \<in> handles (used (db_buffer b)) - {i}. GetLogRecord ?B j (FlushSlot ?B i b) = GetLogRecord ?B j b)"
    by (simp add: router_world_def emit_trace_def data_router_backend_def DataRouterBackend_GetLogRecord_def DataRouterBackend_FlushSlot_def Let_def)
qed

text \<open>The text backends never refuse a slot that the allocator has given them, and the assertion holds.\<close>

lemma text_reserve:
  assumes "allocator_ok A used (CheckForMaxCapacity n)"
  shows "SlogBackend_ReserveSlot A b = (let (slot, a) = reserve_in A (tb_buffer b) in (slot, b\<lparr>tb_buffer := a\<rparr>))"
    "SyslogBackend_ReserveSlot A b' = Some (let (slot, a) = reserve_in A (tb_buffer b') in (slot, b'\<lparr>tb_buffer := a\<rparr>))"
proof -
  have "i < 255" if "AcquireSlotToWrite A a = (Some i, a')" for a i a'
    using assms that CheckForMaxCapacity_bound [of i n] by (auto simp: allocator_ok_def)
  then show "SlogBackend_ReserveSlot A b = (let (slot, a) = reserve_in A (tb_buffer b) in (slot, b\<lparr>tb_buffer := a\<rparr>))"
    "SyslogBackend_ReserveSlot A b' = Some (let (slot, a) = reserve_in A (tb_buffer b') in (slot, b'\<lparr>tb_buffer := a\<rparr>))"
    by (auto simp: SlogBackend_ReserveSlot_def SyslogBackend_ReserveSlot_def reserve_in_def Let_def split: prod.splits option.splits)
qed

lemma syslog_level: "ToSyslogPriority l \<noteq> Syslog_kInvalid \<longleftrightarrow> kFatal \<le> l \<and> l \<le> kVerbose"
proof -
  have "l = 0 \<or> l = 1 \<or> l = 2 \<or> l = 3 \<or> l = 4 \<or> l = 5 \<or> l = 6" if "l \<le> 6" for l :: u8
  proof -
    have "unat l \<le> 6" using that by (simp add: word_le_nat_alt)
    then have "unat l \<in> {0, 1, 2, 3, 4, 5, 6}" by auto
    then show ?thesis by (auto simp: unat_eq_iff_word)
  qed
  from this [of l] show ?thesis by (auto simp: ToSyslogPriority_def ConvertMwLogLevelToSyslogPriority_def level_defs)
qed

lemma text_contract:
  fixes A :: "('a, 'p) CircularAllocator" and B :: "(('a, 'v) TextBackend, 'p) Backend"
  assumes A: "allocator_ok A used (CheckForMaxCapacity n)"
    and ops: "\<And>b. ReserveSlot B b = (let (slot, a) = reserve_in A (tb_buffer b) in (slot, b\<lparr>tb_buffer := a\<rparr>))"
      "\<And>i b. GetLogRecord B i b = TextBackend_GetLogRecord A i b"
      "\<And>i s b. SetLogRecord B i s b = b\<lparr>tb_buffer := SetUnderlyingBufferFor A (ucast i) s (tb_buffer b)\<rparr>"
      "\<And>i b. FlushSlot B i b = b\<lparr>tb_lines := tb_lines b @ f (tb_app b) (GetLogEntryOf L (GetLogRecord B i b)),
          tb_buffer := ReleaseSlot A (ucast i) (tb_buffer b)\<rparr>"
  shows "slot_backend B L (\<lambda>b. in_capacity n (used (tb_buffer b))) (\<lambda>b. handles (used (tb_buffer b))) text_world (emit_lines f)"
proof
  fix b b' r
  assume g: "in_capacity n (used (tb_buffer b))" and "ReserveSlot B b = (r, b')"
  then obtain a' where res: "reserve_in A (tb_buffer b) = (r, a')" and b': "b' = b\<lparr>tb_buffer := a'\<rparr>"
    by (auto simp: ops split: prod.splits)
  from slots_contract(1) [OF A g res]
  show "in_capacity n (used (tb_buffer b')) \<and> text_world b' = text_world b \<and>
      handles (used (tb_buffer b')) = handles (used (tb_buffer b)) \<union> set_option r \<and> set_option r \<inter> handles (used (tb_buffer b)) = {} \<and>
      (\<forall>i \<in> handles (used (tb_buffer b)). GetLogRecord B i b' = GetLogRecord B i b)"
    by (simp add: b' text_world_def ops TextBackend_GetLogRecord_def)
next
  fix b :: "('a, 'v) TextBackend" and i s
  assume g: "in_capacity n (used (tb_buffer b))" and i: "i \<in> handles (used (tb_buffer b))"
  from slots_contract(2) [OF A g i, of s]
  show "in_capacity n (used (tb_buffer (SetLogRecord B i s b))) \<and> text_world (SetLogRecord B i s b) = text_world b \<and>
      handles (used (tb_buffer (SetLogRecord B i s b))) = handles (used (tb_buffer b)) \<and>
      (\<forall>j \<in> handles (used (tb_buffer b)). GetLogRecord B j (SetLogRecord B i s b) = (if j = i then s else GetLogRecord B j b))"
    using g by (simp add: text_world_def ops TextBackend_GetLogRecord_def)
  from slots_contract(3) [OF A g i]
  show "in_capacity n (used (tb_buffer (FlushSlot B i b))) \<and>
      text_world (FlushSlot B i b) = emit_lines f (GetLogEntryOf L (GetLogRecord B i b)) (text_world b) \<and>
      handles (used (tb_buffer (FlushSlot B i b))) = handles (used (tb_buffer b)) - {i} \<and>
      (\<forall>j \<in> handles (used (tb_buffer b)) - {i}. GetLogRecord B j (FlushSlot B i b) = GetLogRecord B j b)"
    by (simp add: text_world_def emit_lines_def ops TextBackend_GetLogRecord_def)
qed

lemma slog_contract:
  assumes A: "allocator_ok A used (CheckForMaxCapacity n)"
  shows "slot_backend (slog_backend A L GetStringView) L (\<lambda>b. in_capacity n (used (tb_buffer b)))
    (\<lambda>b. handles (used (tb_buffer b))) text_world (emit_lines (slog_lines GetStringView))"
  by (rule text_contract [OF A])
    (simp_all add: slog_backend_def text_reserve [OF A] SlogBackend_FlushSlot_def TextBackend_GetLogRecord_def slog_lines_def Let_def)

lemma syslog_contract:
  assumes A: "allocator_ok A used (CheckForMaxCapacity n)"
  shows "slot_backend (syslog_backend A L GetStringView) L (\<lambda>b. in_capacity n (used (tb_buffer b)))
    (\<lambda>b. handles (used (tb_buffer b))) text_world (emit_lines (syslog_lines GetStringView))"
  by (rule text_contract [OF A])
    (simp_all add: syslog_backend_def text_reserve [OF A] SyslogBackend_FlushSlot_def TextBackend_GetLogRecord_def syslog_lines_def Let_def
      syslog_level [symmetric])

section \<open>Examples\<close>

text \<open>A library with payloads of 60 bytes and an allocator of three slots.\<close>

definition example_library :: "(bytes \<times> u16) Library" where
  "example_library = \<lparr>lib_platform = example_platform, lib_bytes = fst, lib_clear = \<lambda>_. ([], 60), lib_Reset = \<lambda>_. ([], 60),
     lib_TryAddArgument = (\<lambda>f (n, x). if n = 255 then (n, x) else let (result, x') = f x in (if result = kAdded then n + 1 else n, x')),
     lib_LoggingIdentifier = NewDltidT, lib_IsLogLevelEnabled = \<lambda>_ _. True, lib_AppId = [65, 80, 80], kDecimal = 0, kHex = 1, kBinary = 2\<rparr>"

definition example_allocator :: "(u64 list \<times> (u64 \<Rightarrow> 'p LogSlot), 'p) CircularAllocator" where
  "example_allocator = \<lparr>AcquireSlotToWrite = (\<lambda>(us, f). case find (\<lambda>i. i \<notin> set us) [0, 1, 2] of None \<Rightarrow> (None, us, f) | Some i \<Rightarrow> (Some i, i # us, f)),
     GetUnderlyingBufferFor = (\<lambda>i (us, f). f i), SetUnderlyingBufferFor = (\<lambda>i s (us, f). (us, f(i := s))),
     ReleaseSlot = (\<lambda>i (us, f). (filter (\<lambda>j. j \<noteq> i) us, f))\<rparr>"

definition example_used :: "u64 list \<times> (u64 \<Rightarrow> 'p LogSlot) \<Rightarrow> u64 set" where
  "example_used a = set (fst a)"

lemma example_library_ok: "library_ok example_library example_remaining 60"
  using example_platform_ok by (auto simp: library_ok_def example_library_def example_remaining_def)

lemma example_allocator_ok: "allocator_ok example_allocator example_used (CheckForMaxCapacity 3)"
  by (auto simp: allocator_ok_def example_allocator_def example_used_def CheckForMaxCapacity_def split: if_splits)

text \<open>The backends of the program, on that allocator, as instances of the contract.\<close>

interpretation example_router: slot_backend "data_router_backend example_allocator L M traits clock k" L
  "\<lambda>b. in_capacity 3 (example_used (db_buffer b))" "\<lambda>b. handles (example_used (db_buffer b))" router_world "emit_trace M traits clock k"
  for L M traits clock k
  by (rule router_contract [OF example_allocator_ok])

interpretation example_slog: slot_backend "slog_backend example_allocator L GetStringView" L
  "\<lambda>b. in_capacity 3 (example_used (tb_buffer b))" "\<lambda>b. handles (example_used (tb_buffer b))" text_world "emit_lines (slog_lines GetStringView)"
  for L GetStringView
  by (rule slog_contract [OF example_allocator_ok])

interpretation example_syslog: slot_backend "syslog_backend example_allocator L GetStringView" L
  "\<lambda>b. in_capacity 3 (example_used (tb_buffer b))" "\<lambda>b. handles (example_used (tb_buffer b))" text_world "emit_lines (syslog_lines GetStringView)"
  for L GetStringView
  by (rule syslog_contract [OF example_allocator_ok])

definition example_calls :: "Call list" where
  "example_calls = [CStart [68] kInfo, CLog 0 (AU8 5), CStop 0]"

definition example_slots :: "u64 list \<times> (u64 \<Rightarrow> (bytes \<times> u16) LogSlot)" where
  "example_slots = ([], \<lambda>_. \<lparr>ls_app = (0, 0, 0, 0), ls_ctx = (0, 0, 0, 0), ls_args = 0, ls_level = 0, ls_payload = ([], 60)\<rparr>)"

section \<open>Properties\<close>

text \<open>C4: The recorder of the data router keeps the records of its clients apart and writes each one
  once. For every sequence of calls of any number of clients, each using the slots it was
  given: at the end of a record the process traces one entry, with the application, the
  context and the level of the record and, in its payload, the arguments of this record
  that had room, in order, under their number; statistics reports are entries of their
  own between the others; the slots in use are those of the open records.\<close>

theorem data_router_recorder_writes_records:
  assumes "library_ok L remaining cap" "allocator_ok A used (CheckForMaxCapacity n)" "used (db_buffer (dr_backend s)) = {}"
    and "run_calls (DataRouterRecorder_call L (data_router_backend A L M traits clock k) T) cs s = (tr, s')"
    and "run_ok (promise_step_report L cap (emit_trace M traits clock k)) tr \<lparr>open_records = \<lambda>_. None, written = router_world (dr_backend s)\<rparr>"
  shows "let m = promise_run (promise_step_report L cap (emit_trace M traits clock k)) tr
      \<lparr>open_records = \<lambda>_. None, written = router_world (dr_backend s)\<rparr>
    in router_world (dr_backend s') = written m \<and> handles (used (db_buffer (dr_backend s'))) = dom (open_records m)"
proof -
  note be = router_contract [OF assms(2), of L M traits clock k]
  let ?sim = "slot_backend.sim (data_router_backend A L M traits clock k) L (\<lambda>b. in_capacity n (used (db_buffer b)))
      (\<lambda>b. handles (used (db_buffer b))) router_world remaining cap"
  have start: "?sim (dr_backend s) \<lparr>open_records = \<lambda>_. None, written = router_world (dr_backend s)\<rparr>"
    unfolding slot_backend.sim_def [OF be] using assms(3) by (simp add: in_capacity_def handles_def)
  have "?sim (dr_backend s') (promise_run (promise_step_report L cap (emit_trace M traits clock k)) tr
      \<lparr>open_records = \<lambda>_. None, written = router_world (dr_backend s)\<rparr>)"
    by (rule slot_backend.router_run [OF be assms(1) start assms(4,5)])
  then show ?thesis unfolding slot_backend.sim_def [OF be] Let_def by blast
qed

theorem data_router_recorder_writes_records_witness:
  "\<forall>(M :: Machine) (traits :: unit \<Rightarrow> LogEntry TypeTraits) clock pr.
     db_process (dr_backend (snd (run_calls (DataRouterRecorder_call example_library (data_router_backend example_allocator example_library M traits clock ())
       \<lparr>steady_now = \<lambda>_. 0, spurious_failure = \<lambda>_. False\<rparr>) example_calls
       (NewDataRouterRecorder \<lparr>db_buffer = example_slots, db_process = pr, db_flushes = 0\<rparr> 3 60)))) =
     trace_entry M traits (clock 0) () (message example_library 60 ([68], kInfo, [AU8 5])) pr"
proof (intro allI)
  fix M :: Machine and traits :: "unit \<Rightarrow> LogEntry TypeTraits" and clock and pr :: "unit Process"
  let ?T = "\<lparr>steady_now = \<lambda>_. 0, spurious_failure = \<lambda>_. False\<rparr>"
  let ?s = "NewDataRouterRecorder \<lparr>db_buffer = example_slots, db_process = pr, db_flushes = 0\<rparr> 3 60"
  let ?run = "run_calls (DataRouterRecorder_call example_library (data_router_backend example_allocator example_library M traits clock ()) ?T) example_calls ?s"
  let ?tr = "[(CStart [68] kInfo, (Some 0, None)), (CLog 0 (AU8 5), (None, None)), (CStop 0, (None, None))]"
  have "fst ?run = ?tr"
    by (simp add: example_calls_def StartRecord_eq report_due_def report_of_def IsReportOverdue_def to_seconds_def NewDataRouterRecorder_def
        NewStatisticsReporter_def kStatisticsReportInterval_def open_record_def example_library_def data_router_backend_def
        DataRouterBackend_ReserveSlot_def reserve_in_def example_allocator_def example_slots_def Let_def split: prod.split)
  then have run: "?run = (?tr, snd ?run)" by (metis prod.collapse)
  have "example_used (db_buffer (dr_backend ?s)) = {}" by (simp add: NewDataRouterRecorder_def example_used_def example_slots_def)
  from data_router_recorder_writes_records [OF example_library_ok example_allocator_ok this run]
  show "db_process (dr_backend (snd ?run)) = trace_entry M traits (clock 0) () (message example_library 60 ([68], kInfo, [AU8 5])) pr"
    by (simp add: NewDataRouterRecorder_def router_world_def emit_trace_def)
qed

text \<open>C34: A recorder on any backend that keeps the contract: after every sequence of calls of its
  clients the backend has been given, in the order in which the records ended, the entry
  of each finished record with exactly its own arguments, and holds the open ones.\<close>

theorem file_recorder_writes_records:
  assumes "library_ok L remaining cap" "slot_backend B L good held world emit" "good b" "held b = {}"
    and "run_calls (FileRecorder_call L B) cs b = (tr, b')"
    and "run_ok (promise_step L cap emit) tr \<lparr>open_records = \<lambda>_. None, written = world b\<rparr>"
  shows "let m = promise_run (promise_step L cap emit) tr \<lparr>open_records = \<lambda>_. None, written = world b\<rparr>
    in world b' = written m \<and> held b' = dom (open_records m) \<and>
      (\<forall>i rec. open_records m i = Some rec \<longrightarrow> GetLogEntryOf L (GetLogRecord B i b') = message L cap rec)"
proof -
  note be = assms(2)
  have start: "slot_backend.sim B L good held world remaining cap b \<lparr>open_records = \<lambda>_. None, written = world b\<rparr>"
    unfolding slot_backend.sim_def [OF be] using assms(3,4) by simp
  from slot_backend.file_run [OF be assms(1) start assms(5,6)] show ?thesis
    unfolding slot_backend.sim_def [OF be] Let_def slot_holds_def by blast
qed

theorem file_recorder_writes_records_witness:
  "tb_lines (snd (run_calls (FileRecorder_call example_library (syslog_backend example_allocator example_library Dltid_Data)) example_calls
      \<lparr>tb_buffer = example_slots, tb_app = [65, 80, 80], tb_lines = []\<rparr>)) =
    [(Syslog_kInfo, log_line Dltid_Data [65, 80, 80] (message example_library 60 ([68], kInfo, [AU8 5])))]"
proof -
  let ?B = "syslog_backend example_allocator example_library Dltid_Data"
  let ?b = "\<lparr>tb_buffer = example_slots, tb_app = [65, 80, 80], tb_lines = []\<rparr>"
  let ?run = "run_calls (FileRecorder_call example_library ?B) example_calls ?b"
  let ?tr = "[(CStart [68] kInfo, Some 0), (CLog 0 (AU8 5), None), (CStop 0, None)]"
  have "fst ?run = ?tr"
    by (simp add: example_calls_def FileRecorder_StartRecord_def example_library_def syslog_backend_def text_reserve [OF example_allocator_ok]
        reserve_in_def, simp add: example_allocator_def example_slots_def Let_def split: prod.split)
  then have run: "?run = (?tr, snd ?run)" by (metis prod.collapse)
  have "in_capacity 3 (example_used (tb_buffer ?b))" "handles (example_used (tb_buffer ?b)) = {}"
    by (simp_all add: in_capacity_def handles_def example_used_def example_slots_def)
  from file_recorder_writes_records [OF example_library_ok example_syslog.slot_backend_axioms this run]
  have "text_world (snd ?run) = emit_lines (syslog_lines Dltid_Data) (message example_library 60 ([68], kInfo, [AU8 5])) (text_world ?b)"
    by simp
  moreover have "log_level (message example_library 60 ([68], kInfo, [AU8 5])) = 4" by (simp add: message_def level_defs)
  ultimately show ?thesis
    by (simp add: text_world_def emit_lines_def syslog_lines_def level_defs ToSyslogPriority_def ConvertMwLogLevelToSyslogPriority_def)
qed

text \<open>C35: Starting a record ends, although a due report of the statistics starts a record of its own:
  the inner start never reports again, so that the two operations equal a definition
  without recursion, with at most one report, after which the reporter is free again.\<close>

theorem statistics_report_is_not_nested:
  "DataRouterRecorder_StartRecord L B T ctx level s =
     (let now = steady_now T (moment s); s1 = s\<lparr>moment := moment s + 1\<rparr>
      in open_record L B ctx level (if report_due T now s1 then report_once L B now s1 else s1)) \<and>
   currently_reporting (dr_stats (snd (DataRouterRecorder_StartRecord L B T ctx level s))) = currently_reporting (dr_stats s)"
  by (simp add: StartRecord_eq stats_frame report_once_frame report_due_def Let_def)

text \<open>The limit on the number of slots makes the casts and checks of the text backends right: the
  assertion of the one never fails, and the other never drops a slot that the allocator
  has given it, whatever number of slots is configured.\<close>

theorem text_backends_never_lose_a_slot:
  assumes "allocator_ok A used (CheckTheMaxCapacity n)"
  shows "SyslogBackend_ReserveSlot A b \<noteq> None \<and>
    (fst (SlogBackend_ReserveSlot A b') = None) = (fst (AcquireSlotToWrite A (tb_buffer b')) = None)"
  using text_reserve [OF assms [unfolded CheckTheMaxCapacity_eq]] by (simp add: reserve_in_def split: prod.split option.split)

theorem text_backends_never_lose_a_slot_witness:
  "let b = \<lparr>tb_buffer = example_slots, tb_app = [65], tb_lines = []\<rparr>; b' = \<lparr>tb_buffer = example_slots, tb_app = [65], tb_lines = []\<rparr> in
   SyslogBackend_ReserveSlot example_allocator b \<noteq> None \<and>
   (fst (SlogBackend_ReserveSlot example_allocator b') = None) = (fst (AcquireSlotToWrite example_allocator (tb_buffer b')) = None)"
  using text_backends_never_lose_a_slot [OF example_allocator_ok [folded CheckTheMaxCapacity_eq]] unfolding Let_def by blast

end
