(* ===== verification/PassingServer.thy ===== *)
theory PassingServer
  imports SessionProperties MessageClient
begin

text \<open>
  The server of the data router for logging processes
  (\<^verbatim>\<open>datarouter/src/daemon/message_passing_server.cpp\<close>): connections, their sessions, the queue
  of sessions to tick and the worker thread, with the watchdog of requests.

  A dispatch thread runs the callbacks of the message passing library, a worker thread the
  ticks; both work under one mutex, which the worker releases while a session ticks. The
  definitions follow the sections under the mutex, so that the interleavings of both
  threads are sequences of them. The map of sessions is a list of pairs; a connection is
  named by a number; points in time are nanoseconds; the messages sent to processes are
  recorded.
\<close>

section \<open>State\<close>

type_synonym pid = int

record ('d, 'h, 'g) SessionWrapper =
  wrapped :: "('d, 'h, 'g) SourceSession"
  connection :: "nat option"
  acquire_in_flight :: bool
  acquire_deadline :: "int option"
  acquire_miss_count :: u32
  enqueued :: bool
  running :: bool
  to_delete :: bool
  closed_by_peer :: bool
  to_force_finish :: bool

record ('d, 'h, 'g) MessagePassingServer =
  pid_session_map :: "(pid \<times> ('d, 'h, 'g) SessionWrapper) list"
  work_queue :: "pid list"
  disconnected_pids :: "pid list"
  server_stop_requested :: bool
  connection_timeout :: "int option"
  session_finishing :: bool
  watchdog_deadline :: int
  max_misses :: u32
  notified :: "pid list"

definition NewMessagePassingServer :: "int \<Rightarrow> u32 \<Rightarrow> ('d, 'h, 'g) MessagePassingServer" where
  "NewMessagePassingServer deadline misses =
     \<lparr>pid_session_map = [], work_queue = [], disconnected_pids = [], server_stop_requested = False, connection_timeout = None,
      session_finishing = False, watchdog_deadline = deadline, max_misses = misses, notified = []\<rparr>"

definition NewSessionWrapper :: "('d, 'h, 'g) SourceSession \<Rightarrow> ('d, 'h, 'g) SessionWrapper" where
  "NewSessionWrapper s =
     \<lparr>wrapped = s, connection = None, acquire_in_flight = False, acquire_deadline = None, acquire_miss_count = 0,
      enqueued = False, running = False, to_delete = False, closed_by_peer = False, to_force_finish = False\<rparr>"

section \<open>Wrapper\<close>

text \<open>The result says whether the pid is to be put into the queue.\<close>

definition EnqueueForDeleteWhileLocked :: "bool \<Rightarrow> ('d, 'h, 'g) SessionWrapper \<Rightarrow> bool \<times> ('d, 'h, 'g) SessionWrapper" where
  "EnqueueForDeleteWhileLocked by_peer w =
     (let w = w\<lparr>to_delete := True, closed_by_peer := by_peer\<rparr>
      in if \<not> running w \<and> \<not> enqueued w then (True, w\<lparr>enqueued := True\<rparr>) else (False, w))"

definition SetRunningWhileLocked :: "('d, 'h, 'g) SessionWrapper \<Rightarrow> ('d, 'h, 'g) SessionWrapper" where
  "SetRunningWhileLocked w = w\<lparr>enqueued := False, running := True\<rparr>"

definition ResetRunningWhileLocked :: "bool \<Rightarrow> ('d, 'h, 'g) SessionWrapper \<Rightarrow> bool \<times> ('d, 'h, 'g) SessionWrapper" where
  "ResetRunningWhileLocked requeue w =
     (let w = w\<lparr>running := False\<rparr>;
          w = (if requeue \<or> closed_by_peer w then w\<lparr>enqueued := True\<rparr> else w)
      in (enqueued w, w))"

definition Wrapper_EnqueueTickWhileLocked :: "('d, 'h, 'g) SessionWrapper \<Rightarrow> bool \<times> ('d, 'h, 'g) SessionWrapper" where
  "Wrapper_EnqueueTickWhileLocked w =
     (if \<not> enqueued w \<and> \<not> to_delete w then (\<not> running w, w\<lparr>enqueued := True\<rparr>) else (False, w))"

definition GetResetClosedByPeer :: "('d, 'h, 'g) SessionWrapper \<Rightarrow> bool \<times> ('d, 'h, 'g) SessionWrapper" where
  "GetResetClosedByPeer w = (closed_by_peer w, w\<lparr>closed_by_peer := False\<rparr>)"

section \<open>Server\<close>

definition EnqueueTickWhileLocked :: "pid \<Rightarrow> ('d, 'h, 'g) MessagePassingServer \<Rightarrow> ('d, 'h, 'g) MessagePassingServer" where
  "EnqueueTickWhileLocked p m = m\<lparr>work_queue := work_queue m @ [p]\<rparr>"

definition find_wrapper :: "pid \<Rightarrow> ('d, 'h, 'g) MessagePassingServer \<Rightarrow> ('d, 'h, 'g) SessionWrapper option" where
  "find_wrapper p m = map_of (pid_session_map m) p"

definition set_wrapper :: "pid \<Rightarrow> ('d, 'h, 'g) SessionWrapper \<Rightarrow> ('d, 'h, 'g) MessagePassingServer \<Rightarrow> ('d, 'h, 'g) MessagePassingServer" where
  "set_wrapper p w m = m\<lparr>pid_session_map := map (\<lambda>(k, v). if k = p then (k, w) else (k, v)) (pid_session_map m)\<rparr>"

definition extract_session :: "pid \<Rightarrow> ('d, 'h, 'g) MessagePassingServer \<Rightarrow> ('d, 'h, 'g) MessagePassingServer" where
  "extract_session p m = m\<lparr>pid_session_map := filter (\<lambda>(k, v). k \<noteq> p) (pid_session_map m)\<rparr>"

text \<open>An operation of a wrapper, with the callback that puts its pid into the queue.\<close>

definition on_wrapper ::
  "pid \<Rightarrow> (('d, 'h, 'g) SessionWrapper \<Rightarrow> bool \<times> ('d, 'h, 'g) SessionWrapper) \<Rightarrow> ('d, 'h, 'g) MessagePassingServer \<Rightarrow> ('d, 'h, 'g) MessagePassingServer" where
  "on_wrapper p f m =
     (case find_wrapper p m of
        None \<Rightarrow> m
      | Some w \<Rightarrow> let (push, w) = f w; m = set_wrapper p w m in if push then EnqueueTickWhileLocked p m else m)"

definition connect_callback :: "pid \<Rightarrow> ('d, 'h, 'g) MessagePassingServer \<Rightarrow> ('d, 'h, 'g) MessagePassingServer" where
  "connect_callback p m = m\<lparr>disconnected_pids := removeAll p (disconnected_pids m)\<rparr>"

definition disconnect_callback :: "pid \<Rightarrow> ('d, 'h, 'g) MessagePassingServer \<Rightarrow> ('d, 'h, 'g) MessagePassingServer" where
  "disconnect_callback p m =
     (let m = m\<lparr>disconnected_pids := List.insert p (disconnected_pids m)\<rparr>
      in on_wrapper p (\<lambda>w. EnqueueForDeleteWhileLocked True (w\<lparr>connection := None, to_force_finish := True\<rparr>)) m)"

text \<open>The session factory is called without the mutex; its result is an argument.\<close>

definition OnConnectRequest ::
  "(pid \<Rightarrow> ConnectMessageFromClient \<Rightarrow> ('d, 'h, 'g) SourceSession option) \<Rightarrow> nat \<Rightarrow> bytes \<Rightarrow> pid \<Rightarrow>
   ('d, 'h, 'g) MessagePassingServer \<Rightarrow> ('d, 'h, 'g) MessagePassingServer" where
  "OnConnectRequest factory conn_ptr message p m =
     (if length message < sizeof_ConnectMessage then m\<lparr>server_stop_requested := False\<rparr>
      else
        let conn = connect_of_image (take sizeof_ConnectMessage message) in
        if server_stop_requested m then m\<lparr>server_stop_requested := False\<rparr>
        else
          case factory p conn of
            None \<Rightarrow> m
          | Some session \<Rightarrow>
              if p \<in> set (disconnected_pids m) then m
              else if find_wrapper p m \<noteq> None then m
              else
                let m = m\<lparr>pid_session_map := pid_session_map m @ [(p, (NewSessionWrapper session)\<lparr>connection := Some conn_ptr\<rparr>)]\<rparr>
                in on_wrapper p Wrapper_EnqueueTickWhileLocked m)"

definition Server_OnAcquireResponse ::
  "nat \<Rightarrow> bytes \<Rightarrow> pid \<Rightarrow> ('d, 'h, 'g) MessagePassingServer \<Rightarrow> ('d, 'h, 'g) MessagePassingServer" where
  "Server_OnAcquireResponse conn_ptr message p m =
     (case find_wrapper p m of
        None \<Rightarrow> m
      | Some w \<Rightarrow>
          if connection w \<noteq> Some conn_ptr then m
          else on_wrapper p (\<lambda>w. Wrapper_EnqueueTickWhileLocked
            (w\<lparr>wrapped := OnAcquireResponse (acquire_of_image message) (wrapped w),
              acquire_in_flight := False, acquire_deadline := None, acquire_miss_count := 0\<rparr>)) m)"

definition MessageCallback ::
  "(pid \<Rightarrow> ConnectMessageFromClient \<Rightarrow> ('d, 'h, 'g) SourceSession option) \<Rightarrow> nat \<Rightarrow> bytes \<Rightarrow> pid \<Rightarrow>
   ('d, 'h, 'g) MessagePassingServer \<Rightarrow> ('d, 'h, 'g) MessagePassingServer" where
  "MessageCallback factory conn_ptr message p m =
     (case message of
        [] \<Rightarrow> m
      | message_type # payload \<Rightarrow>
          if message_type = message_id_value kConnect then OnConnectRequest factory conn_ptr payload p m
          else if message_type = message_id_value kAcquireResponse then Server_OnAcquireResponse conn_ptr payload p m
          else m)"

text \<open>What sending a notification can give: success, no buffer free, or another error.\<close>

datatype NotifyResult = NotifySent | NotifyNoBuffer | NotifyFailed

definition NotifyAcquireRequest ::
  "NotifyResult \<Rightarrow> int \<Rightarrow> pid \<Rightarrow> ('d, 'h, 'g) MessagePassingServer \<Rightarrow> bool \<times> ('d, 'h, 'g) MessagePassingServer" where
  "NotifyAcquireRequest ret now p m =
     (case find_wrapper p m of
        None \<Rightarrow> (False, m)
      | Some w \<Rightarrow>
          if connection w = None then (False, m)
          else if acquire_in_flight w then (True, m)
          else case ret of
            NotifyNoBuffer \<Rightarrow> (True, m)
          | NotifyFailed \<Rightarrow> (True, on_wrapper p (EnqueueForDeleteWhileLocked True) m)
          | NotifySent \<Rightarrow>
              (True, set_wrapper p (w\<lparr>acquire_in_flight := True, acquire_deadline := Some (now + watchdog_deadline m)\<rparr>)
                 (m\<lparr>notified := notified m @ [p]\<rparr>)))"

section \<open>Worker thread\<close>

text \<open>The visit of a session every hundred milliseconds.\<close>

definition visit_session :: "int \<Rightarrow> pid \<Rightarrow> ('d, 'h, 'g) MessagePassingServer \<Rightarrow> ('d, 'h, 'g) MessagePassingServer" where
  "visit_session now p m =
     (case find_wrapper p m of
        None \<Rightarrow> m
      | Some w \<Rightarrow>
          if IsSourceClosed (wrapped w) then on_wrapper p (EnqueueForDeleteWhileLocked True) m
          else if acquire_in_flight w \<and> (\<exists>t. acquire_deadline w = Some t \<and> now \<ge> t) then
            let w = w\<lparr>acquire_in_flight := False, acquire_miss_count := acquire_miss_count w + 1, acquire_deadline := None\<rparr>;
                m' = set_wrapper p w m
            in if acquire_miss_count w \<ge> max_misses m then on_wrapper p (EnqueueForDeleteWhileLocked True) m'
               else on_wrapper p Wrapper_EnqueueTickWhileLocked m'
          else on_wrapper p Wrapper_EnqueueTickWhileLocked m)"

text \<open>After a wake-up: the time of the next visit and the server.\<close>

definition worker_wakes :: "int \<Rightarrow> int \<Rightarrow> ('d, 'h, 'g) MessagePassingServer \<Rightarrow> int \<times> ('d, 'h, 'g) MessagePassingServer" where
  "worker_wakes now t1 m =
     (let m = (if connection_timeout m \<noteq> None \<and> now \<ge> the (connection_timeout m)
               then m\<lparr>connection_timeout := None, server_stop_requested := True\<rparr> else m)
      in if now \<ge> t1 then (now + 100 * 1000000, fold (visit_session now) (map fst (pid_session_map m)) m) else (t1, m))"

text \<open>The next entry of the queue; looking up a pid that is not in the map throws.\<close>

datatype ('d, 'h, 'g) TakeResult = QueueEmpty | OutOfRange | Took pid bool "('d, 'h, 'g) MessagePassingServer"

definition worker_takes :: "('d, 'h, 'g) MessagePassingServer \<Rightarrow> ('d, 'h, 'g) TakeResult" where
  "worker_takes m =
     (case work_queue m of
        [] \<Rightarrow> QueueEmpty
      | p # rest \<Rightarrow>
          let m = m\<lparr>work_queue := rest\<rparr> in
          case find_wrapper p m of
            None \<Rightarrow> OutOfRange
          | Some w \<Rightarrow>
              let (by_peer, w) = GetResetClosedByPeer (SetRunningWhileLocked w)
              in Took p by_peer (set_wrapper p w m))"

text \<open>
  A tick of a session without the mutex. When the session asks for the buffer, its handle
  calls back into the server; \<open>ret\<close> is the answer of the connection.
\<close>

type_synonym tick_world = "TickEnv \<times> SharedData \<times> NotifyResult \<times> int"

definition TickAtWorkerThread ::
  "tick_world \<Rightarrow> pid \<Rightarrow> ('d, 'h, 'g) MessagePassingServer \<Rightarrow> bool \<times> ('d, 'h, 'g) MessagePassingServer" where
  "TickAtWorkerThread world p m =
     (case world of (env, sd, ret, now) \<Rightarrow>
      case find_wrapper p m of
        None \<Rightarrow> (False, m)
      | Some w \<Rightarrow>
          let (acquired, m') = NotifyAcquireRequest ret now p m;
              (requeue, requested, s) = Tick (env\<lparr>acquire_request := acquired\<rparr>) sd (wrapped w);
              m = (if requested then m' else m)
          in (requeue, on_wrapper p (\<lambda>w. (False, w\<lparr>wrapped := s\<rparr>)) m))"

definition NotifyClosedByPeer :: "pid \<Rightarrow> ('d, 'h, 'g) MessagePassingServer \<Rightarrow> ('d, 'h, 'g) MessagePassingServer" where
  "NotifyClosedByPeer p m = on_wrapper p (\<lambda>w. (False, w\<lparr>wrapped := OnClosedByPeer (wrapped w)\<rparr>)) m"

definition worker_ticks ::
  "tick_world \<Rightarrow> pid \<Rightarrow> bool \<Rightarrow> ('d, 'h, 'g) MessagePassingServer \<Rightarrow> bool \<times> ('d, 'h, 'g) MessagePassingServer" where
  "worker_ticks world p by_peer m =
     (let m = (if by_peer then NotifyClosedByPeer p m else m) in TickAtWorkerThread world p m)"

text \<open>The ticks that finish a session at once, until one does not ask for another.\<close>

partial_function (option) finish_ticks ::
  "(nat \<Rightarrow> tick_world) \<Rightarrow> nat \<Rightarrow> pid \<Rightarrow> ('d, 'h, 'g) MessagePassingServer \<Rightarrow> ('d, 'h, 'g) MessagePassingServer option" where
  "finish_ticks worlds k p m =
     (case TickAtWorkerThread (worlds k) p m of
        (requeue, m) \<Rightarrow> if requeue then finish_ticks worlds (Suc k) p m else Some m)"

text \<open>What follows a tick, under the mutex again; \<open>None\<close> when it would not end.\<close>

definition worker_finishes ::
  "(nat \<Rightarrow> tick_world) \<Rightarrow> pid \<Rightarrow> bool \<Rightarrow> bool \<Rightarrow> ('d, 'h, 'g) MessagePassingServer \<Rightarrow> ('d, 'h, 'g) MessagePassingServer option" where
  "worker_finishes worlds p by_peer requeue m =
     (case find_wrapper p m of
        None \<Rightarrow> Some m
      | Some w \<Rightarrow>
          if to_force_finish w then
            let (requeue, m) = (if \<not> by_peer then (True, NotifyClosedByPeer p m) else (requeue, m)) in
            case (if requeue then finish_ticks worlds 0 p m else Some m) of
              None \<Rightarrow> None
            | Some m \<Rightarrow> Some ((extract_session p m)\<lparr>session_finishing := False\<rparr>)
          else
            let (again, w') = ResetRunningWhileLocked requeue w; m' = set_wrapper p w' m in
            if again then Some (EnqueueTickWhileLocked p m')
            else if to_delete w' then Some (extract_session p m')
            else Some m')"

end
