(* ===== verification/PassingProperties.thy ===== *)
theory PassingProperties
  imports PassingServer
begin

text \<open>
  The server for logging processes under every interleaving of its two threads: the queue
  of the worker, the end of sessions and the requests.
\<close>

section \<open>The contract of a session\<close>

text \<open>
  What the server relies on (class \<^verbatim>\<open>MessagePassingServer::ISession\<close>): a tick does not ask to be
  repeated, the tick after the news that the process has gone closes the session, and a
  closed session stays closed.
\<close>

locale ticked_session =
  fixes tick :: "'w \<Rightarrow> 's \<Rightarrow> bool \<times> bool \<times> 's" and on_closed :: "'s \<Rightarrow> 's" and closed :: "'s \<Rightarrow> bool"
  assumes tick_ends: "tick w s = (requeue, asked, s') \<Longrightarrow> \<not> requeue"
    and tick_closes: "tick w (on_closed s) = (requeue, asked, s') \<Longrightarrow> closed s' \<and> \<not> asked"
    and tick_keeps: "closed s \<Longrightarrow> tick w s = (requeue, asked, s') \<Longrightarrow> closed s' \<and> \<not> asked"
begin

lemma closed_for_good: "closed (fold (\<lambda>w s. snd (snd (tick w s))) (w # ws) (on_closed s))"
proof -
  have "closed s \<Longrightarrow> closed (fold (\<lambda>w s. snd (snd (tick w s))) ws s)" for s
  proof (induction ws arbitrary: s)
    case (Cons w ws)
    then show ?case using tick_keeps [of s w] by (cases "tick w s") simp
  qed simp
  then show ?thesis using tick_closes [of w s] by (cases "tick w (on_closed s)") simp
qed

end

interpretation source: ticked_session "\<lambda>(env, sd). Tick env sd" OnClosedByPeer IsSourceClosed
proof
  fix w :: "TickEnv \<times> SharedData" and s s' :: "('a, 'b, 'c) SourceSession" and requeue asked
  obtain env sd where w: "w = (env, sd)" by (cases w)
  show "\<not> requeue" if "(case w of (env, sd) \<Rightarrow> Tick env sd) s = (requeue, asked, s')"
    using that by (auto simp: w Tick_def split: if_splits prod.splits)
  show "IsSourceClosed s' \<and> \<not> asked" if "IsSourceClosed s" "(case w of (env, sd) \<Rightarrow> Tick env sd) s = (requeue, asked, s')"
    using that by (simp add: w Tick_def IsSourceClosed_def)
  show "IsSourceClosed s' \<and> \<not> asked" if t: "(case w of (env, sd) \<Rightarrow> Tick env sd) (OnClosedByPeer s) = (requeue, asked, s')"
  proof (cases "IsSourceClosed (OnClosedByPeer s)")
    case True
    then show ?thesis using t by (simp add: w Tick_def IsSourceClosed_def)
  next
    case False
    obtain fin evs rest r where reads: "tick_reads sd (OnClosedByPeer s) = (fin, evs, rest, r)" by (cases "tick_reads sd (OnClosedByPeer s)")
    have "\<not> detach_on_closed_processed (local_subscriber_data (OnClosedByPeer s))" using False by (simp add: IsSourceClosed_def)
    note live = Tick_live(3,9) [OF this reads, of env requeue asked s'] t
    have "command_detach_on_closed (command_data (OnClosedByPeer s))" by (simp add: OnClosedByPeer_def upd_cmd_def)
    then show ?thesis using live by (auto simp: w IsSourceClosed_def)
  qed
qed

section \<open>The threads\<close>

datatype phase = Waiting | Taken pid bool | Ticked pid bool bool

fun phase_pid :: "phase \<Rightarrow> pid option" where
  "phase_pid Waiting = None" | "phase_pid (Taken p by_peer) = Some p" | "phase_pid (Ticked p by_peer requeue) = Some p"

fun phase_closing :: "phase \<Rightarrow> bool" where
  "phase_closing Waiting = False" | "phase_closing (Taken p by_peer) = by_peer" | "phase_closing (Ticked p by_peer requeue) = by_peer"

fun phase_requeue :: "phase \<Rightarrow> bool" where
  "phase_requeue (Ticked p by_peer requeue) = requeue" | "phase_requeue _ = False"

datatype thread = Client pid | Worker

inductive mp_step ::
  "(pid \<Rightarrow> ConnectMessageFromClient \<Rightarrow> ('d, 'h, 'g) SourceSession option) \<Rightarrow> thread \<Rightarrow>
   ('d, 'h, 'g) MessagePassingServer \<times> phase \<Rightarrow> ('d, 'h, 'g) MessagePassingServer \<times> phase \<Rightarrow> bool"
  for factory where
  connects: "mp_step factory (Client p) (m, ph) (connect_callback p m, ph)"
| disconnects: "mp_step factory (Client p) (m, ph) (disconnect_callback p m, ph)"
| sends: "mp_step factory (Client p) (m, ph) (MessageCallback factory c message p m, ph)"
| wakes: "mp_step factory Worker (m, Waiting) (snd (worker_wakes now t1 m), Waiting)"
| takes: "worker_takes m = Took p by_peer m' \<Longrightarrow> mp_step factory Worker (m, Waiting) (m', Taken p by_peer)"
| ticks: "worker_ticks world p by_peer m = (requeue, m') \<Longrightarrow>
    mp_step factory Worker (m, Taken p by_peer) (m', Ticked p by_peer requeue)"
| finishes: "worker_finishes worlds p by_peer requeue m = Some m' \<Longrightarrow>
    mp_step factory Worker (m, Ticked p by_peer requeue) (m', Waiting)"

inductive mp_run ::
  "(pid \<Rightarrow> ConnectMessageFromClient \<Rightarrow> ('d, 'h, 'g) SourceSession option) \<Rightarrow> (thread \<Rightarrow> bool) \<Rightarrow>
   ('d, 'h, 'g) MessagePassingServer \<times> phase \<Rightarrow> ('d, 'h, 'g) MessagePassingServer \<times> phase \<Rightarrow> bool"
  for factory allowed st where
  mp_start: "mp_run factory allowed st st"
| mp_next: "mp_run factory allowed st st' \<Longrightarrow> allowed t \<Longrightarrow> mp_step factory t st' st'' \<Longrightarrow> mp_run factory allowed st st''"

section \<open>Wrappers in the map\<close>

lemma find_simps [simp]:
  "find_wrapper p (m\<lparr>work_queue := q\<rparr>) = find_wrapper p m" "find_wrapper p (m\<lparr>disconnected_pids := ds\<rparr>) = find_wrapper p m"
  "find_wrapper p (m\<lparr>notified := n\<rparr>) = find_wrapper p m" "find_wrapper p (m\<lparr>server_stop_requested := b\<rparr>) = find_wrapper p m"
  "find_wrapper p (m\<lparr>connection_timeout := t\<rparr>) = find_wrapper p m" "find_wrapper p (m\<lparr>session_finishing := f\<rparr>) = find_wrapper p m"
  "find_wrapper p (EnqueueTickWhileLocked k m) = find_wrapper p m"
  by (simp_all add: find_wrapper_def EnqueueTickWhileLocked_def)

lemma find_set_wrapper: "find_wrapper k (set_wrapper p w m) = (if k = p \<and> find_wrapper p m \<noteq> None then Some w else find_wrapper k m)"
proof -
  have "map_of (map (\<lambda>(k, v). if k = p then (k, w) else (k, v)) xs) k = (if k = p \<and> map_of xs p \<noteq> None then Some w else map_of xs k)" for xs
    by (induction xs) auto
  then show ?thesis by (simp add: find_wrapper_def set_wrapper_def)
qed

lemma map_of_without: "map_of (filter (\<lambda>(k, v). k \<noteq> p) xs) k = (if k = p then None else map_of xs k)"
  by (induction xs) auto

lemma find_extract: "find_wrapper k (extract_session p m) = (if k = p then None else find_wrapper k m)"
  by (simp add: find_wrapper_def extract_session_def map_of_without)

lemma queue_simps [simp]:
  "work_queue (set_wrapper p w m) = work_queue m" "work_queue (EnqueueTickWhileLocked p m) = work_queue m @ [p]"
  "work_queue (extract_session p m) = work_queue m" "notified (set_wrapper p w m) = notified m"
  "notified (EnqueueTickWhileLocked p m) = notified m" "notified (extract_session p m) = notified m"
  by (simp_all add: set_wrapper_def EnqueueTickWhileLocked_def extract_session_def)

lemma on_wrapper_eq:
  assumes "find_wrapper p m = Some w" "f w = (push, w')"
  shows "find_wrapper k (on_wrapper p f m) = (if k = p then Some w' else find_wrapper k m)"
    "work_queue (on_wrapper p f m) = work_queue m @ (if push then [p] else [])" "notified (on_wrapper p f m) = notified m"
  using assms by (auto simp: on_wrapper_def find_set_wrapper Let_def)

lemma on_wrapper_none [simp]: "find_wrapper p m = None \<Longrightarrow> on_wrapper p f m = m"
  by (simp add: on_wrapper_def)

section \<open>The invariant of the queue\<close>

text \<open>
  A wrapper is running exactly while the worker has it; one that is marked for deletion is in
  the queue or with the worker, and its session has been or will be told that the process
  has gone.
\<close>

definition wrapper_ok :: "phase \<Rightarrow> pid \<Rightarrow> ('d, 'h, 'g) SessionWrapper \<Rightarrow> bool" where
  "wrapper_ok ph p w \<longleftrightarrow> (running w \<longleftrightarrow> phase_pid ph = Some p) \<and> (to_force_finish w \<or> closed_by_peer w \<longrightarrow> to_delete w) \<and>
     (to_delete w \<longrightarrow> (enqueued w \<or> running w) \<and> (closed_by_peer w \<or> running w \<and> phase_closing ph)) \<and>
     (running w \<and> phase_closing ph \<longrightarrow> to_delete w \<and> \<not> enqueued w)"

definition mp_ok :: "('d, 'h, 'g) MessagePassingServer \<times> phase \<Rightarrow> bool" where
  "mp_ok = (\<lambda>(m, ph). distinct (work_queue m) \<and> distinct (map fst (pid_session_map m)) \<and>
     (\<forall>p. p \<in> set (work_queue m) \<longleftrightarrow> (\<exists>w. find_wrapper p m = Some w \<and> enqueued w \<and> \<not> running w)) \<and>
     (\<forall>p. phase_pid ph = Some p \<longrightarrow> find_wrapper p m \<noteq> None) \<and>
     (\<forall>p w. find_wrapper p m = Some w \<longrightarrow> wrapper_ok ph p w) \<and> \<not> phase_requeue ph)"

lemma keys_simps [simp]:
  "map fst (pid_session_map (set_wrapper p w m)) = map fst (pid_session_map m)"
  "pid_session_map (EnqueueTickWhileLocked p m) = pid_session_map m"
  "map fst (pid_session_map (on_wrapper p f m)) = map fst (pid_session_map m)"
  by (auto simp: set_wrapper_def EnqueueTickWhileLocked_def on_wrapper_def Let_def split: option.split prod.split)

text \<open>An operation on one wrapper that keeps its share of the invariant keeps the whole.\<close>

lemma mp_ok_on_wrapper:
  assumes "mp_ok (m, ph)"
    and "\<And>w push w'. find_wrapper p m = Some w \<Longrightarrow> wrapper_ok ph p w \<Longrightarrow> f w = (push, w') \<Longrightarrow>
      wrapper_ok ph p w' \<and> (if push then \<not> enqueued w \<and> enqueued w' \<and> \<not> running w' \<and> \<not> running w
        else (enqueued w' \<and> \<not> running w') = (enqueued w \<and> \<not> running w))"
  shows "mp_ok (on_wrapper p f m, ph)"
proof (cases "find_wrapper p m")
  case (Some w)
  obtain push w' where f: "f w = (push, w')" by (cases "f w")
  note eq = on_wrapper_eq [where f = f, OF Some f]
  have "wrapper_ok ph p w" using assms(1) Some by (simp add: mp_ok_def)
  note step = assms(2) [OF Some this f]
  show ?thesis
    using assms(1) Some step unfolding mp_ok_def prod.case keys_simps eq
    by (auto split: if_splits)
qed (use assms(1) in simp)

lemma EnqueueForDelete_ok:
  assumes "wrapper_ok ph p w" "EnqueueForDeleteWhileLocked True w = (push, w')"
  shows "wrapper_ok ph p w' \<and> (if push then \<not> enqueued w \<and> enqueued w' \<and> \<not> running w' \<and> \<not> running w
        else (enqueued w' \<and> \<not> running w') = (enqueued w \<and> \<not> running w))"
  using assms by (auto simp: EnqueueForDeleteWhileLocked_def wrapper_ok_def Let_def split: if_splits)

lemma EnqueueTick_ok:
  assumes "wrapper_ok ph p w" "Wrapper_EnqueueTickWhileLocked w = (push, w')"
  shows "wrapper_ok ph p w' \<and> (if push then \<not> enqueued w \<and> enqueued w' \<and> \<not> running w' \<and> \<not> running w
        else (enqueued w' \<and> \<not> running w') = (enqueued w \<and> \<not> running w))"
  using assms by (auto simp: Wrapper_EnqueueTickWhileLocked_def wrapper_ok_def split: if_splits)

lemma wrapper_ok_fields [simp]:
  "wrapper_ok ph p (w\<lparr>wrapped := s\<rparr>) = wrapper_ok ph p w" "wrapper_ok ph p (w\<lparr>acquire_in_flight := a\<rparr>) = wrapper_ok ph p w"
  "wrapper_ok ph p (w\<lparr>acquire_deadline := b\<rparr>) = wrapper_ok ph p w" "wrapper_ok ph p (w\<lparr>acquire_miss_count := c\<rparr>) = wrapper_ok ph p w"
  "wrapper_ok ph p (w\<lparr>connection := d\<rparr>) = wrapper_ok ph p w"
  by (simp_all add: wrapper_ok_def)

lemma mp_ok_fields [simp]:
  "mp_ok (m\<lparr>disconnected_pids := ds\<rparr>, ph) = mp_ok (m, ph)" "mp_ok (m\<lparr>notified := n\<rparr>, ph) = mp_ok (m, ph)"
  "mp_ok (m\<lparr>server_stop_requested := b\<rparr>, ph) = mp_ok (m, ph)" "mp_ok (m\<lparr>connection_timeout := t\<rparr>, ph) = mp_ok (m, ph)"
  "mp_ok (m\<lparr>session_finishing := f\<rparr>, ph) = mp_ok (m, ph)"
  by (simp_all add: mp_ok_def)

lemma mp_ok_delete: "mp_ok (m, ph) \<Longrightarrow> mp_ok (on_wrapper p (EnqueueForDeleteWhileLocked True) m, ph)"
  by (erule mp_ok_on_wrapper, rule EnqueueForDelete_ok)

lemma mp_ok_tick: "mp_ok (m, ph) \<Longrightarrow> mp_ok (on_wrapper p Wrapper_EnqueueTickWhileLocked m, ph)"
  by (erule mp_ok_on_wrapper, rule EnqueueTick_ok)

lemma mp_ok_set:
  assumes "mp_ok (m, ph)" "find_wrapper p m = Some w" "wrapper_ok ph p w'" "enqueued w' = enqueued w" "running w' = running w"
  shows "mp_ok (set_wrapper p w' m, ph)"
proof -
  have "set_wrapper p w' m = on_wrapper p (\<lambda>_. (False, w')) m" using assms(2) by (simp add: on_wrapper_def)
  then show ?thesis using mp_ok_on_wrapper [OF assms(1), of p "\<lambda>_. (False, w')"] assms by simp
qed

section \<open>The steps keep it\<close>

lemma mp_ok_disconnect:
  assumes "mp_ok (m, ph)"
  shows "mp_ok (disconnect_callback p m, ph)"
proof -
  have "mp_ok (m\<lparr>disconnected_pids := List.insert p (disconnected_pids m)\<rparr>, ph)" using assms by simp
  then show ?thesis unfolding disconnect_callback_def Let_def
    by (rule mp_ok_on_wrapper) (auto simp: EnqueueForDeleteWhileLocked_def wrapper_ok_def Let_def split: if_splits)
qed

lemma mp_ok_new_session:
  assumes "mp_ok (m, ph)" "find_wrapper p m = None"
  shows "mp_ok (on_wrapper p Wrapper_EnqueueTickWhileLocked
    (m\<lparr>pid_session_map := pid_session_map m @ [(p, (NewSessionWrapper s)\<lparr>connection := Some c\<rparr>)]\<rparr>), ph)"
proof -
  let ?m = "m\<lparr>pid_session_map := pid_session_map m @ [(p, (NewSessionWrapper s)\<lparr>connection := Some c\<rparr>)]\<rparr>"
  have find: "find_wrapper k ?m = (if k = p then Some ((NewSessionWrapper s)\<lparr>connection := Some c\<rparr>) else find_wrapper k m)" for k
    using assms(2) by (auto simp: find_wrapper_def map_add_def split: option.splits)
  have new: "p \<notin> set (work_queue m)" "phase_pid ph \<noteq> Some p" using assms by (auto simp: mp_ok_def)
  have key: "p \<notin> set (map fst (pid_session_map m))" using assms(2) by (simp add: find_wrapper_def map_of_eq_None_iff)
  have "mp_ok (?m, ph)"
    using assms(1) new key unfolding mp_ok_def prod.case find by (auto simp: NewSessionWrapper_def wrapper_ok_def)
  then show ?thesis by (rule mp_ok_tick)
qed

lemma mp_ok_message:
  assumes "mp_ok (m, ph)"
  shows "mp_ok (MessageCallback factory c message p m, ph)"
proof -
  have response: "mp_ok (Server_OnAcquireResponse c payload p m, ph)" for payload
  proof -
    have "mp_ok (on_wrapper p (\<lambda>w. Wrapper_EnqueueTickWhileLocked
            (w\<lparr>wrapped := OnAcquireResponse (acquire_of_image payload) (wrapped w),
              acquire_in_flight := False, acquire_deadline := None, acquire_miss_count := 0\<rparr>)) m, ph)"
      using assms by (rule mp_ok_on_wrapper) (auto simp: Wrapper_EnqueueTickWhileLocked_def wrapper_ok_def split: if_splits)
    with assms show ?thesis by (simp add: Server_OnAcquireResponse_def split: option.split)
  qed
  have "mp_ok (OnConnectRequest factory c payload p m, ph)" for payload
    using assms mp_ok_new_session [OF assms]
    by (auto simp: OnConnectRequest_def Let_def split: option.split)
  with response assms show ?thesis by (simp add: MessageCallback_def split: list.split)
qed

lemma mp_ok_visit:
  assumes "mp_ok (m, ph)"
  shows "mp_ok (visit_session now p m, ph)"
proof (cases "find_wrapper p m")
  case (Some w)
  let ?w = "w\<lparr>acquire_in_flight := False, acquire_miss_count := acquire_miss_count w + 1, acquire_deadline := None\<rparr>"
  have "wrapper_ok ph p w" using assms Some by (simp add: mp_ok_def)
  then have "mp_ok (set_wrapper p ?w m, ph)" by (intro mp_ok_set [OF assms Some]) simp_all
  note set = mp_ok_delete [OF this, of p] mp_ok_tick [OF this, of p]
  show ?thesis
    using Some set mp_ok_delete [OF assms, of p] mp_ok_tick [OF assms, of p] by (simp add: visit_session_def Let_def)
qed (use assms in \<open>simp add: visit_session_def\<close>)

lemma mp_ok_wakes:
  assumes "mp_ok (m, Waiting)"
  shows "mp_ok (snd (worker_wakes now t1 m), Waiting)"
proof -
  have "mp_ok (m, Waiting) \<Longrightarrow> mp_ok (fold (visit_session now) ps m, Waiting)" for ps and m :: "('a, 'b, 'c) MessagePassingServer"
    by (induction ps arbitrary: m) (simp_all add: mp_ok_visit)
  with assms show ?thesis by (simp add: worker_wakes_def Let_def)
qed

lemma mp_ok_takes:
  assumes "mp_ok (m, Waiting)" "worker_takes m = Took p by_peer m'"
  shows "mp_ok (m', Taken p by_peer)"
proof -
  obtain rest w where q: "work_queue m = p # rest" "find_wrapper p m = Some w" "by_peer = closed_by_peer w"
    "m' = set_wrapper p (w\<lparr>enqueued := False, running := True, closed_by_peer := False\<rparr>) (m\<lparr>work_queue := rest\<rparr>)"
    using assms(2) by (auto simp: worker_takes_def GetResetClosedByPeer_def SetRunningWhileLocked_def Let_def split: list.splits option.splits)
  have "wrapper_ok Waiting p w" using assms(1) q by (simp add: mp_ok_def)
  note w = this
  let ?w = "w\<lparr>enqueued := False, running := True, closed_by_peer := False\<rparr>"
  have find: "find_wrapper k m' = (if k = p then Some ?w else find_wrapper k m)" for k
    using q(2) by (simp add: q(4) find_set_wrapper)
  have others: "wrapper_ok (Taken p by_peer) k v" if "find_wrapper k m = Some v" "k \<noteq> p" for k v
    using assms(1) that by (auto simp: mp_ok_def wrapper_ok_def)
  have "wrapper_ok (Taken p by_peer) p ?w" using w by (auto simp: wrapper_ok_def q(3))
  moreover have "distinct rest" "p \<notin> set rest" "distinct (map fst (pid_session_map m'))" "work_queue m' = rest"
    using assms(1) q(1) by (auto simp: mp_ok_def q(4))
  moreover have "k \<in> set rest \<longleftrightarrow> (\<exists>v. find_wrapper k m' = Some v \<and> enqueued v \<and> \<not> running v)" for k
    using assms(1) q(1) calculation(3) by (cases "k = p") (auto simp: mp_ok_def find)
  ultimately show ?thesis using others unfolding mp_ok_def by (auto simp: find)
qed

lemma mp_ok_NotifyAcquireRequest:
  assumes "mp_ok (m, ph)"
  shows "mp_ok (snd (NotifyAcquireRequest ret now p m), ph)"
proof (cases "find_wrapper p m")
  case (Some w)
  then have "wrapper_ok ph p w" using assms by (simp add: mp_ok_def)
  then have "mp_ok (set_wrapper p (w\<lparr>acquire_in_flight := True, acquire_deadline := t\<rparr>) (m\<lparr>notified := n\<rparr>), ph)" for t n
    using Some assms by (intro mp_ok_set [where w = w]) simp_all
  then show ?thesis
    using assms Some mp_ok_delete [OF assms, of p] by (simp add: NotifyAcquireRequest_def split: NotifyResult.split)
qed (use assms in \<open>simp add: NotifyAcquireRequest_def\<close>)

lemma mp_ok_wrapped: "mp_ok (m, ph) \<Longrightarrow> mp_ok (on_wrapper p (\<lambda>w. (False, w\<lparr>wrapped := f w\<rparr>)) m, ph)"
  by (erule mp_ok_on_wrapper) auto

lemma mp_ok_TickAtWorkerThread:
  assumes "mp_ok (m, ph)"
  shows "mp_ok (snd (TickAtWorkerThread world p m), ph)"
proof (cases "find_wrapper p m")
  case (Some w)
  obtain env sd ret now where world: "world = (env, sd, ret, now)" by (cases world)
  obtain ok m' where n: "NotifyAcquireRequest ret now p m = (ok, m')" by (cases "NotifyAcquireRequest ret now p m")
  obtain requeue requested s where t: "Tick (env\<lparr>acquire_request := ok\<rparr>) sd (wrapped w) = (requeue, requested, s)"
    by (cases "Tick (env\<lparr>acquire_request := ok\<rparr>) sd (wrapped w)")
  have "mp_ok (if requested then m' else m, ph)" using assms mp_ok_NotifyAcquireRequest [OF assms, of ret now p] n by simp
  from mp_ok_wrapped [OF this] show ?thesis by (simp add: TickAtWorkerThread_def world Some n t Let_def)
qed (use assms in \<open>simp add: TickAtWorkerThread_def split: prod.split\<close>)

lemma wrapper_ok_ticked: "wrapper_ok (Ticked p by_peer requeue) k w = wrapper_ok (Taken p by_peer) k w"
  by (simp add: wrapper_ok_def)

lemma mp_ok_ticks:
  assumes "mp_ok (m, Taken p by_peer)" "worker_ticks world p by_peer m = (requeue, m')"
  shows "mp_ok (m', Ticked p by_peer requeue)" "\<not> requeue"
proof -
  let ?m = "if by_peer then NotifyClosedByPeer p m else m"
  have "mp_ok (?m, Taken p by_peer)" using assms(1) mp_ok_wrapped [OF assms(1)] by (cases by_peer) (simp_all add: NotifyClosedByPeer_def)
  from mp_ok_TickAtWorkerThread [OF this, of world p]
  have "mp_ok (m', Taken p by_peer)" using assms(2) by (simp add: worker_ticks_def Let_def)
  note taken = this
  show "\<not> requeue"
    using assms(2) by (auto simp: worker_ticks_def TickAtWorkerThread_def Let_def Tick_def split: prod.splits option.splits if_splits)
  with taken show "mp_ok (m', Ticked p by_peer requeue)" by (simp add: mp_ok_def wrapper_ok_ticked)
qed

text \<open>A session that is to be finished at once is finished by one tick.\<close>

lemma TickAtWorkerThread_once: "\<not> fst (TickAtWorkerThread world p m)"
  by (auto simp: TickAtWorkerThread_def Let_def Tick_def split: prod.splits option.splits if_splits)

lemma finish_ticks_once: "finish_ticks worlds k p m = Some (snd (TickAtWorkerThread (worlds k) p m))"
proof -
  obtain requeue m' where t: "TickAtWorkerThread (worlds k) p m = (requeue, m')" by (cases "TickAtWorkerThread (worlds k) p m")
  with TickAtWorkerThread_once [of "worlds k" p m] have "\<not> requeue" by simp
  with t show ?thesis by (subst finish_ticks.simps) simp
qed

lemma keys_extract: "distinct (map fst (pid_session_map m)) \<Longrightarrow> distinct (map fst (pid_session_map (extract_session p m)))"
  by (auto simp: extract_session_def distinct_map inj_on_def)

lemma mp_ok_extract:
  assumes "mp_ok (m, ph)" "phase_pid ph = Some p"
  shows "mp_ok (extract_session p m, Waiting)"
proof -
  have other: "wrapper_ok Waiting k w" if "find_wrapper k m = Some w" "k \<noteq> p" for k w
    using assms that by (auto simp: mp_ok_def wrapper_ok_def)
  have "p \<notin> set (work_queue m)" using assms by (auto simp: mp_ok_def wrapper_ok_def)
  then show ?thesis
    using assms(1) other keys_extract [of m p] unfolding mp_ok_def by (auto simp: find_extract)
qed

lemma mp_ok_finishes:
  assumes "mp_ok (m, Ticked p by_peer requeue)" "worker_finishes worlds p by_peer requeue m = Some m'"
  shows "mp_ok (m', Waiting)"
proof -
  let ?ph = "Ticked p by_peer requeue"
  obtain w where w: "find_wrapper p m = Some w" "wrapper_ok ?ph p w" using assms(1) by (auto simp: mp_ok_def)
  have rq: "\<not> requeue" using assms(1) by (simp add: mp_ok_def)
  note ext = mp_ok_extract [where ph = ?ph and p = p, simplified]
  show ?thesis
  proof (cases "to_force_finish w")
    case True
    have closed: "mp_ok (NotifyClosedByPeer p m, ?ph)" using mp_ok_wrapped [OF assms(1)] by (simp add: NotifyClosedByPeer_def)
    note ticked = mp_ok_TickAtWorkerThread [OF closed, of "worlds 0" p] mp_ok_TickAtWorkerThread [OF assms(1), of "worlds 0" p]
    show ?thesis
      using assms w True ext [OF ticked(1)] ext [OF ticked(2)] ext [OF assms(1)]
      by (cases by_peer; cases requeue) (auto simp: worker_finishes_def finish_ticks_once Let_def)
  next
    case False
    obtain again w' where r: "ResetRunningWhileLocked requeue w = (again, w')" by (cases "ResetRunningWhileLocked requeue w")
    have w': "w' = w\<lparr>running := False, enqueued := again\<rparr>" "again = (enqueued w \<or> requeue \<or> closed_by_peer w)"
      using r by (auto simp: ResetRunningWhileLocked_def Let_def split: if_splits)
    have flags: "enqueued w' = again" "\<not> running w'" by (simp_all add: w')
    let ?m = "set_wrapper p w' m"
    have find: "find_wrapper k ?m = (if k = p then Some w' else find_wrapper k m)" for k using w(1) by (simp add: find_set_wrapper)
    have other: "wrapper_ok Waiting k v" if "find_wrapper k m = Some v" "k \<noteq> p" for k v
      using assms(1) that by (auto simp: mp_ok_def wrapper_ok_def)
    have out: "p \<notin> set (work_queue m)" using assms(1) w by (auto simp: mp_ok_def wrapper_ok_def)
    have keys: "distinct (map fst (pid_session_map ?m))" using assms(1) by (simp add: mp_ok_def)
    have queue: "k \<in> set (work_queue m) \<longleftrightarrow> (\<exists>v. find_wrapper k m = Some v \<and> enqueued v \<and> \<not> running v)" "distinct (work_queue m)" for k
      using assms(1) by (auto simp: mp_ok_def)
    consider (again) "again" "m' = EnqueueTickWhileLocked p ?m" | (delete) "\<not> again" "to_delete w'" "m' = extract_session p ?m"
      | (stay) "\<not> again" "\<not> to_delete w'" "m' = ?m"
      using assms(2) w(1) False r by (auto simp: worker_finishes_def Let_def split: if_splits)
    then show ?thesis
    proof cases
      case again
      have "wrapper_ok Waiting p w'" using w(2) again w' rq by (auto simp: wrapper_ok_def)
      with again other out keys queue flags show ?thesis unfolding mp_ok_def by (auto simp: find)
    next
      case delete
      with other out keys_extract [OF keys, of p] queue show ?thesis unfolding mp_ok_def by (auto simp: find find_extract)
    next
      case stay
      have "wrapper_ok Waiting p w'" using w(2) stay w' by (auto simp: wrapper_ok_def)
      with stay other out keys queue flags show ?thesis unfolding mp_ok_def by (auto simp: find)
    qed
  qed
qed

lemma mp_ok_step:
  assumes "mp_step factory t st st'" "mp_ok st"
  shows "mp_ok st'"
  using assms
proof (induction rule: mp_step.induct)
  case (connects p m ph)
  then show ?case by (simp add: connect_callback_def)
qed (simp_all add: mp_ok_disconnect mp_ok_message mp_ok_wakes mp_ok_takes mp_ok_ticks mp_ok_finishes)

lemma mp_ok_run: "mp_run factory allowed st st' \<Longrightarrow> mp_ok st \<Longrightarrow> mp_ok st'"
  by (induction rule: mp_run.induct) (auto intro: mp_ok_step)

lemma mp_ok_new: "mp_ok (NewMessagePassingServer deadline misses, Waiting)"
  by (simp add: mp_ok_def NewMessagePassingServer_def find_wrapper_def)

section \<open>Properties\<close>

text \<open>C10: The queue of the worker is sound under every interleaving of callbacks and worker: an
  entry that the worker takes is always in the map of sessions, no session is queued
  twice, the session the worker is ticking is not destroyed under it, a session with work
  to do is in the queue or with the worker, and so is every session that is to be deleted.\<close>

theorem worker_queue_sound:
  assumes "mp_run factory (\<lambda>_. True) (NewMessagePassingServer deadline misses, Waiting) (m, ph)"
  shows "worker_takes m \<noteq> OutOfRange \<and> distinct (work_queue m) \<and> distinct (map fst (pid_session_map m)) \<and>
    (\<forall>p. phase_pid ph = Some p \<longrightarrow> find_wrapper p m \<noteq> None) \<and>
    (\<forall>p w. find_wrapper p m = Some w \<and> (enqueued w \<or> to_delete w) \<longrightarrow> p \<in> set (work_queue m) \<or> phase_pid ph = Some p)"
proof -
  have ok: "mp_ok (m, ph)" using mp_ok_run [OF assms mp_ok_new] .
  have "worker_takes m \<noteq> OutOfRange"
  proof (cases "work_queue m")
    case (Cons p rest)
    then obtain w where "find_wrapper p m = Some w" using ok unfolding mp_ok_def by force
    then show ?thesis using Cons by (simp add: worker_takes_def GetResetClosedByPeer_def Let_def)
  qed (simp add: worker_takes_def)
  moreover have "p \<in> set (work_queue m) \<or> phase_pid ph = Some p"
    if "find_wrapper p m = Some w" "enqueued w \<or> to_delete w" for p w
    using ok that by (auto simp: mp_ok_def wrapper_ok_def)
  ultimately show ?thesis using ok by (auto simp: mp_ok_def)
qed

text \<open>A process with pid 7 that has connected.\<close>

definition example_factory :: "pid \<Rightarrow> ConnectMessageFromClient \<Rightarrow> (nat, string, string) SourceSession option" where
  "example_factory p conn = Some example_session"

definition example_mp :: "(nat, string, string) MessagePassingServer" where
  "example_mp = MessageCallback example_factory 1 (0 # replicate 16 0) 7 (NewMessagePassingServer 1000 3)"

lemma example_mp_run: "mp_run example_factory (\<lambda>_. True) (NewMessagePassingServer 1000 3, Waiting) (example_mp, Waiting)"
  unfolding example_mp_def by (rule mp_next [OF mp_start TrueI sends])

lemma example_mp_eq:
  "example_mp = (NewMessagePassingServer 1000 3)\<lparr>pid_session_map := [(7, (NewSessionWrapper example_session)\<lparr>connection := Some 1, enqueued := True\<rparr>)],
     work_queue := [7]\<rparr>"
  by (simp add: example_mp_def MessageCallback_def OnConnectRequest_def sizeof_ConnectMessage_def NewMessagePassingServer_def find_wrapper_def
      example_factory_def on_wrapper_def Wrapper_EnqueueTickWhileLocked_def NewSessionWrapper_def EnqueueTickWhileLocked_def set_wrapper_def Let_def)

theorem worker_queue_sound_witness:
  "worker_takes example_mp \<noteq> OutOfRange \<and> distinct (work_queue example_mp) \<and> 7 \<in> set (work_queue example_mp)"
  using worker_queue_sound [OF example_mp_run] by (simp add: example_mp_eq)

lemma on_wrapper_session:
  assumes "find_wrapper p m = Some w"
  shows "find_wrapper p (on_wrapper p (\<lambda>w. (False, w\<lparr>wrapped := f w\<rparr>)) m) = Some (w\<lparr>wrapped := f w\<rparr>)"
  using assms by (simp add: on_wrapper_def find_set_wrapper)

text \<open>C26: A session whose process has gone is drained and removed. In any reachable state, when the
  worker takes the entry of a session that is marked for deletion, the session is told
  that its process has gone, its tick closes it, and the worker ends with the session out
  of the map; the final ticks return.\<close>

theorem deleted_session_drained_and_removed:
  assumes "mp_run factory (\<lambda>_. True) (NewMessagePassingServer deadline misses, Waiting) (m, Waiting)"
    and "work_queue m = p # rest" "find_wrapper p m = Some w" "to_delete w"
  shows "\<exists>m1 m2 w2 m3. worker_takes m = Took p True m1 \<and> worker_ticks world p True m1 = (False, m2) \<and>
    find_wrapper p m2 = Some w2 \<and> IsSourceClosed (wrapped w2) \<and>
    worker_finishes worlds p True False m2 = Some m3 \<and> find_wrapper p m3 = None \<and> p \<notin> set (work_queue m3)"
proof -
  have ok: "mp_ok (m, Waiting)" using mp_ok_run [OF assms(1) mp_ok_new] .
  have w: "closed_by_peer w" "enqueued w" "\<not> running w" using ok assms(3,4) by (auto simp: mp_ok_def wrapper_ok_def)
  let ?w1 = "w\<lparr>enqueued := False, running := True, closed_by_peer := False\<rparr>"
  define m1 where "m1 = set_wrapper p ?w1 (m\<lparr>work_queue := rest\<rparr>)"
  have takes: "worker_takes m = Took p True m1"
    using assms(2,3) w by (simp add: worker_takes_def GetResetClosedByPeer_def SetRunningWhileLocked_def m1_def)
  have ok1: "mp_ok (m1, Taken p True)" using mp_ok_takes [OF ok takes] .
  have find1: "find_wrapper p m1 = Some ?w1" using assms(3) by (simp add: m1_def find_set_wrapper)
  obtain env sd ret now where world: "world = (env, sd, ret, now)" by (cases world)
  let ?c = "NotifyClosedByPeer p m1" and ?s = "OnClosedByPeer (wrapped w)"
  have findc: "find_wrapper p ?c = Some (?w1\<lparr>wrapped := ?s\<rparr>)"
    using on_wrapper_session [OF find1] by (simp add: NotifyClosedByPeer_def)
  obtain a m' where n: "NotifyAcquireRequest ret now p ?c = (a, m')" by (cases "NotifyAcquireRequest ret now p ?c")
  obtain requeue asked s' where t: "Tick (env\<lparr>acquire_request := a\<rparr>) sd ?s = (requeue, asked, s')"
    by (cases "Tick (env\<lparr>acquire_request := a\<rparr>) sd ?s")
  have closed: "IsSourceClosed s'" "\<not> asked" "\<not> requeue"
    using source.tick_closes [of "(env\<lparr>acquire_request := a\<rparr>, sd)" "wrapped w"] source.tick_ends [of "(env\<lparr>acquire_request := a\<rparr>, sd)" ?s] t by auto
  define m2 where "m2 = on_wrapper p (\<lambda>w. (False, w\<lparr>wrapped := s'\<rparr>)) ?c"
  have ticks: "worker_ticks world p True m1 = (False, m2)"
    using closed findc n t by (simp add: worker_ticks_def TickAtWorkerThread_def world m2_def Let_def)
  have find2: "find_wrapper p m2 = Some (?w1\<lparr>wrapped := s'\<rparr>)"
    using on_wrapper_session [OF findc, of "\<lambda>_. s'"] by (simp add: m2_def)
  have ok2: "mp_ok (m2, Ticked p True False)" using mp_ok_ticks(1) [OF ok1 ticks] .
  define m3 where "m3 = (if to_force_finish w then (extract_session p m2)\<lparr>session_finishing := False\<rparr>
    else extract_session p (set_wrapper p (?w1\<lparr>wrapped := s', running := False\<rparr>) m2))"
  have fin: "worker_finishes worlds p True False m2 = Some m3"
    using find2 assms(4) by (simp add: worker_finishes_def ResetRunningWhileLocked_def Let_def m3_def)
  have gone: "find_wrapper p m3 = None" by (simp add: find_extract m3_def)
  have "mp_ok (m3, Waiting)" using mp_ok_finishes [OF ok2 fin] .
  with gone have "p \<notin> set (work_queue m3)" by (auto simp: mp_ok_def)
  with takes ticks find2 closed(1) fin gone show ?thesis
    by (intro exI [of _ m1] exI [of _ m2] exI [of _ "?w1\<lparr>wrapped := s'\<rparr>"] exI [of _ m3]) simp
qed

theorem deleted_session_drained_and_removed_witness:
  "\<exists>m1 m2 w2 m3. worker_takes (disconnect_callback 7 example_mp) = Took 7 True m1 \<and>
    worker_ticks (example_tick_env, example_buffer, NotifySent, 0) 7 True m1 = (False, m2) \<and>
    find_wrapper 7 m2 = Some w2 \<and> IsSourceClosed (wrapped w2) \<and>
    worker_finishes (\<lambda>_. (example_tick_env, example_buffer, NotifySent, 0)) 7 True False m2 = Some m3 \<and>
    find_wrapper 7 m3 = None \<and> 7 \<notin> set (work_queue m3)"
proof (rule deleted_session_drained_and_removed)
  show "mp_run example_factory (\<lambda>_. True) (NewMessagePassingServer 1000 3, Waiting) (disconnect_callback 7 example_mp, Waiting)"
    by (rule mp_next [OF example_mp_run TrueI disconnects])
  let ?w = "(NewSessionWrapper example_session)\<lparr>enqueued := True, to_delete := True, closed_by_peer := True, to_force_finish := True\<rparr>"
  have m: "disconnect_callback 7 example_mp = (NewMessagePassingServer 1000 3)\<lparr>pid_session_map := [(7, ?w)], work_queue := [7], disconnected_pids := [7]\<rparr>"
    by (simp add: disconnect_callback_def example_mp_eq on_wrapper_def find_wrapper_def EnqueueForDeleteWhileLocked_def NewSessionWrapper_def
        set_wrapper_def NewMessagePassingServer_def Let_def)
  show "work_queue (disconnect_callback 7 example_mp) = [7]" "find_wrapper 7 (disconnect_callback 7 example_mp) = Some ?w" "to_delete ?w"
    by (simp_all add: m find_wrapper_def)
qed

section \<open>Requests that are not answered\<close>

definition same_for :: "pid \<Rightarrow> ('d, 'h, 'g) MessagePassingServer \<Rightarrow> ('d, 'h, 'g) MessagePassingServer \<Rightarrow> bool" where
  "same_for p m m' \<longleftrightarrow> find_wrapper p m' = find_wrapper p m \<and> count_list (notified m') p = count_list (notified m) p"

lemma same_for_refl [simp]: "same_for p m m" by (simp add: same_for_def)

lemma same_for_trans: "same_for p m m' \<Longrightarrow> same_for p m' m'' \<Longrightarrow> same_for p m m''" by (simp add: same_for_def)

lemma same_for_on_wrapper [simp]: "q \<noteq> p \<Longrightarrow> same_for p m (on_wrapper q f m)"
  by (auto simp: same_for_def on_wrapper_def find_set_wrapper Let_def split: option.split prod.split)

lemma same_for_fields [simp]:
  "same_for p m (m\<lparr>disconnected_pids := ds\<rparr>)" "same_for p m (m\<lparr>server_stop_requested := b\<rparr>)" "same_for p m (m\<lparr>connection_timeout := t\<rparr>)"
  "same_for p m (m\<lparr>session_finishing := f\<rparr>)" "same_for p m (m\<lparr>work_queue := q\<rparr>)"
  "r \<noteq> p \<Longrightarrow> same_for p m (set_wrapper r w m)" "r \<noteq> p \<Longrightarrow> same_for p m (extract_session r m)"
  "same_for p m (EnqueueTickWhileLocked r m)" "r \<noteq> p \<Longrightarrow> same_for p m (m\<lparr>notified := notified m @ [r]\<rparr>)"
  by (simp_all add: same_for_def find_set_wrapper find_extract)

lemma same_for_client:
  assumes "q \<noteq> p" "find_wrapper p m = Some w"
  shows "same_for p m (disconnect_callback q m)" "same_for p m (MessageCallback factory c message q m)"
proof -
  show "same_for p m (disconnect_callback q m)"
    unfolding disconnect_callback_def Let_def using assms(1) by (intro same_for_trans [OF _ same_for_on_wrapper]) simp_all
  have new: "same_for p m (on_wrapper q f (m\<lparr>pid_session_map := pid_session_map m @ [(q, v)]\<rparr>))" for f v
    using assms by (intro same_for_trans [OF _ same_for_on_wrapper]) (simp_all add: same_for_def find_wrapper_def)
  show "same_for p m (MessageCallback factory c message q m)"
    using assms(1) new by (auto simp: MessageCallback_def OnConnectRequest_def Server_OnAcquireResponse_def Let_def split: list.split option.split)
qed

lemma same_for_visit: "q \<noteq> p \<Longrightarrow> same_for p m (visit_session now q m)"
  by (auto simp: visit_session_def Let_def split: option.split intro: same_for_trans [OF _ same_for_on_wrapper])

lemma same_for_Notify: "q \<noteq> p \<Longrightarrow> same_for p m (snd (NotifyAcquireRequest ret now q m))"
  by (auto simp: NotifyAcquireRequest_def split: option.split NotifyResult.split intro: same_for_trans [OF same_for_fields(9) same_for_fields(6)])

lemma same_for_tick: "q \<noteq> p \<Longrightarrow> same_for p m (snd (TickAtWorkerThread world q m))"
proof -
  assume q: "q \<noteq> p"
  obtain env sd ret now where world: "world = (env, sd, ret, now)" by (cases world)
  note notify = same_for_Notify [OF q, of m ret now]
  show ?thesis
    using q notify by (auto simp: TickAtWorkerThread_def world Let_def split: option.split prod.splits intro: same_for_trans [OF _ same_for_on_wrapper])
qed

text \<open>A session that waits for an answer, with no deadline running.\<close>

definition waiting_session :: "('d, 'h, 'g) SourceSession \<Rightarrow> bool" where
  "waiting_session s \<longleftrightarrow> acquire_requested (command_data s) \<and> data_acquired (command_data s) = None \<and>
     \<not> command_detach_on_closed (command_data s) \<and> \<not> detach_on_closed_processed (local_subscriber_data s)"

definition unwatched :: "u32 \<Rightarrow> ('d, 'h, 'g) SessionWrapper \<Rightarrow> bool" where
  "unwatched k w \<longleftrightarrow> \<not> to_delete w \<and> \<not> acquire_in_flight w \<and> acquire_miss_count w = k \<and> waiting_session (wrapped w)"

lemma Tick_waiting:
  assumes "waiting_session s" "Tick env sd s = (requeue, asked, s')"
  shows "waiting_session s' \<and> \<not> asked"
proof -
  obtain fin evs rest r where reads: "tick_reads sd s = (fin, evs, rest, r)" by (cases "tick_reads sd s")
  have open': "\<not> detach_on_closed_processed (local_subscriber_data s)" using assms(1) by (simp add: waiting_session_def)
  have "\<not> fin" using assms(1) reads by (auto simp: waiting_session_def tick_reads_def TryFinalizeAcquisition_def split: prod.splits if_splits)
  moreover note t = Tick_live [OF open' reads assms(2)]
  have "\<not> asked" using t(9) assms(1) by (auto simp: waiting_session_def)
  ultimately show ?thesis using assms(1) unfolding waiting_session_def t(3,5,6,8) by simp
qed

definition unanswered :: "pid \<Rightarrow> nat \<Rightarrow> u32 \<Rightarrow> ('d, 'h, 'g) MessagePassingServer \<times> phase \<Rightarrow> bool" where
  "unanswered p n k = (\<lambda>(m, ph). mp_ok (m, ph) \<and> count_list (notified m) p = n \<and> (\<exists>w. find_wrapper p m = Some w \<and> unwatched k w))"

lemma unanswered_same:
  assumes "unanswered p n k (m, ph)" "same_for p m m'" "mp_ok (m', ph')"
  shows "unanswered p n k (m', ph')"
  using assms by (simp add: unanswered_def same_for_def)

lemma unanswered_on_wrapper:
  assumes "unanswered p n k (m, ph)" "\<And>w push w'. unwatched k w \<Longrightarrow> f w = (push, w') \<Longrightarrow> unwatched k w'" "mp_ok (on_wrapper p f m, ph')"
  shows "unanswered p n k (on_wrapper p f m, ph')"
proof -
  obtain w where w: "find_wrapper p m = Some w" "unwatched k w" using assms(1) by (auto simp: unanswered_def)
  obtain push w' where f: "f w = (push, w')" by (cases "f w")
  show ?thesis
    using assms(1,3) on_wrapper_eq [where f = f, OF w(1) f] assms(2) [OF w(2) f] by (simp add: unanswered_def)
qed

lemma unanswered_visit:
  assumes "unanswered p n k (m, ph)"
  shows "unanswered p n k (visit_session now q m, ph)"
proof -
  have ok: "mp_ok (visit_session now q m, ph)" using assms mp_ok_visit by (auto simp: unanswered_def)
  show ?thesis
  proof (cases "q = p")
    case True
    obtain w where w: "find_wrapper p m = Some w" "unwatched k w" using assms by (auto simp: unanswered_def)
    then have "visit_session now q m = on_wrapper p Wrapper_EnqueueTickWhileLocked m"
      by (simp add: visit_session_def True unwatched_def waiting_session_def IsSourceClosed_def)
    moreover have "unanswered p n k (on_wrapper p Wrapper_EnqueueTickWhileLocked m, ph)"
      using ok calculation by (intro unanswered_on_wrapper [OF assms])
        (auto simp: Wrapper_EnqueueTickWhileLocked_def unwatched_def split: if_splits)
    ultimately show ?thesis by simp
  next
    case False
    then show ?thesis using unanswered_same [OF assms same_for_visit ok] by simp
  qed
qed

lemma unanswered_tick:
  assumes "unanswered p n k (m, ph)"
  shows "unanswered p n k (snd (TickAtWorkerThread world q m), ph)"
proof -
  have ok: "mp_ok (snd (TickAtWorkerThread world q m), ph)" using assms mp_ok_TickAtWorkerThread [of m ph world q] by (simp add: unanswered_def)
  show ?thesis
  proof (cases "q = p")
    case True
    obtain w where w: "find_wrapper p m = Some w" "unwatched k w" using assms by (auto simp: unanswered_def)
    obtain env sd ret now where world: "world = (env, sd, ret, now)" by (cases world)
    obtain a m' where nt: "NotifyAcquireRequest ret now p m = (a, m')" by (cases "NotifyAcquireRequest ret now p m")
    obtain requeue asked s' where t: "Tick (env\<lparr>acquire_request := a\<rparr>) sd (wrapped w) = (requeue, asked, s')"
      by (cases "Tick (env\<lparr>acquire_request := a\<rparr>) sd (wrapped w)")
    have s': "waiting_session s' \<and> \<not> asked" using Tick_waiting [OF _ t] w(2) by (simp add: unwatched_def)
    then have "snd (TickAtWorkerThread world q m) = on_wrapper p (\<lambda>w. (False, w\<lparr>wrapped := s'\<rparr>)) m"
      using w nt t by (simp add: TickAtWorkerThread_def world True)
    moreover have "unanswered p n k (on_wrapper p (\<lambda>w. (False, w\<lparr>wrapped := s'\<rparr>)) m, ph)"
      using ok calculation s' by (intro unanswered_on_wrapper [OF assms]) (auto simp: unwatched_def)
    ultimately show ?thesis by simp
  next
    case False
    then show ?thesis using unanswered_same [OF assms same_for_tick ok] by simp
  qed
qed

lemma unanswered_finish:
  assumes "unanswered p n k (m, Ticked q by_peer requeue)" "worker_finishes worlds q by_peer requeue m = Some m'"
  shows "unanswered p n k (m', Waiting)"
proof -
  have ok: "mp_ok (m, Ticked q by_peer requeue)" using assms(1) by (simp add: unanswered_def)
  have ok': "mp_ok (m', Waiting)" using mp_ok_finishes [OF ok assms(2)] .
  obtain w where w: "find_wrapper p m = Some w" "unwatched k w" using assms(1) by (auto simp: unanswered_def)
  show ?thesis
  proof (cases "q = p")
    case True
    have "\<not> to_delete w" "\<not> to_force_finish w" using w ok by (auto simp: unwatched_def mp_ok_def wrapper_ok_def)
    then have "m' = on_wrapper p (ResetRunningWhileLocked requeue) m"
      using assms(2) w(1) by (auto simp: worker_finishes_def True on_wrapper_def ResetRunningWhileLocked_def Let_def split: if_splits)
    moreover have "unanswered p n k (on_wrapper p (ResetRunningWhileLocked requeue) m, Waiting)"
      using ok' calculation by (intro unanswered_on_wrapper [OF assms(1)])
        (auto simp: ResetRunningWhileLocked_def unwatched_def Let_def split: if_splits)
    ultimately show ?thesis by simp
  next
    case False
    have ext: "same_for p x ((extract_session q x)\<lparr>session_finishing := b\<rparr>)" for x b
      using False by (intro same_for_trans [OF same_for_fields(7) same_for_fields(4)])
    have notify: "same_for p m (NotifyClosedByPeer q m)" using False by (simp add: NotifyClosedByPeer_def)
    note tick = same_for_tick [OF False, of _ "worlds 0"]
    note forced = same_for_trans [OF same_for_trans [OF notify tick] ext] same_for_trans [OF tick [of m] ext] ext [of m]
    have "same_for p m m'"
      using assms(2) False forced
      by (auto simp: worker_finishes_def finish_ticks_once Let_def split: option.splits if_splits prod.splits
          intro: same_for_trans [OF _ same_for_fields(7)] same_for_trans [OF _ same_for_fields(8)])
    from unanswered_same [OF assms(1) this ok'] show ?thesis .
  qed
qed

lemma unanswered_step:
  assumes "mp_step factory t st st'" "t \<noteq> Client p" "unanswered p n k st"
  shows "unanswered p n k st'"
proof -
  have ok: "mp_ok st'" using mp_ok_step [OF assms(1)] assms(3) by (cases st) (simp add: unanswered_def)
  show ?thesis
    using assms ok
  proof (induction rule: mp_step.induct)
    case (connects q m ph)
    then show ?case using unanswered_same [of p n k m ph "connect_callback q m" ph] by (simp add: connect_callback_def)
  next
    case (disconnects q m ph)
    then show ?case using unanswered_same [OF disconnects(2) same_for_client(1)] by (auto simp: unanswered_def)
  next
    case (sends q m ph c message)
    then show ?case using unanswered_same [OF sends(2) same_for_client(2)] by (auto simp: unanswered_def)
  next
    case (wakes m now t1)
    have "unanswered p n k (x, Waiting) \<Longrightarrow> unanswered p n k (fold (visit_session now) ps x, Waiting)"
      for ps and x :: "('a, 'b, 'c) MessagePassingServer"
      by (induction ps arbitrary: x) (simp_all add: unanswered_visit)
    moreover have "unanswered p n k (m\<lparr>connection_timeout := a, server_stop_requested := b\<rparr>, Waiting)" for a b
      using wakes by (simp add: unanswered_def)
    ultimately show ?case using wakes by (simp add: worker_wakes_def Let_def)
  next
    case (takes m q by_peer m')
    then obtain rest v where q: "work_queue m = q # rest" "find_wrapper q m = Some v"
      "m' = set_wrapper q (v\<lparr>enqueued := False, running := True, closed_by_peer := False\<rparr>) (m\<lparr>work_queue := rest\<rparr>)"
      by (auto simp: worker_takes_def GetResetClosedByPeer_def SetRunningWhileLocked_def Let_def split: list.splits option.splits)
    with takes show ?case by (auto simp: unanswered_def find_set_wrapper unwatched_def)
  next
    case (ticks world q by_peer m requeue m')
    have other: "q \<noteq> p" if by_peer
      using ticks(3) that by (auto simp: unanswered_def mp_ok_def wrapper_ok_def unwatched_def)
    have closed: "mp_ok (NotifyClosedByPeer q m, Taken q by_peer)"
      using ticks(3) mp_ok_wrapped [of m "Taken q by_peer" q] by (simp add: unanswered_def NotifyClosedByPeer_def)
    have "unanswered p n k (if by_peer then NotifyClosedByPeer q m else m, Taken q by_peer)"
    proof (cases by_peer)
      case True
      have "same_for p m (NotifyClosedByPeer q m)" using other [OF True] by (simp add: NotifyClosedByPeer_def)
      from unanswered_same [OF ticks(3) this closed] True show ?thesis by simp
    qed (use ticks(3) in simp)
    from unanswered_tick [OF this, of world q] have "unanswered p n k (m', Taken q by_peer)"
      using ticks(1) by (simp add: worker_ticks_def Let_def)
    with ticks(4) show ?case by (simp add: unanswered_def)
  next
    case (finishes worlds q by_peer requeue m m')
    then show ?case using unanswered_finish by blast
  qed
qed

text \<open>C27: A request that is lost is never repeated. When the deadline of a request passes, the server
  counts a miss and takes the request for settled, but the session still waits for the
  answer: whatever happens afterwards, short of a message or the end of the connection
  from that process, the session stays, no further request is sent to the process and the
  count stays at that miss. So the limit of misses, where it is more than one, is never
  reached and the watchdog never removes the session.\<close>

theorem missed_deadline_stalls_session:
  assumes "mp_run factory0 (\<lambda>_. True) (NewMessagePassingServer deadline misses, Waiting) (m, Waiting)"
    and "find_wrapper p m = Some w" "\<not> to_delete w" "acquire_in_flight w" "acquire_deadline w = Some t" "t \<le> now"
    and "acquire_miss_count w + 1 < max_misses m"
    and "acquire_requested (command_data (wrapped w))" "data_acquired (command_data (wrapped w)) = None"
      "\<not> command_detach_on_closed (command_data (wrapped w))" "\<not> IsSourceClosed (wrapped w)"
    and "mp_run factory (\<lambda>t. t \<noteq> Client p) (visit_session now p m, Waiting) (m', ph')"
  shows "\<exists>w'. find_wrapper p m' = Some w' \<and> \<not> to_delete w' \<and> acquire_miss_count w' = acquire_miss_count w + 1 \<and>
    \<not> acquire_in_flight w' \<and> acquire_requested (command_data (wrapped w')) \<and>
    count_list (notified m') p = count_list (notified m) p"
proof -
  let ?w = "w\<lparr>acquire_in_flight := False, acquire_miss_count := acquire_miss_count w + 1, acquire_deadline := None\<rparr>"
  have ok: "mp_ok (m, Waiting)" using mp_ok_run [OF assms(1) mp_ok_new] .
  have visit: "visit_session now p m = on_wrapper p Wrapper_EnqueueTickWhileLocked (set_wrapper p ?w m)"
    using assms(2,4-7,11) by (simp add: visit_session_def Let_def)
  obtain push w' where e: "Wrapper_EnqueueTickWhileLocked ?w = (push, w')" by (cases "Wrapper_EnqueueTickWhileLocked ?w")
  have find: "find_wrapper p (set_wrapper p ?w m) = Some ?w" using assms(2) by (simp add: find_set_wrapper)
  have "unwatched (acquire_miss_count w + 1) w'"
    using e assms(3,8-11) by (auto simp: Wrapper_EnqueueTickWhileLocked_def unwatched_def waiting_session_def IsSourceClosed_def split: if_splits)
  then have start: "unanswered p (count_list (notified m) p) (acquire_miss_count w + 1) (visit_session now p m, Waiting)"
    using mp_ok_visit [OF ok, of now p] on_wrapper_eq [where f = Wrapper_EnqueueTickWhileLocked, OF find e]
    by (simp add: unanswered_def visit)
  have "unanswered p n k st \<Longrightarrow> mp_run factory (\<lambda>t. t \<noteq> Client p) st st' \<Longrightarrow> unanswered p n k st'" for n k st st'
    by (rotate_tac, induction rule: mp_run.induct) (auto intro: unanswered_step)
  from this [OF start assms(12)] show ?thesis by (auto simp: unanswered_def unwatched_def waiting_session_def)
qed

text \<open>The process of the example has been asked for its buffer.\<close>

lemma example_mp_asked:
  obtains m w where "mp_run example_factory (\<lambda>_. True) (NewMessagePassingServer 1000 3, Waiting) (m, Waiting)"
    "find_wrapper 7 m = Some w" "\<not> to_delete w" "acquire_in_flight w" "acquire_deadline w = Some 1000" "acquire_miss_count w = 0"
    "max_misses m = 3" "waiting_session (wrapped w)" "count_list (notified m) 7 = 1"
proof -
  let ?world = "(example_tick_env, example_buffer, NotifySent, 0)"
  let ?w0 = "(NewSessionWrapper example_session)\<lparr>connection := Some 1\<rparr>"
  let ?m1 = "(NewMessagePassingServer 1000 3)\<lparr>pid_session_map := [(7, ?w0\<lparr>running := True\<rparr>)]\<rparr>"
  have takes: "worker_takes example_mp = Took 7 False ?m1"
    by (simp add: worker_takes_def example_mp_eq find_wrapper_def GetResetClosedByPeer_def SetRunningWhileLocked_def NewSessionWrapper_def set_wrapper_def
        NewMessagePassingServer_def)
  obtain rq asked s' where t: "Tick (example_tick_env\<lparr>acquire_request := True\<rparr>) example_buffer example_session = (rq, asked, s')"
    by (cases "Tick (example_tick_env\<lparr>acquire_request := True\<rparr>) example_buffer example_session")
  have poll: "polling example_session" by (simp add: polling_def example_session_def NewSourceSession_def)
  have asked: asked using Tick_polling(1) [OF poll t] by (simp add: must_ask_def example_session_def NewSourceSession_def)
  obtain fin evs rest r where reads: "tick_reads example_buffer example_session = (fin, evs, rest, r)"
    by (cases "tick_reads example_buffer example_session")
  have fin: "\<not> fin" using poll reads by (auto simp: polling_def tick_reads_def TryFinalizeAcquisition_def split: prod.splits if_splits)
  have "\<not> detach_on_closed_processed (local_subscriber_data example_session)" using poll by (simp add: polling_def)
  note live = Tick_live [OF this reads t]
  have s': "waiting_session s'" using poll fin asked unfolding waiting_session_def polling_def live(3,5,6,8) by simp
  let ?w2 = "?w0\<lparr>wrapped := s', running := True, acquire_in_flight := True, acquire_deadline := Some 1000\<rparr>"
  let ?m2 = "(NewMessagePassingServer 1000 3)\<lparr>pid_session_map := [(7, ?w2)], notified := [7]\<rparr>"
  have ticks: "worker_ticks ?world 7 False ?m1 = (False, ?m2)"
    using t asked live(13) by (simp add: worker_ticks_def TickAtWorkerThread_def find_wrapper_def NotifyAcquireRequest_def NewSessionWrapper_def
        on_wrapper_def set_wrapper_def NewMessagePassingServer_def Let_def)
  let ?m3 = "(NewMessagePassingServer 1000 3)\<lparr>pid_session_map := [(7, ?w2\<lparr>running := False\<rparr>)], notified := [7]\<rparr>"
  have fins: "worker_finishes (\<lambda>_. ?world) 7 False False ?m2 = Some ?m3"
    by (simp add: worker_finishes_def find_wrapper_def NewSessionWrapper_def ResetRunningWhileLocked_def set_wrapper_def NewMessagePassingServer_def Let_def)
  have "mp_run example_factory (\<lambda>_. True) (NewMessagePassingServer 1000 3, Waiting) (?m3, Waiting)"
    by (rule mp_next [OF mp_next [OF mp_next [OF example_mp_run TrueI mp_step.takes [OF takes]] TrueI mp_step.ticks [OF ticks]]
          TrueI mp_step.finishes [OF fins]])
  then show thesis
    by (rule that [where w = "?w2\<lparr>running := False\<rparr>"]) (simp_all add: find_wrapper_def NewSessionWrapper_def NewMessagePassingServer_def s')
qed

theorem missed_deadline_stalls_session_witness:
  "\<exists>m w'. mp_run example_factory (\<lambda>_. True) (NewMessagePassingServer 1000 3, Waiting) (m, Waiting) \<and>
     find_wrapper 7 (visit_session 2000 7 m) = Some w' \<and> acquire_miss_count w' = 1 \<and> \<not> acquire_in_flight w' \<and>
     acquire_requested (command_data (wrapped w')) \<and> count_list (notified (visit_session 2000 7 m)) 7 = 1"
proof -
  obtain m w where m: "mp_run example_factory (\<lambda>_. True) (NewMessagePassingServer 1000 3, Waiting) (m, Waiting)"
    "find_wrapper 7 m = Some w" "\<not> to_delete w" "acquire_in_flight w" "acquire_deadline w = Some 1000" "acquire_miss_count w = 0"
    "max_misses m = 3" "waiting_session (wrapped w)" "count_list (notified m) 7 = 1" by (rule example_mp_asked)
  have "acquire_miss_count w + 1 < max_misses m" using m(6,7) by simp
  from missed_deadline_stalls_session [where now = 2000 and factory = example_factory, OF m(1-5) _ this _ _ _ _ mp_start]
  show ?thesis using m by (auto simp: waiting_session_def IsSourceClosed_def)
qed

end
