(* ===== verification/Spec2Isabelle.thy ===== *)
theory Spec2Isabelle
  imports LinearConcurrent Factories DltFormat MessageBuilder ConfigProperties RouterMain RecorderProperties PassingProperties
begin

text \<open>
  Verification of the logging module: the library \<^verbatim>\<open>score/mw/log\<close> of the processes that log, and
  the daemon \<^verbatim>\<open>score/datarouter\<close> that collects their messages and sends them as DLT messages.
  Paths are below \<^verbatim>\<open>src/score\<close>; definitions have the names of the functions, methods and types
  they translate.

  \<^bold>\<open>The program\<close>

  A process logs through a recorder. It formats the arguments of a record into a slot and hands
  the finished entry to a backend: the text backends, the file recorder's message builder, or the
  backend of the data router, which traces the entry as a typed value into two alternating linear
  buffers in shared memory. Any thread writes there without a lock; a type is registered with the
  data router the first time a value of it is traced. The data router has a session for each
  process: on its ticks it asks the process, over a message passing channel, to switch the
  buffers, and then reads the block that was handed over. A parser learns the registrations and
  calls the handlers of each record's type; they turn log entries into messages, which the log
  server filters and routes to channels; a channel batches them into datagrams, which the main
  loop flushes. Diagnostic clients send commands over a Unix domain socket to change and store
  the log server's configuration, which starts from a JSON file. Requests to transfer a file
  arrive as traced values and are served package by package.

  \<^bold>\<open>Theories and sources\<close>

  \<^item> \<open>Prelude\<close>: words, their bytes in memory, spans, loops, and the contract of a codec of fixed
    length (locale \<open>fixed_codec\<close>), with the instances for the integers.
  \<^item> \<open>LinearBuffer\<close>, \<open>LinearConcurrent\<close>, \<open>AlternatingBuffer\<close>
    (\<^verbatim>\<open>mw/log/detail/wait_free_producer_queue\<close>): control blocks, \<^verbatim>\<open>Acquire\<close>, \<^verbatim>\<open>Release\<close>, reading and
    switching, as functions on the control block. \<open>LinearConcurrent\<close> cuts the writer at each
    access to shared memory (\<open>wstep\<close>) and interleaves any number of threads. The locale
    \<open>record_log\<close> is the contract of something to which records are appended, with the linear and
    the alternating buffer as instances.
  \<^item> \<open>SharedMemory\<close>, \<open>Factories\<close> (\<^verbatim>\<open>mw/log/detail/data_router/shared_memory\<close>): the ring buffer with
    its drop counters and registrations, the reader, and the creation and opening of the file.
  \<^item> \<open>Tracing\<close> (\<^verbatim>\<open>mw/log/legacy_non_verbose_api\<close>): loggers, the entry of a type and its
    registration, and the levels.
  \<^item> \<open>Recorder\<close>, \<open>RecorderProperties\<close> (\<^verbatim>\<open>mw/log/detail\<close>: recorders, statistics, backends): the
    contract of a backend is the locale \<open>slot_backend\<close>, with the router, slog and syslog backends
    as instances.
  \<^item> \<open>DltFormat\<close> (\<^verbatim>\<open>mw/log/detail/common/dlt_format.cpp\<close>), \<open>MessageBuilder\<close>
    (\<^verbatim>\<open>mw/log/detail/file_recorder\<close>), \<open>DltHeaders\<close> (\<^verbatim>\<open>datarouter/include/dlt\<close>): payloads and headers
    byte by byte.
  \<^item> \<open>MessageClient\<close> (\<^verbatim>\<open>mw/log/detail/data_router/data_router_message_client_impl.cpp\<close>): the messages
    between a process and the data router, and the process's side of the connection.
  \<^item> \<open>LogParser\<close> (\<^verbatim>\<open>datarouter/src/logparser\<close>), \<open>SourceSession\<close> and \<open>SessionProperties\<close>
    (\<^verbatim>\<open>datarouter/datarouter/data_router.cpp\<close>): the parser and the session.
  \<^item> \<open>Pipeline\<close>, \<open>TracedPipeline\<close>: a process and its session as one system, whose steps are logging
    calls, switches, requests, answers and ticks in any order.
  \<^item> \<open>PassingServer\<close>, \<open>PassingProperties\<close> (\<^verbatim>\<open>datarouter/src/daemon/message_passing_server.cpp\<close>): the
    callbacks and the worker as the sections under the mutex, interleaved; the locale
    \<open>ticked_session\<close> is what the worker needs of a session, with \<open>SourceSession\<close> as the instance.
  \<^item> \<open>DltChannel\<close>, \<open>DltLogServer\<close>, \<open>DiagnosticJobs\<close>, \<open>ServerProperties\<close>, \<open>ServerPersistence\<close>
    (\<^verbatim>\<open>datarouter/include/daemon/dlt_log_channel.h\<close>, \<^verbatim>\<open>dlt_log_server.h\<close>, \<^verbatim>\<open>datarouter/src/daemon\<close>): channels,
    routing, commands, and what is stored.
  \<^item> \<open>ConfigFile\<close>, \<open>ConfigProperties\<close> (\<^verbatim>\<open>datarouter/src/daemon/socketserver_config.cpp\<close>,
    \<^verbatim>\<open>persistentlogging_config.cpp\<close>): the readers and the writer of the configuration over a JSON tree.
  \<^item> \<open>FileTransfer\<close> (\<^verbatim>\<open>datarouter/include/dlt/dlt_protocol.h\<close>, \<^verbatim>\<open>datarouter/src/file_transfer\<close>).
  \<^item> \<open>UnixSocket\<close>, \<open>UnixServer\<close>, \<open>UnixProperties\<close>, \<open>ConfigServer\<close> (\<^verbatim>\<open>datarouter/src/unix_domain\<close>,
    \<^verbatim>\<open>datarouter/src/configuration\<close>): messages over a socket, the server of the configuration
    sessions, and these sessions. The locales \<open>finite_session\<close>, \<open>quiet_session\<close> and
    \<open>owning_session\<close> are what the server needs of its sessions, with the session of the log
    server as the instance.
  \<^item> \<open>RouterMain\<close> (\<^verbatim>\<open>datarouter/src/daemon/socketserver.cpp\<close>, \<^verbatim>\<open>verbose_dlt.cpp\<close>,
    \<^verbatim>\<open>datarouter/src/dlt\<close>): the handlers, the creation of server, parser and session, the main loop.

  \<^bold>\<open>What is shown\<close>

  \<^item> Buffers: under every interleaving spans do not overlap, counters are exact sums and do not
    wrap, a call ends after a bounded number of its own steps, every reachable state can be brought
    to a released block, and a released block reads as the committed records. The sequential
    functions, on which everything above rests, are what a call without interference computes.
  \<^item> Process to data router: what is kept in the buffers is handed to the handlers exactly once
    and in order, for any order of steps; values reach the handlers of their type; the writer
    refines a bounded log with exact drop counters. The case in which a block is lost is exhibited.
  \<^item> To the network: \<open>RouterMain\<close> composes tracing, session, parser, handlers, routing, channels
    and main loop: each channel has sent exactly the messages the configuration assigns to it.
  \<^item> Formats: payloads, packages and messages parse back; what length fields cannot hold is stated
    exactly; the two header encoders agree.
  \<^item> Log server: an invariant of every reachable server, the exact destinations of a message,
    commands that fail change nothing, and the configuration from file to restart and reset.
  \<^item> Servers: the queues of both servers, the end of sessions, the ledger of file descriptors. An
    iteration of the configuration server is a dispatcher when the readable connections deliver,
    and otherwise waits or is undefined, as the first that does not deliver decides.

  \<^bold>\<open>Conventions and bounds\<close>

  \<^item> Machine integers are words where wrapping matters. A call that may fail has an option or sum
    type; undefined behaviour is a value of its own (\<open>None\<close>, \<open>UndefinedResponse\<close>, \<open>Undefined\<close>). The
    exception is \<open>load_dlt\<close>, which takes a stored document \<open>ReadDlt\<close> has no defined result for as
    no configuration; what \<open>WriteDlt\<close> writes is never such a document.
  \<^item> Loops without a structural measure (\<open>ProcessQueue\<close>, \<open>finish_ticks\<close>) are partial functions into
    options, in which \<open>None\<close> means that the loop does not end; that they return is proved. The main
    thread of the configuration server takes the list of its iterations as an argument, in place of
    fuel: it runs until the list or the server ends.
  \<^item> Outside the repository, and parameters with the laws they need as named hypotheses: the
    serialisation library (\<open>TypeTraits\<close>, \<open>traits_ok\<close>, \<open>decode\<close>), the JSON library and the persistent
    dictionary (\<open>json_ok\<close>, \<open>dictionary_ok\<close>), the allocator of slots, the message passing library, and
    the answers of the operating system. A concrete instance satisfies each in the witnesses.
  \<^item> Accesses to atomics are sequentially consistent steps. Above \<open>LinearConcurrent\<close> a logging call is
    one step. The sections under a mutex are steps. The handlers of the message client run one
    after the other, except for \<^verbatim>\<open>UnlinkSharedMemoryFile\<close>, whose check and set of a plain flag are
    separate steps in \<open>unlink_step\<close>.
  \<^item> The target is little-endian with 64-bit words and the build that of the default features, with
    the session of a build without dynamic configuration beside it.

  \<^bold>\<open>What is not modelled\<close>

  The thread of \<^verbatim>\<open>unix_domain_client.cpp\<close>, network output, priorities, signals and the command line
  are calls of the operating system; registrations and factories of the backends and the Rust
  bridge are glue around modelled operations; \<^verbatim>\<open>DoWork\<close> only calls what \<open>RouterMain\<close> defines. Texts
  that are printed, weaker memory orders, and time beyond the clock values given to the operations
  are left out.
\<close>

end
